(* ===== verification/Prelude.thy ===== *)
theory Prelude
  imports Main "HOL-Library.AList" "HOL-Library.Word"
begin

text \<open>
  Shared vocabulary of the development.

  \<^item> Results: a fallible operation returns \<open>'e + 'a\<close>, \<open>Inl\<close> for what the TypeScript throws,
    \<open>Inr\<close> for what it returns; \<open>bindE\<close>, \<open>requireE\<close>, \<open>mapE\<close> and \<open>foldE\<close> sequence such
    operations the way statements, guards, \<open>map\<close> callbacks and \<open>for\<close> loops that may throw do.
  \<^item> A JavaScript \<open>Map\<close> is an association list in insertion order: \<open>AList.update\<close> overwrites
    a present key in place and appends an absent one, exactly as \<open>Map.prototype.set\<close> does, and
    \<open>AList.delete\<close> is \<open>Map.prototype.delete\<close>. The laws clients use are the locale
    \<open>keyed_store\<close>.
  \<^item> A JavaScript string is a \<open>string\<close> whose characters are UTF-16 code units below 256
    (ISO Latin-1); the string functions below are exact on that range.
\<close>

named_theorems result_simps "characterisations of successful and failing result computations"
named_theorems wf_intros "preservation of well-formedness by one operation"

section \<open>Results\<close>

definition bindE :: "'e + 'a \<Rightarrow> ('a \<Rightarrow> 'e + 'b) \<Rightarrow> 'e + 'b" where
  "bindE m f = (case m of Inl e \<Rightarrow> Inl e | Inr x \<Rightarrow> f x)"

definition requireE :: "bool \<Rightarrow> 'e \<Rightarrow> 'e + unit" where
  "requireE b e = (if b then Inr () else Inl e)"

lemma bindE_Inl [simp]: "bindE (Inl e) f = Inl e"
  by (simp add: bindE_def)

lemma bindE_Inr [simp]: "bindE (Inr x) f = f x"
  by (simp add: bindE_def)

lemma bindE_eq_Inr [result_simps]: "bindE m f = Inr y \<longleftrightarrow> (\<exists>x. m = Inr x \<and> f x = Inr y)"
  by (cases m) auto

lemma bindE_eq_Inl [result_simps]:
  "bindE m f = Inl e \<longleftrightarrow> m = Inl e \<or> (\<exists>x. m = Inr x \<and> f x = Inl e)"
  by (cases m) auto

lemma bindE_cong [fundef_cong]:
  "m = m' \<Longrightarrow> (\<And>x. m' = Inr x \<Longrightarrow> f x = g x) \<Longrightarrow> bindE m f = bindE m' g"
  by (cases m') auto

lemma requireE_eq_Inr [result_simps]: "requireE b e = Inr u \<longleftrightarrow> b"
  by (simp add: requireE_def)

lemma requireE_eq_Inl [result_simps]: "requireE b e = Inl e' \<longleftrightarrow> \<not> b \<and> e' = e"
  by (auto simp: requireE_def)

lemma requireE_simps [simp]: "requireE True e = Inr ()" "requireE False e = Inl e"
  by (simp_all add: requireE_def)

fun mapE :: "('a \<Rightarrow> 'e + 'b) \<Rightarrow> 'a list \<Rightarrow> 'e + 'b list" where
  "mapE f [] = Inr []"
| "mapE f (x # xs) = bindE (f x) (\<lambda>y. bindE (mapE f xs) (\<lambda>ys. Inr (y # ys)))"

fun foldE :: "('s \<Rightarrow> 'a \<Rightarrow> 'e + 's) \<Rightarrow> 's \<Rightarrow> 'a list \<Rightarrow> 'e + 's" where
  "foldE f s [] = Inr s"
| "foldE f s (x # xs) = bindE (f s x) (\<lambda>s'. foldE f s' xs)"

lemma mapE_eq_Inr: "mapE f xs = Inr ys \<longleftrightarrow> list_all2 (\<lambda>x y. f x = Inr y) xs ys"
  by (induction xs arbitrary: ys) (auto simp: result_simps list_all2_Cons1)

lemma mapE_length: "mapE f xs = Inr ys \<Longrightarrow> length ys = length xs"
  by (auto simp: mapE_eq_Inr dest: list_all2_lengthD)

lemma mapE_member: "mapE f xs = Inr ys \<Longrightarrow> x \<in> set xs \<Longrightarrow> \<exists>y \<in> set ys. f x = Inr y"
  by (induction xs arbitrary: ys) (auto simp: result_simps)

lemma mapE_total: "(\<And>x. x \<in> set xs \<Longrightarrow> f x = Inr (g x)) \<Longrightarrow> mapE f xs = Inr (map g xs)"
  by (induction xs) auto

lemma foldE_append: "foldE f s (xs @ ys) = bindE (foldE f s xs) (\<lambda>s'. foldE f s' ys)"
  by (induction xs arbitrary: s) (auto simp: bindE_def split: sum.splits)

lemma foldE_invariant:
  assumes "foldE f s xs = Inr t" and "I s"
    and "\<And>s x s'. x \<in> set xs \<Longrightarrow> I s \<Longrightarrow> f s x = Inr s' \<Longrightarrow> I s'"
  shows "I t"
  using assms by (induction xs arbitrary: s) (auto simp: result_simps)

lemma find_SomeD: "find P xs = Some x \<Longrightarrow> P x \<and> x \<in> set xs"
  by (induction xs) (auto split: if_splits)

section \<open>JavaScript maps\<close>

locale keyed_store =
  fixes get :: "'m \<Rightarrow> 'k \<Rightarrow> 'v option"
    and put :: "'k \<Rightarrow> 'v \<Rightarrow> 'm \<Rightarrow> 'm"
    and del :: "'k \<Rightarrow> 'm \<Rightarrow> 'm"
  assumes get_put: "get (put k v m) k' = (if k' = k then Some v else get m k')"
    and get_del: "get (del k m) k' = (if k' = k then None else get m k')"
begin

lemma get_put_same [simp]: "get (put k v m) k = Some v"
  by (simp add: get_put)

lemma get_put_other: "k' \<noteq> k \<Longrightarrow> get (put k v m) k' = get m k'"
  by (simp add: get_put)

lemma get_del_same [simp]: "get (del k m) k = None"
  by (simp add: get_del)

lemma get_del_other: "k' \<noteq> k \<Longrightarrow> get (del k m) k' = get m k'"
  by (simp add: get_del)

lemma del_put: "get (del k (put k v m)) = get (del k m)"
  by (rule ext) (simp add: get_put get_del)

end

interpretation js_map: keyed_store map_of AList.update AList.delete
  by unfold_locales (simp_all add: update_conv' delete_conv')

lemma alist_update_keys: "k \<in> fst ` set m \<Longrightarrow> map fst (AList.update k v m) = map fst m"
  by (induction m) auto

lemma alist_update_new: "k \<notin> fst ` set m \<Longrightarrow> AList.update k v m = m @ [(k, v)]"
  by (induction m) auto

lemma alist_delete_absent: "k \<notin> fst ` set m \<Longrightarrow> AList.delete k m = m"
  by (induction m) auto

lemma alist_update_member: "(k, v) \<in> set (AList.update k' v' m) \<Longrightarrow> (k, v) \<in> set m \<or> k = k' \<and> v = v'"
  by (induction m) (auto split: if_splits)

section \<open>Numeric counters held in a JavaScript map\<close>

definition counter :: "('k \<times> int) list \<Rightarrow> 'k \<Rightarrow> int" where
  "counter m k = (case map_of m k of None \<Rightarrow> 0 | Some n \<Rightarrow> n)"

lemma counter_update [simp]:
  "counter (AList.update k n m) k' = (if k' = k then n else counter m k')"
  by (simp add: counter_def js_map.get_put)

lemma counter_delete [simp]:
  "counter (AList.delete k m) k' = (if k' = k then 0 else counter m k')"
  by (simp add: counter_def js_map.get_del)

section \<open>Totals over the values of a map\<close>

definition sum_values :: "('v \<Rightarrow> int) \<Rightarrow> ('k \<times> 'v) list \<Rightarrow> int" where
  "sum_values f m = sum_list (map (\<lambda>e. f (snd e)) m)"

lemma sum_values_Nil [simp]: "sum_values f [] = 0"
  by (simp add: sum_values_def)

lemma sum_values_Cons [simp]: "sum_values f (e # m) = f (snd e) + sum_values f m"
  by (simp add: sum_values_def)

lemma sum_values_new [simp]: "map_of m k = None \<Longrightarrow> sum_values f (AList.update k x m) = sum_values f m + f x"
  by (induction m) (auto split: if_splits)

lemma sum_values_update:
  "map_of m k = Some old \<Longrightarrow> sum_values f (AList.update k x m) = sum_values f m - f old + f x"
  by (induction m) (auto split: if_splits)

lemma sum_values_delete:
  "distinct (map fst m) \<Longrightarrow> map_of m k = Some old \<Longrightarrow>
     sum_values f (AList.delete k m) = sum_values f m - f old"
proof (induction m)
  case (Cons e m)
  then show ?case
    by (cases e) (auto simp: alist_delete_absent dest: map_of_SomeD split: if_splits)
qed simp

lemma sum_values_nonneg: "(\<And>k v. (k, v) \<in> set m \<Longrightarrow> 0 \<le> f v) \<Longrightarrow> 0 \<le> sum_values f m"
  by (induction m) (force intro!: add_nonneg_nonneg)+

lemma sum_values_member:
  "(\<And>k v. (k, v) \<in> set m \<Longrightarrow> 0 \<le> f v) \<Longrightarrow> map_of m k = Some v \<Longrightarrow> f v \<le> sum_values f m"
proof (induction m)
  case (Cons e m)
  then show ?case
    using sum_values_nonneg [of m f] by (cases e) (fastforce split: if_splits)
qed simp

section \<open>Strings\<close>

text \<open>\<open>String.prototype.toLowerCase\<close> on Latin-1 code units: \<open>A\<close>--\<open>Z\<close> and the accented capitals
  192--222 except the multiplication sign 215.\<close>

definition js_lower_char :: "char \<Rightarrow> char" where
  "js_lower_char c =
     (let n = of_char c :: nat in
      if (65 \<le> n \<and> n \<le> 90) \<or> (192 \<le> n \<and> n \<le> 222 \<and> n \<noteq> 215) then char_of (n + 32) else c)"

definition js_lower :: "string \<Rightarrow> string" where
  "js_lower s = map js_lower_char s"

text \<open>The white space \<open>String.prototype.trim\<close> removes, within Latin-1.\<close>

definition js_space :: "char \<Rightarrow> bool" where
  "js_space c \<longleftrightarrow> (of_char c :: nat) \<in> {9, 10, 11, 12, 13, 32, 160}"

definition js_trim :: "string \<Rightarrow> string" where
  "js_trim s = rev (dropWhile js_space (rev (dropWhile js_space s)))"

fun starts_with :: "string \<Rightarrow> string \<Rightarrow> bool" where
  "starts_with s [] = True"
| "starts_with [] (p # ps) = False"
| "starts_with (c # s) (p # ps) = (c = p \<and> starts_with s ps)"

definition ends_with :: "string \<Rightarrow> string \<Rightarrow> bool" where
  "ends_with s p = starts_with (rev s) (rev p)"

lemma starts_with_iff: "starts_with s p \<longleftrightarrow> (\<exists>r. s = p @ r)"
  by (induction s p rule: starts_with.induct) auto

text \<open>\<open>s.split(c)\<close> for a one-character separator: never empty.\<close>

fun split_on :: "char \<Rightarrow> string \<Rightarrow> string list" where
  "split_on c [] = [[]]"
| "split_on c (x # xs) =
     (if x = c then [] # split_on c xs
      else (case split_on c xs of [] \<Rightarrow> [[x]] | y # ys \<Rightarrow> (x # y) # ys))"

text \<open>\<open>xs.join(sep)\<close>.\<close>

fun join_with :: "string \<Rightarrow> string list \<Rightarrow> string" where
  "join_with sep [] = []"
| "join_with sep [x] = x"
| "join_with sep (x # y # ys) = x @ sep @ join_with sep (y # ys)"

lemma split_on_nonempty [simp]: "split_on c s \<noteq> []"
  by (induction s) (auto split: list.splits)

lemma join_split: "join_with [c] (split_on c s) = s"
proof (induction s)
  case Nil
  then show ?case by simp
next
  case (Cons x s)
  obtain y ys where "split_on c s = y # ys" by (cases "split_on c s") auto
  with Cons show ?case by (cases ys) auto
qed

text \<open>\<open>s.indexOf(p)\<close>, with \<open>None\<close> for \<open>-1\<close>.\<close>

fun index_of :: "string \<Rightarrow> string \<Rightarrow> nat option" where
  "index_of p [] = (if p = [] then Some 0 else None)"
| "index_of p (c # s) = (if starts_with (c # s) p then Some 0 else map_option Suc (index_of p s))"

lemma index_of_Some:
  "index_of p s = Some n \<Longrightarrow> n \<le> length s \<and> starts_with (drop n s) p"
proof (induction s arbitrary: n)
  case Nil
  then show ?case by (auto split: if_splits)
next
  case (Cons c s)
  then show ?case by (auto split: if_splits)
qed

lemma index_of_None: "index_of p s = None \<Longrightarrow> n \<le> length s \<Longrightarrow> \<not> starts_with (drop n s) p"
proof (induction s arbitrary: n)
  case Nil
  then show ?case by (cases p) (auto split: if_splits)
next
  case (Cons c s)
  then show ?case by (cases n) (auto split: if_splits)
qed

lemma index_of_least:
  "index_of p s = Some n \<Longrightarrow> m < n \<Longrightarrow> \<not> starts_with (drop m s) p"
proof (induction s arbitrary: n m)
  case Nil
  then show ?case by (auto split: if_splits)
next
  case (Cons c s)
  then show ?case by (cases m) (auto split: if_splits)
qed

end
