(* ===== verification/Frame_Store.thy ===== *)
theory Frame_Store
  imports Prelude
begin

text \<open>
  The append-only, file-backed replay cache of one proxy execution
  (\<open>apps/proxy/src/protocol/frame-store.ts\<close>). The backing file is its byte content
  \<open>fs_bytes\<close>; the in-memory index is \<open>fs_frames\<close>. \<open>append\<close> awaits the file write between
  reading the next sequence and offset and publishing the frame, so it is two steps,
  \<open>append_begin\<close> and \<open>append_finish\<close>; \<open>fs_append\<close> is their uninterrupted composition.
  The contract clients rely on is the locale \<open>frame_log\<close>: a store represents the list of
  frames appended so far, and reading after a sequence number replays the rest of that list.
\<close>

type_synonym byte = "8 word"

section \<open>Wire format\<close>

datatype frame_type = ResponseHead | Body | Trailers | Complete | Error | Heartbeat

fun frame_code :: "frame_type \<Rightarrow> nat" where
  "frame_code ResponseHead = 1"
| "frame_code Body = 2"
| "frame_code Trailers = 3"
| "frame_code Complete = 4"
| "frame_code Error = 5"
| "frame_code Heartbeat = 6"

definition FRAME_HEADER_BYTES :: nat where
  "FRAME_HEADER_BYTES = 16"

definition MAX_FRAME_PAYLOAD_BYTES :: nat where
  "MAX_FRAME_PAYLOAD_BYTES = 1048576"

text \<open>\<open>be_bytes k n\<close> is what \<open>writeUInt16BE\<close>, \<open>writeUInt32BE\<close> and \<open>writeBigUInt64BE\<close> store for
  an in-range \<open>n\<close>; \<open>be_value\<close> is what the matching reads return.\<close>

fun be_bytes :: "nat \<Rightarrow> nat \<Rightarrow> byte list" where
  "be_bytes 0 n = []"
| "be_bytes (Suc k) n = be_bytes k (n div 256) @ [word_of_nat (n mod 256)]"

definition be_value :: "byte list \<Rightarrow> nat" where
  "be_value bs = foldl (\<lambda>acc b. acc * 256 + unat b) 0 bs"

definition encode_frame :: "frame_type \<Rightarrow> nat \<Rightarrow> byte list \<Rightarrow> byte list" where
  "encode_frame t seq payload =
     be_bytes 1 (frame_code t) @ be_bytes 1 0 @ be_bytes 2 0 @ be_bytes 4 seq
       @ be_bytes 8 (length payload) @ payload"

lemma length_be_bytes [simp]: "length (be_bytes k n) = k"
  by (induction k arbitrary: n) (auto simp: be_bytes.simps)

declare be_bytes.simps [simp del]

lemma be_value_snoc: "be_value (bs @ [b]) = be_value bs * 256 + unat b"
  by (simp add: be_value_def)

lemma unat_byte_of_nat: "unat (word_of_nat n :: byte) = n mod 256"
  by (simp add: unat_of_nat)

lemma be_value_be_bytes: "be_value (be_bytes k n) = n mod 256 ^ k"
proof (induction k arbitrary: n)
  case 0
  then show ?case by (simp add: be_value_def be_bytes.simps)
next
  case (Suc k)
  have "n mod (256 * 256 ^ k) = 256 * (n div 256 mod 256 ^ k) + n mod 256"
    by (rule mod_mult2_eq)
  then show ?case
    by (simp add: Suc be_value_snoc unat_byte_of_nat be_bytes.simps del: of_nat_mod)
qed

lemma length_encode_frame [simp]:
  "length (encode_frame t seq payload) = FRAME_HEADER_BYTES + length payload"
  by (simp add: encode_frame_def FRAME_HEADER_BYTES_def)

lemma frame_code_inject: "frame_code t = frame_code u \<Longrightarrow> t = u"
  by (cases t; cases u) simp_all

lemma frame_code_range: "1 \<le> frame_code t \<and> frame_code t \<le> 6"
  by (cases t) simp_all

section \<open>State and operations\<close>

record frame_location =
  fl_sequence :: nat
  fl_offset :: nat
  fl_length :: nat

record frame_store =
  fs_bytes :: "byte list"
  fs_frames :: "frame_location list"
  fs_write_offset :: nat
  fs_terminal :: bool
  fs_waiters :: "nat list"
  fs_closed :: bool

datatype frame_error = AppendAfterTerminal | PayloadTooLarge | SequenceOutOfRange

record append_ticket =
  tk_sequence :: nat
  tk_offset :: nat
  tk_frame :: "byte list"
  tk_terminal :: bool

definition create_store :: frame_store where
  "create_store =
     \<lparr>fs_bytes = [], fs_frames = [], fs_write_offset = 0, fs_terminal = False,
      fs_waiters = [], fs_closed = False\<rparr>"

text \<open>Everything \<open>append\<close> does before it awaits the file write.\<close>

definition append_begin ::
  "frame_store \<Rightarrow> frame_type \<Rightarrow> byte list \<Rightarrow> bool \<Rightarrow> frame_error + append_ticket" where
  "append_begin fs t payload terminal =
     bindE (requireE (\<not> fs_terminal fs) AppendAfterTerminal) (\<lambda>_.
     bindE (requireE (length payload \<le> MAX_FRAME_PAYLOAD_BYTES) PayloadTooLarge) (\<lambda>_.
     let sequence = length (fs_frames fs) in
     bindE (requireE (sequence < 2 ^ 32) SequenceOutOfRange) (\<lambda>_.
     Inr \<lparr>tk_sequence = sequence, tk_offset = fs_write_offset fs,
          tk_frame = encode_frame t sequence payload, tk_terminal = terminal\<rparr>)))"

text \<open>A positioned write: bytes past the end of the file in between are zero.\<close>

definition write_at :: "byte list \<Rightarrow> nat \<Rightarrow> byte list \<Rightarrow> byte list" where
  "write_at file offset bytes =
     take offset file @ replicate (offset - length file) 0 @ bytes
       @ drop (offset + length bytes) file"

text \<open>The file write and everything \<open>append\<close> does after it: publish the location, set the
  terminal flag and wake every waiting reader.\<close>

definition append_finish :: "append_ticket \<Rightarrow> frame_store \<Rightarrow> frame_store" where
  "append_finish tk fs =
     fs\<lparr>fs_bytes := write_at (fs_bytes fs) (tk_offset tk) (tk_frame tk),
        fs_write_offset := fs_write_offset fs + length (tk_frame tk),
        fs_frames := fs_frames fs @
          [\<lparr>fl_sequence = tk_sequence tk, fl_offset = tk_offset tk,
            fl_length = length (tk_frame tk)\<rparr>],
        fs_terminal := tk_terminal tk,
        fs_waiters := []\<rparr>"

definition fs_append ::
  "frame_store \<Rightarrow> frame_type \<Rightarrow> byte list \<Rightarrow> bool \<Rightarrow> frame_error + (nat \<times> frame_store)" where
  "fs_append fs t payload terminal =
     bindE (append_begin fs t payload terminal) (\<lambda>tk.
     Inr (tk_sequence tk, append_finish tk fs))"

definition dispose :: "frame_store \<Rightarrow> frame_store" where
  "dispose fs = fs\<lparr>fs_terminal := True, fs_waiters := [], fs_closed := True\<rparr>"

text \<open>One turn of the \<open>readAfter\<close> loop at a given index: stop, yield a frame, suspend, or fail
  because the backing file was closed under a reader that is still behind.\<close>

datatype read_result = ReadStop | ReadFrame "byte list" | ReadWait | ReadFailed

definition read_slice :: "frame_store \<Rightarrow> frame_location \<Rightarrow> byte list" where
  "read_slice fs loc = take (fl_length loc) (drop (fl_offset loc) (fs_bytes fs))"

definition read_next :: "frame_store \<Rightarrow> bool \<Rightarrow> int \<Rightarrow> read_result" where
  "read_next fs aborted index =
     (if aborted then ReadStop
      else if 0 \<le> index \<and> index < int (length (fs_frames fs)) then
        (if fs_closed fs then ReadFailed
         else ReadFrame (read_slice fs (fs_frames fs ! nat index)))
      else if fs_terminal fs then ReadStop
      else ReadWait)"

text \<open>All frames a reader obtains from an index on before it stops or suspends.\<close>

function read_from :: "frame_store \<Rightarrow> int \<Rightarrow> byte list list" where
  "read_from fs index =
     (case read_next fs False index of
        ReadFrame bytes \<Rightarrow> bytes # read_from fs (index + 1)
      | _ \<Rightarrow> [])"
  by pat_completeness auto
termination
  by (relation "measure (\<lambda>(fs, index). nat (int (length (fs_frames fs)) - index))")
     (auto simp: read_next_def split: if_splits)

declare read_from.simps [simp del]

definition read_after :: "frame_store \<Rightarrow> int \<Rightarrow> byte list list" where
  "read_after fs after_sequence = read_from fs (after_sequence + 1)"

section \<open>The contract: a replayable log\<close>

type_synonym frame_log = "(frame_type \<times> byte list) list"

definition log_frames :: "frame_log \<Rightarrow> byte list list" where
  "log_frames log = map (\<lambda>(i, t, p). encode_frame t i p) (enumerate 0 log)"

locale frame_log =
  fixes represents :: "'s \<Rightarrow> frame_log \<Rightarrow> bool \<Rightarrow> bool"
    and empty :: 's
    and append :: "'s \<Rightarrow> frame_type \<Rightarrow> byte list \<Rightarrow> bool \<Rightarrow> frame_error + (nat \<times> 's)"
    and replay :: "'s \<Rightarrow> int \<Rightarrow> byte list list"
  assumes represents_empty: "represents empty [] False"
    and append_ok:
      "\<lbrakk>represents s log False; length p \<le> MAX_FRAME_PAYLOAD_BYTES; length log < 2 ^ 32\<rbrakk>
       \<Longrightarrow> \<exists>s'. append s t p terminal = Inr (length log, s') \<and>
                represents s' (log @ [(t, p)]) terminal"
    and append_terminal:
      "represents s log True \<Longrightarrow> append s t p terminal = Inl AppendAfterTerminal"
    and replay_log:
      "\<lbrakk>represents s log terminal; - 1 \<le> k\<rbrakk>
       \<Longrightarrow> replay s k = drop (nat (k + 1)) (log_frames log)"
begin

text \<open>Appending a whole list of non-terminal frames and then a terminal one, as one execution
  does, always succeeds within the protocol bounds and replays exactly those frames.\<close>

fun append_all :: "'s \<Rightarrow> frame_log \<Rightarrow> frame_error + 's" where
  "append_all s [] = Inr s"
| "append_all s ((t, p) # rest) =
     bindE (append s t p False) (\<lambda>(_, s'). append_all s' rest)"

lemma append_all_ok:
  assumes "represents s log False"
    and "\<forall>(t, p) \<in> set new. length p \<le> MAX_FRAME_PAYLOAD_BYTES"
    and "length log + length new \<le> 2 ^ 32"
  shows "\<exists>s'. append_all s new = Inr s' \<and> represents s' (log @ new) False"
  using assms
proof (induction new arbitrary: s log)
  case Nil
  then show ?case by simp
next
  case (Cons f rest)
  obtain t p where f: "f = (t, p)" by (cases f)
  from Cons.prems f obtain s1 where s1: "append s t p False = Inr (length log, s1)"
      "represents s1 (log @ [(t, p)]) False"
    using append_ok [of s log p t False] by auto
  with Cons.IH [of s1 "log @ [(t, p)]"] Cons.prems f show ?case by auto
qed

lemma replay_prefix_stable:
  assumes "represents s log False" and "append s t p terminal = Inr (n, s')"
    and "length p \<le> MAX_FRAME_PAYLOAD_BYTES" and "length log < 2 ^ 32" and "- 1 \<le> k"
    and "nat (k + 1) \<le> length log"
  shows "replay s' k = replay s k @ [encode_frame t (length log) p]"
proof -
  obtain s'' where "append s t p terminal = Inr (length log, s'')"
      and "represents s'' (log @ [(t, p)]) terminal"
    using append_ok [OF assms(1,3,4)] by blast
  with assms(2) have "represents s' (log @ [(t, p)]) terminal" by simp
  then have "replay s' k = drop (nat (k + 1)) (log_frames (log @ [(t, p)]))"
    using assms(5) by (rule replay_log)
  also have "log_frames (log @ [(t, p)]) = log_frames log @ [encode_frame t (length log) p]"
    by (simp add: log_frames_def enumerate_append_eq)
  finally show ?thesis
    using assms(1,5,6) by (simp add: replay_log log_frames_def)
qed

end

section \<open>The file-backed store keeps the contract\<close>

definition log_bytes :: "frame_log \<Rightarrow> byte list" where
  "log_bytes log = concat (log_frames log)"

definition log_location :: "frame_log \<Rightarrow> nat \<Rightarrow> frame_location" where
  "log_location log i =
     \<lparr>fl_sequence = i, fl_offset = length (log_bytes (take i log)),
      fl_length = FRAME_HEADER_BYTES + length (snd (log ! i))\<rparr>"

definition holds_log :: "frame_store \<Rightarrow> frame_log \<Rightarrow> bool" where
  "holds_log fs log \<longleftrightarrow>
     fs_bytes fs = log_bytes log \<and> fs_write_offset fs = length (log_bytes log) \<and>
     fs_frames fs = map (log_location log) [0..<length log]"

definition represents :: "frame_store \<Rightarrow> frame_log \<Rightarrow> bool \<Rightarrow> bool" where
  "represents fs log terminal \<longleftrightarrow>
     holds_log fs log \<and> fs_terminal fs = terminal \<and> \<not> fs_closed fs"

lemma log_frames_snoc: "log_frames (log @ [(t, p)]) = log_frames log @ [encode_frame t (length log) p]"
  by (simp add: log_frames_def enumerate_append_eq)

lemma length_log_frames [simp]: "length (log_frames log) = length log"
  by (simp add: log_frames_def)

lemma log_frames_nth: "i < length log \<Longrightarrow> log_frames log ! i = encode_frame (fst (log ! i)) i (snd (log ! i))"
  by (simp add: log_frames_def nth_enumerate_eq split_beta)

lemma log_frames_take: "log_frames (take i log) = take i (log_frames log)"
  by (rule nth_equalityI) (auto simp: log_frames_nth)

lemma log_bytes_split:
  assumes "i < length log"
  shows "log_bytes log =
    log_bytes (take i log) @ log_frames log ! i @ concat (drop (Suc i) (log_frames log))"
proof -
  have "log_frames log = take i (log_frames log) @ log_frames log ! i # drop (Suc i) (log_frames log)"
    using assms by (simp add: id_take_nth_drop)
  then have "concat (log_frames log) =
      concat (take i (log_frames log) @ log_frames log ! i # drop (Suc i) (log_frames log))"
    by (rule arg_cong)
  then show ?thesis by (simp add: log_bytes_def log_frames_take)
qed

lemma read_slice_log:
  assumes "holds_log fs log" and "i < length log"
  shows "read_slice fs (fs_frames fs ! i) = log_frames log ! i"
proof -
  let ?pre = "log_bytes (take i log)"
  have "fs_bytes fs = ?pre @ log_frames log ! i @ concat (drop (Suc i) (log_frames log))"
    using assms log_bytes_split by (simp add: holds_log_def)
  moreover have "fs_frames fs ! i = log_location log i"
    using assms by (simp add: holds_log_def)
  moreover have "length (log_frames log ! i) = FRAME_HEADER_BYTES + length (snd (log ! i))"
    using assms(2) by (simp add: log_frames_nth)
  ultimately show ?thesis by (simp add: read_slice_def log_location_def)
qed

lemma read_next_log:
  assumes "represents fs log terminal"
  shows "read_next fs False (int i) =
    (if i < length log then ReadFrame (log_frames log ! i)
     else if terminal then ReadStop else ReadWait)"
  using assms read_slice_log by (auto simp: read_next_def represents_def holds_log_def)

lemma read_from_log:
  assumes "represents fs log terminal"
  shows "read_from fs (int i) = drop i (log_frames log)"
proof (induction "length log - i" arbitrary: i rule: less_induct)
  case less
  show ?case
  proof (cases "i < length log")
    case True
    have "read_from fs (int i + 1) = drop (Suc i) (log_frames log)"
      using less [of "Suc i"] True by (simp add: add.commute)
    with True show ?thesis
      by (simp add: read_from.simps [of fs "int i"] read_next_log [OF assms] Cons_nth_drop_Suc)
  next
    case False
    then show ?thesis
      by (simp add: read_from.simps [of fs "int i"] read_next_log [OF assms])
  qed
qed

lemma write_at_end: "write_at file (length file) bytes = file @ bytes"
  by (simp add: write_at_def)

lemma log_location_snoc: "i < length log \<Longrightarrow> log_location (log @ [f]) i = log_location log i"
  by (simp add: log_location_def nth_append)

lemma fs_append_represents:
  assumes "represents fs log False" and "length p \<le> MAX_FRAME_PAYLOAD_BYTES" and "length log < 2 ^ 32"
  shows "\<exists>fs'. fs_append fs t p terminal = Inr (length log, fs') \<and>
    represents fs' (log @ [(t, p)]) terminal"
proof -
  let ?tk = "\<lparr>tk_sequence = length log, tk_offset = length (log_bytes log),
      tk_frame = encode_frame t (length log) p, tk_terminal = terminal\<rparr>"
  from assms have begun: "append_begin fs t p terminal = Inr ?tk"
    by (simp add: append_begin_def represents_def holds_log_def Let_def)
  have "represents (append_finish ?tk fs) (log @ [(t, p)]) terminal"
    using assms(1)
    by (simp add: represents_def holds_log_def append_finish_def write_at_end log_bytes_def log_frames_snoc
        log_location_snoc cong: map_cong)
       (simp add: log_location_def log_bytes_def)
  with begun show ?thesis by (simp add: fs_append_def)
qed

interpretation store: frame_log represents create_store fs_append read_after
proof (unfold_locales, goal_cases)
  case 1
  show ?case by (simp add: represents_def holds_log_def create_store_def log_bytes_def log_frames_def)
next
  case (2 s log p t terminal)
  then show ?case by (rule fs_append_represents)
next
  case (3 s log t p terminal)
  then show ?case by (simp add: fs_append_def append_begin_def represents_def)
next
  case (4 s log terminal k)
  then show ?case using read_from_log [of s log terminal "nat (k + 1)"] by (simp add: read_after_def)
qed

section \<open>Appends that overlap\<close>

text \<open>
  Nothing in \<open>FrameStore\<close> serialises two \<open>append\<close> calls: while the first is suspended in the
  file write, a second one reads the same \<open>#frames.length\<close> and \<open>#writeOffset\<close>.
\<close>

lemma append_begin_pure:
  "append_begin fs t p terminal = Inr tk \<Longrightarrow>
     tk_sequence tk = length (fs_frames fs) \<and> tk_offset tk = fs_write_offset fs \<and>
     tk_frame tk = encode_frame t (length (fs_frames fs)) p \<and> tk_terminal tk = terminal"
  by (auto simp: append_begin_def Let_def result_simps)

lemma overlapped_frames_collide:
  assumes "append_begin fs t p a = Inr tk1" and "append_begin fs u q b = Inr tk2"
  shows "fl_sequence (last (fs_frames (append_finish tk1 fs))) = length (fs_frames fs)"
    and "fl_sequence (last (fs_frames (append_finish tk2 (append_finish tk1 fs)))) =
         length (fs_frames fs)"
  using append_begin_pure [OF assms(1)] append_begin_pure [OF assms(2)]
  by (auto simp: append_finish_def)

lemma overlapped_not_a_log:
  assumes "represents fs log False"
    and "append_begin fs t p a = Inr tk1" and "append_begin fs u q b = Inr tk2"
  shows "\<not> represents (append_finish tk2 (append_finish tk1 fs)) log' terminal"
proof
  let ?fs = "append_finish tk2 (append_finish tk1 fs)"
  assume "represents ?fs log' terminal"
  then have frames: "fs_frames ?fs = map (log_location log') [0..<length log']"
    by (simp add: represents_def holds_log_def)
  have "length (fs_frames ?fs) = length (fs_frames fs) + 2"
    by (simp add: append_finish_def)
  with frames have "length log' = length (fs_frames fs) + 2"
    by (metis length_map length_upt minus_nat.diff_0)
  then have "fs_frames ?fs ! Suc (length (fs_frames fs)) = log_location log' (Suc (length (fs_frames fs)))"
    by (subst frames) (simp del: upt_Suc)
  moreover have "fs_frames ?fs ! Suc (length (fs_frames fs)) = last (fs_frames ?fs)"
    by (simp add: append_finish_def nth_append)
  ultimately show False
    using overlapped_frames_collide(2) [OF assms(2,3)] by (simp add: log_location_def)
qed

text \<open>
  C19. Frame replay. A store that holds the frames \<open>log\<close> and has no terminal frame accepts any
  further frame within the protocol bounds under the next sequence number, and a reader that
  resumes after any earlier sequence \<open>k\<close> then obtains exactly the encodings of the frames
  after \<open>k\<close>, the new one last; once a terminal frame was appended every further append is
  refused and leaves nothing to replay beyond it.
\<close>

theorem append_replay:
  assumes "represents fs log False" and "length p \<le> MAX_FRAME_PAYLOAD_BYTES"
    and "length log < 2 ^ 32" and "- 1 \<le> k"
  shows "\<exists>fs'. fs_append fs t p terminal = Inr (length log, fs') \<and>
    read_after fs' k = drop (nat (k + 1)) (log_frames (log @ [(t, p)])) \<and>
    (terminal \<longrightarrow> (\<forall>u q b. fs_append fs' u q b = Inl AppendAfterTerminal))"
proof -
  obtain fs' where fs': "fs_append fs t p terminal = Inr (length log, fs')"
      "represents fs' (log @ [(t, p)]) terminal"
    using store.append_ok [OF assms(1,2,3)] by blast
  moreover have "read_after fs' k = drop (nat (k + 1)) (log_frames (log @ [(t, p)]))"
    using fs'(2) assms(4) by (rule store.replay_log)
  moreover have "terminal \<Longrightarrow> fs_append fs' u q b = Inl AppendAfterTerminal" for u q b
    using fs'(2) by (intro store.append_terminal) simp
  ultimately show ?thesis by blast
qed

theorem append_replay_witness:
  "\<exists>fs'. fs_append create_store Body [7, 9] True = Inr (0, fs') \<and>
    read_after fs' (- 1) = [encode_frame Body 0 [7, 9]]"
proof -
  have "represents create_store [] False" by (rule store.represents_empty)
  from append_replay [OF this, of "[7, 9]" "- 1" Body True] show ?thesis
    by (auto simp: MAX_FRAME_PAYLOAD_BYTES_def log_frames_def)
qed

text \<open>
  C34. Overlapping appends break the log. From any store that is a proper log, two appends that
  both begin before the first one finishes are both accepted, are given the same sequence number
  and the same file offset, and leave a store that is no frame log at all; and when the one that
  finishes first is terminal, the other clears the terminal flag again.
\<close>

theorem overlapping_appends_corrupt:
  assumes "represents fs log False"
    and "length p \<le> MAX_FRAME_PAYLOAD_BYTES" and "length q \<le> MAX_FRAME_PAYLOAD_BYTES"
    and "length log < 2 ^ 32"
  shows "\<exists>tk1 tk2. append_begin fs Error p True = Inr tk1 \<and> append_begin fs Body q False = Inr tk2 \<and>
    tk_sequence tk1 = tk_sequence tk2 \<and> tk_offset tk1 = tk_offset tk2 \<and>
    fs_terminal (append_finish tk1 fs) \<and>
    \<not> fs_terminal (append_finish tk2 (append_finish tk1 fs)) \<and>
    (\<forall>log' terminal. \<not> represents (append_finish tk2 (append_finish tk1 fs)) log' terminal)"
proof -
  have "length (fs_frames fs) = length log"
    using assms(1) by (simp add: represents_def holds_log_def)
  with assms obtain tk1 tk2 where
    tk: "append_begin fs Error p True = Inr tk1" "append_begin fs Body q False = Inr tk2"
    by (simp add: append_begin_def represents_def Let_def)
  from append_begin_pure [OF tk(1)] append_begin_pure [OF tk(2)]
    overlapped_not_a_log [OF assms(1) tk] tk
  show ?thesis by (auto simp: append_finish_def)
qed

theorem overlapping_appends_corrupt_witness:
  "\<exists>tk1 tk2. append_begin create_store Error [1] True = Inr tk1 \<and>
     append_begin create_store Body [2] False = Inr tk2 \<and>
     \<not> fs_terminal (append_finish tk2 (append_finish tk1 create_store))"
proof -
  have "represents create_store [] False" by (rule store.represents_empty)
  from overlapping_appends_corrupt [OF this, of "[1]" "[2]"] show ?thesis
    by (auto simp: MAX_FRAME_PAYLOAD_BYTES_def)
qed

end
