(* ===== verification/Frame_Readers.thy ===== *)
theory Frame_Readers
  imports Frame_Store
begin

text \<open>
  Readers of one frame store (\<open>readAfter\<close>, \<open>#waitForFrame\<close> and \<open>#notifyWaiters\<close> in
  \<open>apps/proxy/src/protocol/frame-store.ts\<close>) interleaved with its writer. A reader is the
  generator's local state; it is suspended exactly while its identifier is among the store's
  waiters. The step relation \<open>stream_step\<close> has one rule per event: a writer's append, one turn
  of a running reader, an abort signal, and disposal of the store.
\<close>

record reader =
  rd_start :: int
  rd_index :: int
  rd_aborted :: bool
  rd_stopped :: bool
  rd_got :: "byte list list"

record stream =
  st_store :: frame_store
  st_readers :: "nat \<Rightarrow> reader option"

definition open_reader :: "int \<Rightarrow> reader" where
  "open_reader after_sequence =
     \<lparr>rd_start = after_sequence + 1, rd_index = after_sequence + 1, rd_aborted = False,
      rd_stopped = False, rd_got = []\<rparr>"

definition suspended :: "stream \<Rightarrow> nat \<Rightarrow> bool" where
  "suspended s r \<longleftrightarrow> r \<in> set (fs_waiters (st_store s))"

text \<open>One turn of the loop body: the generator stops (normally or because the read failed),
  yields one frame, or registers itself as a waiter.\<close>

definition reader_turn :: "stream \<Rightarrow> nat \<Rightarrow> reader \<Rightarrow> stream" where
  "reader_turn s r rd =
     (case read_next (st_store s) (rd_aborted rd) (rd_index rd) of
        ReadStop \<Rightarrow> s\<lparr>st_readers := (st_readers s)(r \<mapsto> rd\<lparr>rd_stopped := True\<rparr>)\<rparr>
      | ReadFailed \<Rightarrow> s\<lparr>st_readers := (st_readers s)(r \<mapsto> rd\<lparr>rd_stopped := True\<rparr>)\<rparr>
      | ReadFrame bytes \<Rightarrow>
          s\<lparr>st_readers := (st_readers s)
              (r \<mapsto> rd\<lparr>rd_index := rd_index rd + 1, rd_got := rd_got rd @ [bytes]\<rparr>)\<rparr>
      | ReadWait \<Rightarrow>
          s\<lparr>st_store := (st_store s)\<lparr>fs_waiters := fs_waiters (st_store s) @ [r]\<rparr>\<rparr>)"

text \<open>The abort listener: the signal is set and the waiter, if registered, removes itself.\<close>

definition abort_reader :: "stream \<Rightarrow> nat \<Rightarrow> reader \<Rightarrow> stream" where
  "abort_reader s r rd =
     s\<lparr>st_store := (st_store s)\<lparr>fs_waiters := removeAll r (fs_waiters (st_store s))\<rparr>,
       st_readers := (st_readers s)(r \<mapsto> rd\<lparr>rd_aborted := True\<rparr>)\<rparr>"

inductive stream_step :: "stream \<Rightarrow> stream \<Rightarrow> bool" where
  st_write: "fs_append (st_store s) t p terminal = Inr (n, fs') \<Longrightarrow>
    stream_step s (s\<lparr>st_store := fs'\<rparr>)"
| st_attach: "st_readers s r = None \<Longrightarrow> - 1 \<le> k \<Longrightarrow>
    stream_step s (s\<lparr>st_readers := (st_readers s)(r \<mapsto> open_reader k)\<rparr>)"
| st_turn: "st_readers s r = Some rd \<Longrightarrow> \<not> rd_stopped rd \<Longrightarrow> \<not> suspended s r \<Longrightarrow>
    stream_step s (reader_turn s r rd)"
| st_abort: "st_readers s r = Some rd \<Longrightarrow> stream_step s (abort_reader s r rd)"
| st_close: "stream_step s (s\<lparr>st_store := dispose (st_store s)\<rparr>)"

inductive stream_reachable :: "stream \<Rightarrow> bool" where
  start: "stream_reachable \<lparr>st_store = create_store, st_readers = Map.empty\<rparr>"
| step: "stream_reachable s \<Longrightarrow> stream_step s s' \<Longrightarrow> stream_reachable s'"

section \<open>Invariant\<close>

text \<open>The store holds a log; a registered waiter has nothing to read, is not aborted and the
  stream is open; and what a reader got so far is the stretch of the log between its start
  and its index.\<close>

definition reader_ok :: "frame_log \<Rightarrow> reader \<Rightarrow> bool" where
  "reader_ok log rd \<longleftrightarrow>
     0 \<le> rd_start rd \<and> rd_start rd \<le> rd_index rd \<and>
     (rd_index rd \<le> int (length log) \<or> rd_index rd = rd_start rd) \<and>
     rd_got rd = take (nat (rd_index rd - rd_start rd)) (drop (nat (rd_start rd)) (log_frames log))"

definition stream_inv :: "stream \<Rightarrow> bool" where
  "stream_inv s \<longleftrightarrow> (\<exists>log.
     holds_log (st_store s) log \<and> (fs_closed (st_store s) \<longrightarrow> fs_terminal (st_store s)) \<and>
     (\<forall>r. suspended s r \<longrightarrow> \<not> fs_terminal (st_store s) \<and>
        (\<exists>rd. st_readers s r = Some rd \<and> \<not> rd_aborted rd \<and> \<not> rd_stopped rd \<and>
              int (length log) \<le> rd_index rd)) \<and>
     (\<forall>r rd. st_readers s r = Some rd \<longrightarrow> reader_ok log rd))"

lemma stream_invI:
  assumes "holds_log (st_store s) log"
    and "fs_closed (st_store s) \<Longrightarrow> fs_terminal (st_store s)"
    and "\<And>r. suspended s r \<Longrightarrow> \<not> fs_terminal (st_store s) \<and>
        (\<exists>rd. st_readers s r = Some rd \<and> \<not> rd_aborted rd \<and> \<not> rd_stopped rd \<and>
              int (length log) \<le> rd_index rd)"
    and "\<And>r rd. st_readers s r = Some rd \<Longrightarrow> reader_ok log rd"
  shows "stream_inv s"
  using assms unfolding stream_inv_def by blast

lemma length_frames_log: "holds_log fs log \<Longrightarrow> length (fs_frames fs) = length log"
  by (simp add: holds_log_def)

lemma reader_ok_snoc: "reader_ok log rd \<Longrightarrow> reader_ok (log @ [f]) rd"
  by (cases f) (auto simp: reader_ok_def log_frames_snoc take_append drop_append)

lemma reader_ok_advance:
  assumes "reader_ok log rd" and "rd_index rd < int (length log)"
  shows "reader_ok log (rd\<lparr>rd_index := rd_index rd + 1,
    rd_got := rd_got rd @ [log_frames log ! nat (rd_index rd)]\<rparr>)"
proof -
  let ?k = "nat (rd_index rd - rd_start rd)"
  let ?rest = "drop (nat (rd_start rd)) (log_frames log)"
  have sum: "nat (rd_start rd) + ?k = nat (rd_index rd)"
    using assms(1) by (auto simp: reader_ok_def)
  with assms have less: "nat (rd_start rd) + ?k < length (log_frames log)"
    by (auto simp: reader_ok_def)
  then have "?rest ! ?k = log_frames log ! (nat (rd_start rd) + ?k)" by (intro nth_drop) simp
  with sum less assms(1) have k: "?k < length ?rest" "?rest ! ?k = log_frames log ! nat (rd_index rd)"
      "nat (rd_index rd + 1 - rd_start rd) = Suc ?k"
    by (auto simp: reader_ok_def)
  show ?thesis
    using assms k by (simp add: reader_ok_def take_Suc_conv_app_nth)
qed

lemma fs_append_effect:
  assumes "fs_append fs t p terminal = Inr (n, fs')" and "holds_log fs log"
    and "fs_closed fs \<Longrightarrow> fs_terminal fs"
  shows "holds_log fs' (log @ [(t, p)]) \<and> \<not> fs_closed fs' \<and> fs_waiters fs' = []"
proof -
  from assms(1) have bounds: "\<not> fs_terminal fs" "length p \<le> MAX_FRAME_PAYLOAD_BYTES"
      "length (fs_frames fs) < 2 ^ 32"
    by (auto simp: fs_append_def append_begin_def Let_def result_simps)
  with assms(2,3) have "represents fs log False" by (auto simp: represents_def)
  from fs_append_represents [OF this bounds(2), of t terminal] bounds(3) assms(1)
  have "represents fs' (log @ [(t, p)]) terminal"
    by (auto simp: length_frames_log [OF assms(2)])
  moreover have "fs_waiters fs' = []"
    using assms(1) by (auto simp: fs_append_def append_finish_def result_simps)
  ultimately show ?thesis by (simp add: represents_def)
qed

lemma reader_turn_inv:
  assumes "stream_inv s" and rd: "st_readers s r = Some rd" and "\<not> rd_stopped rd" and "\<not> suspended s r"
  shows "stream_inv (reader_turn s r rd)"
proof -
  from assms(1) obtain log where log: "holds_log (st_store s) log"
      "fs_closed (st_store s) \<longrightarrow> fs_terminal (st_store s)"
      "\<And>q. suspended s q \<Longrightarrow> \<not> fs_terminal (st_store s) \<and>
        (\<exists>x. st_readers s q = Some x \<and> \<not> rd_aborted x \<and> \<not> rd_stopped x \<and>
             int (length log) \<le> rd_index x)"
      "\<And>q x. st_readers s q = Some x \<Longrightarrow> reader_ok log x"
    unfolding stream_inv_def by blast
  from log(4) [OF rd] have ok: "reader_ok log rd" .
  show ?thesis
  proof (cases "read_next (st_store s) (rd_aborted rd) (rd_index rd)")
    case ReadStop
    show ?thesis
      by (rule stream_invI [of _ log]) (use log ReadStop ok assms(4) in
        \<open>auto simp: reader_turn_def suspended_def reader_ok_def split: if_splits\<close>)
  next
    case ReadFailed
    show ?thesis
      by (rule stream_invI [of _ log]) (use log ReadFailed ok assms(4) in
        \<open>auto simp: reader_turn_def suspended_def reader_ok_def split: if_splits\<close>)
  next
    case ReadWait
    then have "\<not> fs_terminal (st_store s)" "\<not> rd_aborted rd" "int (length log) \<le> rd_index rd"
      using ok length_frames_log [OF log(1)]
      by (auto simp: read_next_def reader_ok_def split: if_splits)
    then show ?thesis
      by (intro stream_invI [of _ log]) (use log ReadWait ok rd assms(3) in
        \<open>auto simp: reader_turn_def suspended_def holds_log_def split: if_splits\<close>)
  next
    case (ReadFrame bytes)
    then have index: "rd_index rd < int (length log)" "0 \<le> rd_index rd"
      and bytes: "bytes = read_slice (st_store s) (fs_frames (st_store s) ! nat (rd_index rd))"
      using length_frames_log [OF log(1)] by (auto simp: read_next_def split: if_splits)
    have "nat (rd_index rd) < length log" using index by linarith
    then have "bytes = log_frames log ! nat (rd_index rd)"
      using bytes log(1) by (simp add: read_slice_log)
    with reader_ok_advance [OF ok index(1)]
    have "reader_ok log (rd\<lparr>rd_index := rd_index rd + 1, rd_got := rd_got rd @ [bytes]\<rparr>)" by simp
    then show ?thesis
      by (intro stream_invI [of _ log]) (use log ReadFrame assms(4) in
        \<open>auto simp: reader_turn_def suspended_def split: if_splits\<close>)
  qed
qed

lemma stream_step_inv: "stream_step s s' \<Longrightarrow> stream_inv s \<Longrightarrow> stream_inv s'"
proof (induction rule: stream_step.induct)
  case (st_write s t p terminal n fs')
  then obtain log where log: "holds_log (st_store s) log"
      "fs_closed (st_store s) \<Longrightarrow> fs_terminal (st_store s)"
      "\<And>q x. st_readers s q = Some x \<Longrightarrow> reader_ok log x"
    unfolding stream_inv_def by blast
  from fs_append_effect [OF st_write.hyps log(1,2)] show ?case
    by (intro stream_invI [of _ "log @ [(t, p)]"])
       (auto simp: suspended_def intro: reader_ok_snoc log(3))
next
  case (st_attach s r k)
  then obtain log where log: "holds_log (st_store s) log"
      "fs_closed (st_store s) \<Longrightarrow> fs_terminal (st_store s)"
      "\<And>q. suspended s q \<Longrightarrow> \<not> fs_terminal (st_store s) \<and>
        (\<exists>x. st_readers s q = Some x \<and> \<not> rd_aborted x \<and> \<not> rd_stopped x \<and>
             int (length log) \<le> rd_index x)"
      "\<And>q x. st_readers s q = Some x \<Longrightarrow> reader_ok log x"
    unfolding stream_inv_def by blast
  show ?case
    by (rule stream_invI [of _ log]) (use log(1,2,4) st_attach.hyps in
      \<open>auto simp: suspended_def open_reader_def reader_ok_def split: if_splits
         dest!: log(3) [unfolded suspended_def]\<close>)
next
  case (st_turn s r rd)
  then show ?case by (blast intro: reader_turn_inv)
next
  case (st_abort s r rd)
  then obtain log where log: "holds_log (st_store s) log"
      "fs_closed (st_store s) \<Longrightarrow> fs_terminal (st_store s)"
      "\<And>q. suspended s q \<Longrightarrow> \<not> fs_terminal (st_store s) \<and>
        (\<exists>x. st_readers s q = Some x \<and> \<not> rd_aborted x \<and> \<not> rd_stopped x \<and>
             int (length log) \<le> rd_index x)"
      "\<And>q x. st_readers s q = Some x \<Longrightarrow> reader_ok log x"
    unfolding stream_inv_def by blast
  have "reader_ok log (rd\<lparr>rd_aborted := True\<rparr>)"
    using log(4) [OF st_abort.hyps] by (simp add: reader_ok_def)
  then show ?case
    by (intro stream_invI [of _ log]) (use log in
      \<open>auto simp: abort_reader_def suspended_def holds_log_def split: if_splits\<close>)
next
  case (st_close s)
  then obtain log where log: "holds_log (st_store s) log"
      "\<And>q x. st_readers s q = Some x \<Longrightarrow> reader_ok log x"
    unfolding stream_inv_def by blast
  then show ?case
    by (intro stream_invI [of _ log]) (auto simp: dispose_def suspended_def holds_log_def)
qed

lemma stream_reachable_inv: "stream_reachable s \<Longrightarrow> stream_inv s"
proof (induction rule: stream_reachable.induct)
  case start
  show ?case
    by (rule stream_invI [of _ "[]"])
       (auto simp: create_store_def holds_log_def log_bytes_def log_frames_def suspended_def)
next
  case (step s s')
  then show ?case by (blast intro: stream_step_inv)
qed



end
