(* ===== verification/Proxy_Client.thy ===== *)
theory Proxy_Client
  imports Frame_Store
begin

text \<open>
  The backend's decoder of the proxy response stream (\<open>#consumeFrames\<close>, \<open>#dispatchFrame\<close> and
  \<open>parseFrameType\<close> in \<open>apps/backend/src/proxy/proxy-client.ts\<close>). Network chunks have no relation
  to frame boundaries, so the consumer keeps the incomplete bytes in \<open>cn_buffered\<close>. The sink's
  callbacks are the list of events delivered so far; an error carries the events delivered
  before it. \<open>JSON.parse\<close> of a UTF-8 payload is the parameter \<open>parse\<close>, \<open>None\<close> where it throws.
\<close>

datatype 'j sink_event = SinkHead 'j | SinkBody "byte list" | SinkComplete 'j

datatype 'j consume_error =
    PayloadLengthInvalid
  | UnknownFrameType nat
  | FrameHeaderInvalid
  | BytesAfterTerminal
  | StreamTruncated
  | MalformedJson
  | ExecutionFailed 'j

record 'j consumer =
  cn_buffered :: "byte list"
  cn_expected :: nat
  cn_terminal :: bool
  cn_events :: "'j sink_event list"

type_synonym 'j consume_failure = "'j consume_error \<times> 'j sink_event list"

definition parse_frame_type :: "nat \<Rightarrow> frame_type option" where
  "parse_frame_type v =
     (if v = 1 then Some ResponseHead else if v = 2 then Some Body
      else if v = 3 then Some Trailers else if v = 4 then Some Complete
      else if v = 5 then Some Error else if v = 6 then Some Heartbeat else None)"

text \<open>What one validated frame makes the sink see, and whether it ends the stream.\<close>

definition dispatch_frame ::
  "(byte list \<Rightarrow> 'j option) \<Rightarrow> frame_type \<Rightarrow> byte list \<Rightarrow>
     'j consume_error + ('j sink_event list \<times> bool)" where
  "dispatch_frame parse t payload =
     (case t of
        ResponseHead \<Rightarrow>
          (case parse payload of None \<Rightarrow> Inl MalformedJson | Some j \<Rightarrow> Inr ([SinkHead j], False))
      | Body \<Rightarrow> Inr ([SinkBody payload], False)
      | Complete \<Rightarrow>
          (case parse payload of None \<Rightarrow> Inl MalformedJson | Some j \<Rightarrow> Inr ([SinkComplete j], True))
      | Error \<Rightarrow>
          (case parse payload of None \<Rightarrow> Inl MalformedJson | Some j \<Rightarrow> Inl (ExecutionFailed j))
      | Trailers \<Rightarrow> Inr ([], False)
      | Heartbeat \<Rightarrow> Inr ([], False))"

text \<open>The end of one loop turn: the frame is dispatched and the rest of the buffer kept.\<close>

definition accept_frame ::
  "(byte list \<Rightarrow> 'j option) \<Rightarrow> 'j consumer \<Rightarrow> frame_type \<Rightarrow> byte list \<Rightarrow> byte list \<Rightarrow>
     'j consume_failure + 'j consumer option" where
  "accept_frame parse c t payload rest =
     (case dispatch_frame parse t payload of
        Inl e \<Rightarrow> Inl (e, cn_events c)
      | Inr (events, terminal) \<Rightarrow>
          if terminal \<and> rest \<noteq> [] then Inl (BytesAfterTerminal, cn_events c @ events)
          else Inr (Some \<lparr>cn_buffered = rest, cn_expected = cn_expected c + 1,
                          cn_terminal = terminal, cn_events = cn_events c @ events\<rparr>))"

lemma accept_frame_rest: "accept_frame parse c t p rest = Inr (Some c') \<Longrightarrow> cn_buffered c' = rest"
  by (auto simp: accept_frame_def split: if_splits sum.splits)

text \<open>One turn of the inner loop on a buffer of at least a header: \<open>Inr None\<close> is the \<open>break\<close>
  that waits for more bytes.\<close>

definition take_frame ::
  "(byte list \<Rightarrow> 'j option) \<Rightarrow> 'j consumer \<Rightarrow> 'j consume_failure + 'j consumer option" where
  "take_frame parse c =
     (let buffered = cn_buffered c;
          payload_length = be_value (take 8 (drop 8 buffered));
          frame_length = FRAME_HEADER_BYTES + payload_length in
      if payload_length > MAX_FRAME_PAYLOAD_BYTES then Inl (PayloadLengthInvalid, cn_events c)
      else if length buffered < frame_length then Inr None
      else
        let code = be_value (take 1 buffered) in
        case parse_frame_type code of
          None \<Rightarrow> Inl (UnknownFrameType code, cn_events c)
        | Some t \<Rightarrow>
            let flags = be_value (take 1 (drop 1 buffered));
                reserved = be_value (take 2 (drop 2 buffered));
                sequence = be_value (take 4 (drop 4 buffered)) in
            if flags \<noteq> 0 \<or> reserved \<noteq> 0 \<or> sequence \<noteq> cn_expected c
            then Inl (FrameHeaderInvalid, cn_events c)
            else
              accept_frame parse c t (drop FRAME_HEADER_BYTES (take frame_length buffered))
                (drop frame_length buffered))"

lemma take_frame_shrinks:
  assumes "take_frame parse c = Inr (Some c')"
  shows "length (cn_buffered c') < length (cn_buffered c)"
proof -
  let ?b = "cn_buffered c"
  let ?n = "FRAME_HEADER_BYTES + be_value (take 8 (drop 8 ?b))"
  from assms have "\<not> length ?b < ?n"
    by (auto simp: take_frame_def Let_def split: if_split_asm)
  moreover from assms obtain t where
    "accept_frame parse c t (drop FRAME_HEADER_BYTES (take ?n ?b)) (drop ?n ?b) = Inr (Some c')"
    unfolding take_frame_def Let_def by (simp only: split: if_split_asm option.split_asm) auto
  then have "cn_buffered c' = drop ?n ?b" by (rule accept_frame_rest)
  ultimately show ?thesis by (simp add: FRAME_HEADER_BYTES_def)
qed

function drain ::
  "(byte list \<Rightarrow> 'j option) \<Rightarrow> 'j consumer \<Rightarrow> 'j consume_failure + 'j consumer" where
  "drain parse c =
     (if length (cn_buffered c) < FRAME_HEADER_BYTES then Inr c
      else bindE (take_frame parse c) (\<lambda>r.
        case r of None \<Rightarrow> Inr c | Some c' \<Rightarrow> drain parse c'))"
  by pat_completeness auto
termination
  by (relation "measure (\<lambda>(parse, c). length (cn_buffered c))") (auto dest: take_frame_shrinks)

declare drain.simps [simp del]

definition feed ::
  "(byte list \<Rightarrow> 'j option) \<Rightarrow> 'j consumer \<Rightarrow> byte list \<Rightarrow> 'j consume_failure + 'j consumer" where
  "feed parse c chunk = drain parse (c\<lparr>cn_buffered := cn_buffered c @ chunk\<rparr>)"

definition initial_consumer :: "'j consumer" where
  "initial_consumer = \<lparr>cn_buffered = [], cn_expected = 0, cn_terminal = False, cn_events = []\<rparr>"

definition consume_frames ::
  "(byte list \<Rightarrow> 'j option) \<Rightarrow> byte list list \<Rightarrow> 'j consume_failure + 'j sink_event list" where
  "consume_frames parse chunks =
     bindE (foldE (feed parse) initial_consumer chunks) (\<lambda>c.
       if \<not> cn_terminal c \<or> cn_buffered c \<noteq> [] then Inl (StreamTruncated, cn_events c)
       else Inr (cn_events c))"

section \<open>Decoding what the proxy encodes\<close>

definition frame_events :: "(byte list \<Rightarrow> 'j option) \<Rightarrow> frame_type \<times> byte list \<Rightarrow> 'j sink_event list" where
  "frame_events parse f =
     (case f of
        (ResponseHead, p) \<Rightarrow> (case parse p of None \<Rightarrow> [] | Some j \<Rightarrow> [SinkHead j])
      | (Body, p) \<Rightarrow> [SinkBody p]
      | (Complete, p) \<Rightarrow> (case parse p of None \<Rightarrow> [] | Some j \<Rightarrow> [SinkComplete j])
      | _ \<Rightarrow> [])"

text \<open>A stream as a well-behaved proxy writes it: metadata payloads are JSON, and exactly the
  last frame is terminal.\<close>

definition payload_ok :: "(byte list \<Rightarrow> 'j option) \<Rightarrow> frame_type \<times> byte list \<Rightarrow> bool" where
  "payload_ok parse f \<longleftrightarrow>
     length (snd f) \<le> MAX_FRAME_PAYLOAD_BYTES \<and>
     (fst f \<in> {ResponseHead, Complete, Error} \<longrightarrow> parse (snd f) \<noteq> None)"

fun well_ended :: "frame_log \<Rightarrow> bool" where
  "well_ended [] = True"
| "well_ended [f] = (fst f \<in> {Complete, Error})"
| "well_ended (f # g # log) = (fst f \<notin> {Complete, Error} \<and> well_ended (g # log))"

definition encode_from :: "nat \<Rightarrow> frame_log \<Rightarrow> byte list" where
  "encode_from n log = concat (map (\<lambda>(i, t, p). encode_frame t i p) (enumerate n log))"

lemma encode_frame_nonempty [simp]: "encode_frame t n p \<noteq> []"
proof
  assume "encode_frame t n p = []"
  then have "FRAME_HEADER_BYTES + length p = 0" by (metis length_encode_frame list.size(3))
  then show False by (simp add: FRAME_HEADER_BYTES_def)
qed

lemma encode_from_simps [simp]:
  "encode_from n [] = []"
  "encode_from n ((t, p) # log) = encode_frame t n p @ encode_from (Suc n) log"
  by (simp_all add: encode_from_def)

lemma parse_frame_code [simp]: "parse_frame_type (frame_code t) = Some t"
  by (cases t) (simp_all add: parse_frame_type_def)

lemma header_fields:
  assumes "16 \<le> length b" and "b @ q = encode_frame t n p @ r" and "n < 2 ^ 32"
    and "length p \<le> MAX_FRAME_PAYLOAD_BYTES"
  shows "be_value (take 8 (drop 8 b)) = length p" and "be_value (take 1 b) = frame_code t"
    and "be_value (take 1 (drop 1 b)) = 0" and "be_value (take 2 (drop 2 b)) = 0"
    and "be_value (take 4 (drop 4 b)) = n"
proof -
  have pre: "take k (drop m b) = take k (drop m (encode_frame t n p))" if "k + m \<le> 16" for k m
  proof -
    have "take k (drop m b) = take k (drop m (b @ q))" using that assms(1) by simp
    also have "\<dots> = take k (drop m (encode_frame t n p))"
      using that by (simp add: assms(2) FRAME_HEADER_BYTES_def)
    finally show ?thesis .
  qed
  have len: "length p < 256 ^ 8" and seq: "n < 256 ^ 4" and code: "frame_code t < 256"
    using assms(3,4) frame_code_range [of t] by (simp_all add: MAX_FRAME_PAYLOAD_BYTES_def)
  show "be_value (take 8 (drop 8 b)) = length p"
    using len by (simp add: pre encode_frame_def be_value_be_bytes)
  show "be_value (take 1 b) = frame_code t"
    using pre [of 1 0] code by (simp add: encode_frame_def be_value_be_bytes)
  show "be_value (take 1 (drop 1 b)) = 0"
    by (simp add: pre encode_frame_def be_value_be_bytes)
  show "be_value (take 2 (drop 2 b)) = 0"
    by (simp add: pre encode_frame_def be_value_be_bytes)
  show "be_value (take 4 (drop 4 b)) = n"
    using seq by (simp add: pre encode_frame_def be_value_be_bytes)
qed

lemma drain_partial:
  assumes "cn_buffered c @ q = encode_frame t n p @ r" and "n < 2 ^ 32"
    and "length p \<le> MAX_FRAME_PAYLOAD_BYTES"
    and "length (cn_buffered c) < FRAME_HEADER_BYTES + length p"
  shows "drain parse c = Inr c"
proof (cases "length (cn_buffered c) < FRAME_HEADER_BYTES")
  case True
  then show ?thesis by (simp add: drain.simps)
next
  case False
  then have "16 \<le> length (cn_buffered c)" by (simp add: FRAME_HEADER_BYTES_def)
  from header_fields [OF this assms(1,2,3)] assms(3,4) False show ?thesis
    by (simp add: drain.simps take_frame_def)
qed

lemma take_frame_encoded:
  assumes "cn_buffered c = encode_frame t n p @ rest" and "cn_expected c = n" and "n < 2 ^ 32"
    and "length p \<le> MAX_FRAME_PAYLOAD_BYTES"
  shows "take_frame parse c = accept_frame parse c t p rest"
proof -
  have len: "16 \<le> length (cn_buffered c)" using assms(1) by (simp add: FRAME_HEADER_BYTES_def)
  have "cn_buffered c @ [] = encode_frame t n p @ rest" using assms(1) by simp
  note fields = header_fields [OF len this assms(3,4)]
  have parts: "take (FRAME_HEADER_BYTES + length p) (cn_buffered c) = encode_frame t n p"
    "drop (FRAME_HEADER_BYTES + length p) (cn_buffered c) = rest"
    "drop FRAME_HEADER_BYTES (encode_frame t n p) = p"
    "\<not> length (cn_buffered c) < FRAME_HEADER_BYTES + length p"
    by (simp_all add: assms(1)) (simp add: encode_frame_def FRAME_HEADER_BYTES_def)
  have "\<not> MAX_FRAME_PAYLOAD_BYTES < length p" using assms(4) by simp
  then show ?thesis
    unfolding take_frame_def Let_def fields parts
    by (simp add: parts assms(2))
qed

text \<open>The state of the consumer between two chunks: the bytes it holds and the bytes still to
  come are the encoding of the frames it has not delivered.\<close>

definition awaiting :: "'j consumer \<Rightarrow> frame_log \<Rightarrow> byte list \<Rightarrow> bool" where
  "awaiting c todo q \<longleftrightarrow>
     cn_buffered c @ q = encode_from (cn_expected c) todo \<and>
     cn_expected c + length todo \<le> 2 ^ 32 \<and> cn_terminal c = (todo = []) \<and> well_ended todo"

definition error_of :: "(byte list \<Rightarrow> 'j option) \<Rightarrow> byte list \<Rightarrow> 'j consume_error" where
  "error_of parse p = (case parse p of None \<Rightarrow> MalformedJson | Some j \<Rightarrow> ExecutionFailed j)"

abbreviation delivered :: "(byte list \<Rightarrow> 'j option) \<Rightarrow> frame_log \<Rightarrow> 'j sink_event list" where
  "delivered parse fs \<equiv> concat (map (frame_events parse) fs)"

text \<open>What a stretch of decoding may result in, from the frames \<open>todo\<close> that were outstanding and
  the events delivered before: some frames were delivered and the rest is still awaited, or the
  stream's error frame was reached.\<close>

fun progress :: "(byte list \<Rightarrow> 'j option) \<Rightarrow> 'j sink_event list \<Rightarrow> frame_log \<Rightarrow> byte list \<Rightarrow>
    'j consume_failure + 'j consumer \<Rightarrow> bool" where
  "progress parse events todo q (Inr c) =
     (\<exists>ds rest. todo = ds @ rest \<and> awaiting c rest q \<and> cn_events c = events @ delivered parse ds \<and>
        Error \<notin> fst ` set ds \<and>
        (rest = [] \<or> length (cn_buffered c) < FRAME_HEADER_BYTES + length (snd (hd rest))))"
| "progress parse events todo q (Inl failure) =
     (\<exists>ds p. todo = ds @ [(Error, p)] \<and> Error \<notin> fst ` set ds \<and>
        failure = (error_of parse p, events @ delivered parse ds))"

lemma progress_Cons:
  assumes "progress parse (events @ frame_events parse f) todo q r" and "fst f \<noteq> Error"
  shows "progress parse events (f # todo) q r"
proof (cases r)
  case (Inr c)
  with assms obtain ds rest where "todo = ds @ rest" "awaiting c rest q"
      "cn_events c = (events @ frame_events parse f) @ delivered parse ds"
      "Error \<notin> fst ` set ds"
      "rest = [] \<or> length (cn_buffered c) < FRAME_HEADER_BYTES + length (snd (hd rest))"
    by auto
  with Inr assms(2) show ?thesis
    by (simp only: progress.simps) (intro exI [of _ "f # ds"] exI [of _ rest], simp)
next
  case (Inl failure)
  with assms obtain ds p where "todo = ds @ [(Error, p)]" "Error \<notin> fst ` set ds"
      "failure = (error_of parse p, (events @ frame_events parse f) @ delivered parse ds)"
    by auto
  with Inl assms(2) show ?thesis
    by (simp only: progress.simps) (intro exI [of _ "f # ds"] exI [of _ p], simp)
qed

lemma progress_append:
  "progress parse (events @ delivered parse ds) rest q r \<Longrightarrow> Error \<notin> fst ` set ds \<Longrightarrow>
     progress parse events (ds @ rest) q r"
proof (induction ds arbitrary: rest rule: rev_induct)
  case (snoc f ds)
  then have "progress parse (events @ delivered parse ds) (f # rest) q r"
    by (intro progress_Cons) auto
  with snoc.IH [of "f # rest"] snoc.prems(2) show ?case by simp
qed simp

lemma well_ended_tl: "well_ended (f # todo) \<Longrightarrow> well_ended todo"
  by (cases todo) auto

lemma well_ended_last: "well_ended (f # todo) \<Longrightarrow> (todo = []) = (fst f \<in> {Complete, Error})"
  by (cases todo) auto

lemma drain_frame:
  assumes "cn_buffered c = encode_frame t (cn_expected c) p @ rest" and "cn_expected c < 2 ^ 32"
    and "payload_ok parse (t, p)" and "t = Complete \<Longrightarrow> rest = []"
  shows "drain parse c =
    (if t = Error then Inl (error_of parse p, cn_events c)
     else drain parse \<lparr>cn_buffered = rest, cn_expected = Suc (cn_expected c),
       cn_terminal = (t = Complete), cn_events = cn_events c @ frame_events parse (t, p)\<rparr>)"
proof -
  have "length p \<le> MAX_FRAME_PAYLOAD_BYTES" using assms(3) by (simp add: payload_ok_def)
  note step = take_frame_encoded [OF assms(1) refl assms(2) this, of parse]
  have "\<not> length (cn_buffered c) < FRAME_HEADER_BYTES" by (simp add: assms(1))
  then have "drain parse c = bindE (take_frame parse c)
      (\<lambda>r. case r of None \<Rightarrow> Inr c | Some c' \<Rightarrow> drain parse c')"
    by (simp add: drain.simps [of parse c])
  then show ?thesis
    using assms(3,4) unfolding step
    by (cases t) (auto simp: accept_frame_def dispatch_frame_def frame_events_def payload_ok_def error_of_def)
qed

lemma drain_progress:
  assumes "awaiting c todo q" and "list_all (payload_ok parse) todo"
  shows "progress parse (cn_events c) todo q (drain parse c)"
  using assms
proof (induction todo arbitrary: c)
  case Nil
  then have "drain parse c = Inr c"
    by (simp add: awaiting_def drain.simps FRAME_HEADER_BYTES_def)
  with Nil show ?case by auto
next
  case (Cons f todo)
  obtain t p where f: "f = (t, p)" by (cases f)
  let ?n = "cn_expected c"
  from Cons.prems f have bytes: "cn_buffered c @ q = encode_frame t ?n p @ encode_from (Suc ?n) todo"
    and n: "?n < 2 ^ 32" and ok: "payload_ok parse (t, p)" and ended: "well_ended (f # todo)"
    by (auto simp: awaiting_def)
  then have p: "length p \<le> MAX_FRAME_PAYLOAD_BYTES" by (simp add: payload_ok_def)
  show ?case
  proof (cases "length (cn_buffered c) < FRAME_HEADER_BYTES + length p")
    case True
    with bytes n p have "drain parse c = Inr c" by (rule drain_partial)
    with Cons.prems True f show ?thesis
      by (simp only: progress.simps) (intro exI [of _ "[]"] exI [of _ "f # todo"], simp)
  next
    case False
    define rest where "rest = drop (FRAME_HEADER_BYTES + length p) (cn_buffered c)"
    from False have "take (FRAME_HEADER_BYTES + length p) (cn_buffered c) = encode_frame t ?n p"
      using arg_cong [OF bytes, of "take (FRAME_HEADER_BYTES + length p)"] by simp
    then have buffered: "cn_buffered c = encode_frame t ?n p @ rest"
      unfolding rest_def by (metis append_take_drop_id)
    with bytes have rest: "rest @ q = encode_from (Suc ?n) todo" by simp
    have final: "(todo = []) = (t = Complete \<or> t = Error)"
      using well_ended_last [OF ended] f by simp
    with rest have "t = Complete \<Longrightarrow> rest = []" by simp
    note step = drain_frame [OF buffered n ok this]
    show ?thesis
    proof (cases "t = Error")
      case True
      with step final f show ?thesis by simp
    next
      case False
      let ?c1 = "\<lparr>cn_buffered = rest, cn_expected = Suc ?n, cn_terminal = (t = Complete),
        cn_events = cn_events c @ frame_events parse (t, p)\<rparr>"
      have "awaiting ?c1 todo q"
        using rest final False Cons.prems(1) well_ended_tl [OF ended] by (simp add: awaiting_def)
      with Cons.IH [of ?c1] Cons.prems(2)
      have "progress parse (cn_events c @ frame_events parse f) todo q (drain parse ?c1)"
        by (simp add: f)
      with False step f show ?thesis by (simp add: progress_Cons)
    qed
  qed
qed

lemma awaiting_done:
  assumes "awaiting c rest []"
    and "rest = [] \<or> length (cn_buffered c) < FRAME_HEADER_BYTES + length (snd (hd rest))"
  shows "rest = []"
proof (cases rest)
  case (Cons f rest')
  then show ?thesis
    using assms by (cases f) (simp add: awaiting_def)
qed simp

lemma feed_progress:
  assumes "awaiting c todo (concat chunks)" and "list_all (payload_ok parse) todo"
    and "chunks = [] \<Longrightarrow> todo = []"
  shows "progress parse (cn_events c) todo [] (foldE (feed parse) c chunks)"
  using assms
proof (induction chunks arbitrary: c todo)
  case Nil
  then show ?case by simp
next
  case (Cons chunk chunks)
  let ?c = "c\<lparr>cn_buffered := cn_buffered c @ chunk\<rparr>"
  have "awaiting ?c todo (concat chunks)"
    using Cons.prems(1) by (simp add: awaiting_def)
  from drain_progress [OF this Cons.prems(2)]
  have pr: "progress parse (cn_events c) todo (concat chunks) (feed parse c chunk)"
    by (simp add: feed_def)
  show ?case
  proof (cases "feed parse c chunk")
    case (Inl failure)
    with pr show ?thesis by simp
  next
    case (Inr c')
    with pr obtain ds rest where split: "todo = ds @ rest" and aw: "awaiting c' rest (concat chunks)"
      and ev: "cn_events c' = cn_events c @ delivered parse ds" and clean: "Error \<notin> fst ` set ds"
      and short: "rest = [] \<or> length (cn_buffered c') < FRAME_HEADER_BYTES + length (snd (hd rest))"
      by auto
    have "chunks = [] \<Longrightarrow> rest = []" using aw short by (intro awaiting_done) simp_all
    with Cons.IH [OF aw] Cons.prems(2) split
    have "progress parse (cn_events c @ delivered parse ds) rest [] (foldE (feed parse) c' chunks)"
      by (simp add: ev)
    then have "progress parse (cn_events c) (ds @ rest) [] (foldE (feed parse) c' chunks)"
      using clean by (rule progress_append)
    with Inr split show ?thesis by simp
  qed
qed

lemma encode_from_log: "encode_from 0 log = concat (log_frames log)"
  by (simp add: encode_from_def log_frames_def)

text \<open>
  C5. End-to-end framing. Whatever chunks the network delivers, as long as their concatenation
  is what a full replay of the proxy's frame store returns for a stream with one terminal frame
  at its end: the backend decodes exactly the frames the proxy stored, in order. A stream that
  ends in a Complete frame succeeds with all its events; one that ends in an Error frame raises
  that error after the events of the frames before it.
\<close>

theorem framing_roundtrip:
  assumes "represents fs log True" and "log \<noteq> []" and "length log \<le> 2 ^ 32"
    and "well_ended log" and "list_all (payload_ok parse) log"
    and "concat chunks = concat (read_after fs (- 1))"
  shows "consume_frames parse chunks =
    (case last log of
       (Error, p) \<Rightarrow> Inl (error_of parse p, delivered parse (butlast log))
     | _ \<Rightarrow> Inr (delivered parse log))"
proof -
  have "read_after fs (- 1) = log_frames log"
    using store.replay_log [OF assms(1)] by simp
  then have aw: "awaiting initial_consumer log (concat chunks)"
    using assms(2,3,4,6) by (simp add: awaiting_def initial_consumer_def encode_from_log)
  have "chunks \<noteq> []"
    using aw assms(2) by (cases log) (auto simp: awaiting_def initial_consumer_def)
  with feed_progress [OF aw assms(5)]
  have pr: "progress parse [] log [] (foldE (feed parse) initial_consumer chunks)"
    by (simp add: initial_consumer_def)
  show ?thesis
  proof (cases "foldE (feed parse) initial_consumer chunks")
    case (Inl failure)
    with pr show ?thesis by (auto simp: consume_frames_def)
  next
    case (Inr c)
    with pr obtain ds rest where "log = ds @ rest" "awaiting c rest []" "cn_events c = delivered parse ds"
        "Error \<notin> fst ` set ds"
        "rest = [] \<or> length (cn_buffered c) < FRAME_HEADER_BYTES + length (snd (hd rest))"
      by auto
    with awaiting_done [of c rest] have c: "awaiting c [] []" "cn_events c = delivered parse log"
        "Error \<notin> fst ` set log" by auto
    have "fst (last log) \<noteq> Error" using c(3) assms(2) by (metis image_eqI last_in_set)
    with Inr c show ?thesis
      by (cases "last log"; cases "fst (last log)") (auto simp: consume_frames_def awaiting_def)
  qed
qed

theorem framing_roundtrip_witness:
  "\<exists>fs. represents fs [(Body, [7]), (Complete, [1])] True \<and>
     consume_frames (\<lambda>_. Some ()) [concat (read_after fs (- 1))] =
       Inr [SinkBody [7], SinkComplete ()]"
proof -
  have len: "length [7 :: byte] \<le> MAX_FRAME_PAYLOAD_BYTES" "length [1 :: byte] \<le> MAX_FRAME_PAYLOAD_BYTES"
    by (simp_all add: MAX_FRAME_PAYLOAD_BYTES_def)
  obtain fs1 where "represents fs1 [(Body, [7])] False"
    using store.append_ok [OF store.represents_empty len(1), of Body False] by auto
  then obtain fs where fs: "represents fs [(Body, [7]), (Complete, [1])] True"
    using store.append_ok [OF _ len(2), of fs1 "[(Body, [7])]" Complete True] by auto
  have "consume_frames (\<lambda>_. Some ()) [concat (read_after fs (- 1))] =
      Inr (delivered (\<lambda>_. Some ()) [(Body, [7]), (Complete, [1])])"
    using framing_roundtrip [OF fs, of "\<lambda>_. Some ()" "[concat (read_after fs (- 1))]"] len
    by (simp add: payload_ok_def)
  with fs show ?thesis by (auto simp: frame_events_def)
qed

section \<open>What follows a terminal frame\<close>

lemma drain_error:
  "take_frame parse c = Inl e \<Longrightarrow> FRAME_HEADER_BYTES \<le> length (cn_buffered c) \<Longrightarrow>
     drain parse c = Inl e"
  by (simp add: drain.simps [of parse c])

lemma feed_complete:
  assumes "cn_buffered c = []" and "cn_expected c < 2 ^ 32" and "payload_ok parse (Complete, p)"
    and "parse p = Some j"
  shows "feed parse c (encode_frame Complete (cn_expected c) p) =
    Inr \<lparr>cn_buffered = [], cn_expected = Suc (cn_expected c), cn_terminal = True,
         cn_events = cn_events c @ [SinkComplete j]\<rparr>"
proof -
  let ?c = "c\<lparr>cn_buffered := encode_frame Complete (cn_expected c) p\<rparr>"
  have "drain parse ?c = drain parse \<lparr>cn_buffered = [], cn_expected = Suc (cn_expected c),
      cn_terminal = True, cn_events = cn_events c @ [SinkComplete j]\<rparr>"
    using drain_frame [of ?c Complete p "[]" parse] assms by (simp add: frame_events_def)
  then show ?thesis
    using assms(1) by (simp add: feed_def drain.simps FRAME_HEADER_BYTES_def)
qed

lemma two_completes_one_chunk:
  assumes "payload_ok parse (Complete, p)" and "parse p = Some i"
  shows "consume_frames parse [encode_frame Complete 0 p @ encode_frame Complete 1 q] =
      Inl (BytesAfterTerminal, [SinkComplete i])"
proof -
  let ?b = "encode_frame Complete 0 p @ encode_frame Complete 1 q"
  let ?c = "initial_consumer\<lparr>cn_buffered := ?b\<rparr>"
  have "take_frame parse ?c = accept_frame parse ?c Complete p (encode_frame Complete 1 q)"
    using assms(1) by (intro take_frame_encoded [where n = 0]) (simp_all add: initial_consumer_def payload_ok_def)
  then have "take_frame parse ?c = Inl (BytesAfterTerminal, [SinkComplete i])"
    using assms(2) by (simp add: accept_frame_def dispatch_frame_def initial_consumer_def)
  then have "drain parse ?c = Inl (BytesAfterTerminal, [SinkComplete i])"
    by (rule drain_error) simp
  then show ?thesis by (simp add: consume_frames_def feed_def initial_consumer_def)
qed

lemma two_completes_two_chunks:
  assumes "payload_ok parse (Complete, p)" and "payload_ok parse (Complete, q)"
    and "parse p = Some i" and "parse q = Some j"
  shows "consume_frames parse [encode_frame Complete 0 p, encode_frame Complete 1 q] =
      Inr [SinkComplete i, SinkComplete j]"
proof -
  let ?c1 = "\<lparr>cn_buffered = [], cn_expected = 1, cn_terminal = True, cn_events = [SinkComplete i]\<rparr>"
  have "feed parse initial_consumer (encode_frame Complete 0 p) = Inr ?c1"
    using feed_complete [of initial_consumer parse p i] assms by (simp add: initial_consumer_def)
  moreover have "feed parse ?c1 (encode_frame Complete 1 q) =
      Inr \<lparr>cn_buffered = [], cn_expected = 2, cn_terminal = True,
           cn_events = [SinkComplete i, SinkComplete j]\<rparr>"
    using feed_complete [of ?c1 parse q j] assms by simp
  ultimately show ?thesis by (simp add: consume_frames_def)
qed

text \<open>
  C35. The check for bytes after the terminal frame depends on how the network cut the stream.
  Two Complete frames in one chunk are rejected with \<open>BytesAfterTerminal\<close>; the same bytes in
  two chunks, one frame each, are accepted and complete the sink twice.
\<close>

theorem terminal_check_depends_on_chunks:
  assumes "payload_ok parse (Complete, p)" and "payload_ok parse (Complete, q)"
    and "parse p = Some i" and "parse q = Some j"
  shows "consume_frames parse [encode_frame Complete 0 p @ encode_frame Complete 1 q] =
      Inl (BytesAfterTerminal, [SinkComplete i]) \<and>
    consume_frames parse [encode_frame Complete 0 p, encode_frame Complete 1 q] =
      Inr [SinkComplete i, SinkComplete j]"
  using two_completes_one_chunk [OF assms(1,3)] two_completes_two_chunks [OF assms] by blast

theorem terminal_check_depends_on_chunks_witness:
  "consume_frames (\<lambda>_. Some True) [encode_frame Complete 0 [1], encode_frame Complete 1 [2]] =
     Inr [SinkComplete True, SinkComplete True]"
  using terminal_check_depends_on_chunks [of "\<lambda>_. Some True" "[1]" "[2]" True True]
  by (simp add: payload_ok_def MAX_FRAME_PAYLOAD_BYTES_def)

end
