(* ===== verification/Proxy_Execution.thy ===== *)
theory Proxy_Execution
  imports Frame_Store
begin

text \<open>
  The proxy's execution service (\<open>ExecutionService\<close> in
  \<open>apps/proxy/src/application/execution-service.ts\<close>): creation with idempotent replay, request
  body upload, response streaming, cancellation, timeout, release and expiry of target
  executions, with per-principal accounting of execution slots and cache bytes.

  JavaScript runs the code between two \<open>await\<close>s without interruption, so each definition below
  is one such segment as a function on the service state. A suspended frame append is an
  element of \<open>ex_appends\<close> that carries what its caller does when the write completes. The
  SHA-256 digests and the serialised metadata frames (which carry clock readings) are
  parameters; timings and transport observations inside them are not represented.
\<close>

section \<open>Data\<close>

datatype body_mode = ModeNone | ModeStream

record descriptor =
  d_url :: string
  d_headers :: "(string \<times> string) list"
  d_body_mode :: body_mode
  d_body_length :: "nat option"
  d_body_sha256 :: "string option"
  d_max_response_bytes :: nat
  d_total_timeout_ms :: nat

record limits =
  lim_header_count :: nat
  lim_request_bytes :: nat
  lim_response_bytes :: nat
  lim_cache_bytes :: int
  lim_executions :: int
  lim_retention_ms :: nat

datatype execution_state = Accepted | Active | Completed | Failed | Cancelled

datatype body_state = NotRequired | AwaitingUpload | BodyComplete

datatype response_state = RWaiting | RStreaming | RComplete | RFailed | RCancelled

record failure =
  fa_category :: string
  fa_code :: string
  fa_message :: string
  fa_phase :: string
  fa_retryable :: bool

text \<open>What the caller of a suspended append does after it: write the remaining
  pieces of the chunk and go on reading the response, mark the execution completed, or finish a failure with the given terminal state.\<close>

datatype continuation =
    ContinueRun "byte list list"
  | ThenComplete
  | ThenFail execution_state failure

text \<open>Where the asynchronous \<open>#run\<close> of an execution is suspended.\<close>

datatype run_phase = NotStarted | Resolving | Opening | Reading | Writing | Finished

record pending_append =
  pa_ticket :: append_ticket
  pa_bytes :: int
  pa_released :: int
  pa_then :: continuation

record execution =
  ex_id :: string
  ex_principal :: string
  ex_idempotency_key :: string
  ex_hash :: string
  ex_created_at :: nat
  ex_store :: frame_store
  ex_target :: descriptor
  ex_cache_bytes :: int
  ex_terminal_reserve :: int
  ex_terminating :: bool
  ex_state :: execution_state
  ex_body_state :: body_state
  ex_response_state :: response_state
  ex_error :: "failure option"
  ex_expires_at :: "nat option"
  ex_reader_active :: bool
  ex_total_timer :: bool
  ex_expiry_timer :: bool
  ex_run :: run_phase
  ex_body_bytes :: nat
  ex_appends :: "pending_append list"

record pending_creation =
  pc_principal :: string
  pc_idempotency_key :: string
  pc_descriptor :: descriptor
  pc_hash :: string

record service =
  sv_executions :: "(string \<times> execution) list"
  sv_idempotency :: "(string \<times> string) list"
  sv_pending :: "(string \<times> pending_creation) list"
  sv_expired :: "(string \<times> string) list"
  sv_counts :: "(string \<times> int) list"
  sv_cache_bytes :: "(string \<times> int) list"
  sv_reserved :: "(string \<times> int) list"

record session =
  se_id :: string
  se_state :: execution_state
  se_body_state :: body_state
  se_response_state :: response_state
  se_created_at :: nat
  se_expires_at :: "nat option"
  se_error :: "failure option"

datatype service_error =
    IdempotencyConflict
  | RequestMetadataInvalid
  | RequestBodyLimitExceeded
  | PrincipalCapacity
  | RequestBodyUpload
  | ExecutionExpired
  | ReaderConflict
  | ExecutionNotTerminal
  | CacheCapacity
  | FrameAppend frame_error

definition TERMINAL_FRAME_RESERVE_BYTES :: int where
  "TERMINAL_FRAME_RESERVE_BYTES = 4096"

definition MAX_EXPIRY_TOMBSTONES :: nat where
  "MAX_EXPIRY_TOMBSTONES = 10000"

definition FORBIDDEN_TARGET_HEADERS :: "string list" where
  "FORBIDDEN_TARGET_HEADERS =
     [''host'', ''content-length'', ''transfer-encoding'', ''connection'', ''keep-alive'',
      ''proxy-connection'', ''upgrade'', ''te'', ''trailer'', ''expect'',
      ''proxy-authorization'']"

definition empty_service :: service where
  "empty_service =
     \<lparr>sv_executions = [], sv_idempotency = [], sv_pending = [], sv_expired = [],
      sv_counts = [], sv_cache_bytes = [], sv_reserved = []\<rparr>"

definition to_session :: "execution \<Rightarrow> session" where
  "to_session e =
     \<lparr>se_id = ex_id e, se_state = ex_state e, se_body_state = ex_body_state e,
      se_response_state = ex_response_state e, se_created_at = ex_created_at e,
      se_expires_at = ex_expires_at e, se_error = ex_error e\<rparr>"

definition is_terminal :: "execution \<Rightarrow> bool" where
  "is_terminal e \<longleftrightarrow> ex_state e \<in> {Completed, Failed, Cancelled}"

definition owned :: "service \<Rightarrow> string \<Rightarrow> string \<Rightarrow> execution option" where
  "owned sv p eid =
     (case map_of (sv_executions sv) eid of
        None \<Rightarrow> None
      | Some e \<Rightarrow> if ex_principal e = p then Some e else None)"

definition put_execution :: "execution \<Rightarrow> service \<Rightarrow> service" where
  "put_execution e sv = sv\<lparr>sv_executions := AList.update (ex_id e) e (sv_executions sv)\<rparr>"

text \<open>\<open>#decrement\<close>: subtract and drop entries that reach zero.\<close>

definition decrement :: "(string \<times> int) list \<Rightarrow> string \<Rightarrow> int \<Rightarrow> (string \<times> int) list" where
  "decrement m k amount =
     (let remaining = counter m k - amount in
      if remaining \<le> 0 then AList.delete k m else AList.update k remaining m)"

section \<open>Accounting of slots and cache bytes\<close>

definition validate_descriptor :: "limits \<Rightarrow> descriptor \<Rightarrow> service_error + unit" where
  "validate_descriptor lim d =
     bindE (requireE (length (d_headers d) \<le> lim_header_count lim) RequestMetadataInvalid) (\<lambda>_.
     bindE (requireE (\<forall>(name, value) \<in> set (d_headers d).
              js_lower name \<notin> set FORBIDDEN_TARGET_HEADERS) RequestMetadataInvalid) (\<lambda>_.
     bindE (requireE (case d_body_length d of None \<Rightarrow> True | Some n \<Rightarrow> n \<le> lim_request_bytes lim)
              RequestBodyLimitExceeded) (\<lambda>_.
     requireE (d_max_response_bytes d \<le> lim_response_bytes lim) RequestMetadataInvalid)))"

definition reserve_execution :: "limits \<Rightarrow> string \<Rightarrow> service \<Rightarrow> service_error + service" where
  "reserve_execution lim p sv =
     (let count = counter (sv_counts sv) p;
          bytes = counter (sv_cache_bytes sv) p;
          reserved = counter (sv_reserved sv) p in
      if count \<ge> lim_executions lim then Inl PrincipalCapacity
      else if bytes + reserved + TERMINAL_FRAME_RESERVE_BYTES > lim_cache_bytes lim
        then Inl PrincipalCapacity
      else Inr (sv\<lparr>sv_counts := AList.update p (count + 1) (sv_counts sv),
                   sv_reserved := AList.update p (reserved + TERMINAL_FRAME_RESERVE_BYTES)
                                    (sv_reserved sv)\<rparr>))"

definition release_execution_reservation :: "string \<Rightarrow> service \<Rightarrow> service" where
  "release_execution_reservation p sv =
     sv\<lparr>sv_counts := decrement (sv_counts sv) p 1,
        sv_reserved := decrement (sv_reserved sv) p TERMINAL_FRAME_RESERVE_BYTES\<rparr>"

text \<open>\<open>#reserveFrameBytes\<close>: the released reserve, the charged execution and the counters. An
  execution is an object in the code; here its new value is stored by \<open>put_execution\<close> at the end
  of the segment.\<close>

definition reserve_frame_bytes ::
  "limits \<Rightarrow> execution \<Rightarrow> int \<Rightarrow> bool \<Rightarrow> service \<Rightarrow> service_error + (int \<times> execution \<times> service)" where
  "reserve_frame_bytes lim e frame_bytes terminal sv =
     (let p = ex_principal e;
          used = counter (sv_cache_bytes sv) p;
          released = (if terminal then ex_terminal_reserve e else 0);
          reserved = counter (sv_reserved sv) p - released in
      if used + reserved + frame_bytes > lim_cache_bytes lim then Inl CacheCapacity
      else Inr (released,
        e\<lparr>ex_terminal_reserve := ex_terminal_reserve e - released,
          ex_cache_bytes := ex_cache_bytes e + frame_bytes\<rparr>,
        sv\<lparr>sv_reserved := AList.update p reserved (sv_reserved sv),
           sv_cache_bytes := AList.update p (used + frame_bytes) (sv_cache_bytes sv)\<rparr>))"

definition rollback_counters :: "string \<Rightarrow> int \<Rightarrow> int \<Rightarrow> service \<Rightarrow> service" where
  "rollback_counters p frame_bytes released sv =
     sv\<lparr>sv_cache_bytes := decrement (sv_cache_bytes sv) p frame_bytes,
        sv_reserved := AList.update p (counter (sv_reserved sv) p + released) (sv_reserved sv)\<rparr>"

definition rollback_frame_bytes :: "execution \<Rightarrow> int \<Rightarrow> int \<Rightarrow> service \<Rightarrow> execution \<times> service" where
  "rollback_frame_bytes e frame_bytes released sv =
     (e\<lparr>ex_cache_bytes := ex_cache_bytes e - frame_bytes,
        ex_terminal_reserve := ex_terminal_reserve e + released\<rparr>,
      rollback_counters (ex_principal e) frame_bytes released sv)"

text \<open>\<open>#appendFrame\<close> up to its file write: either the write is now suspended in \<open>ex_appends\<close>, or
  the append was refused at once and its accounting undone.\<close>

definition append_frame ::
  "limits \<Rightarrow> execution \<Rightarrow> frame_type \<Rightarrow> byte list \<Rightarrow> bool \<Rightarrow> continuation \<Rightarrow> service
     \<Rightarrow> execution \<times> service \<times> service_error option" where
  "append_frame lim e t payload terminal k sv =
     (let frame_bytes = int (FRAME_HEADER_BYTES + length payload) in
      case reserve_frame_bytes lim e frame_bytes terminal sv of
        Inl err \<Rightarrow> (e, sv, Some err)
      | Inr (released, e1, sv1) \<Rightarrow>
          (case append_begin (ex_store e1) t payload terminal of
             Inl err \<Rightarrow>
               (case rollback_frame_bytes e1 frame_bytes released sv1 of
                  (e2, sv2) \<Rightarrow> (e2, sv2, Some (FrameAppend err)))
           | Inr tk \<Rightarrow>
               (e1\<lparr>ex_appends := ex_appends e1 @
                    [\<lparr>pa_ticket = tk, pa_bytes = frame_bytes, pa_released = released, pa_then = k\<rparr>]\<rparr>,
                sv1, None)))"

section \<open>Failure mapping\<close>

datatype cause =
    CauseFailure failure
  | CauseTransport "string option" bool string
  | CauseResolution string string string bool
  | CauseCacheCapacity
  | CauseOther "string option"

definition mk_failure :: "string \<Rightarrow> string \<Rightarrow> string \<Rightarrow> string \<Rightarrow> bool \<Rightarrow> failure" where
  "mk_failure category code message phase retryable =
     \<lparr>fa_category = category, fa_code = code, fa_message = message, fa_phase = phase,
      fa_retryable = retryable\<rparr>"

definition code_starts :: "string option \<Rightarrow> string \<Rightarrow> bool" where
  "code_starts code p = (case code of None \<Rightarrow> False | Some c \<Rightarrow> starts_with c p)"

definition code_includes :: "string option \<Rightarrow> string \<Rightarrow> bool" where
  "code_includes code p = (case code of None \<Rightarrow> False | Some c \<Rightarrow> index_of p c \<noteq> None)"

definition known_network_failure :: "string option \<Rightarrow> failure option" where
  "known_network_failure code =
     (if code = Some ''ECONNREFUSED'' then
        Some (mk_failure ''network'' ''connection_refused'' ''The target refused the connection.''
                ''connect'' True)
      else if code = Some ''ECONNRESET'' \<or> code = Some ''EPIPE'' then
        Some (mk_failure ''network'' ''connection_reset'' ''The target connection was reset.''
                ''response'' True)
      else if code_starts code ''ERR_TLS'' \<or> code = Some ''CERT_HAS_EXPIRED'' then
        Some (mk_failure ''network'' ''tls_handshake_failed'' ''The target TLS handshake failed.''
                ''tls'' False)
      else None)"

definition default_failure :: "response_state \<Rightarrow> failure" where
  "default_failure rs =
     mk_failure ''network'' ''target_request_failed'' ''The target request failed.''
       (if rs = RStreaming then ''response'' else ''connect'') False"

definition transport_failure :: "string option \<Rightarrow> bool \<Rightarrow> string \<Rightarrow> failure option" where
  "transport_failure code tls_observed message =
     (if code = Some ''APINTERACT_CONNECT_TIMEOUT'' then
        Some (mk_failure ''network'' ''connect_timeout'' message ''connect'' True)
      else if code = Some ''APINTERACT_RESPONSE_HEADER_TIMEOUT'' then
        Some (mk_failure ''network'' ''response_header_timeout'' message ''response'' True)
      else if code = Some ''APINTERACT_RESPONSE_IDLE_TIMEOUT'' then
        Some (mk_failure ''network'' ''response_idle_timeout'' message ''response'' True)
      else if tls_observed \<or> code_starts code ''ERR_TLS'' \<or> code_starts code ''CERT_'' \<or>
              code_includes code ''SELF_SIGNED'' \<or> code_includes code ''ISSUER_CERT'' then
        Some (mk_failure ''network'' ''tls_handshake_failed'' ''The target TLS handshake failed.''
                ''tls'' False)
      else known_network_failure code)"

fun to_failure :: "cause \<Rightarrow> response_state \<Rightarrow> failure" where
  "to_failure (CauseFailure f) rs = f"
| "to_failure (CauseTransport code tls_observed message) rs =
     (case transport_failure code tls_observed message of
        Some f \<Rightarrow> f
      | None \<Rightarrow> default_failure rs)"
| "to_failure (CauseResolution code message phase retryable) rs =
     mk_failure (if code = ''dns_resolution_failed'' then ''network'' else ''proxy'')
       code message phase retryable"
| "to_failure CauseCacheCapacity rs =
     mk_failure ''proxy'' ''proxy_capacity_exceeded''
       ''The principal response-cache limit was reached.'' ''cache'' False"
| "to_failure (CauseOther code) rs =
     (case known_network_failure code of Some f \<Rightarrow> f | None \<Rightarrow> default_failure rs)"

section \<open>Terminal transitions\<close>

definition mark_terminal ::
  "limits \<Rightarrow> nat \<Rightarrow> execution_state \<Rightarrow> response_state \<Rightarrow> failure option \<Rightarrow> execution \<Rightarrow> execution" where
  "mark_terminal lim now st rs err e =
     (if is_terminal e then e
      else e\<lparr>ex_total_timer := False, ex_state := st, ex_response_state := rs, ex_error := err,
             ex_expires_at := Some (now + lim_retention_ms lim), ex_expiry_timer := True\<rparr>)"

text \<open>The \<open>finally\<close> block of \<open>#fail\<close>.\<close>

definition finish_fail :: "limits \<Rightarrow> nat \<Rightarrow> execution_state \<Rightarrow> failure \<Rightarrow> execution \<Rightarrow> execution" where
  "finish_fail lim now st f e =
     (mark_terminal lim now st (if st = Cancelled then RCancelled else RFailed) (Some f) e)
       \<lparr>ex_terminating := False\<rparr>"

text \<open>\<open>#fail\<close> up to its frame write; \<open>json\<close> serialises the error.\<close>

definition begin_fail ::
  "limits \<Rightarrow> nat \<Rightarrow> (failure \<Rightarrow> byte list) \<Rightarrow> failure \<Rightarrow> execution_state \<Rightarrow> execution \<Rightarrow> service
     \<Rightarrow> execution \<times> service" where
  "begin_fail lim now json f st e sv =
     (if is_terminal e \<or> ex_terminating e then (e, sv)
      else
        let e1 = e\<lparr>ex_terminating := True, ex_error := Some f\<rparr> in
        if fs_terminal (ex_store e1) then (finish_fail lim now st f e1, sv)
        else
          (case append_frame lim e1 Error (json f) True (ThenFail st f) sv of
             (e2, sv2, None) \<Rightarrow> (e2, sv2)
           | (e2, sv2, Some err) \<Rightarrow> (finish_fail lim now st f e2, sv2)))"

section \<open>The target run\<close>

text \<open>The \<open>catch\<close> block of \<open>#run\<close>.\<close>

definition run_catch ::
  "limits \<Rightarrow> nat \<Rightarrow> (failure \<Rightarrow> byte list) \<Rightarrow> cause \<Rightarrow> execution \<Rightarrow> service \<Rightarrow> execution \<times> service" where
  "run_catch lim now json c e sv =
     (let e1 = e\<lparr>ex_run := Finished\<rparr> in
      if is_terminal e1 then (e1, sv)
      else begin_fail lim now json (to_failure c (ex_response_state e1)) Failed e1 sv)"

fun append_cause :: "service_error \<Rightarrow> cause" where
  "append_cause CacheCapacity = CauseCacheCapacity"
| "append_cause _ = CauseOther None"

text \<open>An append of \<open>#run\<close>: suspended, or its error caught.\<close>

definition run_append ::
  "limits \<Rightarrow> nat \<Rightarrow> (failure \<Rightarrow> byte list) \<Rightarrow> frame_type \<Rightarrow> byte list \<Rightarrow> bool \<Rightarrow> continuation
     \<Rightarrow> execution \<Rightarrow> service \<Rightarrow> execution \<times> service" where
  "run_append lim now json t payload terminal k e sv =
     (case append_frame lim (e\<lparr>ex_run := Writing\<rparr>) t payload terminal k sv of
        (e1, sv1, None) \<Rightarrow> (e1, sv1)
      | (e1, sv1, Some err) \<Rightarrow> run_catch lim now json (append_cause err) e1 sv1)"

text \<open>\<open>subarray(offset, offset + MAX_FRAME_PAYLOAD_BYTES)\<close> for each offset of the body loop.\<close>

function pieces :: "byte list \<Rightarrow> byte list list" where
  "pieces bytes =
     (if bytes = [] then []
      else take MAX_FRAME_PAYLOAD_BYTES bytes # pieces (drop MAX_FRAME_PAYLOAD_BYTES bytes))"
  by pat_completeness auto
termination
  by (relation "measure length") (auto simp: MAX_FRAME_PAYLOAD_BYTES_def)

declare pieces.simps [simp del]

fun write_pieces ::
  "limits \<Rightarrow> nat \<Rightarrow> (failure \<Rightarrow> byte list) \<Rightarrow> byte list list \<Rightarrow> execution \<Rightarrow> service
     \<Rightarrow> execution \<times> service" where
  "write_pieces lim now json [] e sv = (e\<lparr>ex_run := Reading\<rparr>, sv)"
| "write_pieces lim now json (x # rest) e sv =
     run_append lim now json Body x False (ContinueRun rest) e sv"

text \<open>After \<open>approve\<close> returned.\<close>

definition run_approved :: "execution \<Rightarrow> execution" where
  "run_approved e = (if is_terminal e then e\<lparr>ex_run := Finished\<rparr> else e\<lparr>ex_run := Opening\<rparr>)"

text \<open>After the target answered; \<open>head\<close> is the serialised response head.\<close>

definition run_opened ::
  "limits \<Rightarrow> nat \<Rightarrow> (failure \<Rightarrow> byte list) \<Rightarrow> byte list \<Rightarrow> execution \<Rightarrow> service \<Rightarrow> execution \<times> service" where
  "run_opened lim now json head e sv =
     (if is_terminal e then (e\<lparr>ex_run := Finished\<rparr>, sv)
      else run_append lim now json ResponseHead head False (ContinueRun [])
             (e\<lparr>ex_response_state := RStreaming\<rparr>) sv)"

definition response_limit_failure :: failure where
  "response_limit_failure =
     mk_failure ''proxy'' ''response_body_limit_exceeded''
       ''The target response exceeded the response-body limit.'' ''response'' False"

definition run_chunk ::
  "limits \<Rightarrow> nat \<Rightarrow> (failure \<Rightarrow> byte list) \<Rightarrow> byte list \<Rightarrow> execution \<Rightarrow> service \<Rightarrow> execution \<times> service" where
  "run_chunk lim now json bytes e sv =
     (let e1 = e\<lparr>ex_body_bytes := ex_body_bytes e + length bytes\<rparr> in
      if ex_body_bytes e1 > min (d_max_response_bytes (ex_target e)) (lim_response_bytes lim)
      then run_catch lim now json (CauseFailure response_limit_failure) e1 sv
      else write_pieces lim now json (pieces bytes) e1 sv)"

definition run_end ::
  "limits \<Rightarrow> nat \<Rightarrow> (failure \<Rightarrow> byte list) \<Rightarrow> byte list \<Rightarrow> execution \<Rightarrow> service \<Rightarrow> execution \<times> service" where
  "run_end lim now json summary e sv =
     run_append lim now json Complete summary True ThenComplete e sv"

section \<open>Suspended appends resume\<close>

definition drop_append :: "nat \<Rightarrow> execution \<Rightarrow> execution" where
  "drop_append i e = e\<lparr>ex_appends := take i (ex_appends e) @ drop (Suc i) (ex_appends e)\<rparr>"

definition append_ok ::
  "limits \<Rightarrow> nat \<Rightarrow> (failure \<Rightarrow> byte list) \<Rightarrow> nat \<Rightarrow> execution \<Rightarrow> service \<Rightarrow> execution \<times> service" where
  "append_ok lim now json i e sv =
     (let a = ex_appends e ! i;
          e1 = (drop_append i e)\<lparr>ex_store := append_finish (pa_ticket a) (ex_store e)\<rparr> in
      case pa_then a of
        ContinueRun rest \<Rightarrow> write_pieces lim now json rest e1 sv
      | ThenComplete \<Rightarrow> (mark_terminal lim now Completed RComplete None (e1\<lparr>ex_run := Finished\<rparr>), sv)
      | ThenFail st f \<Rightarrow> (finish_fail lim now st f e1, sv))"

definition append_fail ::
  "limits \<Rightarrow> nat \<Rightarrow> (failure \<Rightarrow> byte list) \<Rightarrow> string option \<Rightarrow> nat \<Rightarrow> execution \<Rightarrow> service
     \<Rightarrow> execution \<times> service" where
  "append_fail lim now json code i e sv =
     (let a = ex_appends e ! i in
      case rollback_frame_bytes (drop_append i e) (pa_bytes a) (pa_released a) sv of
        (e1, sv1) \<Rightarrow>
          (case pa_then a of
             ThenFail st f \<Rightarrow> (finish_fail lim now st f e1, sv1)
           | _ \<Rightarrow> run_catch lim now json (CauseOther code) e1 sv1))"

section \<open>Principal-facing operations\<close>

definition idempotency_key :: "string \<Rightarrow> string \<Rightarrow> string" where
  "idempotency_key p ik = p @ '':'' @ ik"

datatype create_outcome = Replayed session | AwaitPending string | Started string

definition create_pending ::
  "limits \<Rightarrow> string \<Rightarrow> string \<Rightarrow> descriptor \<Rightarrow> string \<Rightarrow> service
     \<Rightarrow> service \<times> (service_error + create_outcome)" where
  "create_pending lim p ik d h sv =
     (let key = idempotency_key p ik in
      case map_of (sv_pending sv) key of
        Some c \<Rightarrow>
          if pc_hash c \<noteq> h then (sv, Inl IdempotencyConflict) else (sv, Inr (AwaitPending key))
      | None \<Rightarrow>
          (case reserve_execution lim p sv of
             Inl err \<Rightarrow> (sv, Inl err)
           | Inr sv1 \<Rightarrow>
               (sv1\<lparr>sv_pending := AList.update key
                      \<lparr>pc_principal = p, pc_idempotency_key = ik, pc_descriptor = d, pc_hash = h\<rparr>
                      (sv_pending sv1)\<rparr>,
                Inr (Started key))))"

definition create_begin ::
  "limits \<Rightarrow> string \<Rightarrow> string \<Rightarrow> descriptor \<Rightarrow> string \<Rightarrow> service
     \<Rightarrow> service \<times> (service_error + create_outcome)" where
  "create_begin lim p ik d h sv =
     (case validate_descriptor lim d of
        Inl err \<Rightarrow> (sv, Inl err)
      | Inr _ \<Rightarrow>
          let key = idempotency_key p ik in
          case map_of (sv_idempotency sv) key of
            None \<Rightarrow> create_pending lim p ik d h sv
          | Some existing_id \<Rightarrow>
              (case map_of (sv_executions sv) existing_id of
                 None \<Rightarrow>
                   create_pending lim p ik d h
                     (sv\<lparr>sv_idempotency := AList.delete key (sv_idempotency sv)\<rparr>)
               | Some e \<Rightarrow>
                   if ex_hash e \<noteq> h then (sv, Inl IdempotencyConflict)
                   else (sv, Inr (Replayed (to_session e)))))"

definition new_execution :: "string \<Rightarrow> nat \<Rightarrow> pending_creation \<Rightarrow> execution" where
  "new_execution eid now c =
     (let none = (d_body_mode (pc_descriptor c) = ModeNone) in
      \<lparr>ex_id = eid, ex_principal = pc_principal c, ex_idempotency_key = pc_idempotency_key c,
       ex_hash = pc_hash c, ex_created_at = now, ex_store = create_store,
       ex_target = pc_descriptor c, ex_cache_bytes = 0,
       ex_terminal_reserve = TERMINAL_FRAME_RESERVE_BYTES, ex_terminating = False,
       ex_state = (if none then Active else Accepted),
       ex_body_state = (if none then NotRequired else AwaitingUpload),
       ex_response_state = RWaiting, ex_error = None, ex_expires_at = None,
       ex_reader_active = False, ex_total_timer = True, ex_expiry_timer = False,
       ex_run = (if none then Resolving else NotStarted), ex_body_bytes = 0, ex_appends = []\<rparr>)"

text \<open>The frame store of a pending creation was created under the fresh id \<open>eid\<close>.\<close>

definition create_finish :: "string \<Rightarrow> string \<Rightarrow> nat \<Rightarrow> service \<Rightarrow> service" where
  "create_finish key eid now sv =
     (case map_of (sv_pending sv) key of
        None \<Rightarrow> sv
      | Some c \<Rightarrow>
          (put_execution (new_execution eid now c) sv)
            \<lparr>sv_idempotency := AList.update key eid (sv_idempotency sv),
             sv_pending := AList.delete key (sv_pending sv)\<rparr>)"

definition create_fail :: "string \<Rightarrow> service \<Rightarrow> service" where
  "create_fail key sv =
     (case map_of (sv_pending sv) key of
        None \<Rightarrow> sv
      | Some c \<Rightarrow>
          (release_execution_reservation (pc_principal c) sv)
            \<lparr>sv_pending := AList.delete key (sv_pending sv)\<rparr>)"

definition upload ::
  "limits \<Rightarrow> (byte list \<Rightarrow> string) \<Rightarrow> string \<Rightarrow> string \<Rightarrow> byte list \<Rightarrow> service
     \<Rightarrow> service \<times> (service_error + session option)" where
  "upload lim sha256 p eid body sv =
     (case owned sv p eid of
        None \<Rightarrow> (sv, Inr None)
      | Some e \<Rightarrow>
          if ex_body_state e \<noteq> AwaitingUpload \<or> d_body_mode (ex_target e) \<noteq> ModeStream
          then (sv, Inl RequestBodyUpload)
          else if length body > lim_request_bytes lim then (sv, Inl RequestBodyLimitExceeded)
          else if d_body_length (ex_target e) \<notin> {None, Some (length body)}
          then (sv, Inl RequestBodyUpload)
          else if d_body_sha256 (ex_target e) \<notin> {None, Some (sha256 body)}
          then (sv, Inl RequestBodyUpload)
          else
            let e1 = e\<lparr>ex_body_state := BodyComplete, ex_state := Active, ex_run := Resolving\<rparr> in
            (put_execution e1 sv, Inr (Some (to_session e1))))"

definition get :: "string \<Rightarrow> string \<Rightarrow> service \<Rightarrow> session option" where
  "get p eid sv = map_option to_session (owned sv p eid)"

definition open_stream :: "string \<Rightarrow> string \<Rightarrow> service \<Rightarrow> service \<times> (service_error + string option)" where
  "open_stream p eid sv =
     (case owned sv p eid of
        None \<Rightarrow>
          if map_of (sv_expired sv) eid = Some p then (sv, Inl ExecutionExpired) else (sv, Inr None)
      | Some e \<Rightarrow>
          if ex_reader_active e then (sv, Inl ReaderConflict)
          else (put_execution (e\<lparr>ex_reader_active := True\<rparr>) sv, Inr (Some eid)))"

definition cancelled_failure :: failure where
  "cancelled_failure =
     mk_failure ''proxy'' ''execution_cancelled'' ''The execution was cancelled.'' ''internal'' False"

definition cancel ::
  "limits \<Rightarrow> nat \<Rightarrow> (failure \<Rightarrow> byte list) \<Rightarrow> string \<Rightarrow> string \<Rightarrow> service \<Rightarrow> service" where
  "cancel lim now json p eid sv =
     (case owned sv p eid of
        None \<Rightarrow> sv
      | Some e \<Rightarrow>
          if is_terminal e then sv
          else case begin_fail lim now json cancelled_failure Cancelled e sv of
                 (e1, sv1) \<Rightarrow> put_execution e1 sv1)"

definition release_execution :: "execution \<Rightarrow> service \<Rightarrow> service" where
  "release_execution e sv =
     (if map_of (sv_executions sv) (ex_id e) \<noteq> Some e then sv
      else sv\<lparr>sv_executions := AList.delete (ex_id e) (sv_executions sv),
              sv_idempotency :=
                AList.delete (idempotency_key (ex_principal e) (ex_idempotency_key e))
                  (sv_idempotency sv),
              sv_counts := decrement (sv_counts sv) (ex_principal e) 1,
              sv_cache_bytes := decrement (sv_cache_bytes sv) (ex_principal e) (ex_cache_bytes e),
              sv_reserved :=
                decrement (sv_reserved sv) (ex_principal e) (ex_terminal_reserve e)\<rparr>)"

definition release :: "string \<Rightarrow> string \<Rightarrow> service \<Rightarrow> service \<times> (service_error + bool)" where
  "release p eid sv =
     (case owned sv p eid of
        None \<Rightarrow> (sv, Inr False)
      | Some e \<Rightarrow>
          if \<not> is_terminal e then (sv, Inl ExecutionNotTerminal)
          else (release_execution e sv, Inr True))"

section \<open>Timers and shutdown\<close>

fun evict_oldest :: "(string \<times> string) list \<Rightarrow> (string \<times> string) list" where
  "evict_oldest [] = []"
| "evict_oldest (t # m) =
     (if length (t # m) \<ge> MAX_EXPIRY_TOMBSTONES then evict_oldest m else t # m)"

definition retain_expiry_tombstone :: "string \<Rightarrow> string \<Rightarrow> service \<Rightarrow> service" where
  "retain_expiry_tombstone eid p sv =
     sv\<lparr>sv_expired := AList.update eid p (evict_oldest (sv_expired sv))\<rparr>"

definition expire_execution :: "execution \<Rightarrow> service \<Rightarrow> service" where
  "expire_execution e sv =
     (if map_of (sv_executions sv) (ex_id e) \<noteq> Some e then sv
      else release_execution e (retain_expiry_tombstone (ex_id e) (ex_principal e) sv))"

definition total_timeout_failure :: "execution_state \<Rightarrow> failure" where
  "total_timeout_failure st =
     mk_failure ''network'' ''total_timeout'' ''The execution exceeded its total time limit.''
       (if st = Accepted then ''upload'' else ''internal'') True"

definition total_timeout ::
  "limits \<Rightarrow> nat \<Rightarrow> (failure \<Rightarrow> byte list) \<Rightarrow> execution \<Rightarrow> service \<Rightarrow> execution \<times> service" where
  "total_timeout lim now json e sv =
     begin_fail lim now json (total_timeout_failure (ex_state e)) Failed
       (e\<lparr>ex_total_timer := False\<rparr>) sv"

definition close_service :: "service \<Rightarrow> service" where
  "close_service sv =
     (foldl (\<lambda>sv' entry. release_execution (snd entry) sv') sv (sv_executions sv))\<lparr>sv_expired := []\<rparr>"

end
