(* ===== verification/Execution_Accounting.thy ===== *)
theory Execution_Accounting
  imports Proxy_Execution
begin

text \<open>
  The service as a state machine (\<open>service_step\<close>) and the accounting invariant of
  \<open>ExecutionService\<close>: for every principal, the slot, cache and reserve counters are exactly what
  its retained executions and pending creations account for, and stay within the configured
  limits.
\<close>

section \<open>Steps\<close>

text \<open>The flag \<open>io\<close> says whether file writes may fail. A UUID is assumed fresh when drawn.\<close>

inductive service_step :: "limits \<Rightarrow> bool \<Rightarrow> service \<Rightarrow> service \<Rightarrow> bool" for lim io where
  st_create: "service_step lim io sv (fst (create_begin lim p ik d h sv))"
| st_created:
    "map_of (sv_executions sv) eid = None \<Longrightarrow> service_step lim io sv (create_finish key eid now sv)"
| st_create_fail: "service_step lim io sv (create_fail key sv)"
| st_upload: "service_step lim io sv (fst (upload lim sha p eid body sv))"
| st_stream: "service_step lim io sv (fst (open_stream p eid sv))"
| st_close_reader:
    "map_of (sv_executions sv) eid = Some e \<Longrightarrow>
     service_step lim io sv (put_execution (e\<lparr>ex_reader_active := False\<rparr>) sv)"
| st_cancel: "service_step lim io sv (cancel lim now json p eid sv)"
| st_release: "service_step lim io sv (fst (release p eid sv))"
| st_approved:
    "map_of (sv_executions sv) eid = Some e \<Longrightarrow> ex_run e = Resolving \<Longrightarrow>
     service_step lim io sv (put_execution (run_approved e) sv)"
| st_opened:
    "map_of (sv_executions sv) eid = Some e \<Longrightarrow> ex_run e = Opening \<Longrightarrow>
     run_opened lim now json head e sv = (e1, sv1) \<Longrightarrow>
     service_step lim io sv (put_execution e1 sv1)"
| st_chunk:
    "map_of (sv_executions sv) eid = Some e \<Longrightarrow> ex_run e = Reading \<Longrightarrow>
     run_chunk lim now json bytes e sv = (e1, sv1) \<Longrightarrow>
     service_step lim io sv (put_execution e1 sv1)"
| st_end:
    "map_of (sv_executions sv) eid = Some e \<Longrightarrow> ex_run e = Reading \<Longrightarrow>
     run_end lim now json summary e sv = (e1, sv1) \<Longrightarrow>
     service_step lim io sv (put_execution e1 sv1)"
| st_run_error:
    "map_of (sv_executions sv) eid = Some e \<Longrightarrow> ex_run e \<in> {Resolving, Opening, Reading} \<Longrightarrow>
     run_catch lim now json c e sv = (e1, sv1) \<Longrightarrow>
     service_step lim io sv (put_execution e1 sv1)"
| st_append_ok:
    "map_of (sv_executions sv) eid = Some e \<Longrightarrow> i < length (ex_appends e) \<Longrightarrow>
     append_ok lim now json i e sv = (e1, sv1) \<Longrightarrow>
     service_step lim io sv (put_execution e1 sv1)"
| st_append_fail:
    "io \<Longrightarrow> map_of (sv_executions sv) eid = Some e \<Longrightarrow> i < length (ex_appends e) \<Longrightarrow>
     append_fail lim now json code i e sv = (e1, sv1) \<Longrightarrow>
     service_step lim io sv (put_execution e1 sv1)"
| st_total_timeout:
    "map_of (sv_executions sv) eid = Some e \<Longrightarrow> ex_total_timer e \<Longrightarrow>
     total_timeout lim now json e sv = (e1, sv1) \<Longrightarrow>
     service_step lim io sv (put_execution e1 sv1)"
| st_expire:
    "map_of (sv_executions sv) eid = Some e \<Longrightarrow> ex_expiry_timer e \<Longrightarrow>
     service_step lim io sv (expire_execution e sv)"
| st_tombstone: "service_step lim io sv (sv\<lparr>sv_expired := AList.delete eid (sv_expired sv)\<rparr>)"

inductive reachable :: "limits \<Rightarrow> bool \<Rightarrow> service \<Rightarrow> bool" for lim io where
  reach_start: "reachable lim io empty_service"
| reach_step: "reachable lim io sv \<Longrightarrow> service_step lim io sv sv' \<Longrightarrow> reachable lim io sv'"

section \<open>The invariant\<close>

definition owned_total :: "(execution \<Rightarrow> int) \<Rightarrow> string \<Rightarrow> service \<Rightarrow> int" where
  "owned_total f p sv = sum_values (\<lambda>e. if ex_principal e = p then f e else 0) (sv_executions sv)"

definition pending_total :: "string \<Rightarrow> service \<Rightarrow> int" where
  "pending_total p sv = sum_values (\<lambda>c. if pc_principal c = p then 1 else 0) (sv_pending sv)"

text \<open>One execution is charged exactly the bytes written to its file plus those in flight.\<close>

definition charged :: "execution \<Rightarrow> bool" where
  "charged e \<longleftrightarrow>
     0 \<le> ex_terminal_reserve e \<and>
     (\<forall>a \<in> set (ex_appends e). pa_bytes a = int (length (tk_frame (pa_ticket a))) \<and>
                              0 \<le> pa_released a) \<and>
     ex_cache_bytes e = int (fs_write_offset (ex_store e)) + sum_list (map pa_bytes (ex_appends e))"

definition keyed :: "service \<Rightarrow> bool" where
  "keyed sv \<longleftrightarrow>
     distinct (map fst (sv_executions sv)) \<and> distinct (map fst (sv_pending sv)) \<and>
     (\<forall>eid e. map_of (sv_executions sv) eid = Some e \<longrightarrow> ex_id e = eid \<and> charged e)"

definition accounted :: "service \<Rightarrow> bool" where
  "accounted sv \<longleftrightarrow> keyed sv \<and>
     (\<forall>p. counter (sv_counts sv) p = owned_total (\<lambda>_. 1) p sv + pending_total p sv) \<and>
     (\<forall>p. counter (sv_cache_bytes sv) p = owned_total ex_cache_bytes p sv) \<and>
     (\<forall>p. counter (sv_reserved sv) p =
            owned_total ex_terminal_reserve p sv + TERMINAL_FRAME_RESERVE_BYTES * pending_total p sv)"

definition within_limits :: "limits \<Rightarrow> bool \<Rightarrow> service \<Rightarrow> bool" where
  "within_limits lim io sv \<longleftrightarrow>
     (\<forall>p. counter (sv_counts sv) p \<le> lim_executions lim \<and>
          counter (sv_cache_bytes sv) p \<le> lim_cache_bytes lim \<and>
          (\<not> io \<longrightarrow> counter (sv_cache_bytes sv) p + counter (sv_reserved sv) p \<le> lim_cache_bytes lim))"

definition sane :: "limits \<Rightarrow> bool \<Rightarrow> service \<Rightarrow> bool" where
  "sane lim io sv \<longleftrightarrow> accounted sv \<and> within_limits lim io sv"

section \<open>Sums and counters\<close>

lemma counter_decrement:
  "amount \<le> counter m k \<Longrightarrow>
     counter (decrement m k amount) k' = counter m k' - (if k' = k then amount else 0)"
  by (auto simp: decrement_def Let_def)

lemma put_simps [simp]:
  "sv_executions (put_execution e sv) = AList.update (ex_id e) e (sv_executions sv)"
  "sv_idempotency (put_execution e sv) = sv_idempotency sv"
  "sv_pending (put_execution e sv) = sv_pending sv"
  "sv_expired (put_execution e sv) = sv_expired sv"
  "sv_counts (put_execution e sv) = sv_counts sv"
  "sv_cache_bytes (put_execution e sv) = sv_cache_bytes sv"
  "sv_reserved (put_execution e sv) = sv_reserved sv"
  by (simp_all add: put_execution_def)

lemma alist_update_same: "map_of m k = Some x \<Longrightarrow> AList.update k x m = m"
  by (induction m) (auto split: if_splits)

lemma put_current: "map_of (sv_executions sv) (ex_id e) = Some e \<Longrightarrow> put_execution e sv = sv"
  by (simp add: put_execution_def alist_update_same)

lemma sum_values_swap:
  "sum_values f (AList.update k y m) = sum_values f (AList.update k x m) - f x + f y"
  by (cases "map_of m k") (simp_all add: sum_values_update)

lemma owned_total_swap:
  assumes "ex_id e' = ex_id e" "ex_principal e' = ex_principal e"
    and "sv_executions sv' = sv_executions sv"
  shows "owned_total f p (put_execution e' sv') = owned_total f p (put_execution e sv) +
    (if ex_principal e = p then f e' - f e else 0)"
  using sum_values_swap [of "\<lambda>e. if ex_principal e = p then f e else 0" "ex_id e" e' "sv_executions sv" e]
    assms by (simp add: owned_total_def)

lemma pending_total_put [simp]: "pending_total p (put_execution e sv) = pending_total p sv"
  by (simp add: pending_total_def)

lemma pending_total_nonneg: "0 \<le> pending_total p sv"
  unfolding pending_total_def by (rule sum_values_nonneg) simp

lemma charged_nonneg:
  assumes "charged e"
  shows "0 \<le> ex_terminal_reserve e" "0 \<le> ex_cache_bytes e"
    "a \<in> set (ex_appends e) \<Longrightarrow> pa_bytes a \<le> ex_cache_bytes e"
proof -
  have nonneg: "0 \<le> x" if "x \<in> set (map pa_bytes (ex_appends e))" for x
    using assms that by (auto simp: charged_def)
  then show "0 \<le> ex_cache_bytes e"
    using assms sum_list_nonneg [of "map pa_bytes (ex_appends e)"] by (simp add: charged_def)
  show "pa_bytes a \<le> ex_cache_bytes e" if "a \<in> set (ex_appends e)"
    using assms member_le_sum_list [of "pa_bytes a" "map pa_bytes (ex_appends e)"] that nonneg
    by (simp add: charged_def)
  show "0 \<le> ex_terminal_reserve e" using assms by (simp add: charged_def)
qed

lemma owned_total_member:
  assumes "keyed sv" and "map_of (sv_executions sv) eid = Some e" and "ex_principal e = p"
    and "\<And>x. charged x \<Longrightarrow> 0 \<le> f x"
  shows "f e \<le> owned_total f p sv"
proof -
  have "(\<lambda>e. if ex_principal e = p then f e else 0) e \<le> owned_total f p sv"
    unfolding owned_total_def
    using assms by (intro sum_values_member) (auto simp: keyed_def)
  with assms(3) show ?thesis by simp
qed

lemma owned_total_nonneg:
  assumes "keyed sv" and "\<And>x. charged x \<Longrightarrow> 0 \<le> f x"
  shows "0 \<le> owned_total f p sv"
  unfolding owned_total_def
  using assms by (intro sum_values_nonneg) (auto simp: keyed_def)

section \<open>Preservation, one operation at a time\<close>

lemma keyed_put_charged: "keyed (put_execution e sv) \<Longrightarrow> charged e"
  unfolding keyed_def put_simps using js_map.get_put_same [of "ex_id e" e] by blast

lemma keyed_put:
  assumes "keyed (put_execution e sv)" and "charged e'" and "ex_id e' = ex_id e"
    and "sv_executions sv' = sv_executions sv" and "sv_pending sv' = sv_pending sv"
  shows "keyed (put_execution e' sv')"
proof -
  have "map fst (sv_executions (put_execution e' sv')) = map fst (sv_executions (put_execution e sv))"
    by (simp add: update_keys assms(3,4))
  moreover have "distinct (map fst (sv_executions (put_execution e sv)))"
    using assms(1) unfolding keyed_def by blast
  moreover have "ex_id x = eid \<and> charged x"
    if "map_of (sv_executions (put_execution e' sv')) eid = Some x" for eid x
  proof (cases "eid = ex_id e")
    case True
    with that assms(2-4) show ?thesis by (simp add: js_map.get_put)
  next
    case False
    with that have "map_of (sv_executions (put_execution e sv)) eid = Some x"
      by (simp add: js_map.get_put assms(3,4))
    with assms(1) show ?thesis unfolding keyed_def by blast
  qed
  moreover have "distinct (map fst (sv_pending (put_execution e' sv')))"
    using assms(1) unfolding keyed_def put_simps assms(5) by blast
  ultimately show ?thesis unfolding keyed_def by metis
qed

lemma sane_put:
  assumes "sane lim io (put_execution e sv)"
    and "ex_id e' = ex_id e" and "ex_principal e' = ex_principal e" and "charged e'"
    and "sv_executions sv' = sv_executions sv" and "sv_pending sv' = sv_pending sv"
    and "sv_counts sv' = sv_counts sv"
    and "\<And>p. counter (sv_cache_bytes sv') p = counter (sv_cache_bytes sv) p +
           (if ex_principal e = p then ex_cache_bytes e' - ex_cache_bytes e else 0)"
    and "\<And>p. counter (sv_reserved sv') p = counter (sv_reserved sv) p +
           (if ex_principal e = p then ex_terminal_reserve e' - ex_terminal_reserve e else 0)"
    and "within_limits lim io sv'"
  shows "sane lim io (put_execution e' sv')"
proof -
  have "keyed (put_execution e' sv')"
    using assms keyed_put unfolding sane_def accounted_def by blast
  moreover have "pending_total p (put_execution e' sv') = pending_total p (put_execution e sv)" for p
    using assms by (simp add: pending_total_def)
  moreover note owned_total_swap [OF assms(2,3,5)]
  ultimately show ?thesis
    using assms by (simp add: sane_def accounted_def within_limits_def)
qed

lemma sane_put_same:
  assumes "sane lim io (put_execution e sv)"
    and "ex_id e' = ex_id e" and "ex_principal e' = ex_principal e"
    and "ex_cache_bytes e' = ex_cache_bytes e" and "ex_terminal_reserve e' = ex_terminal_reserve e"
    and "ex_appends e' = ex_appends e" and "ex_store e' = ex_store e"
  shows "sane lim io (put_execution e' sv)"
proof (rule sane_put [OF assms(1-3)])
  have "charged e"
    using assms(1) keyed_put_charged unfolding sane_def accounted_def by blast
  with assms(4-7) show "charged e'" by (simp add: charged_def)
  show "within_limits lim io sv" using assms(1) by (simp add: sane_def within_limits_def)
qed (simp_all add: assms(4,5))

lemma sane_current:
  assumes "sane lim io sv" and "map_of (sv_executions sv) eid = Some e"
  shows "sane lim io (put_execution e sv)" and "ex_id e = eid" and "charged e"
    and "put_execution e sv = sv"
proof -
  show "ex_id e = eid" "charged e"
    using assms by (auto simp: sane_def accounted_def keyed_def)
  with assms show "put_execution e sv = sv" by (simp add: put_current)
  with assms show "sane lim io (put_execution e sv)" by simp
qed

lemma sane_put_facts:
  assumes "sane lim io (put_execution e sv)"
  shows "charged e" and "ex_cache_bytes e \<le> counter (sv_cache_bytes sv) (ex_principal e)"
    and "ex_terminal_reserve e \<le> counter (sv_reserved sv) (ex_principal e)"
    and "0 \<le> counter (sv_reserved sv) p"
    and "within_limits lim io sv"
proof -
  let ?sv = "put_execution e sv"
  from assms have acc: "accounted ?sv" by (simp add: sane_def)
  then have keyed: "keyed ?sv" by (simp add: accounted_def)
  then show "charged e" by (rule keyed_put_charged)
  have here: "map_of (sv_executions ?sv) (ex_id e) = Some e" by simp
  have "ex_cache_bytes e \<le> owned_total ex_cache_bytes (ex_principal e) ?sv"
    by (rule owned_total_member [OF keyed here refl charged_nonneg(2)])
  moreover have "counter (sv_cache_bytes ?sv) (ex_principal e) =
      owned_total ex_cache_bytes (ex_principal e) ?sv"
    using acc unfolding accounted_def by blast
  ultimately show "ex_cache_bytes e \<le> counter (sv_cache_bytes sv) (ex_principal e)" by simp
  have reserve: "counter (sv_reserved ?sv) q = owned_total ex_terminal_reserve q ?sv +
      TERMINAL_FRAME_RESERVE_BYTES * pending_total q ?sv" for q
    using acc unfolding accounted_def by blast
  have pend: "0 \<le> TERMINAL_FRAME_RESERVE_BYTES * pending_total q ?sv" for q
    using pending_total_nonneg [of q ?sv] unfolding TERMINAL_FRAME_RESERVE_BYTES_def by simp
  have "ex_terminal_reserve e \<le> owned_total ex_terminal_reserve (ex_principal e) ?sv"
    by (rule owned_total_member [OF keyed here refl charged_nonneg(1)])
  then show "ex_terminal_reserve e \<le> counter (sv_reserved sv) (ex_principal e)"
    using reserve [of "ex_principal e"] pend [of "ex_principal e"] by simp
  have "0 \<le> owned_total ex_terminal_reserve p ?sv"
    by (rule owned_total_nonneg [OF keyed charged_nonneg(1)])
  then show "0 \<le> counter (sv_reserved sv) p"
    using reserve [of p] pend [of p] by simp
  show "within_limits lim io sv" using assms by (simp add: sane_def within_limits_def)
qed

lemma append_begin_length:
  "append_begin fs t payload terminal = Inr tk \<Longrightarrow>
     length (tk_frame tk) = FRAME_HEADER_BYTES + length payload"
  by (auto simp: append_begin_def Let_def result_simps)

lemma append_frame_sane:
  assumes "sane lim io (put_execution e sv)"
    and "append_frame lim e t payload terminal k sv = (e', sv', r)"
  shows "sane lim io (put_execution e' sv')"
proof -
  let ?n = "int (FRAME_HEADER_BYTES + length payload)"
  let ?p = "ex_principal e"
  let ?rel = "if terminal then ex_terminal_reserve e else 0"
  let ?reserved = "counter (sv_reserved sv) ?p - ?rel"
  let ?e1 = "e\<lparr>ex_terminal_reserve := ex_terminal_reserve e - ?rel,
                ex_cache_bytes := ex_cache_bytes e + ?n\<rparr>"
  let ?sv1 = "sv\<lparr>sv_reserved := AList.update ?p ?reserved (sv_reserved sv),
           sv_cache_bytes := AList.update ?p (counter (sv_cache_bytes sv) ?p + ?n) (sv_cache_bytes sv)\<rparr>"
  note facts = sane_put_facts [OF assms(1)]
  show ?thesis
  proof (cases "counter (sv_cache_bytes sv) ?p + ?reserved + ?n > lim_cache_bytes lim")
    case True
    with assms show ?thesis
      by (simp add: append_frame_def reserve_frame_bytes_def Let_def)
  next
    case fits: False
    show ?thesis
    proof (cases "append_begin (ex_store e) t payload terminal")
      case (Inl err)
      with assms fits have out: "e' = e" "sv' = rollback_counters ?p ?n ?rel ?sv1"
        by (auto simp: append_frame_def reserve_frame_bytes_def rollback_frame_bytes_def Let_def)
      have "counter (sv_cache_bytes sv) ?p \<ge> 0"
        using facts(2) charged_nonneg(2) [OF facts(1)] by simp
      then have "counter (sv_cache_bytes sv') p = counter (sv_cache_bytes sv) p"
          and "counter (sv_reserved sv') p = counter (sv_reserved sv) p" for p
        by (simp_all add: out rollback_counters_def counter_decrement)
      with facts(1,5) out show ?thesis
        by (intro sane_put [OF assms(1)]) (simp_all add: rollback_counters_def within_limits_def)
    next
      case (Inr tk)
      with assms fits have out: "sv' = ?sv1"
          "e' = ?e1\<lparr>ex_appends := ex_appends e @
                   [\<lparr>pa_ticket = tk, pa_bytes = ?n, pa_released = ?rel, pa_then = k\<rparr>]\<rparr>"
        by (auto simp: append_frame_def reserve_frame_bytes_def Let_def)
      have "charged e'"
        using facts(1) append_begin_length [OF Inr] by (auto simp: out charged_def)
      moreover have "0 \<le> ?reserved" using facts(3,4) by simp
      with facts(5) fits have "within_limits lim io ?sv1"
        by (auto simp: within_limits_def)
      ultimately show ?thesis
        by (intro sane_put [OF assms(1)]) (simp_all add: out)
    qed
  qed
qed

lemma mark_terminal_fields [simp]:
  "ex_id (mark_terminal lim now st rs err e) = ex_id e"
  "ex_principal (mark_terminal lim now st rs err e) = ex_principal e"
  "ex_cache_bytes (mark_terminal lim now st rs err e) = ex_cache_bytes e"
  "ex_terminal_reserve (mark_terminal lim now st rs err e) = ex_terminal_reserve e"
  "ex_appends (mark_terminal lim now st rs err e) = ex_appends e"
  "ex_store (mark_terminal lim now st rs err e) = ex_store e"
  by (simp_all add: mark_terminal_def)

lemma finish_fail_fields [simp]:
  "ex_id (finish_fail lim now st f e) = ex_id e"
  "ex_principal (finish_fail lim now st f e) = ex_principal e"
  "ex_cache_bytes (finish_fail lim now st f e) = ex_cache_bytes e"
  "ex_terminal_reserve (finish_fail lim now st f e) = ex_terminal_reserve e"
  "ex_appends (finish_fail lim now st f e) = ex_appends e"
  "ex_store (finish_fail lim now st f e) = ex_store e"
  by (simp_all add: finish_fail_def)

lemma begin_fail_sane:
  assumes sane: "sane lim io (put_execution e sv)"
    and step: "begin_fail lim now json f st e sv = (e', sv')"
  shows "sane lim io (put_execution e' sv')"
proof -
  let ?e1 = "e\<lparr>ex_terminating := True, ex_error := Some f\<rparr>"
  have e1: "sane lim io (put_execution ?e1 sv)"
    by (rule sane_put_same [OF sane]) simp_all
  consider "e' = e" "sv' = sv" | "e' = finish_fail lim now st f ?e1" "sv' = sv"
    | e2 r where "append_frame lim ?e1 Error (json f) True (ThenFail st f) sv = (e2, sv', r)"
        "e' = e2 \<or> e' = finish_fail lim now st f e2"
    using step by (auto simp: begin_fail_def Let_def split: if_splits prod.splits option.splits)
  then show ?thesis
  proof cases
    case 1
    with sane show ?thesis by simp
  next
    case 2
    show ?thesis unfolding 2 by (rule sane_put_same [OF e1]) simp_all
  next
    case 3
    from append_frame_sane [OF e1 3(1)] have "sane lim io (put_execution e2 sv')" .
    moreover from this have "sane lim io (put_execution (finish_fail lim now st f e2) sv')"
      by (rule sane_put_same) simp_all
    ultimately show ?thesis using 3(2) by blast
  qed
qed

lemma run_catch_sane:
  assumes sane: "sane lim io (put_execution e sv)"
    and step: "run_catch lim now json c e sv = (e', sv')"
  shows "sane lim io (put_execution e' sv')"
proof -
  have e1: "sane lim io (put_execution (e\<lparr>ex_run := Finished\<rparr>) sv)"
    by (rule sane_put_same [OF sane]) simp_all
  with step begin_fail_sane [OF e1] show ?thesis
    by (auto simp: run_catch_def Let_def split: if_splits)
qed

lemma run_append_sane:
  assumes sane: "sane lim io (put_execution e sv)"
    and step: "run_append lim now json t payload terminal k e sv = (e', sv')"
  shows "sane lim io (put_execution e' sv')"
proof -
  have e0: "sane lim io (put_execution (e\<lparr>ex_run := Writing\<rparr>) sv)"
    by (rule sane_put_same [OF sane]) simp_all
  obtain e1 sv1 r where
    app: "append_frame lim (e\<lparr>ex_run := Writing\<rparr>) t payload terminal k sv = (e1, sv1, r)"
    by (metis prod_cases3)
  from append_frame_sane [OF e0 app] have e1: "sane lim io (put_execution e1 sv1)" .
  with step app run_catch_sane [OF e1] show ?thesis
    by (auto simp: run_append_def split: option.splits)
qed

lemma write_pieces_sane:
  assumes sane: "sane lim io (put_execution e sv)"
    and step: "write_pieces lim now json ps e sv = (e', sv')"
  shows "sane lim io (put_execution e' sv')"
proof (cases ps)
  case Nil
  with step have out: "e' = e\<lparr>ex_run := Reading\<rparr>" "sv' = sv" by auto
  show ?thesis unfolding out by (rule sane_put_same [OF sane]) simp_all
next
  case (Cons x rest)
  with step run_append_sane [OF sane] show ?thesis by auto
qed

lemma run_opened_sane:
  assumes sane: "sane lim io (put_execution e sv)"
    and step: "run_opened lim now json head e sv = (e', sv')"
  shows "sane lim io (put_execution e' sv')"
proof -
  have "sane lim io (put_execution (e\<lparr>ex_run := Finished\<rparr>) sv)"
    "sane lim io (put_execution (e\<lparr>ex_response_state := RStreaming\<rparr>) sv)"
    by (rule sane_put_same [OF sane]; simp)+
  with step run_append_sane show ?thesis by (auto simp: run_opened_def split: if_splits)
qed

lemma run_chunk_sane:
  assumes sane: "sane lim io (put_execution e sv)"
    and step: "run_chunk lim now json bytes e sv = (e', sv')"
  shows "sane lim io (put_execution e' sv')"
proof -
  have "sane lim io (put_execution (e\<lparr>ex_body_bytes := ex_body_bytes e + length bytes\<rparr>) sv)"
    by (rule sane_put_same [OF sane]) simp_all
  with step run_catch_sane write_pieces_sane show ?thesis
    unfolding run_chunk_def Let_def by (metis (no_types, lifting))
qed

lemma run_end_sane:
  "sane lim io (put_execution e sv) \<Longrightarrow> run_end lim now json summary e sv = (e', sv') \<Longrightarrow>
     sane lim io (put_execution e' sv')"
  unfolding run_end_def by (rule run_append_sane)

lemma total_timeout_sane:
  assumes sane: "sane lim io (put_execution e sv)"
    and step: "total_timeout lim now json e sv = (e', sv')"
  shows "sane lim io (put_execution e' sv')"
proof -
  have "sane lim io (put_execution (e\<lparr>ex_total_timer := False\<rparr>) sv)"
    by (rule sane_put_same [OF sane]) simp_all
  with step begin_fail_sane show ?thesis unfolding total_timeout_def by blast
qed

text \<open>Taking one suspended append out of an execution moves its bytes from flight to file, or
  gives them back.\<close>

lemma sum_list_remove_nth:
  "i < length xs \<Longrightarrow> sum_list (take i xs @ drop (Suc i) xs) = sum_list xs - (xs ! i :: int)"
  by (subst (3) id_take_nth_drop [of i xs]) simp_all

lemma charged_drop:
  assumes "charged e" and "i < length (ex_appends e)"
  shows "sum_list (map pa_bytes (ex_appends (drop_append i e))) =
           sum_list (map pa_bytes (ex_appends e)) - pa_bytes (ex_appends e ! i)"
    and "set (ex_appends (drop_append i e)) \<subseteq> set (ex_appends e)"
  using assms(2) sum_list_remove_nth [of i "map pa_bytes (ex_appends e)"]
  by (auto simp: drop_append_def take_map drop_map dest: in_set_takeD in_set_dropD)

lemma charged_append_ok:
  assumes "charged e" and "i < length (ex_appends e)"
  shows "charged ((drop_append i e)\<lparr>ex_store := append_finish (pa_ticket (ex_appends e ! i)) (ex_store e)\<rparr>)"
  using assms charged_drop [OF assms] nth_mem [OF assms(2)]
  by (auto simp: charged_def append_finish_def drop_append_def)

lemma append_ok_sane:
  assumes sane: "sane lim io (put_execution e sv)" and i: "i < length (ex_appends e)"
    and step: "append_ok lim now json i e sv = (e', sv')"
  shows "sane lim io (put_execution e' sv')"
proof -
  let ?e1 = "(drop_append i e)\<lparr>ex_store := append_finish (pa_ticket (ex_appends e ! i)) (ex_store e)\<rparr>"
  note facts = sane_put_facts [OF sane]
  have e1: "sane lim io (put_execution ?e1 sv)"
    using charged_append_ok [OF facts(1) i] facts(5)
    by (intro sane_put [OF sane]) (simp_all add: drop_append_def)
  show ?thesis
  proof (cases "pa_then (ex_appends e ! i)")
    case (ContinueRun rest)
    with step have "write_pieces lim now json rest ?e1 sv = (e', sv')"
      by (simp add: append_ok_def Let_def)
    with e1 show ?thesis by (rule write_pieces_sane)
  next
    case ThenComplete
    with step have out: "sv' = sv"
        "e' = mark_terminal lim now Completed RComplete None (?e1\<lparr>ex_run := Finished\<rparr>)"
      by (auto simp: append_ok_def Let_def)
    show ?thesis unfolding out by (rule sane_put_same [OF e1]) simp_all
  next
    case (ThenFail st f)
    with step have out: "sv' = sv" "e' = finish_fail lim now st f ?e1"
      by (auto simp: append_ok_def Let_def)
    show ?thesis unfolding out by (rule sane_put_same [OF e1]) simp_all
  qed
qed

lemma append_fail_sane:
  assumes sane: "sane lim True (put_execution e sv)" and i: "i < length (ex_appends e)"
    and step: "append_fail lim now json code i e sv = (e', sv')"
  shows "sane lim True (put_execution e' sv')"
proof -
  let ?a = "ex_appends e ! i"
  let ?e1 = "(drop_append i e)\<lparr>ex_cache_bytes := ex_cache_bytes e - pa_bytes ?a,
        ex_terminal_reserve := ex_terminal_reserve e + pa_released ?a\<rparr>"
  let ?sv1 = "rollback_counters (ex_principal e) (pa_bytes ?a) (pa_released ?a) sv"
  note facts = sane_put_facts [OF sane]
  have mem: "?a \<in> set (ex_appends e)" using i by simp
  have rolled: "rollback_frame_bytes (drop_append i e) (pa_bytes ?a) (pa_released ?a) sv = (?e1, ?sv1)"
    by (simp add: rollback_frame_bytes_def drop_append_def)
  have le: "pa_bytes ?a \<le> counter (sv_cache_bytes sv) (ex_principal e)"
    using facts(2) charged_nonneg(3) [OF facts(1) mem] by simp
  have "0 \<le> pa_bytes ?a" using facts(1) mem by (auto simp: charged_def)
  then have "counter (sv_cache_bytes ?sv1) q \<le> counter (sv_cache_bytes sv) q" for q
    using le by (simp add: rollback_counters_def counter_decrement)
  moreover have "sv_counts ?sv1 = sv_counts sv" by (simp add: rollback_counters_def)
  ultimately have "within_limits lim True ?sv1"
    using facts(5) unfolding within_limits_def by (metis order_trans)
  moreover have "charged ?e1"
    using facts(1) charged_drop [OF facts(1) i] mem by (auto simp: charged_def drop_append_def)
  ultimately have e1: "sane lim True (put_execution ?e1 ?sv1)"
    using le
    by (intro sane_put [OF sane])
       (simp_all add: drop_append_def rollback_counters_def counter_decrement)
  show ?thesis
  proof (cases "pa_then ?a")
    case (ThenFail st f)
    with step rolled have out: "sv' = ?sv1" "e' = finish_fail lim now st f ?e1"
      by (auto simp: append_fail_def Let_def)
    show ?thesis unfolding out by (rule sane_put_same [OF e1]) simp_all
  qed (use step rolled run_catch_sane [OF e1] in \<open>simp_all add: append_fail_def Let_def\<close>)
qed

lemma sane_cong:
  assumes "sane lim io sv" and "sv_executions sv' = sv_executions sv"
    and "sv_pending sv' = sv_pending sv" and "sv_counts sv' = sv_counts sv"
    and "sv_cache_bytes sv' = sv_cache_bytes sv" and "sv_reserved sv' = sv_reserved sv"
  shows "sane lim io sv'"
  using assms(1)
  unfolding sane_def accounted_def keyed_def within_limits_def owned_total_def pending_total_def
    assms(2-6) .

lemma saneD:
  assumes "sane lim io sv"
  shows "keyed sv"
    and "counter (sv_counts sv) p = owned_total (\<lambda>_. 1) p sv + pending_total p sv"
    and "counter (sv_cache_bytes sv) p = owned_total ex_cache_bytes p sv"
    and "counter (sv_reserved sv) p =
      owned_total ex_terminal_reserve p sv + TERMINAL_FRAME_RESERVE_BYTES * pending_total p sv"
    and "counter (sv_counts sv) p \<le> lim_executions lim"
    and "counter (sv_cache_bytes sv) p \<le> lim_cache_bytes lim"
    and "\<not> io \<Longrightarrow> counter (sv_cache_bytes sv) p + counter (sv_reserved sv) p \<le> lim_cache_bytes lim"
    and "0 \<le> counter (sv_cache_bytes sv) p"
proof -
  show keyed: "keyed sv" using assms unfolding sane_def accounted_def by blast
  show cache: "counter (sv_cache_bytes sv) p = owned_total ex_cache_bytes p sv"
    using assms unfolding sane_def accounted_def by blast
  show "0 \<le> counter (sv_cache_bytes sv) p"
    unfolding cache by (rule owned_total_nonneg [OF keyed charged_nonneg(2)])
qed (use assms in \<open>unfold sane_def accounted_def within_limits_def, blast+\<close>)

lemma saneI:
  assumes "keyed sv"
    and "\<And>p. counter (sv_counts sv) p = owned_total (\<lambda>_. 1) p sv + pending_total p sv"
    and "\<And>p. counter (sv_cache_bytes sv) p = owned_total ex_cache_bytes p sv"
    and "\<And>p. counter (sv_reserved sv) p =
      owned_total ex_terminal_reserve p sv + TERMINAL_FRAME_RESERVE_BYTES * pending_total p sv"
    and "\<And>p. counter (sv_counts sv) p \<le> lim_executions lim"
    and "\<And>p. counter (sv_cache_bytes sv) p \<le> lim_cache_bytes lim"
    and "\<And>p. \<not> io \<Longrightarrow>
      counter (sv_cache_bytes sv) p + counter (sv_reserved sv) p \<le> lim_cache_bytes lim"
  shows "sane lim io sv"
  using assms unfolding sane_def accounted_def within_limits_def by blast

lemma keyed_rest:
  assumes "keyed sv" and "sv_executions sv' = sv_executions sv"
    and "distinct (map fst (sv_pending sv'))"
  shows "keyed sv'"
  using assms unfolding keyed_def by metis

lemma create_pending_sane:
  assumes sane: "sane lim io sv"
  shows "sane lim io (fst (create_pending lim p ik d h sv))"
proof (cases "map_of (sv_pending sv) (idempotency_key p ik)")
  case (Some c)
  with sane show ?thesis by (simp add: create_pending_def Let_def)
next
  case None
  let ?sv = "fst (create_pending lim p ik d h sv)"
  show ?thesis
  proof (cases "reserve_execution lim p sv")
    case (Inl err)
    with None sane show ?thesis by (simp add: create_pending_def Let_def)
  next
    case (Inr sv1)
    then have room: "counter (sv_counts sv) p < lim_executions lim"
        "counter (sv_cache_bytes sv) p + counter (sv_reserved sv) p + TERMINAL_FRAME_RESERVE_BYTES
          \<le> lim_cache_bytes lim"
      and sv1: "sv1 = sv\<lparr>sv_counts := AList.update p (counter (sv_counts sv) p + 1) (sv_counts sv),
          sv_reserved := AList.update p (counter (sv_reserved sv) p + TERMINAL_FRAME_RESERVE_BYTES)
            (sv_reserved sv)\<rparr>"
      by (auto simp: reserve_execution_def Let_def split: if_splits)
    have out: "?sv = sv1\<lparr>sv_pending := AList.update (idempotency_key p ik)
        \<lparr>pc_principal = p, pc_idempotency_key = ik, pc_descriptor = d, pc_hash = h\<rparr> (sv_pending sv)\<rparr>"
      using None Inr by (simp add: create_pending_def Let_def sv1)
    have pending: "pending_total q ?sv = pending_total q sv + (if q = p then 1 else 0)" for q
      using None by (simp add: out pending_total_def)
    have owned: "owned_total f q ?sv = owned_total f q sv" for f q
      by (simp add: out sv1 owned_total_def)
    have keyed: "keyed ?sv"
    proof (rule keyed_rest [OF saneD(1) [OF sane]])
      have "distinct (map fst (sv_pending sv))" using saneD(1) [OF sane] unfolding keyed_def by blast
      then show "distinct (map fst (sv_pending ?sv))" unfolding out by (simp add: distinct_update)
    qed (simp add: out sv1)
    show ?thesis
    proof (rule saneI [OF keyed])
      fix q
      note D = saneD(1) [OF sane] saneD(2-8) [OF sane, of q]
      show "counter (sv_counts ?sv) q = owned_total (\<lambda>_. 1) q ?sv + pending_total q ?sv"
        using D(2) unfolding pending owned by (auto simp: out sv1)
      show "counter (sv_cache_bytes ?sv) q = owned_total ex_cache_bytes q ?sv"
        using D(3) unfolding owned by (auto simp: out sv1)
      show "counter (sv_reserved ?sv) q = owned_total ex_terminal_reserve q ?sv +
          TERMINAL_FRAME_RESERVE_BYTES * pending_total q ?sv"
        using D(4) unfolding pending owned
        by (auto simp: out sv1 TERMINAL_FRAME_RESERVE_BYTES_def)
      show "counter (sv_counts ?sv) q \<le> lim_executions lim"
        using D(5) room by (auto simp: out sv1)
      show "counter (sv_cache_bytes ?sv) q \<le> lim_cache_bytes lim"
        using D(6) by (auto simp: out sv1)
      show "\<not> io \<Longrightarrow> counter (sv_cache_bytes ?sv) q + counter (sv_reserved ?sv) q \<le> lim_cache_bytes lim"
        using D(7) room by (auto simp: out sv1)
    qed
  qed
qed

lemma create_begin_sane:
  assumes sane: "sane lim io sv"
  shows "sane lim io (fst (create_begin lim p ik d h sv))"
proof -
  have "sane lim io (sv\<lparr>sv_idempotency := AList.delete (idempotency_key p ik) (sv_idempotency sv)\<rparr>)"
    by (rule sane_cong [OF sane]) simp_all
  with sane create_pending_sane show ?thesis
    by (simp add: create_begin_def Let_def split: sum.splits option.splits)
qed

lemma charged_new: "charged (new_execution eid now c)"
  by (simp add: charged_def new_execution_def Let_def create_store_def
      TERMINAL_FRAME_RESERVE_BYTES_def)

lemma pending_total_delete:
  assumes "distinct (map fst (sv_pending sv))" and "map_of (sv_pending sv) key = Some c"
    and "sv_pending sv' = AList.delete key (sv_pending sv)"
  shows "pending_total p sv' = pending_total p sv - (if pc_principal c = p then 1 else 0)"
  using sum_values_delete [OF assms(1,2)] by (simp add: pending_total_def assms(3))

lemma create_finish_sane:
  assumes sane: "sane lim io sv" and fresh: "map_of (sv_executions sv) eid = None"
  shows "sane lim io (create_finish key eid now sv)"
proof (cases "map_of (sv_pending sv) key")
  case None
  with sane show ?thesis by (simp add: create_finish_def)
next
  case (Some c)
  let ?sv = "create_finish key eid now sv" and ?new = "new_execution eid now c"
  have new: "ex_id ?new = eid" "ex_principal ?new = pc_principal c" "ex_cache_bytes ?new = 0"
      "ex_terminal_reserve ?new = TERMINAL_FRAME_RESERVE_BYTES"
    by (simp_all add: new_execution_def Let_def)
  have exs: "sv_executions ?sv = AList.update eid ?new (sv_executions sv)"
    and pend: "sv_pending ?sv = AList.delete key (sv_pending sv)"
    and same: "sv_counts ?sv = sv_counts sv" "sv_cache_bytes ?sv = sv_cache_bytes sv"
      "sv_reserved ?sv = sv_reserved sv"
    using Some new by (simp_all add: create_finish_def put_execution_def)
  have keyed: "keyed sv" by (rule saneD(1) [OF sane])
  then have distinct: "distinct (map fst (sv_executions sv))" "distinct (map fst (sv_pending sv))"
    unfolding keyed_def by blast+
  have owned: "owned_total f q ?sv = owned_total f q sv + (if pc_principal c = q then f ?new else 0)"
    for f q using fresh by (simp add: owned_total_def exs new)
  note pending = pending_total_delete [OF distinct(2) Some pend]
  have keyed': "keyed ?sv"
    unfolding keyed_def exs pend
  proof (intro conjI allI impI)
    show "distinct (map fst (AList.update eid ?new (sv_executions sv)))"
      using distinct(1) by (simp add: distinct_update)
    show "distinct (map fst (AList.delete key (sv_pending sv)))"
      using distinct(2) by (simp add: distinct_delete)
    fix k e assume "map_of (AList.update eid ?new (sv_executions sv)) k = Some e"
    with keyed new charged_new show "ex_id e = k" "charged e"
      unfolding keyed_def js_map.get_put by (metis option.inject)+
  qed
  show ?thesis
    by (rule saneI [OF keyed'])
       (use saneD [OF sane] in \<open>simp_all only: same owned pending new\<close>,
        simp_all add: TERMINAL_FRAME_RESERVE_BYTES_def algebra_simps)
qed

lemma create_fail_sane:
  assumes sane: "sane lim io sv"
  shows "sane lim io (create_fail key sv)"
proof (cases "map_of (sv_pending sv) key")
  case None
  with sane show ?thesis by (simp add: create_fail_def)
next
  case (Some c)
  let ?sv = "create_fail key sv" and ?p = "pc_principal c"
  have pend: "sv_pending ?sv = AList.delete key (sv_pending sv)"
    and exs: "sv_executions ?sv = sv_executions sv"
    and cache: "sv_cache_bytes ?sv = sv_cache_bytes sv"
    using Some by (simp_all add: create_fail_def release_execution_reservation_def)
  have keyed: "keyed sv" by (rule saneD(1) [OF sane])
  then have distinct: "distinct (map fst (sv_pending sv))" unfolding keyed_def by blast
  have owned: "owned_total f q ?sv = owned_total f q sv" for f q by (simp add: owned_total_def exs)
  note pending = pending_total_delete [OF distinct Some pend]
  have one: "1 \<le> pending_total ?p sv"
    using pending [of ?p] pending_total_nonneg [of ?p ?sv] by simp
  have "0 \<le> owned_total (\<lambda>_. 1) ?p sv" "0 \<le> owned_total ex_terminal_reserve ?p sv"
    by (rule owned_total_nonneg [OF keyed]; simp add: charged_nonneg(1))+
  then have le: "1 \<le> counter (sv_counts sv) ?p"
      "TERMINAL_FRAME_RESERVE_BYTES \<le> counter (sv_reserved sv) ?p"
    using one saneD(2,4) [OF sane, of ?p] by (simp_all add: TERMINAL_FRAME_RESERVE_BYTES_def)
  have counts: "counter (sv_counts ?sv) q = counter (sv_counts sv) q - (if q = ?p then 1 else 0)"
    and reserved: "counter (sv_reserved ?sv) q =
      counter (sv_reserved sv) q - (if q = ?p then TERMINAL_FRAME_RESERVE_BYTES else 0)" for q
    using Some le by (simp_all add: create_fail_def release_execution_reservation_def counter_decrement)
  have keyed': "keyed ?sv"
    by (rule keyed_rest [OF keyed exs]) (use distinct in \<open>simp add: pend distinct_delete\<close>)
  show ?thesis
  proof (rule saneI [OF keyed'])
    fix q
    note D = saneD(1) [OF sane] saneD(2-8) [OF sane, of q]
    show "counter (sv_counts ?sv) q = owned_total (\<lambda>_. 1) q ?sv + pending_total q ?sv"
      using D(2) unfolding counts owned pending by simp
    show "counter (sv_cache_bytes ?sv) q = owned_total ex_cache_bytes q ?sv"
      using D(3) unfolding cache owned by simp
    show "counter (sv_reserved ?sv) q = owned_total ex_terminal_reserve q ?sv +
        TERMINAL_FRAME_RESERVE_BYTES * pending_total q ?sv"
      using D(4) unfolding reserved owned pending by (simp add: algebra_simps)
    show "counter (sv_counts ?sv) q \<le> lim_executions lim" using D(5) unfolding counts by auto
    show "counter (sv_cache_bytes ?sv) q \<le> lim_cache_bytes lim" using D(6) unfolding cache .
    show "\<not> io \<Longrightarrow> counter (sv_cache_bytes ?sv) q + counter (sv_reserved ?sv) q \<le> lim_cache_bytes lim"
      using D(7) unfolding cache reserved by (auto simp: TERMINAL_FRAME_RESERVE_BYTES_def)
  qed
qed

lemma release_execution_sane:
  assumes sane: "sane lim io sv"
  shows "sane lim io (release_execution e sv)"
proof (cases "map_of (sv_executions sv) (ex_id e) = Some e")
  case False
  with sane show ?thesis by (simp add: release_execution_def)
next
  case True
  let ?sv = "release_execution e sv" and ?p = "ex_principal e"
  have keyed: "keyed sv" by (rule saneD(1) [OF sane])
  then have distinct: "distinct (map fst (sv_executions sv))" and "charged e"
    using True unfolding keyed_def by blast+
  have pend: "sv_pending ?sv = sv_pending sv"
    and exs: "sv_executions ?sv = AList.delete (ex_id e) (sv_executions sv)"
    using True by (simp_all add: release_execution_def)
  have owned: "owned_total f q ?sv = owned_total f q sv - (if ?p = q then f e else 0)" for f q
    using sum_values_delete [OF distinct True] by (simp add: owned_total_def exs)
  have pending: "pending_total q ?sv = pending_total q sv" for q by (simp add: pending_total_def pend)
  have le: "1 \<le> counter (sv_counts sv) ?p" "ex_cache_bytes e \<le> counter (sv_cache_bytes sv) ?p"
      "ex_terminal_reserve e \<le> counter (sv_reserved sv) ?p"
    using owned_total_member [OF keyed True refl, of "\<lambda>_. 1"] pending_total_nonneg [of ?p sv]
      owned_total_member [OF keyed True refl, of ex_cache_bytes, OF charged_nonneg(2)]
      owned_total_member [OF keyed True refl, of ex_terminal_reserve, OF charged_nonneg(1)]
      saneD(2,3,4) [OF sane, of ?p]
    by (simp_all add: TERMINAL_FRAME_RESERVE_BYTES_def)
  have nonneg: "0 \<le> ex_cache_bytes e" "0 \<le> ex_terminal_reserve e"
    using charged_nonneg [OF \<open>charged e\<close>] by simp_all
  have counts: "counter (sv_counts ?sv) q = counter (sv_counts sv) q - (if ?p = q then 1 else 0)"
    and cache: "counter (sv_cache_bytes ?sv) q =
      counter (sv_cache_bytes sv) q - (if ?p = q then ex_cache_bytes e else 0)"
    and reserved: "counter (sv_reserved ?sv) q =
      counter (sv_reserved sv) q - (if ?p = q then ex_terminal_reserve e else 0)" for q
    using True le by (auto simp: release_execution_def counter_decrement)
  have keyed': "keyed ?sv"
    unfolding keyed_def pend exs
    using keyed distinct by (auto simp: keyed_def js_map.get_del distinct_delete split: if_splits)
  show ?thesis
  proof (rule saneI [OF keyed'])
    fix q
    note D = saneD(1) [OF sane] saneD(2-8) [OF sane, of q]
    show "counter (sv_counts ?sv) q = owned_total (\<lambda>_. 1) q ?sv + pending_total q ?sv"
      using D(2) unfolding counts owned pending by simp
    show "counter (sv_cache_bytes ?sv) q = owned_total ex_cache_bytes q ?sv"
      using D(3) unfolding cache owned by simp
    show "counter (sv_reserved ?sv) q = owned_total ex_terminal_reserve q ?sv +
        TERMINAL_FRAME_RESERVE_BYTES * pending_total q ?sv"
      using D(4) unfolding reserved owned pending by simp
    show "counter (sv_counts ?sv) q \<le> lim_executions lim" using D(5) unfolding counts by simp
    show "counter (sv_cache_bytes ?sv) q \<le> lim_cache_bytes lim"
      using D(6) nonneg unfolding cache by simp
    show "\<not> io \<Longrightarrow> counter (sv_cache_bytes ?sv) q + counter (sv_reserved ?sv) q \<le> lim_cache_bytes lim"
      using D(7) nonneg unfolding cache reserved by simp
  qed
qed

lemma expire_execution_sane:
  assumes "sane lim io sv"
  shows "sane lim io (expire_execution e sv)"
proof -
  have "sane lim io (retain_expiry_tombstone (ex_id e) (ex_principal e) sv)"
    by (rule sane_cong [OF assms]) (simp_all add: retain_expiry_tombstone_def)
  with assms release_execution_sane show ?thesis by (simp add: expire_execution_def)
qed

lemma owned_SomeD:
  "owned sv p eid = Some e \<Longrightarrow> map_of (sv_executions sv) eid = Some e \<and> ex_principal e = p"
  by (auto simp: owned_def split: option.splits if_splits)

lemma cancel_sane:
  assumes "sane lim io sv"
  shows "sane lim io (cancel lim now json p eid sv)"
proof (cases "owned sv p eid")
  case (Some e)
  from owned_SomeD [OF Some] sane_current(1) [OF assms] have "sane lim io (put_execution e sv)" by blast
  with begin_fail_sane Some assms show ?thesis by (auto simp: cancel_def split: prod.splits)
qed (use assms in \<open>simp add: cancel_def\<close>)

lemma upload_sane:
  assumes "sane lim io sv"
  shows "sane lim io (fst (upload lim sha p eid body sv))"
proof (cases "owned sv p eid")
  case (Some e)
  from owned_SomeD [OF Some] sane_current(1) [OF assms] have "sane lim io (put_execution e sv)" by blast
  then have "sane lim io (put_execution
      (e\<lparr>ex_body_state := BodyComplete, ex_state := Active, ex_run := Resolving\<rparr>) sv)"
    by (rule sane_put_same) simp_all
  with Some assms show ?thesis by (simp add: upload_def Let_def)
qed (use assms in \<open>simp add: upload_def\<close>)

lemma open_stream_sane:
  assumes "sane lim io sv"
  shows "sane lim io (fst (open_stream p eid sv))"
proof (cases "owned sv p eid")
  case (Some e)
  from owned_SomeD [OF Some] sane_current(1) [OF assms] have "sane lim io (put_execution e sv)" by blast
  then have "sane lim io (put_execution (e\<lparr>ex_reader_active := True\<rparr>) sv)"
    by (rule sane_put_same) simp_all
  with Some assms show ?thesis by (simp add: open_stream_def)
qed (use assms in \<open>simp add: open_stream_def\<close>)

lemma release_sane:
  "sane lim io sv \<Longrightarrow> sane lim io (fst (release p eid sv))"
  by (simp add: release_def release_execution_sane split: option.splits)

lemma run_approved_sane:
  "sane lim io (put_execution e sv) \<Longrightarrow> sane lim io (put_execution (run_approved e) sv)"
  by (erule sane_put_same) (simp_all add: run_approved_def)

lemma service_step_sane:
  assumes step: "service_step lim io sv sv'" and sane: "sane lim io sv"
  shows "sane lim io sv'"
  using step
proof cases
  case (st_close_reader eid e)
  show ?thesis unfolding st_close_reader(1)
    by (rule sane_put_same [OF sane_current(1) [OF sane st_close_reader(2)]]) simp_all
next
  case (st_append_fail eid e i now json code e1 sv1)
  with sane sane_current(1) append_fail_sane show ?thesis by (metis (full_types))
next
  case (st_tombstone eid)
  show ?thesis unfolding st_tombstone by (rule sane_cong [OF sane]) simp_all
qed (use sane sane_current(1) [OF sane] in
      \<open>auto intro: create_begin_sane create_finish_sane create_fail_sane upload_sane open_stream_sane
         cancel_sane release_sane run_approved_sane run_opened_sane run_chunk_sane run_end_sane
         run_catch_sane append_ok_sane total_timeout_sane expire_execution_sane\<close>)

lemma empty_service_sane:
  "0 \<le> lim_executions lim \<Longrightarrow> 0 \<le> lim_cache_bytes lim \<Longrightarrow> sane lim io empty_service"
  by (intro saneI)
     (simp_all add: empty_service_def keyed_def counter_def owned_total_def pending_total_def)

lemma reachable_sane:
  assumes "reachable lim io sv" and "0 \<le> lim_executions lim" and "0 \<le> lim_cache_bytes lim"
  shows "sane lim io sv"
  using assms(1) by induction (use assms empty_service_sane service_step_sane in blast)+

end
