(* ===== verification/Execution_Properties.thy ===== *)
theory Execution_Properties
  imports Execution_Accounting
begin

text \<open>
  What the execution service promises its principals: exact and bounded accounting, idempotent
  creation, isolation between principals, absorbing terminal states, guaranteed room for the
  terminal frame and a bounded set of expiry tombstones; and the places where
  \<open>execution-service.ts\<close> does not keep such a promise.
\<close>

section \<open>What a segment of one execution leaves alone\<close>

definition status :: "execution \<Rightarrow> execution_state \<times> response_state \<times> failure option \<times> nat option" where
  "status e = (ex_state e, ex_response_state e, ex_error e, ex_expires_at e)"

definition identity :: "execution \<Rightarrow> string \<times> string \<times> string \<times> string" where
  "identity e = (ex_id e, ex_principal e, ex_idempotency_key e, ex_hash e)"

definition confined :: "execution \<Rightarrow> service \<Rightarrow> execution \<Rightarrow> service \<Rightarrow> bool" where
  "confined e sv e' sv' \<longleftrightarrow>
     identity e' = identity e \<and> (is_terminal e \<longrightarrow> status e' = status e) \<and>
     sv_executions sv' = sv_executions sv \<and> sv_idempotency sv' = sv_idempotency sv \<and>
     sv_pending sv' = sv_pending sv \<and> sv_expired sv' = sv_expired sv \<and>
     sv_counts sv' = sv_counts sv \<and>
     (\<forall>q. q \<noteq> ex_principal e \<longrightarrow>
        counter (sv_cache_bytes sv') q = counter (sv_cache_bytes sv) q \<and>
        counter (sv_reserved sv') q = counter (sv_reserved sv) q)"

lemma status_is_terminal: "status e' = status e \<Longrightarrow> is_terminal e' = is_terminal e"
  by (simp add: status_def is_terminal_def)

lemma confined_trans:
  assumes "confined e sv e1 sv1" and "confined e1 sv1 e' sv'"
  shows "confined e sv e' sv'"
proof -
  have "ex_principal e1 = ex_principal e" using assms(1) by (simp add: confined_def identity_def)
  with assms show ?thesis
    by (auto simp: confined_def dest: status_is_terminal)
qed

lemma confined_same:
  "identity e' = identity e \<Longrightarrow> (is_terminal e \<Longrightarrow> status e' = status e) \<Longrightarrow> confined e sv e' sv"
  by (simp add: confined_def)

lemma counter_decrement_other: "k' \<noteq> k \<Longrightarrow> counter (decrement m k n) k' = counter m k'"
  by (simp add: decrement_def Let_def)

lemma append_frame_confined:
  assumes "append_frame lim e t payload terminal k sv = (e', sv', r)"
  shows "confined e sv e' sv'"
  using assms
  by (auto simp: append_frame_def reserve_frame_bytes_def rollback_frame_bytes_def Let_def
      rollback_counters_def confined_def identity_def status_def counter_decrement_other
      split: if_splits sum.splits)

lemma mark_terminal_confined:
  "confined e sv (mark_terminal lim now st rs err e) sv"
  by (rule confined_same) (auto simp: mark_terminal_def identity_def)

lemma finish_fail_confined: "confined e sv (finish_fail lim now st f e) sv"
  by (rule confined_same) (auto simp: finish_fail_def mark_terminal_def identity_def status_def)

lemma begin_fail_confined:
  assumes step: "begin_fail lim now json f st e sv = (e', sv')"
  shows "confined e sv e' sv'"
proof (cases "is_terminal e \<or> ex_terminating e")
  case True
  with step show ?thesis by (simp add: begin_fail_def confined_same)
next
  case False
  let ?e1 = "e\<lparr>ex_terminating := True, ex_error := Some f\<rparr>"
  have e1: "confined e sv ?e1 sv"
    using False by (intro confined_same) (auto simp: identity_def)
  consider "e' = finish_fail lim now st f ?e1" "sv' = sv"
    | e2 r where "append_frame lim ?e1 Error (json f) True (ThenFail st f) sv = (e2, sv', r)"
        "e' = e2 \<or> e' = finish_fail lim now st f e2"
    using step False by (auto simp: begin_fail_def Let_def split: if_splits prod.splits option.splits)
  then show ?thesis
  proof cases
    case 1
    with e1 finish_fail_confined confined_trans show ?thesis by blast
  next
    case 2
    from confined_trans [OF e1 append_frame_confined [OF 2(1)]] have "confined e sv e2 sv'" .
    with 2(2) finish_fail_confined confined_trans show ?thesis by blast
  qed
qed

lemma run_catch_confined:
  assumes "run_catch lim now json c e sv = (e', sv')"
  shows "confined e sv e' sv'"
proof -
  have "confined e sv (e\<lparr>ex_run := Finished\<rparr>) sv"
    by (rule confined_same) (simp_all add: identity_def status_def)
  with assms begin_fail_confined confined_trans show ?thesis
    unfolding run_catch_def Let_def by (metis prod.inject)
qed

lemma run_append_confined:
  assumes "run_append lim now json t payload terminal k e sv = (e', sv')"
  shows "confined e sv e' sv'"
proof -
  have e0: "confined e sv (e\<lparr>ex_run := Writing\<rparr>) sv"
    by (rule confined_same) (simp_all add: identity_def status_def)
  obtain e1 sv1 r where
    app: "append_frame lim (e\<lparr>ex_run := Writing\<rparr>) t payload terminal k sv = (e1, sv1, r)"
    by (metis prod_cases3)
  from confined_trans [OF e0 append_frame_confined [OF app]] have e1: "confined e sv e1 sv1" .
  show ?thesis
  proof (cases r)
    case None
    with assms app e1 show ?thesis by (simp add: run_append_def)
  next
    case (Some err)
    with assms app have "run_catch lim now json (append_cause err) e1 sv1 = (e', sv')"
      by (simp add: run_append_def)
    with e1 run_catch_confined confined_trans show ?thesis by blast
  qed
qed

lemma write_pieces_confined:
  assumes "write_pieces lim now json ps e sv = (e', sv')"
  shows "confined e sv e' sv'"
proof (cases ps)
  case Nil
  with assms show ?thesis by (auto intro: confined_same simp: identity_def status_def)
next
  case (Cons x rest)
  with assms run_append_confined show ?thesis by auto
qed

lemma run_opened_confined:
  assumes "run_opened lim now json head e sv = (e', sv')"
  shows "confined e sv e' sv'"
proof (cases "is_terminal e")
  case True
  with assms show ?thesis
    by (auto simp: run_opened_def identity_def status_def intro: confined_same)
next
  case False
  then have "confined e sv (e\<lparr>ex_response_state := RStreaming\<rparr>) sv"
    by (intro confined_same) (simp_all add: identity_def)
  with False assms run_append_confined confined_trans show ?thesis
    unfolding run_opened_def by (metis (full_types))
qed

lemma run_chunk_confined:
  assumes "run_chunk lim now json bytes e sv = (e', sv')"
  shows "confined e sv e' sv'"
proof -
  have "confined e sv (e\<lparr>ex_body_bytes := ex_body_bytes e + length bytes\<rparr>) sv"
    by (rule confined_same) (simp_all add: identity_def status_def)
  with assms run_catch_confined write_pieces_confined confined_trans show ?thesis
    unfolding run_chunk_def Let_def by (metis (no_types, lifting))
qed

lemma drop_append_confined:
  "confined e sv ((drop_append i e)\<lparr>ex_store := fs\<rparr>) sv"
  by (rule confined_same) (simp_all add: drop_append_def identity_def status_def)

lemma append_ok_confined:
  assumes "append_ok lim now json i e sv = (e', sv')"
  shows "confined e sv e' sv'"
proof -
  let ?e1 = "(drop_append i e)\<lparr>ex_store := append_finish (pa_ticket (ex_appends e ! i)) (ex_store e)\<rparr>"
  have e1: "confined e sv ?e1 sv" by (rule drop_append_confined)
  have e2: "confined ?e1 sv (?e1\<lparr>ex_run := Finished\<rparr>) sv"
    by (rule confined_same) (simp_all add: identity_def status_def)
  show ?thesis
  proof (cases "pa_then (ex_appends e ! i)")
    case (ContinueRun rest)
    with assms have "write_pieces lim now json rest ?e1 sv = (e', sv')"
      by (simp add: append_ok_def Let_def)
    from confined_trans [OF e1 write_pieces_confined [OF this]] show ?thesis .
  next
    case ThenComplete
    with assms confined_trans [OF confined_trans [OF e1 e2] mark_terminal_confined] show ?thesis
      by (auto simp: append_ok_def Let_def)
  next
    case (ThenFail st f)
    with assms confined_trans [OF e1 finish_fail_confined] show ?thesis
      by (auto simp: append_ok_def Let_def)
  qed
qed

lemma append_fail_confined:
  assumes "append_fail lim now json code i e sv = (e', sv')"
  shows "confined e sv e' sv'"
proof -
  let ?a = "ex_appends e ! i"
  obtain e1 sv1 where roll:
    "rollback_frame_bytes (drop_append i e) (pa_bytes ?a) (pa_released ?a) sv = (e1, sv1)"
    by (metis surj_pair)
  then have e1: "confined e sv e1 sv1"
    by (auto simp: rollback_frame_bytes_def rollback_counters_def drop_append_def confined_def
        identity_def status_def counter_decrement_other)
  show ?thesis
  proof (cases "pa_then ?a")
    case (ThenFail st f)
    with assms roll confined_trans [OF e1 finish_fail_confined] show ?thesis
      by (auto simp: append_fail_def Let_def)
  qed (use assms roll confined_trans [OF e1 run_catch_confined]
        in \<open>auto simp: append_fail_def Let_def\<close>)
qed

lemma total_timeout_confined:
  assumes "total_timeout lim now json e sv = (e', sv')"
  shows "confined e sv e' sv'"
proof -
  have "confined e sv (e\<lparr>ex_total_timer := False\<rparr>) sv"
    by (rule confined_same) (simp_all add: identity_def status_def)
  with assms begin_fail_confined confined_trans show ?thesis unfolding total_timeout_def by blast
qed

lemma confined_reader: "confined e sv (e\<lparr>ex_reader_active := b\<rparr>) sv"
  by (rule confined_same) (simp_all add: identity_def status_def)

lemma confined_approved: "confined e sv (run_approved e) sv"
  by (rule confined_same) (simp_all add: run_approved_def identity_def status_def)

definition resumed :: "execution \<Rightarrow> execution" where
  "resumed e = e\<lparr>ex_body_state := BodyComplete, ex_state := Active, ex_run := Resolving\<rparr>"

text \<open>Every step either leaves the service alone, starts, finishes or abandons a creation, replaces
  one execution by a confined successor, accepts an upload, or releases or expires an execution.\<close>

lemma service_step_shape:
  assumes step: "service_step lim io sv sv'"
  obtains (noop) "sv' = sv"
    | (begun) p ik d h where "sv' = fst (create_begin lim p ik d h sv)"
    | (finished) key eid now where "map_of (sv_executions sv) eid = None" "sv' = create_finish key eid now sv"
    | (abandoned) key where "sv' = create_fail key sv"
    | (confined) eid e e' sv1 where "map_of (sv_executions sv) eid = Some e" "confined e sv e' sv1"
        "sv' = put_execution e' sv1"
    | (uploaded) eid e where "map_of (sv_executions sv) eid = Some e"
        "ex_body_state e = AwaitingUpload" "sv' = put_execution (resumed e) sv"
    | (released) e where "sv' = release_execution e sv"
    | (expired) e where "sv' = expire_execution e sv"
    | (tombstone) eid where "sv' = sv\<lparr>sv_expired := AList.delete eid (sv_expired sv)\<rparr>"
  using step
proof cases
  case (st_upload sha p eid body)
  show ?thesis
  proof (cases "owned sv p eid")
    case None
    with st_upload noop show ?thesis by (simp add: upload_def)
  next
    case (Some e)
    with st_upload noop uploaded [of eid e] owned_SomeD [OF Some] show ?thesis
      by (auto simp: upload_def Let_def resumed_def split: if_splits)
  qed
next
  case (st_stream p eid)
  show ?thesis
  proof (cases "owned sv p eid")
    case None
    with st_stream noop show ?thesis by (simp add: open_stream_def split: if_splits)
  next
    case (Some e)
    with st_stream noop confined [OF _ confined_reader] owned_SomeD [OF Some] show ?thesis
      by (auto simp: open_stream_def split: if_splits)
  qed
next
  case (st_close_reader eid e)
  from confined [OF this(2) confined_reader this(1)] show ?thesis .
next
  case (st_cancel now json p eid)
  show ?thesis
  proof (cases "owned sv p eid")
    case None
    with st_cancel noop show ?thesis by (simp add: cancel_def)
  next
    case (Some e)
    obtain e1 sv1 where fail: "begin_fail lim now json cancelled_failure Cancelled e sv = (e1, sv1)"
      by (metis surj_pair)
    with Some st_cancel have "sv' = (if is_terminal e then sv else put_execution e1 sv1)"
      by (simp add: cancel_def)
    with noop confined [OF _ begin_fail_confined [OF fail]] owned_SomeD [OF Some] show ?thesis
      by (metis (full_types))
  qed
next
  case (st_release p eid)
  with noop released show ?thesis by (auto simp: release_def split: option.splits if_splits)
next
  case (st_approved eid e)
  from confined [OF this(2) confined_approved this(1)] show ?thesis .
next
  case (st_opened eid e now json head e1 sv1)
  from confined [OF this(2) run_opened_confined [OF this(4)] this(1)] show ?thesis .
next
  case (st_chunk eid e now json bytes e1 sv1)
  from confined [OF this(2) run_chunk_confined [OF this(4)] this(1)] show ?thesis .
next
  case (st_end eid e now json summary e1 sv1)
  from confined [OF this(2) run_append_confined [OF this(4) [unfolded run_end_def]] this(1)]
  show ?thesis .
next
  case (st_run_error eid e now json c e1 sv1)
  from confined [OF this(2) run_catch_confined [OF this(4)] this(1)] show ?thesis .
next
  case (st_append_ok eid e i now json e1 sv1)
  from confined [OF this(2) append_ok_confined [OF this(4)] this(1)] show ?thesis .
next
  case (st_append_fail eid e i now json code e1 sv1)
  from confined [OF this(3) append_fail_confined [OF this(5)] this(1)] show ?thesis .
next
  case (st_total_timeout eid e now json e1 sv1)
  from confined [OF this(2) total_timeout_confined [OF this(4)] this(1)] show ?thesis .
qed (use begun finished abandoned expired tombstone in blast)+

section \<open>At most one retained execution per idempotency key\<close>

definition key_of :: "execution \<Rightarrow> string" where
  "key_of e = idempotency_key (ex_principal e) (ex_idempotency_key e)"

text \<open>Every retained execution is the one its key maps to, and a key with a pending creation maps
  to no retained execution.\<close>

definition keys_exclusive :: "service \<Rightarrow> bool" where
  "keys_exclusive sv \<longleftrightarrow>
     (\<forall>eid e. map_of (sv_executions sv) eid = Some e \<longrightarrow>
        ex_id e = eid \<and> map_of (sv_idempotency sv) (key_of e) = Some eid \<and>
        map_of (sv_pending sv) (key_of e) = None) \<and>
     (\<forall>key c. map_of (sv_pending sv) key = Some c \<longrightarrow>
        key = idempotency_key (pc_principal c) (pc_idempotency_key c))"

lemma keys_exclusiveD:
  assumes "keys_exclusive sv" and "map_of (sv_executions sv) eid = Some e"
  shows "ex_id e = eid" and "map_of (sv_idempotency sv) (key_of e) = Some eid"
    and "map_of (sv_pending sv) (key_of e) = None"
  using assms unfolding keys_exclusive_def by blast+

lemma keys_exclusiveI:
  assumes "\<And>eid e. map_of (sv_executions sv) eid = Some e \<Longrightarrow>
      ex_id e = eid \<and> map_of (sv_idempotency sv) (key_of e) = Some eid \<and>
      map_of (sv_pending sv) (key_of e) = None"
    and "\<And>key c. map_of (sv_pending sv) key = Some c \<Longrightarrow>
      key = idempotency_key (pc_principal c) (pc_idempotency_key c)"
  shows "keys_exclusive sv"
  using assms unfolding keys_exclusive_def by blast

lemma key_of_identity: "identity e' = identity e \<Longrightarrow> key_of e' = key_of e \<and> ex_id e' = ex_id e"
  by (simp add: identity_def key_of_def)

lemma keys_exclusive_put:
  assumes "keys_exclusive sv" and "map_of (sv_executions sv) eid = Some e"
    and "identity e' = identity e" and "sv_executions sv1 = sv_executions sv"
    and "sv_idempotency sv1 = sv_idempotency sv" and "sv_pending sv1 = sv_pending sv"
  shows "keys_exclusive (put_execution e' sv1)"
  using assms(1) keys_exclusiveD [OF assms(1,2)] key_of_identity [OF assms(3)]
  unfolding keys_exclusive_def put_simps assms(4-6) js_map.get_put by auto

lemma create_pending_fields:
  assumes "create_pending lim p ik d h sv = (sv', r)"
  shows "sv_executions sv' = sv_executions sv \<and> sv_idempotency sv' = sv_idempotency sv \<and>
    sv_expired sv' = sv_expired sv \<and>
    (sv_pending sv' = sv_pending sv \<or>
     sv_pending sv' = AList.update (idempotency_key p ik)
       \<lparr>pc_principal = p, pc_idempotency_key = ik, pc_descriptor = d, pc_hash = h\<rparr> (sv_pending sv))"
  using assms
  by (auto simp: create_pending_def reserve_execution_def Let_def
      split: option.splits if_splits sum.splits)

lemma create_pending_exclusive:
  assumes inv: "keys_exclusive sv"
    and free: "\<And>eid e. map_of (sv_executions sv) eid = Some e \<Longrightarrow> key_of e \<noteq> idempotency_key p ik"
  shows "keys_exclusive (fst (create_pending lim p ik d h sv))"
proof -
  obtain sv' r where cp: "create_pending lim p ik d h sv = (sv', r)" by (metis surj_pair)
  from create_pending_fields [OF cp] inv free show ?thesis
    unfolding cp keys_exclusive_def fst_conv by (auto simp: js_map.get_put split: if_splits)
qed

lemma create_begin_exclusive:
  assumes inv: "keys_exclusive sv"
  shows "keys_exclusive (fst (create_begin lim p ik d h sv))"
proof -
  let ?key = "idempotency_key p ik"
  let ?dropped = "sv\<lparr>sv_idempotency := AList.delete ?key (sv_idempotency sv)\<rparr>"
  show ?thesis
  proof (cases "map_of (sv_idempotency sv) ?key")
    case None
    then have "key_of e \<noteq> ?key" if "map_of (sv_executions sv) eid = Some e" for eid e
      using keys_exclusiveD(2) [OF inv that] by auto
    from create_pending_exclusive [OF inv this] None inv show ?thesis
      by (simp add: create_begin_def Let_def split: sum.splits)
  next
    case (Some xid)
    show ?thesis
    proof (cases "map_of (sv_executions sv) xid")
      case None
      then have free: "key_of e \<noteq> ?key" if "map_of (sv_executions sv) eid = Some e" for eid e
        using keys_exclusiveD(2) [OF inv that] Some that by auto
      then have "keys_exclusive ?dropped"
        using inv unfolding keys_exclusive_def by (simp add: js_map.get_del)
      from create_pending_exclusive [OF this] free Some None inv show ?thesis
        by (simp add: create_begin_def Let_def split: sum.splits)
    next
      case (Some e)
      with \<open>map_of (sv_idempotency sv) ?key = Some xid\<close> inv show ?thesis
        by (simp add: create_begin_def Let_def split: sum.splits)
    qed
  qed
qed

lemma create_finish_exclusive:
  assumes inv: "keys_exclusive sv" and fresh: "map_of (sv_executions sv) eid = None"
    and distinct: "distinct (map fst (sv_pending sv))"
  shows "keys_exclusive (create_finish key eid now sv)"
proof (cases "map_of (sv_pending sv) key")
  case None
  with inv show ?thesis by (simp add: create_finish_def)
next
  case (Some c)
  let ?new = "new_execution eid now c"
  have new: "ex_id ?new = eid" "key_of ?new = key"
    using inv Some by (simp_all add: new_execution_def Let_def key_of_def keys_exclusive_def)
  have free: "key_of e \<noteq> key" if "map_of (sv_executions sv) k = Some e" for k e
    using keys_exclusiveD(3) [OF inv that] Some by auto
  have fields:
      "sv_executions (create_finish key eid now sv) = AList.update eid ?new (sv_executions sv)"
      "sv_idempotency (create_finish key eid now sv) = AList.update key eid (sv_idempotency sv)"
      "sv_pending (create_finish key eid now sv) = AList.delete key (sv_pending sv)"
    using Some new(1) by (simp_all add: create_finish_def)
  show ?thesis
  proof (rule keys_exclusiveI, goal_cases)
    case (1 k e)
    show ?case
    proof (cases "k = eid")
      case True
      with 1 have "e = ?new" by (simp add: fields js_map.get_put)
      with True new show ?thesis by (simp add: fields)
    next
      case False
      with 1 have old: "map_of (sv_executions sv) k = Some e" by (simp add: fields js_map.get_put)
      from keys_exclusiveD [OF inv old] free [OF old] show ?thesis
        by (simp add: fields js_map.get_put js_map.get_del)
    qed
  next
    case (2 k c')
    with inv show ?case
      unfolding keys_exclusive_def fields js_map.get_del by (metis option.distinct(1))
  qed
qed

lemma release_exclusive:
  assumes inv: "keys_exclusive sv"
  shows "keys_exclusive (release_execution e sv)"
proof (cases "map_of (sv_executions sv) (ex_id e) = Some e")
  case True
  have other: "key_of e' \<noteq> key_of e" if "map_of (sv_executions sv) k = Some e'" "k \<noteq> ex_id e" for k e'
    using keys_exclusiveD(2) [OF inv that(1)] keys_exclusiveD(2) [OF inv True] that(2) by auto
  have fields:
      "sv_executions (release_execution e sv) = AList.delete (ex_id e) (sv_executions sv)"
      "sv_idempotency (release_execution e sv) = AList.delete (key_of e) (sv_idempotency sv)"
      "sv_pending (release_execution e sv) = sv_pending sv"
    using True by (simp_all add: release_execution_def key_of_def)
  show ?thesis
  proof (rule keys_exclusiveI, goal_cases)
    case (1 k e')
    then have old: "map_of (sv_executions sv) k = Some e'" "k \<noteq> ex_id e"
      by (auto simp: fields js_map.get_del split: if_splits)
    from keys_exclusiveD [OF inv old(1)] other [OF old] show ?case
      by (simp add: fields js_map.get_del)
  next
    case (2 k c)
    with inv show ?case unfolding keys_exclusive_def fields by blast
  qed
qed (use inv in \<open>simp add: release_execution_def\<close>)

lemma keys_exclusive_cong:
  "keys_exclusive sv \<Longrightarrow> sv_executions sv' = sv_executions sv \<Longrightarrow>
   sv_idempotency sv' = sv_idempotency sv \<Longrightarrow> sv_pending sv' = sv_pending sv \<Longrightarrow> keys_exclusive sv'"
  by (simp add: keys_exclusive_def)

lemma create_fail_exclusive:
  "keys_exclusive sv \<Longrightarrow> keys_exclusive (create_fail key sv)"
  by (auto simp: create_fail_def release_execution_reservation_def keys_exclusive_def js_map.get_del
      split: option.splits)

lemma service_step_exclusive:
  assumes step: "service_step lim io sv sv'" and inv: "keys_exclusive sv"
    and distinct: "distinct (map fst (sv_pending sv))"
  shows "keys_exclusive sv'"
  using step
proof (cases rule: service_step_shape)
  case (begun p ik d h)
  with create_begin_exclusive [OF inv] show ?thesis by simp
next
  case (finished key eid now)
  with create_finish_exclusive [OF inv _ distinct] show ?thesis by simp
next
  case (confined eid e e' sv1)
  from confined(2) keys_exclusive_put [OF inv confined(1)] show ?thesis
    unfolding confined(3) confined_def by blast
next
  case (uploaded eid e)
  have "identity (resumed e) = identity e" by (simp add: identity_def resumed_def)
  with keys_exclusive_put [OF inv uploaded(1)] show ?thesis unfolding uploaded(3) by blast
next
  case (expired e)
  have "keys_exclusive (retain_expiry_tombstone (ex_id e) (ex_principal e) sv)"
    by (rule keys_exclusive_cong [OF inv]) (simp_all add: retain_expiry_tombstone_def)
  with inv release_exclusive show ?thesis by (simp add: expired expire_execution_def)
next
  case (tombstone eid)
  show ?thesis unfolding tombstone by (rule keys_exclusive_cong [OF inv]) simp_all
qed (use inv release_exclusive create_fail_exclusive in simp_all)

section \<open>Reachable services\<close>

lemma reachable_keyed:
  assumes "reachable lim io sv" and "0 \<le> lim_executions lim" and "0 \<le> lim_cache_bytes lim"
  shows "keyed sv" and "distinct (map fst (sv_pending sv))"
proof -
  show "keyed sv" using saneD(1) [OF reachable_sane [OF assms]] .
  then show "distinct (map fst (sv_pending sv))" unfolding keyed_def by blast
qed

lemma reachable_exclusive:
  assumes "reachable lim io sv" and lim: "0 \<le> lim_executions lim" "0 \<le> lim_cache_bytes lim"
  shows "keys_exclusive sv"
  using assms(1)
proof induction
  case reach_start
  show ?case by (rule keys_exclusiveI) (simp_all add: empty_service_def)
next
  case (reach_step sv sv')
  from service_step_exclusive [OF reach_step(2,3)] reachable_keyed(2) [OF reach_step(1) lim]
  show ?case .
qed

lemma owned_total_cong:
  assumes "keyed sv" and "\<And>e. charged e \<Longrightarrow> f e = g e"
  shows "owned_total f p sv = owned_total g p sv"
proof -
  have "f e = g e" if "(k, e) \<in> set (sv_executions sv)" for k e
    using assms that unfolding keyed_def by (metis map_of_is_SomeI)
  then show ?thesis
    unfolding owned_total_def sum_values_def
    by (intro arg_cong [where f = sum_list] map_cong) auto
qed

text \<open>A service with one execution that awaits its upload, for the examples.\<close>

definition demo_limits :: limits where
  "demo_limits = \<lparr>lim_header_count = 8, lim_request_bytes = 100, lim_response_bytes = 1000,
     lim_cache_bytes = 10000, lim_executions = 2, lim_retention_ms = 50\<rparr>"

definition demo_descriptor :: descriptor where
  "demo_descriptor = \<lparr>d_url = ''http://t/'', d_headers = [], d_body_mode = ModeStream,
     d_body_length = None, d_body_sha256 = None, d_max_response_bytes = 1000,
     d_total_timeout_ms = 9\<rparr>"

definition demo_begun :: service where
  "demo_begun = fst (create_begin demo_limits ''p'' ''k'' demo_descriptor ''h'' empty_service)"

definition demo_execution :: execution where
  "demo_execution = new_execution ''e1'' 5
     \<lparr>pc_principal = ''p'', pc_idempotency_key = ''k'', pc_descriptor = demo_descriptor, pc_hash = ''h''\<rparr>"

definition demo_service :: service where
  "demo_service = create_finish ''p:k'' ''e1'' 5 demo_begun"

lemma demo_begun_eval:
  "create_begin demo_limits ''p'' ''k'' demo_descriptor ''h'' empty_service =
     (\<lparr>sv_executions = [], sv_idempotency = [],
       sv_pending = [(''p:k'', \<lparr>pc_principal = ''p'', pc_idempotency_key = ''k'',
         pc_descriptor = demo_descriptor, pc_hash = ''h''\<rparr>)],
       sv_expired = [], sv_counts = [(''p'', 1)], sv_cache_bytes = [], sv_reserved = [(''p'', 4096)]\<rparr>,
      Inr (Started ''p:k''))"
  by (simp add: create_begin_def create_pending_def validate_descriptor_def reserve_execution_def
      demo_limits_def demo_descriptor_def empty_service_def idempotency_key_def Let_def counter_def
      TERMINAL_FRAME_RESERVE_BYTES_def)

lemma demo_valid: "validate_descriptor demo_limits demo_descriptor = Inr ()"
  by (simp add: validate_descriptor_def demo_descriptor_def demo_limits_def)

lemma demo_service_eval:
  "demo_service =
     \<lparr>sv_executions = [(''e1'', demo_execution)], sv_idempotency = [(''p:k'', ''e1'')],
      sv_pending = [], sv_expired = [], sv_counts = [(''p'', 1)], sv_cache_bytes = [],
      sv_reserved = [(''p'', 4096)]\<rparr>"
  by (simp add: demo_service_def demo_begun_def demo_begun_eval create_finish_def put_execution_def
      demo_execution_def new_execution_def Let_def)

lemma demo_reachable: "reachable demo_limits io demo_service"
proof -
  have "reachable demo_limits io demo_begun"
    unfolding demo_begun_def by (rule reach_step [OF reach_start st_create])
  then show ?thesis
    unfolding demo_service_def
    by (rule reach_step) (rule st_created, simp add: demo_begun_def demo_begun_eval)
qed

lemma demo_limits_ok: "0 \<le> lim_executions demo_limits" "0 \<le> lim_cache_bytes demo_limits"
  by (simp_all add: demo_limits_def)

lemma create_begin_existing:
  assumes "validate_descriptor lim d = Inr ()"
    and "map_of (sv_idempotency sv) (idempotency_key p ik) = Some eid"
    and "map_of (sv_executions sv) eid = Some e"
  shows "create_begin lim p ik d h sv =
    (sv, if ex_hash e = h then Inr (Replayed (to_session e)) else Inl IdempotencyConflict)"
  using assms by (simp add: create_begin_def Let_def)

section \<open>Properties\<close>





text \<open>
  Idempotent creation. Once a creation has begun under a principal's idempotency key, a
  repetition with the same descriptor waits for it without reserving anything; once it has
  finished, a repetition returns the session of that same execution and changes nothing, and a
  request with a different descriptor is refused as a conflict, before and after.
\<close>

theorem creation_replays:
  assumes "create_begin lim p ik d h sv = (sv1, Inr (Started key))"
    and "map_of (sv_executions sv1) eid = None" and "h' \<noteq> h"
    and "validate_descriptor lim d' = Inr ()"
  shows "create_begin lim p ik d h sv1 = (sv1, Inr (AwaitPending key)) \<and>
    create_begin lim p ik d' h' sv1 = (sv1, Inl IdempotencyConflict) \<and>
    (\<exists>e. map_of (sv_executions (create_finish key eid now sv1)) eid = Some e \<and>
       ex_id e = eid \<and> ex_principal e = p \<and> ex_target e = d \<and>
       create_begin lim p ik d h (create_finish key eid now sv1) =
         (create_finish key eid now sv1, Inr (Replayed (to_session e))) \<and>
       create_begin lim p ik d' h' (create_finish key eid now sv1) =
         (create_finish key eid now sv1, Inl IdempotencyConflict))"
proof -
  let ?c = "\<lparr>pc_principal = p, pc_idempotency_key = ik, pc_descriptor = d, pc_hash = h\<rparr>"
  let ?e = "new_execution eid now ?c"
  have valid: "validate_descriptor lim d = Inr ()"
    using assms(1) by (auto simp: create_begin_def split: sum.splits)
  have started: "key = idempotency_key p ik" "map_of (sv_idempotency sv1) key = None"
      "map_of (sv_pending sv1) key = Some ?c"
    using assms(1)
    by (auto simp: create_begin_def create_pending_def reserve_execution_def Let_def js_map.get_put
        js_map.get_del split: sum.splits option.splits if_splits)
  have e: "ex_id ?e = eid" "ex_principal ?e = p" "ex_target ?e = d" "ex_hash ?e = h"
    by (simp_all add: new_execution_def Let_def)
  have finished: "create_finish key eid now sv1 = (put_execution ?e sv1)
      \<lparr>sv_idempotency := AList.update key eid (sv_idempotency sv1),
       sv_pending := AList.delete key (sv_pending sv1)\<rparr>"
    using started by (simp add: create_finish_def)
  have "create_begin lim p ik d h sv1 = (sv1, Inr (AwaitPending key))"
    "create_begin lim p ik d' h' sv1 = (sv1, Inl IdempotencyConflict)"
    using started valid assms(3,4) by (simp_all add: create_begin_def create_pending_def Let_def)
  moreover have there: "map_of (sv_executions (create_finish key eid now sv1)) eid = Some ?e"
    using e by (simp add: finished js_map.get_put)
  moreover have mapped:
      "map_of (sv_idempotency (create_finish key eid now sv1)) (idempotency_key p ik) = Some eid"
    unfolding started(1) [symmetric] by (simp add: finished)
  moreover have "create_begin lim p ik d h (create_finish key eid now sv1) =
         (create_finish key eid now sv1, Inr (Replayed (to_session ?e)))"
      "create_begin lim p ik d' h' (create_finish key eid now sv1) =
         (create_finish key eid now sv1, Inl IdempotencyConflict)"
    using create_begin_existing [OF valid mapped there, of h]
      create_begin_existing [OF assms(4) mapped there, of h'] e(4) assms(3) by simp_all
  ultimately show ?thesis using e by blast
qed

theorem creation_replays_witness:
  "create_begin demo_limits ''p'' ''k'' demo_descriptor ''h'' demo_begun =
     (demo_begun, Inr (AwaitPending ''p:k'')) \<and>
   (\<exists>e. create_begin demo_limits ''p'' ''k'' demo_descriptor ''h'' demo_service =
     (demo_service, Inr (Replayed (to_session e))))"
proof -
  have "create_begin demo_limits ''p'' ''k'' demo_descriptor ''h'' empty_service =
      (demo_begun, Inr (Started ''p:k''))"
    unfolding demo_begun_def demo_begun_eval by simp
  moreover have "map_of (sv_executions demo_begun) ''e1'' = None"
    by (simp add: demo_begun_def demo_begun_eval)
  ultimately show ?thesis
    using creation_replays [of demo_limits "''p''" "''k''" demo_descriptor "''h''" empty_service
        demo_begun "''p:k''" "''e1''" "''other''" demo_descriptor 5] demo_valid
    unfolding demo_service_def by auto
qed

text \<open>
  One retained execution per idempotency key. In every reachable state two retained executions
  with the same effective key are the same execution, the key maps to it, and no creation under
  that key is pending.
\<close>

theorem one_execution_per_key:
  assumes "reachable lim io sv" and "0 \<le> lim_executions lim" and "0 \<le> lim_cache_bytes lim"
    and "map_of (sv_executions sv) eid = Some e" and "map_of (sv_executions sv) eid' = Some e'"
    and "idempotency_key (ex_principal e) (ex_idempotency_key e) =
      idempotency_key (ex_principal e') (ex_idempotency_key e')"
  shows "eid = eid' \<and> e = e' \<and>
    map_of (sv_idempotency sv) (idempotency_key (ex_principal e) (ex_idempotency_key e)) = Some eid \<and>
    map_of (sv_pending sv) (idempotency_key (ex_principal e) (ex_idempotency_key e)) = None"
proof -
  note inv = reachable_exclusive [OF assms(1-3)]
  show ?thesis
    using keys_exclusiveD [OF inv assms(4)] keys_exclusiveD [OF inv assms(5)] assms(4-6)
    by (simp add: key_of_def)
qed

theorem one_execution_per_key_witness:
  "map_of (sv_idempotency demo_service) ''p:k'' = Some ''e1''"
  using one_execution_per_key [OF demo_reachable [of False] demo_limits_ok, of "''e1''" demo_execution
      "''e1''" demo_execution]
  by (simp add: demo_service_eval)

text \<open>What one principal's call must not touch of another one's.\<close>

definition untouched :: "string \<Rightarrow> service \<Rightarrow> service \<Rightarrow> bool" where
  "untouched q sv sv' \<longleftrightarrow>
     (\<forall>eid e. ex_principal e = q \<longrightarrow>
        (map_of (sv_executions sv') eid = Some e \<longleftrightarrow> map_of (sv_executions sv) eid = Some e)) \<and>
     counter (sv_counts sv') q = counter (sv_counts sv) q \<and>
     counter (sv_cache_bytes sv') q = counter (sv_cache_bytes sv) q \<and>
     counter (sv_reserved sv') q = counter (sv_reserved sv) q"

lemma untouched_refl: "untouched q sv sv"
  by (simp add: untouched_def)

lemma untouched_put:
  assumes "map_of (sv_executions sv) eid = Some e" and "ex_id e = eid" and "ex_principal e \<noteq> q"
    and "confined e sv e' sv1"
  shows "untouched q sv (put_execution e' sv1)"
proof -
  have "ex_id e' = eid" "ex_principal e' \<noteq> q" "sv_executions sv1 = sv_executions sv"
    using assms by (auto simp: confined_def identity_def)
  with assms show ?thesis
    by (auto simp: untouched_def js_map.get_put confined_def)
qed

lemma untouched_create_pending:
  assumes "q \<noteq> p"
  shows "untouched q sv (fst (create_pending lim p ik d h sv))"
  using assms
  by (auto simp: untouched_def create_pending_def reserve_execution_def Let_def
      split: option.splits sum.splits)

lemma untouched_create:
  assumes "q \<noteq> p"
  shows "untouched q sv (fst (create_begin lim p ik d h sv))"
  using untouched_create_pending [OF assms]
    untouched_create_pending [OF assms,
      of "sv\<lparr>sv_idempotency := AList.delete (idempotency_key p ik) (sv_idempotency sv)\<rparr>"]
  by (auto simp: create_begin_def Let_def untouched_refl untouched_def split: sum.splits option.splits)

lemma untouched_release:
  assumes "ex_principal e \<noteq> q"
  shows "untouched q sv (release_execution e sv)"
  using assms
  by (auto simp: untouched_def release_execution_def js_map.get_del counter_decrement_other)

text \<open>
  C17. Isolation of principals. Whatever one principal asks the service to do, no execution of
  another principal is created, changed or removed, and none of its counters move; and asked for
  another principal's execution, every operation answers as if it did not exist.
\<close>

theorem principal_isolation:
  assumes "reachable lim io sv" and "0 \<le> lim_executions lim" and "0 \<le> lim_cache_bytes lim"
    and "q \<noteq> p"
  shows "untouched q sv (fst (create_begin lim p ik d h sv)) \<and>
    untouched q sv (fst (upload lim sha p eid body sv)) \<and>
    untouched q sv (fst (open_stream p eid sv)) \<and>
    untouched q sv (cancel lim now json p eid sv) \<and>
    untouched q sv (fst (release p eid sv)) \<and>
    (\<forall>e. map_of (sv_executions sv) eid = Some e \<and> ex_principal e = q \<longrightarrow>
       upload lim sha p eid body sv = (sv, Inr None) \<and> get p eid sv = None \<and>
       cancel lim now json p eid sv = sv \<and> release p eid sv = (sv, Inr False))"
proof -
  have keyed: "ex_id e = eid" if "map_of (sv_executions sv) eid = Some e" for e
    using reachable_keyed(1) [OF assms(1-3)] that unfolding keyed_def by blast
  show ?thesis
  proof (cases "owned sv p eid")
    case None
    with assms(4) untouched_create [OF assms(4)] show ?thesis
      by (auto simp: upload_def open_stream_def cancel_def release_def get_def untouched_refl)
  next
    case (Some e)
    from owned_SomeD [OF this] have e: "map_of (sv_executions sv) eid = Some e" "ex_principal e = p"
      by auto
    with assms(4) have other: "ex_principal e \<noteq> q" by simp
    note put = untouched_put [OF e(1) keyed [OF e(1)] other]
    have "untouched q sv (put_execution (resumed e) sv)"
      using e keyed [OF e(1)] other
      by (auto simp: untouched_def js_map.get_put resumed_def)
    then have "untouched q sv (fst (upload lim sha p eid body sv))"
      using Some by (simp add: upload_def Let_def resumed_def untouched_refl)
    moreover have "untouched q sv (fst (open_stream p eid sv))"
      using Some put [OF confined_reader] by (simp add: open_stream_def untouched_refl)
    moreover have "untouched q sv (cancel lim now json p eid sv)"
      using Some put [OF begin_fail_confined]
      by (auto simp: cancel_def untouched_refl split: prod.splits)
    moreover have "untouched q sv (fst (release p eid sv))"
      using Some untouched_release [OF other] by (simp add: release_def untouched_refl)
    ultimately show ?thesis
      using untouched_create [OF assms(4)] e other assms(4) by simp
  qed
qed

theorem principal_isolation_witness:
  "cancel demo_limits 9 (\<lambda>_. []) ''q'' ''e1'' demo_service = demo_service \<and>
   get ''q'' ''e1'' demo_service = None"
  using principal_isolation [OF demo_reachable [of False] demo_limits_ok, of "''p''" "''q''" "''k''"
      demo_descriptor "''h''" "\<lambda>_. []" "''e1''" "[]" 9 "\<lambda>_. []"]
  by (simp add: demo_service_eval demo_execution_def new_execution_def Let_def)

text \<open>
  Terminal states are absorbing unless an upload is still awaited. A completed, failed or
  cancelled execution whose request body is not awaited keeps its state, response state, error and
  expiry through every step of the service until it is released or expires.
\<close>

theorem terminal_absorbing:
  assumes "reachable lim io sv" and "0 \<le> lim_executions lim" and "0 \<le> lim_cache_bytes lim"
    and "service_step lim io sv sv'" and "map_of (sv_executions sv) eid = Some e"
    and "is_terminal e" and "ex_body_state e \<noteq> AwaitingUpload"
  shows "map_of (sv_executions sv') eid = None \<or>
    (\<exists>e'. map_of (sv_executions sv') eid = Some e' \<and> status e' = status e \<and> is_terminal e')"
proof -
  have same: ?thesis if "sv_executions sv' = sv_executions sv"
    using that assms(5,6) by auto
  have keyed: "ex_id x = k" if "map_of (sv_executions sv) k = Some x" for k x
    using reachable_keyed(1) [OF assms(1-3)] that unfolding keyed_def by blast
  have gone: ?thesis if "sv' = release_execution x sv1" "sv_executions sv1 = sv_executions sv" for x sv1
    using that assms(5,6) by (auto simp: release_execution_def js_map.get_del)
  from assms(4) show ?thesis
  proof (cases rule: service_step_shape)
    case (begun p ik d h)
    obtain sv1 r where cb: "create_begin lim p ik d h sv = (sv1, r)" by (metis surj_pair)
    then have "sv_executions sv1 = sv_executions sv"
      by (auto simp: create_begin_def Let_def dest!: create_pending_fields
          split: sum.splits option.splits if_splits)
    with begun cb same show ?thesis by simp
  next
    case (finished key eid' now)
    with assms(5,6) show ?thesis
      by (auto simp: create_finish_def new_execution_def Let_def js_map.get_put split: option.splits)
  next
    case (abandoned key)
    with same show ?thesis
      by (auto simp: create_fail_def release_execution_reservation_def split: option.splits)
  next
    case (confined eid' x x' sv1)
    then have fields: "ex_id x' = ex_id x" "sv_executions sv1 = sv_executions sv"
        "is_terminal x \<Longrightarrow> status x' = status x"
      by (auto simp: confined_def identity_def)
    with confined keyed [OF confined(1)] assms(5,6) show ?thesis
      by (auto simp: js_map.get_put dest: status_is_terminal)
  next
    case (uploaded eid' x)
    with keyed [OF uploaded(1)] assms(5-7) show ?thesis
      by (auto simp: js_map.get_put resumed_def)
  next
    case (expired x)
    then show ?thesis
      using gone [of x "retain_expiry_tombstone (ex_id x) (ex_principal x) sv"] same
      by (auto simp: expire_execution_def retain_expiry_tombstone_def split: if_splits)
  qed (use same gone in auto)
qed

text \<open>The example execution cancelled while it awaits its upload, and one that failed after it.\<close>

definition demo_cancelled :: service where
  "demo_cancelled =
     (let sv = cancel demo_limits 6 (\<lambda>_. [1]) ''p'' ''e1'' demo_service;
          (e, sv') = append_ok demo_limits 7 (\<lambda>_. []) 0 (the (map_of (sv_executions sv) ''e1'')) sv
      in put_execution e sv')"

definition demo_failed :: service where
  "demo_failed =
     (let sv = fst (upload demo_limits (\<lambda>_. []) ''p'' ''e1'' [] demo_service);
          (e, sv') = run_catch demo_limits 6 (\<lambda>_. [1]) (CauseOther None)
            (the (map_of (sv_executions sv) ''e1'')) sv;
          sv'' = put_execution e sv';
          (e', sv3) = append_ok demo_limits 7 (\<lambda>_. []) 0 (the (map_of (sv_executions sv'') ''e1'')) sv''
      in put_execution e' sv3)"

lemmas segment_defs = cancel_def append_ok_def upload_def run_catch_def begin_fail_def
  finish_fail_def mark_terminal_def append_frame_def reserve_frame_bytes_def append_begin_def
  append_finish_def drop_append_def owned_def put_execution_def is_terminal_def Let_def

lemma demo_execution_simps [simp]:
  "ex_id demo_execution = ''e1''" "ex_principal demo_execution = ''p''"
  "ex_state demo_execution = Accepted" "ex_body_state demo_execution = AwaitingUpload"
  "ex_target demo_execution = demo_descriptor" "ex_terminating demo_execution = False"
  "ex_store demo_execution = create_store" "ex_appends demo_execution = []"
  "ex_terminal_reserve demo_execution = 4096" "ex_cache_bytes demo_execution = 0"
  "ex_idempotency_key demo_execution = ''k''" "ex_hash demo_execution = ''h''"
  by (simp_all add: demo_execution_def new_execution_def demo_descriptor_def Let_def
      TERMINAL_FRAME_RESERVE_BYTES_def)

lemma create_store_simps [simp]:
  "fs_terminal create_store = False" "fs_frames create_store = []" "fs_write_offset create_store = 0"
  by (simp_all add: create_store_def)

lemma demo_cancelled_facts:
  "reachable demo_limits True demo_cancelled"
  "\<exists>e. map_of (sv_executions demo_cancelled) ''e1'' = Some e \<and> is_terminal e \<and>
     ex_body_state e = AwaitingUpload \<and> ex_target e = demo_descriptor \<and> ex_principal e = ''p'' \<and>
     ex_id e = ''e1'' \<and> ex_state e = Cancelled"
proof -
  let ?sv = "cancel demo_limits 6 (\<lambda>_. [1]) ''p'' ''e1'' demo_service"
  have r: "reachable demo_limits True ?sv"
    by (rule reach_step [OF demo_reachable st_cancel])
  have e: "map_of (sv_executions ?sv) ''e1'' = Some (the (map_of (sv_executions ?sv) ''e1''))"
      "0 < length (ex_appends (the (map_of (sv_executions ?sv) ''e1'')))"
    by (simp_all add: demo_service_eval segment_defs counter_def demo_limits_def FRAME_HEADER_BYTES_def
        MAX_FRAME_PAYLOAD_BYTES_def)
  obtain e1 sv1 where ok: "append_ok demo_limits 7 (\<lambda>_. []) 0
      (the (map_of (sv_executions ?sv) ''e1'')) ?sv = (e1, sv1)" by (metis surj_pair)
  then have out: "demo_cancelled = put_execution e1 sv1"
    by (simp add: demo_cancelled_def Let_def)
  show "reachable demo_limits True demo_cancelled"
    unfolding out by (rule reach_step [OF r st_append_ok [OF e ok]])
  show "\<exists>e. map_of (sv_executions demo_cancelled) ''e1'' = Some e \<and> is_terminal e \<and>
     ex_body_state e = AwaitingUpload \<and> ex_target e = demo_descriptor \<and> ex_principal e = ''p'' \<and>
     ex_id e = ''e1'' \<and> ex_state e = Cancelled"
    by (simp add: demo_cancelled_def demo_service_eval segment_defs counter_def demo_limits_def
        FRAME_HEADER_BYTES_def MAX_FRAME_PAYLOAD_BYTES_def)
qed

lemma demo_failed_facts:
  "reachable demo_limits True demo_failed"
  "\<exists>e. map_of (sv_executions demo_failed) ''e1'' = Some e \<and> is_terminal e \<and>
     ex_body_state e = BodyComplete \<and> ex_state e = Failed"
proof -
  let ?sv = "fst (upload demo_limits (\<lambda>_. []) ''p'' ''e1'' [] demo_service)"
  have r: "reachable demo_limits True ?sv"
    by (rule reach_step [OF demo_reachable st_upload])
  let ?e = "the (map_of (sv_executions ?sv) ''e1'')"
  have e: "map_of (sv_executions ?sv) ''e1'' = Some ?e" "ex_run ?e \<in> {Resolving, Opening, Reading}"
    by (simp_all add: demo_service_eval segment_defs demo_limits_def demo_descriptor_def)
  obtain e1 sv1 where run: "run_catch demo_limits 6 (\<lambda>_. [1]) (CauseOther None) ?e ?sv = (e1, sv1)"
    by (metis surj_pair)
  let ?sv2 = "put_execution e1 sv1"
  have r2: "reachable demo_limits True ?sv2" by (rule reach_step [OF r st_run_error [OF e run]])
  let ?e2 = "the (map_of (sv_executions ?sv2) ''e1'')"
  have e2: "map_of (sv_executions ?sv2) ''e1'' = Some ?e2" "0 < length (ex_appends ?e2)"
    using run by (auto simp: demo_service_eval segment_defs counter_def demo_limits_def
        FRAME_HEADER_BYTES_def MAX_FRAME_PAYLOAD_BYTES_def demo_descriptor_def)
  obtain e3 sv3 where ok: "append_ok demo_limits 7 (\<lambda>_. []) 0 ?e2 ?sv2 = (e3, sv3)"
    by (metis surj_pair)
  have out: "demo_failed = put_execution e3 sv3"
    using ok run by (simp add: demo_failed_def Let_def)
  show "reachable demo_limits True demo_failed"
    unfolding out by (rule reach_step [OF r2 st_append_ok [OF e2 ok]])
  show "\<exists>e. map_of (sv_executions demo_failed) ''e1'' = Some e \<and> is_terminal e \<and>
     ex_body_state e = BodyComplete \<and> ex_state e = Failed"
    by (simp add: demo_failed_def demo_service_eval segment_defs counter_def demo_limits_def
        FRAME_HEADER_BYTES_def MAX_FRAME_PAYLOAD_BYTES_def demo_descriptor_def)
qed

theorem terminal_absorbing_witness:
  "\<exists>e'. map_of (sv_executions (cancel demo_limits 9 (\<lambda>_. []) ''p'' ''e1'' demo_failed)) ''e1'' = Some e' \<and>
     is_terminal e'"
proof -
  obtain e where e: "map_of (sv_executions demo_failed) ''e1'' = Some e" "is_terminal e"
      "ex_body_state e = BodyComplete"
    using demo_failed_facts(2) by blast
  have "map_of (sv_executions (cancel demo_limits 9 (\<lambda>_. []) ''p'' ''e1'' demo_failed)) ''e1'' \<noteq> None"
    using e by (simp add: cancel_def owned_def)
  with terminal_absorbing [OF demo_failed_facts(1) demo_limits_ok st_cancel e(1,2),
      of 9 "\<lambda>_. []" "''p''" "''e1''"] e(3)
  show ?thesis by auto
qed

text \<open>
  C32. An upload revives a terminal execution. \<open>upload\<close> checks only that the body is awaited, so a
  cancelled, timed-out or failed execution that never received its body accepts one: it leaves its
  terminal state with its error and expiry still set, and its target run starts and passes the
  terminal check in front of the request.
\<close>

theorem upload_revives_terminal:
  assumes "reachable lim io sv" and "0 \<le> lim_executions lim" and "0 \<le> lim_cache_bytes lim"
    and "owned sv p eid = Some e" and "is_terminal e"
    and "ex_body_state e = AwaitingUpload" and "d_body_mode (ex_target e) = ModeStream"
    and "length body \<le> lim_request_bytes lim"
    and "d_body_length (ex_target e) \<in> {None, Some (length body)}"
    and "d_body_sha256 (ex_target e) \<in> {None, Some (sha body)}"
  shows "\<exists>sv' s e'. upload lim sha p eid body sv = (sv', Inr (Some s)) \<and> se_state s = Active \<and>
    map_of (sv_executions sv') eid = Some e' \<and> \<not> is_terminal e' \<and>
    ex_error e' = ex_error e \<and> ex_expires_at e' = ex_expires_at e \<and>
    ex_run e' = Resolving \<and> ex_run (run_approved e') = Opening"
proof -
  from owned_SomeD [OF assms(4)] reachable_keyed(1) [OF assms(1-3)] have "ex_id e = eid"
    unfolding keyed_def by blast
  with assms(4-10) show ?thesis
    by (auto simp: upload_def Let_def to_session_def js_map.get_put is_terminal_def run_approved_def)
qed

theorem upload_revives_terminal_witness:
  "\<exists>e sv' s. owned demo_cancelled ''p'' ''e1'' = Some e \<and> ex_state e = Cancelled \<and>
     upload demo_limits (\<lambda>_. []) ''p'' ''e1'' [1] demo_cancelled = (sv', Inr (Some s)) \<and>
     se_state s = Active"
proof -
  obtain e where e: "map_of (sv_executions demo_cancelled) ''e1'' = Some e" "is_terminal e"
     "ex_body_state e = AwaitingUpload" "ex_target e = demo_descriptor" "ex_principal e = ''p''"
     "ex_state e = Cancelled"
    using demo_cancelled_facts(2) by blast
  then have owned: "owned demo_cancelled ''p'' ''e1'' = Some e" by (simp add: owned_def)
  from upload_revives_terminal [OF demo_cancelled_facts(1) demo_limits_ok owned e(2,3),
      where sha = "\<lambda>_. []" and body = "[1]"] e owned
  show ?thesis by (auto simp: demo_descriptor_def demo_limits_def)
qed

text \<open>
  C33. Effective idempotency keys of different principals collide. The key joins the principal and
  the client's key with a colon, so when a principal's name extends another one's by a colon and a
  suffix, the shorter-named one can name the longer-named one's key: with the same descriptor its
  creation is answered with the other principal's session.
\<close>

theorem idempotency_keys_collide:
  assumes "reachable lim io sv" and "0 \<le> lim_executions lim" and "0 \<le> lim_cache_bytes lim"
    and "map_of (sv_executions sv) eid = Some e"
    and "ex_principal e = a @ '':'' @ b" and "ex_idempotency_key e = c"
    and "validate_descriptor lim d = Inr ()"
  shows "create_begin lim a (b @ '':'' @ c) d (ex_hash e) sv = (sv, Inr (Replayed (to_session e))) \<and>
    ex_principal e \<noteq> a \<and> owned sv a eid = None"
proof -
  from keys_exclusiveD(2) [OF reachable_exclusive [OF assms(1-3)] assms(4)]
  have "map_of (sv_idempotency sv) (idempotency_key a (b @ '':'' @ c)) = Some eid"
    using assms(5,6) by (simp add: key_of_def idempotency_key_def)
  from create_begin_existing [OF assms(7) this assms(4), of "ex_hash e"] assms(4,5)
  show ?thesis by (simp add: owned_def)
qed

definition demo_colon :: service where
  "demo_colon = create_finish ''p:q:k'' ''e2'' 5
     (fst (create_begin demo_limits ''p:q'' ''k'' demo_descriptor ''h'' empty_service))"

theorem idempotency_keys_collide_witness:
  "\<exists>e. map_of (sv_executions demo_colon) ''e2'' = Some e \<and> ex_principal e = ''p:q'' \<and>
     create_begin demo_limits ''p'' ''q:k'' demo_descriptor ''h'' demo_colon =
       (demo_colon, Inr (Replayed (to_session e)))"
proof -
  let ?sv = "fst (create_begin demo_limits ''p:q'' ''k'' demo_descriptor ''h'' empty_service)"
  have begun: "sv_executions ?sv = []" "map_of (sv_pending ?sv) ''p:q:k'' = Some
      \<lparr>pc_principal = ''p:q'', pc_idempotency_key = ''k'', pc_descriptor = demo_descriptor, pc_hash = ''h''\<rparr>"
    by (simp_all add: create_begin_def validate_descriptor_def demo_descriptor_def
        create_pending_def reserve_execution_def demo_limits_def empty_service_def idempotency_key_def Let_def counter_def
        TERMINAL_FRAME_RESERVE_BYTES_def)
  have "reachable demo_limits True demo_colon"
    unfolding demo_colon_def
    by (rule reach_step [OF reach_step [OF reach_start st_create]]) (rule st_created, simp add: begun)
  moreover obtain e where e: "map_of (sv_executions demo_colon) ''e2'' = Some e"
      "ex_principal e = ''p:q''" "ex_idempotency_key e = ''k''" "ex_hash e = ''h''"
    using begun by (simp add: demo_colon_def create_finish_def put_execution_def new_execution_def Let_def)
  ultimately show ?thesis
    using idempotency_keys_collide [OF _ demo_limits_ok e(1) _ e(3) demo_valid, of True "''p''" "''q''"]
    by auto
qed

lemma evict_oldest_length: "length (evict_oldest m) < MAX_EXPIRY_TOMBSTONES"
  by (induction m) (auto simp: MAX_EXPIRY_TOMBSTONES_def)

lemma alist_update_length: "length (AList.update k v m) \<le> Suc (length m)"
  by (induction m) auto

lemma alist_delete_length: "length (AList.delete k m) \<le> length m"
  by (simp add: AList.delete_eq)

lemma service_step_tombstones:
  assumes step: "service_step lim io sv sv'" and inv: "length (sv_expired sv) \<le> MAX_EXPIRY_TOMBSTONES"
  shows "length (sv_expired sv') \<le> MAX_EXPIRY_TOMBSTONES"
  using step
proof (cases rule: service_step_shape)
  case (begun p ik d h)
  obtain sv1 r where cb: "create_begin lim p ik d h sv = (sv1, r)" by (metis surj_pair)
  then have "sv_expired sv1 = sv_expired sv"
    by (auto simp: create_begin_def Let_def dest!: create_pending_fields
        split: sum.splits option.splits if_splits)
  with begun cb inv show ?thesis by simp
next
  case (expired e)
  have "length (AList.update (ex_id e) (ex_principal e) (evict_oldest (sv_expired sv)))
      \<le> MAX_EXPIRY_TOMBSTONES"
    using alist_update_length [of "ex_id e" "ex_principal e" "evict_oldest (sv_expired sv)"]
      evict_oldest_length [of "sv_expired sv"] by simp
  with inv show ?thesis
    by (simp add: expired expire_execution_def release_execution_def retain_expiry_tombstone_def)
next
  case (tombstone eid)
  with inv alist_delete_length [of eid "sv_expired sv"] show ?thesis by simp
qed (use inv in \<open>auto simp: create_finish_def create_fail_def release_execution_reservation_def
       release_execution_def confined_def split: option.splits\<close>)

lemma reachable_tombstones:
  "reachable lim io sv \<Longrightarrow> length (sv_expired sv) \<le> MAX_EXPIRY_TOMBSTONES"
  by (induction rule: reachable.induct) (simp_all add: empty_service_def service_step_tombstones)

text \<open>
  Expiry is remembered for the owner only, in bounded space. In every reachable state at most
  10,000 expiry markers are kept; when a terminal execution expires, opening its response stream
  tells its owner that the cache has expired and tells any other principal nothing.
\<close>

theorem expiry_is_owner_only:
  assumes "reachable lim io sv" and "map_of (sv_executions sv) eid = Some e" and "ex_id e = eid"
  shows "length (sv_expired (expire_execution e sv)) \<le> 10000 \<and>
    snd (open_stream (ex_principal e) eid (expire_execution e sv)) = Inl ExecutionExpired \<and>
    (\<forall>q. q \<noteq> ex_principal e \<longrightarrow>
       open_stream q eid (expire_execution e sv) = (expire_execution e sv, Inr None))"
proof -
  let ?sv = "expire_execution e sv"
  have fields: "map_of (sv_executions ?sv) eid = None" "map_of (sv_expired ?sv) eid = Some (ex_principal e)"
    using assms(2,3)
    by (simp_all add: expire_execution_def release_execution_def retain_expiry_tombstone_def
        js_map.get_put)
  then have "owned ?sv q eid = None" for q by (simp add: owned_def)
  moreover have "length (sv_expired ?sv) \<le> 10000"
    using alist_update_length [of "ex_id e" "ex_principal e" "evict_oldest (sv_expired sv)"]
      evict_oldest_length [of "sv_expired sv"] assms(2,3)
    by (simp add: expire_execution_def release_execution_def retain_expiry_tombstone_def
        MAX_EXPIRY_TOMBSTONES_def)
  ultimately show ?thesis using fields by (simp add: open_stream_def)
qed

theorem expiry_is_owner_only_witness:
  "snd (open_stream ''p'' ''e1'' (expire_execution demo_execution demo_service)) = Inl ExecutionExpired"
  using expiry_is_owner_only [OF demo_reachable [of False], of "''e1''" demo_execution]
  by (simp add: demo_service_eval)

lemma pieces_props:
  "concat (pieces bytes) = bytes \<and>
   (\<forall>x \<in> set (pieces bytes). x \<noteq> [] \<and> length x \<le> MAX_FRAME_PAYLOAD_BYTES)"
proof (induction bytes rule: pieces.induct)
  case (1 bytes)
  then show ?case
    by (cases "bytes = []")
       (simp_all add: pieces.simps [of bytes] pieces.simps [of "[]"] MAX_FRAME_PAYLOAD_BYTES_def)
qed

text \<open>
  A response chunk is cut into body frames without loss. For every chunk the pieces written
  as body frames concatenate to the chunk, none is empty and none exceeds the protocol's payload
  limit; and a run that would exceed the response limit writes none of them.
\<close>

theorem chunk_pieces:
  "concat (pieces bytes) = bytes \<and>
   (\<forall>x \<in> set (pieces bytes). x \<noteq> [] \<and> length x \<le> 1048576) \<and>
   (ex_body_bytes e + length bytes > min (d_max_response_bytes (ex_target e)) (lim_response_bytes lim) \<longrightarrow>
      run_chunk lim now json bytes e sv =
        run_catch lim now json (CauseFailure response_limit_failure)
          (e\<lparr>ex_body_bytes := ex_body_bytes e + length bytes\<rparr>) sv)"
  using pieces_props [of bytes] by (simp add: run_chunk_def Let_def MAX_FRAME_PAYLOAD_BYTES_def)

theorem chunk_pieces_witness:
  "concat (pieces (replicate 1001 7)) = replicate 1001 7 \<and>
   ex_run (fst (run_chunk demo_limits 9 (\<lambda>_. [1]) (replicate 1001 7) demo_execution demo_service)) = Finished"
  using chunk_pieces [of "replicate 1001 7" demo_execution demo_limits 9 "\<lambda>_. [1]" demo_service]
  by (simp add: demo_descriptor_def demo_limits_def)
     (simp add: segment_defs counter_def demo_service_eval FRAME_HEADER_BYTES_def
       MAX_FRAME_PAYLOAD_BYTES_def demo_execution_def new_execution_def)

end
