(* ===== verification/Target_Policy.thy ===== *)
theory Target_Policy
  imports Prelude
begin

text \<open>
  The proxy's outbound target policy (\<open>apps/proxy/src/application/target-policy.ts\<close>):
  \<open>TargetPolicy.approve\<close>, its address ranges and the pinned lookup. \<open>net.isIP\<close> and
  \<open>net.BlockList\<close> of the Node standard library are modelled on the address grammar and on
  128-bit words: an IPv4 address or network takes part in a check against the other family as
  its IPv4-mapped IPv6 form, as in Node. A parsed URL is the record of the parts the code reads,
  and the DNS resolver is a parameter.
\<close>

section \<open>IP addresses\<close>

type_synonym ip = "128 word"

definition digit_value :: "char \<Rightarrow> int option" where
  "digit_value c = (let n = of_char c :: int in if 48 \<le> n \<and> n \<le> 57 then Some (n - 48) else None)"

definition hex_value :: "char \<Rightarrow> int option" where
  "hex_value c =
     (let n = of_char c :: int in
      if 48 \<le> n \<and> n \<le> 57 then Some (n - 48)
      else if 65 \<le> n \<and> n \<le> 70 then Some (n - 55)
      else if 97 \<le> n \<and> n \<le> 102 then Some (n - 87)
      else None)"

fun positional :: "int \<Rightarrow> (char \<Rightarrow> int option) \<Rightarrow> int \<Rightarrow> string \<Rightarrow> int option" where
  "positional base val acc [] = Some acc"
| "positional base val acc (c # cs) =
     (case val c of None \<Rightarrow> None | Some v \<Rightarrow> positional base val (acc * base + v) cs)"

definition decimal :: "string \<Rightarrow> int option" where
  "decimal s = (if s = [] then None else positional 10 digit_value 0 s)"

text \<open>One IPv4 segment: 0--255 without leading zeros.\<close>

definition ipv4_segment :: "string \<Rightarrow> int option" where
  "ipv4_segment s =
     (if length s > 3 \<or> (length s > 1 \<and> hd s = CHR ''0'') then None
      else case decimal s of None \<Rightarrow> None | Some n \<Rightarrow> if n \<le> 255 then Some n else None)"

fun all_some :: "'a option list \<Rightarrow> 'a list option" where
  "all_some [] = Some []"
| "all_some (None # xs) = None"
| "all_some (Some x # xs) = map_option (Cons x) (all_some xs)"

definition parse_ipv4 :: "string \<Rightarrow> (32 word) option" where
  "parse_ipv4 s =
     (case all_some (map ipv4_segment (split_on CHR ''.'' s)) of
        Some [a, b, c, d] \<Rightarrow> Some (word_of_int (((a * 256 + b) * 256 + c) * 256 + d))
      | _ \<Rightarrow> None)"

text \<open>One 16-bit group of an IPv6 address: one to four hexadecimal digits.\<close>

definition ipv6_group :: "string \<Rightarrow> int option" where
  "ipv6_group s = (if s = [] \<or> length s > 4 then None else positional 16 hex_value 0 s)"

text \<open>A colon-separated run of groups; only the last one may be a dotted IPv4 address, and only
  where the run ends the address.\<close>

definition ipv6_groups :: "bool \<Rightarrow> string \<Rightarrow> int list option" where
  "ipv6_groups ends s =
     (if s = [] then Some []
      else
        let parts = split_on CHR '':'' s in
        case (ends, parse_ipv4 (last parts)) of
          (True, Some v4) \<Rightarrow>
            map_option (\<lambda>gs. gs @ [uint v4 div 65536, uint v4 mod 65536])
              (all_some (map ipv6_group (butlast parts)))
        | _ \<Rightarrow> all_some (map ipv6_group parts))"

definition ip_of_groups :: "int list \<Rightarrow> ip" where
  "ip_of_groups gs = word_of_int (foldl (\<lambda>acc g. acc * 65536 + g) 0 gs)"

definition zone_char :: "char \<Rightarrow> bool" where
  "zone_char c \<longleftrightarrow>
     (let n = of_char c :: nat in
      (48 \<le> n \<and> n \<le> 57) \<or> (65 \<le> n \<and> n \<le> 90) \<or> (97 \<le> n \<and> n \<le> 122) \<or>
      c \<in> {CHR ''-'', CHR ''.'', CHR '':''})"

definition parse_ipv6_body :: "string \<Rightarrow> ip option" where
  "parse_ipv6_body s =
     (case index_of ''::'' s of
        None \<Rightarrow>
          (case ipv6_groups True s of
             Some gs \<Rightarrow> if length gs = 8 then Some (ip_of_groups gs) else None
           | None \<Rightarrow> None)
      | Some n \<Rightarrow>
          (case (ipv6_groups False (take n s), ipv6_groups True (drop (n + 2) s)) of
             (Some front, Some back) \<Rightarrow>
               if length front + length back \<le> 7
               then Some (ip_of_groups
                      (front @ replicate (8 - length front - length back) 0 @ back))
               else None
           | _ \<Rightarrow> None))"

definition parse_ipv6 :: "string \<Rightarrow> ip option" where
  "parse_ipv6 s =
     (case index_of ''%'' s of
        None \<Rightarrow> parse_ipv6_body s
      | Some n \<Rightarrow>
          if drop (n + 1) s \<noteq> [] \<and> (\<forall>c \<in> set (drop (n + 1) s). zone_char c)
          then parse_ipv6_body (take n s) else None)"

text \<open>\<open>net.isIP\<close>: 4, 6, or 0 for anything else.\<close>

definition is_ip :: "string \<Rightarrow> nat" where
  "is_ip s = (if parse_ipv4 s \<noteq> None then 4 else if parse_ipv6 s \<noteq> None then 6 else 0)"

definition ipv4_mapped :: "32 word \<Rightarrow> ip" where
  "ipv4_mapped a = word_of_int (0xffff00000000 + uint a)"

definition ip_value :: "string \<Rightarrow> ip option" where
  "ip_value s =
     (case parse_ipv4 s of Some a \<Rightarrow> Some (ipv4_mapped a) | None \<Rightarrow> parse_ipv6 s)"

section \<open>Block lists\<close>

type_synonym block_list = "(ip \<times> nat) list"

definition in_network :: "ip \<Rightarrow> ip \<times> nat \<Rightarrow> bool" where
  "in_network a rule \<longleftrightarrow> (case rule of (n, prefix) \<Rightarrow> drop_bit (128 - prefix) a = drop_bit (128 - prefix) n)"

text \<open>\<open>BlockList.check\<close>: an address that does not parse matches nothing.\<close>

definition check :: "block_list \<Rightarrow> string \<Rightarrow> bool" where
  "check bl address =
     (case ip_value address of None \<Rightarrow> False | Some a \<Rightarrow> list_ex (in_network a) bl)"

text \<open>The last slash splits a CIDR. The prefix of an IPv4 network counts from bit 96.\<close>

definition last_slash :: "string \<Rightarrow> nat" where
  "last_slash s = length s - 1 - the (index_of ''/'' (rev s))"

definition parse_cidr :: "string \<Rightarrow> (ip \<times> nat) option" where
  "parse_cidr cidr =
     (let separator = last_slash cidr;
          address = take separator cidr in
      case (ip_value address, decimal (drop (separator + 1) cidr)) of
        (Some n, Some prefix) \<Rightarrow> Some (n, nat (if is_ip address = 4 then prefix + 96 else prefix))
      | _ \<Rightarrow> None)"

definition cidr_block_list :: "string list \<Rightarrow> block_list" where
  "cidr_block_list cidrs = List.map_filter parse_cidr cidrs"

definition HARD_DENIED_IPV4 :: "string list" where
  "HARD_DENIED_IPV4 =
     [''0.0.0.0/8'', ''127.0.0.0/8'', ''169.254.0.0/16'', ''192.0.0.0/24'', ''192.0.2.0/24'',
      ''192.88.99.0/24'', ''198.18.0.0/15'', ''198.51.100.0/24'', ''203.0.113.0/24'',
      ''224.0.0.0/4'', ''240.0.0.0/4'']"

definition HARD_DENIED_IPV6 :: "string list" where
  "HARD_DENIED_IPV6 =
     [''::/128'', ''::1/128'', ''64:ff9b::/96'', ''64:ff9b:1::/48'', ''100::/64'', ''2001::/32'',
      ''2001:2::/48'', ''2001:10::/28'', ''2001:20::/28'', ''2001:db8::/32'', ''2002::/16'',
      ''fe80::/10'', ''ff00::/8'']"

definition PRIVATE_IPV4 :: "string list" where
  "PRIVATE_IPV4 = [''10.0.0.0/8'', ''100.64.0.0/10'', ''172.16.0.0/12'', ''192.168.0.0/16'']"

definition PRIVATE_IPV6 :: "string list" where
  "PRIVATE_IPV6 = [''fc00::/7'']"

section \<open>The policy\<close>

datatype family = IPv4 | IPv6

fun family_number :: "family \<Rightarrow> nat" where
  "family_number IPv4 = 4"
| "family_number IPv6 = 6"

record resolved_address =
  ra_address :: string
  ra_family :: family

record target_url =
  tu_protocol :: string
  tu_username :: string
  tu_password :: string
  tu_hostname :: string
  tu_hash :: string

record policy_configuration =
  pol_private_deny :: bool
  pol_allow :: "string list"
  pol_deny :: "string list"

datatype resolution_error = DnsResolutionFailed | TargetPolicyDenied

definition unbracket_hostname :: "string \<Rightarrow> string" where
  "unbracket_hostname h =
     (if starts_with h ''['' \<and> ends_with h '']'' then butlast (tl h) else h)"

text \<open>\<open>uniqueAddresses\<close>: the map from \<open>family:address\<close>, in insertion order.\<close>

definition address_key :: "resolved_address \<Rightarrow> family \<times> string" where
  "address_key a = (ra_family a, ra_address a)"

definition unique_addresses :: "resolved_address list \<Rightarrow> resolved_address list" where
  "unique_addresses candidates =
     map snd (foldl (\<lambda>m a. if is_ip (ra_address a) \<noteq> family_number (ra_family a) then m
                           else AList.update (address_key a) a m) [] candidates)"

definition permits :: "policy_configuration \<Rightarrow> resolved_address \<Rightarrow> bool" where
  "permits cfg candidate =
     (let address = ra_address candidate in
      if check (cidr_block_list (HARD_DENIED_IPV4 @ HARD_DENIED_IPV6)) address \<or>
         check (cidr_block_list (pol_deny cfg)) address then False
      else if check (cidr_block_list (pol_allow cfg)) address then True
      else \<not> (check (cidr_block_list (PRIVATE_IPV4 @ PRIVATE_IPV6)) address \<and> pol_private_deny cfg))"

text \<open>\<open>approve\<close>: the pinned candidate. The resolver answers \<open>None\<close> when it rejects.\<close>

definition approve ::
  "policy_configuration \<Rightarrow> (string \<Rightarrow> resolved_address list option) \<Rightarrow> target_url
     \<Rightarrow> resolution_error + resolved_address" where
  "approve cfg resolve url =
     (if tu_protocol url \<notin> {''http:'', ''https:''} \<or> tu_username url \<noteq> [] \<or> tu_password url \<noteq> [] \<or>
         tu_hash url \<noteq> []
      then Inl TargetPolicyDenied
      else
        let hostname = unbracket_hostname (tu_hostname url);
            literal_family = is_ip hostname in
        case (if literal_family = 0 then resolve hostname
              else Some [\<lparr>ra_address = hostname, ra_family = (if literal_family = 4 then IPv4 else IPv6)\<rparr>]) of
          None \<Rightarrow> Inl DnsResolutionFailed
        | Some candidates \<Rightarrow>
            let normalized = unique_addresses candidates in
            if normalized = [] then Inl DnsResolutionFailed
            else if list_ex (\<lambda>a. \<not> permits cfg a) normalized then Inl TargetPolicyDenied
            else Inr (hd normalized))"

text \<open>\<open>pinnedLookup\<close>: whatever host name and options the HTTP client passes.\<close>

datatype lookup_answer = AllAddresses "resolved_address list" | OneAddress string family

definition pinned_lookup :: "resolved_address \<Rightarrow> string \<Rightarrow> bool \<Rightarrow> lookup_answer" where
  "pinned_lookup candidate hostname all =
     (if all then AllAddresses [candidate]
      else OneAddress (ra_address candidate) (ra_family candidate))"

section \<open>Networks are ranges\<close>

lemma uint_drop_bit: "uint (drop_bit n w) = uint w div 2 ^ n" for w :: "'a::len word"
  by transfer (simp add: drop_bit_take_bit flip: drop_bit_eq_div)

lemma in_network_div:
  "in_network v (n, prefix) \<longleftrightarrow> uint v div 2 ^ (128 - prefix) = uint n div 2 ^ (128 - prefix)"
  by (simp add: in_network_def word_uint_eq_iff uint_drop_bit)

lemma div_eq_range:
  fixes s q v :: int
  assumes "0 < s"
  shows "v div s = q \<longleftrightarrow> s * q \<le> v \<and> v < s * q + s"
proof
  assume "v div s = q"
  then have "v = s * q + v mod s" by auto
  with assms pos_mod_bound [of s v] pos_mod_sign [of s v]
  show "s * q \<le> v \<and> v < s * q + s" by linarith
next
  assume "s * q \<le> v \<and> v < s * q + s"
  then show "v div s = q" by (intro int_div_pos_eq [of v s q "v - s * q"]) auto
qed

lemma uint_ipv4_mapped: "uint (ipv4_mapped w) = 0xffff00000000 + uint w"
proof -
  have "uint w < 2 ^ 32" using uint_lt2p [of w] by simp
  then show ?thesis
    unfolding ipv4_mapped_def uint_word_of_int by (simp add: mod_pos_pos_trivial)
qed

section \<open>Unique addresses\<close>

definition well_formed :: "resolved_address \<Rightarrow> bool" where
  "well_formed a \<longleftrightarrow> is_ip (ra_address a) = family_number (ra_family a)"

lemma address_key_inject: "address_key a = address_key b \<longleftrightarrow> a = b"
  by (auto simp: address_key_def)

lemma update_keyed:
  "AList.update (address_key c) c (map (\<lambda>a. (address_key a, a)) xs) =
     map (\<lambda>a. (address_key a, a)) (if c \<in> set xs then xs else xs @ [c])"
  by (induction xs) (auto simp: address_key_inject)

lemma unique_fold:
  "distinct xs \<Longrightarrow> \<exists>ys. distinct ys \<and> set ys = set xs \<union> {a \<in> set cs. well_formed a} \<and>
     foldl (\<lambda>m a. if is_ip (ra_address a) \<noteq> family_number (ra_family a) then m
             else AList.update (address_key a) a m) (map (\<lambda>a. (address_key a, a)) xs) cs =
     map (\<lambda>a. (address_key a, a)) ys"
proof (induction cs arbitrary: xs)
  case Nil
  then show ?case by auto
next
  case (Cons c cs)
  show ?case
  proof (cases "well_formed c")
    case False
    then have "{a \<in> set (c # cs). well_formed a} = {a \<in> set cs. well_formed a}" by auto
    with Cons.IH [OF Cons.prems] False show ?thesis by (simp add: well_formed_def)
  next
    case True
    have "distinct (if c \<in> set xs then xs else xs @ [c])" using Cons.prems by simp
    from Cons.IH [OF this] obtain ys where ys: "distinct ys"
        "set ys = set (if c \<in> set xs then xs else xs @ [c]) \<union> {a \<in> set cs. well_formed a}"
        "foldl (\<lambda>m a. if is_ip (ra_address a) \<noteq> family_number (ra_family a) then m
             else AList.update (address_key a) a m)
             (map (\<lambda>a. (address_key a, a)) (if c \<in> set xs then xs else xs @ [c])) cs =
          map (\<lambda>a. (address_key a, a)) ys" by blast
    have "set ys = set xs \<union> {a \<in> set (c # cs). well_formed a}"
      using ys(2) True by auto
    with ys(1,3) True show ?thesis
      by (intro exI [of _ ys]) (simp add: update_keyed well_formed_def)
  qed
qed

lemma unique_addresses_set:
  "set (unique_addresses cs) = {a \<in> set cs. well_formed a}" "distinct (unique_addresses cs)"
proof -
  obtain ys where "distinct ys" "set ys = {a \<in> set cs. well_formed a}" "unique_addresses cs = ys"
    using unique_fold [of "[]" cs] by (auto simp: unique_addresses_def comp_def)
  then show "set (unique_addresses cs) = {a \<in> set cs. well_formed a}"
    "distinct (unique_addresses cs)" by simp_all
qed

section \<open>The hard-denied ranges\<close>

definition hard_denied :: block_list where
  "hard_denied = cidr_block_list (HARD_DENIED_IPV4 @ HARD_DENIED_IPV6)"

lemma hard_denied_eval:
  "hard_denied =
     [(0xffff00000000, 104), (0xffff7f000000, 104), (0xffffa9fe0000, 112), (0xffffc0000000, 120),
      (0xffffc0000200, 120), (0xffffc0586300, 120), (0xffffc6120000, 111), (0xffffc6336400, 120),
      (0xffffcb007100, 120), (0xffffe0000000, 100), (0xfffff0000000, 100),
      (0, 128), (1, 128), (0x64ff9b000000000000000000000000, 96),
      (0x64ff9b000100000000000000000000, 48), (0x1000000000000000000000000000000, 64),
      (0x20010000000000000000000000000000, 32), (0x20010002000000000000000000000000, 48),
      (0x20010010000000000000000000000000, 28), (0x20010020000000000000000000000000, 28),
      (0x20010db8000000000000000000000000, 32), (0x20020000000000000000000000000000, 16),
      (0xfe800000000000000000000000000000, 10), (0xff000000000000000000000000000000, 8)]"
  by code_simp

lemma permits_not_hard:
  assumes "permits cfg a" and "ip_value (ra_address a) = Some v"
  shows "\<not> list_ex (in_network v) hard_denied"
  using assms by (auto simp: permits_def Let_def check_def hard_denied_def split: if_splits)

lemma is_ip_value: "is_ip s \<noteq> 0 \<longleftrightarrow> ip_value s \<noteq> None"
  by (auto simp: is_ip_def ip_value_def split: option.splits)

lemma ip_value_v4: "parse_ipv4 s = Some w \<Longrightarrow> ip_value s = Some (ipv4_mapped w)"
  by (simp add: ip_value_def)

text \<open>The numeric meaning of the hard-denied ranges: for an IPv4 address, mapped or not, and for
  native IPv6.\<close>

lemma not_in_hard_denied:
  "\<not> list_ex (in_network v) hard_denied \<Longrightarrow> i < length hard_denied \<Longrightarrow>
     \<not> in_network v (hard_denied ! i)"
  by (simp add: list_ex_length)

lemma mapped_div: "(2 ^ k * q + x) div 2 ^ k = q + x div 2 ^ k" for q x :: int
  by simp

lemma not_hard_denied_v4:
  assumes "\<not> list_ex (in_network v) hard_denied" and "uint v = 0xffff00000000 + x"
    and "0 \<le> x" and "x < 2 ^ 32"
  shows "x div 2 ^ 24 \<notin> {0, 127}" and "x div 2 ^ 24 < 224" and "x div 2 ^ 16 \<noteq> 169 * 256 + 254"
proof -
  have "(0xffff00000000 + x) div 2 ^ 24 \<noteq> 0xffff00" "(0xffff00000000 + x) div 2 ^ 24 \<noteq> 0xffff7f"
    "(0xffff00000000 + x) div 2 ^ 16 \<noteq> 0xffffa9fe" "(0xffff00000000 + x) div 2 ^ 28 \<noteq> 0xffffe"
    "(0xffff00000000 + x) div 2 ^ 28 \<noteq> 0xfffff"
    using not_in_hard_denied [OF assms(1), of 0]  not_in_hard_denied [OF assms(1), of 1]
      not_in_hard_denied [OF assms(1), of 2] not_in_hard_denied [OF assms(1), of 9]
      not_in_hard_denied [OF assms(1), of 10]
    by (simp_all add: hard_denied_eval in_network_div assms(2))
  then have parts: "x div 2 ^ 24 \<noteq> 0" "x div 2 ^ 24 \<noteq> 127" "x div 2 ^ 16 \<noteq> 43518"
    "x div 2 ^ 28 \<noteq> 14" "x div 2 ^ 28 \<noteq> 15"
    using mapped_div [where k = 24 and q = "0xffff00" and x = x]
      mapped_div [where k = 16 and q = "0xffff0000" and x = x]
      mapped_div [where k = 28 and q = "0xffff0" and x = x]
    by simp_all
  from parts(1,2) show "x div 2 ^ 24 \<notin> {0, 127}" by blast
  from parts(3) show "x div 2 ^ 16 \<noteq> 169 * 256 + 254" by simp
  have "x div 2 ^ 28 \<le> 15" using assms(4) by simp
  with parts(4,5) have "x div 2 ^ 28 < 14" by linarith
  then show "x div 2 ^ 24 < 224" by simp
qed

lemma not_hard_denied_v6:
  assumes "\<not> list_ex (in_network v) hard_denied"
  shows "v \<noteq> 0" and "v \<noteq> 1" and "uint v div 2 ^ 118 \<noteq> 0x3fa" and "uint v div 2 ^ 120 \<noteq> 0xff"
  using not_in_hard_denied [OF assms, of 11] not_in_hard_denied [OF assms, of 12]
    not_in_hard_denied [OF assms, of 22] not_in_hard_denied [OF assms, of 23]
  by (auto simp: hard_denied_eval in_network_div)

lemma approve_elim:
  assumes "approve cfg resolve url = Inr a"
  obtains candidates where
    "(if is_ip (unbracket_hostname (tu_hostname url)) = 0 then resolve (unbracket_hostname (tu_hostname url))
      else Some [\<lparr>ra_address = unbracket_hostname (tu_hostname url), ra_family =
              (if is_ip (unbracket_hostname (tu_hostname url)) = 4 then IPv4 else IPv6)\<rparr>]) = Some candidates"
    "a \<in> set (unique_addresses candidates)" "\<forall>c \<in> set (unique_addresses candidates). permits cfg c"
    "tu_protocol url \<in> {''http:'', ''https:''}" "tu_username url = []" "tu_password url = []"
    "tu_hash url = []"
proof -
  let ?h = "unbracket_hostname (tu_hostname url)"
  have ok: "\<not> (tu_protocol url \<notin> {''http:'', ''https:''} \<or> tu_username url \<noteq> [] \<or> tu_password url \<noteq> [] \<or>
         tu_hash url \<noteq> [])"
    using assms unfolding approve_def by (metis Inl_Inr_False)
  with assms obtain cs where cs: "(if is_ip ?h = 0 then resolve ?h
      else Some [\<lparr>ra_address = ?h, ra_family = (if is_ip ?h = 4 then IPv4 else IPv6)\<rparr>]) = Some cs"
    unfolding approve_def Let_def by (simp only: if_False split: option.split_asm) blast
  with assms ok have "unique_addresses cs \<noteq> []" "a = hd (unique_addresses cs)"
      "\<not> list_ex (\<lambda>a. \<not> permits cfg a) (unique_addresses cs)"
    unfolding approve_def Let_def by (simp_all only: if_False option.case split: if_split_asm) auto
  with that [OF cs] ok show thesis by (auto simp: list_ex_iff)
qed

lemma approve_literal:
  "is_ip (unbracket_hostname (tu_hostname url)) \<noteq> 0 \<Longrightarrow>
     approve cfg resolve' url = approve cfg resolve url"
  by (simp add: approve_def Let_def)

text \<open>
  Only permitted targets are pinned. When a URL is approved, it is an HTTP or HTTPS URL
  without credentials or fragment, every well-formed address its host resolved to is permitted (so
  one forbidden answer among several refuses the target), the pinned address is one of them, and the
  lookup given to the HTTP client answers with it whatever it is asked; a literal host is pinned
  itself and never resolved.
\<close>

theorem approved_candidates_permitted:
  assumes "approve cfg resolve url = Inr a"
  shows "tu_protocol url \<in> {''http:'', ''https:''} \<and> tu_username url = [] \<and> tu_password url = [] \<and>
    tu_hash url = [] \<and> permits cfg a \<and> well_formed a \<and>
    (\<forall>h all. pinned_lookup a h all \<in> {AllAddresses [a], OneAddress (ra_address a) (ra_family a)}) \<and>
    (if is_ip (unbracket_hostname (tu_hostname url)) = 0
     then \<exists>cs. resolve (unbracket_hostname (tu_hostname url)) = Some cs \<and> a \<in> set cs \<and>
            (\<forall>c \<in> set cs. well_formed c \<longrightarrow> permits cfg c)
     else ra_address a = unbracket_hostname (tu_hostname url) \<and>
            (\<forall>resolve'. approve cfg resolve' url = Inr a))"
proof -
  obtain cs where cs:
    "(if is_ip (unbracket_hostname (tu_hostname url)) = 0 then resolve (unbracket_hostname (tu_hostname url))
      else Some [\<lparr>ra_address = unbracket_hostname (tu_hostname url), ra_family =
              (if is_ip (unbracket_hostname (tu_hostname url)) = 4 then IPv4 else IPv6)\<rparr>]) = Some cs"
    "a \<in> set (unique_addresses cs)" "\<forall>c \<in> set (unique_addresses cs). permits cfg c"
    "tu_protocol url \<in> {''http:'', ''https:''}" "tu_username url = []" "tu_password url = []"
    "tu_hash url = []"
    by (rule approve_elim [OF assms])
  note literal = trans [OF approve_literal assms]
  have "a \<in> set cs" "well_formed a" "\<forall>c \<in> set cs. well_formed c \<longrightarrow> permits cfg c"
    using cs(2,3) by (auto simp: unique_addresses_set)
  with cs literal show ?thesis
    by (auto simp: pinned_lookup_def split: if_splits)
qed

theorem approved_candidates_permitted_witness:
  "approve \<lparr>pol_private_deny = True, pol_allow = [], pol_deny = []\<rparr>
     (\<lambda>_. Some [\<lparr>ra_address = ''8.8.8.8'', ra_family = IPv4\<rparr>])
     \<lparr>tu_protocol = ''https:'', tu_username = [], tu_password = [], tu_hostname = ''a.b'', tu_hash = []\<rparr>
     = Inr \<lparr>ra_address = ''8.8.8.8'', ra_family = IPv4\<rparr> \<and>
   permits \<lparr>pol_private_deny = True, pol_allow = [], pol_deny = []\<rparr> \<lparr>ra_address = ''8.8.8.8'', ra_family = IPv4\<rparr>"
proof -
  let ?cfg = "\<lparr>pol_private_deny = True, pol_allow = [], pol_deny = []\<rparr>"
  let ?url = "\<lparr>tu_protocol = ''https:'', tu_username = [], tu_password = [], tu_hostname = ''a.b'', tu_hash = []\<rparr>"
  let ?a = "\<lparr>ra_address = ''8.8.8.8'', ra_family = IPv4\<rparr>"
  have "approve ?cfg (\<lambda>_. Some [?a]) ?url = Inr ?a" by code_simp
  from approved_candidates_permitted [OF this] this show ?thesis by simp
qed



definition permissive :: policy_configuration where
  "permissive = \<lparr>pol_private_deny = False, pol_allow = [''127.0.0.0/8'', ''::1/128'', ''0.0.0.0/0'', ''::/0''],
     pol_deny = []\<rparr>"

definition http_url :: "string \<Rightarrow> target_url" where
  "http_url host = \<lparr>tu_protocol = ''http:'', tu_username = [], tu_password = [], tu_hostname = host,
     tu_hash = []\<rparr>"

text \<open>
  Loopback literals are refused in every spelling. A URL whose host is the IPv4 loopback
  network, the IPv6 loopback address or their IPv4-mapped forms is denied under the most permissive
  configuration, one that allows exactly these networks and private access.
\<close>

theorem loopback_literals_denied:
  "approve permissive (\<lambda>_. None) (http_url ''127.0.0.1'') = Inl TargetPolicyDenied \<and>
   approve permissive (\<lambda>_. None) (http_url ''127.8.9.10'') = Inl TargetPolicyDenied \<and>
   approve permissive (\<lambda>_. None) (http_url ''[::1]'') = Inl TargetPolicyDenied \<and>
   approve permissive (\<lambda>_. None) (http_url ''[::ffff:7f00:1]'') = Inl TargetPolicyDenied \<and>
   approve permissive (\<lambda>_. None) (http_url ''[::ffff:127.0.0.1]'') = Inl TargetPolicyDenied \<and>
   approve permissive (\<lambda>_. None) (http_url ''8.8.8.8'') =
     Inr \<lparr>ra_address = ''8.8.8.8'', ra_family = IPv4\<rparr>"
  by code_simp

lemma check_mono: "set bl \<subseteq> set bl' \<Longrightarrow> check bl a \<Longrightarrow> check bl' a"
  by (auto simp: check_def list_ex_iff split: option.splits)

lemma cidr_block_list_mono: "set xs \<subseteq> set ys \<Longrightarrow> set (cidr_block_list xs) \<subseteq> set (cidr_block_list ys)"
  by (auto simp: cidr_block_list_def List.map_filter_def)

text \<open>
  Precedence of the rules. Adding deny rules can only withdraw permissions and adding allow
  rules can only add them, but no allow rule restores an address that a deny rule or a hard-denied
  range covers; and an address outside every rule and every private range is always permitted.
\<close>

theorem rule_precedence:
  assumes "set (pol_deny cfg) \<subseteq> set denied" and "set (pol_allow cfg) \<subseteq> set allowed"
  shows "(permits (cfg\<lparr>pol_deny := denied\<rparr>) a \<longrightarrow> permits cfg a) \<and>
    (permits cfg a \<longrightarrow> permits (cfg\<lparr>pol_allow := allowed\<rparr>) a) \<and>
    (check (cidr_block_list (pol_deny cfg)) (ra_address a) \<or>
     check (cidr_block_list (HARD_DENIED_IPV4 @ HARD_DENIED_IPV6)) (ra_address a) \<longrightarrow>
       \<not> permits (cfg\<lparr>pol_allow := allowed\<rparr>) a) \<and>
    (\<not> check (cidr_block_list (pol_deny cfg)) (ra_address a) \<and>
     \<not> check (cidr_block_list (HARD_DENIED_IPV4 @ HARD_DENIED_IPV6)) (ra_address a) \<and>
     \<not> check (cidr_block_list (PRIVATE_IPV4 @ PRIVATE_IPV6)) (ra_address a) \<longrightarrow> permits cfg a)"
  using check_mono [OF cidr_block_list_mono [OF assms(1)], of "ra_address a"]
    check_mono [OF cidr_block_list_mono [OF assms(2)], of "ra_address a"]
  by (simp add: permits_def Let_def)

theorem rule_precedence_witness:
  "\<not> permits (permissive\<lparr>pol_allow := [''0.0.0.0/0'']\<rparr>) \<lparr>ra_address = ''127.0.0.1'', ra_family = IPv4\<rparr>"
proof -
  have "check (cidr_block_list (HARD_DENIED_IPV4 @ HARD_DENIED_IPV6)) ''127.0.0.1''" by code_simp
  with rule_precedence [of "permissive\<lparr>pol_allow := []\<rparr>" "[]" "[''0.0.0.0/0'']"
      "\<lparr>ra_address = ''127.0.0.1'', ra_family = IPv4\<rparr>"]
  show ?thesis by (simp add: permissive_def)
qed

end
