(* ===== verification/Http_Policies.thy ===== *)
theory Http_Policies
  imports Prelude
begin

text \<open>
  Inheritable HTTP policies and user preferences (\<open>executions/redirect-policy.ts\<close> and
  \<open>cookies/cookie-policy.ts\<close> of \<open>apps/backend/src\<close>). A policy column holds JSON text; here it is
  the JSON value, and \<open>JSON.parse\<close> of what \<open>JSON.stringify\<close> wrote gives the value back. The keys of
  a JSON object are distinct.
\<close>

section \<open>JSON values\<close>

datatype json =
    JNull
  | JBool bool
  | JInteger int
  | JFraction string
  | JString string
  | JArray "json list"
  | JObject "(string \<times> json) list"

section \<open>Redirect policies\<close>

definition MAX_REDIRECTS_HARD_LIMIT :: int where
  "MAX_REDIRECTS_HARD_LIMIT = 50"

record redirect_override =
  ro_follow :: "bool option"
  ro_max_redirects :: "int option"

record redirect_policy =
  rp_follow :: bool
  rp_max_redirects :: int

definition DEFAULT_REDIRECT_POLICY :: redirect_policy where
  "DEFAULT_REDIRECT_POLICY = \<lparr>rp_follow = True, rp_max_redirects = 10\<rparr>"

datatype policy_error =
    RedirectPolicyInvalid
  | RedirectDefaultsIncomplete
  | CookieModeInvalid
  | CookiePolicyInvalid
  | CookieDefaultsIncomplete
  | WorkspaceRowMissing
  | PreferencesChanged

fun optional_bool :: "json option \<Rightarrow> 'e \<Rightarrow> 'e + bool option" where
  "optional_bool None e = Inr None"
| "optional_bool (Some (JBool b)) e = Inr (Some b)"
| "optional_bool (Some _) e = Inl e"

fun optional_redirect_count :: "json option \<Rightarrow> policy_error + int option" where
  "optional_redirect_count None = Inr None"
| "optional_redirect_count (Some (JInteger n)) =
     (if n < 0 \<or> n > MAX_REDIRECTS_HARD_LIMIT then Inl RedirectPolicyInvalid else Inr (Some n))"
| "optional_redirect_count (Some _) = Inl RedirectPolicyInvalid"

text \<open>\<open>validateRedirectPolicyOverride\<close>; \<open>None\<close> is \<open>undefined\<close>.\<close>

fun validate_redirect_override :: "json option \<Rightarrow> policy_error + redirect_override" where
  "validate_redirect_override None = Inr \<lparr>ro_follow = None, ro_max_redirects = None\<rparr>"
| "validate_redirect_override (Some (JObject members)) =
     bindE (requireE (list_all (\<lambda>(k, v). k = ''follow'' \<or> k = ''maxRedirects'') members)
              RedirectPolicyInvalid) (\<lambda>_.
     bindE (optional_bool (map_of members ''follow'') RedirectPolicyInvalid) (\<lambda>follow.
     bindE (optional_redirect_count (map_of members ''maxRedirects'')) (\<lambda>count.
     Inr \<lparr>ro_follow = follow, ro_max_redirects = count\<rparr>)))"
| "validate_redirect_override (Some _) = Inl RedirectPolicyInvalid"

definition validate_resolved_redirect :: "json \<Rightarrow> policy_error + redirect_policy" where
  "validate_resolved_redirect j =
     bindE (validate_redirect_override (Some j)) (\<lambda>parsed.
     case (ro_follow parsed, ro_max_redirects parsed) of
       (Some follow, Some count) \<Rightarrow> Inr \<lparr>rp_follow = follow, rp_max_redirects = count\<rparr>
     | _ \<Rightarrow> Inl RedirectDefaultsIncomplete)"

text \<open>The objects the code builds before \<open>JSON.stringify\<close>.\<close>

definition redirect_override_json :: "redirect_override \<Rightarrow> json" where
  "redirect_override_json r = JObject
     ((case ro_follow r of None \<Rightarrow> [] | Some b \<Rightarrow> [(''follow'', JBool b)]) @
      (case ro_max_redirects r of None \<Rightarrow> [] | Some n \<Rightarrow> [(''maxRedirects'', JInteger n)]))"

definition redirect_policy_json :: "redirect_policy \<Rightarrow> json" where
  "redirect_policy_json r =
     JObject [(''follow'', JBool (rp_follow r)), (''maxRedirects'', JInteger (rp_max_redirects r))]"

definition parse_redirect_override :: "json \<Rightarrow> policy_error + redirect_override" where
  "parse_redirect_override j = validate_redirect_override (Some j)"

text \<open>\<open>a ?? b\<close>.\<close>

definition coalesce :: "'a option \<Rightarrow> 'a \<Rightarrow> 'a" where
  "coalesce x d = (case x of None \<Rightarrow> d | Some v \<Rightarrow> v)"

text \<open>\<open>resolveRedirectPolicy\<close> on the policy columns of the workspace row and the preferences row.\<close>

definition resolve_redirect_policy ::
  "json option \<Rightarrow> json option \<Rightarrow> redirect_override \<Rightarrow> policy_error + redirect_policy" where
  "resolve_redirect_policy workspace preferences request =
     (case workspace of
        None \<Rightarrow> Inl WorkspaceRowMissing
      | Some j \<Rightarrow>
          bindE (parse_redirect_override j) (\<lambda>w.
          bindE (case preferences of
                   None \<Rightarrow> Inr DEFAULT_REDIRECT_POLICY
                 | Some p \<Rightarrow> validate_resolved_redirect p) (\<lambda>u.
          Inr \<lparr>rp_follow = coalesce (ro_follow request) (coalesce (ro_follow w) (rp_follow u)),
               rp_max_redirects =
                 coalesce (ro_max_redirects request)
                   (coalesce (ro_max_redirects w) (rp_max_redirects u))\<rparr>)))"

section \<open>Cookie policies\<close>

datatype cookie_mode = Optimistic | Serialized

record cookie_override =
  ck_enabled :: "bool option"

definition DEFAULT_COOKIE_POLICY :: bool where
  "DEFAULT_COOKIE_POLICY = True"

definition DEFAULT_COOKIE_CONCURRENCY_MODE :: cookie_mode where
  "DEFAULT_COOKIE_CONCURRENCY_MODE = Optimistic"

definition validate_cookie_mode :: "json \<Rightarrow> policy_error + cookie_mode" where
  "validate_cookie_mode j =
     (if j = JString ''optimistic'' then Inr Optimistic
      else if j = JString ''serialized'' then Inr Serialized
      else Inl CookieModeInvalid)"

definition cookie_mode_json :: "cookie_mode \<Rightarrow> json" where
  "cookie_mode_json m = JString (case m of Optimistic \<Rightarrow> ''optimistic'' | Serialized \<Rightarrow> ''serialized'')"

fun validate_cookie_override :: "json option \<Rightarrow> policy_error + cookie_override" where
  "validate_cookie_override None = Inr \<lparr>ck_enabled = None\<rparr>"
| "validate_cookie_override (Some (JObject members)) =
     bindE (requireE (list_all (\<lambda>(k, v). k = ''enabled'') members) CookiePolicyInvalid) (\<lambda>_.
     bindE (optional_bool (map_of members ''enabled'') CookiePolicyInvalid) (\<lambda>enabled.
     Inr \<lparr>ck_enabled = enabled\<rparr>))"
| "validate_cookie_override (Some _) = Inl CookiePolicyInvalid"

definition validate_resolved_cookie :: "json \<Rightarrow> policy_error + bool" where
  "validate_resolved_cookie j =
     bindE (validate_cookie_override (Some j)) (\<lambda>parsed.
     case ck_enabled parsed of Some b \<Rightarrow> Inr b | None \<Rightarrow> Inl CookieDefaultsIncomplete)"

definition cookie_override_json :: "cookie_override \<Rightarrow> json" where
  "cookie_override_json c =
     JObject (case ck_enabled c of None \<Rightarrow> [] | Some b \<Rightarrow> [(''enabled'', JBool b)])"

definition cookie_policy_json :: "bool \<Rightarrow> json" where
  "cookie_policy_json b = JObject [(''enabled'', JBool b)]"

definition parse_cookie_override :: "json \<Rightarrow> policy_error + cookie_override" where
  "parse_cookie_override j = validate_cookie_override (Some j)"

definition resolve_cookie_policy ::
  "json option \<Rightarrow> json option \<Rightarrow> cookie_override \<Rightarrow> policy_error + bool" where
  "resolve_cookie_policy workspace preferences request =
     (case workspace of
        None \<Rightarrow> Inl WorkspaceRowMissing
      | Some j \<Rightarrow>
          bindE (parse_cookie_override j) (\<lambda>w.
          bindE (case preferences of
                   None \<Rightarrow> Inr DEFAULT_COOKIE_POLICY
                 | Some p \<Rightarrow> validate_resolved_cookie p) (\<lambda>u.
          Inr (coalesce (ck_enabled request) (coalesce (ck_enabled w) u)))))"

section \<open>User preferences\<close>

record preferences_row =
  pr_revision :: nat
  pr_redirect :: json
  pr_cookie :: json
  pr_mode :: cookie_mode

type_synonym preferences_table = "(string \<times> preferences_row) list"

record preferences_view =
  pv_redirect :: redirect_policy
  pv_cookie :: bool
  pv_mode :: cookie_mode
  pv_revision :: nat

definition resolve_cookie_mode :: "preferences_table \<Rightarrow> string \<Rightarrow> cookie_mode" where
  "resolve_cookie_mode t user =
     (case map_of t user of None \<Rightarrow> DEFAULT_COOKIE_CONCURRENCY_MODE | Some row \<Rightarrow> pr_mode row)"

definition get_preferences :: "preferences_table \<Rightarrow> string \<Rightarrow> policy_error + preferences_view" where
  "get_preferences t user =
     (case map_of t user of
        None \<Rightarrow> Inr \<lparr>pv_redirect = DEFAULT_REDIRECT_POLICY, pv_cookie = DEFAULT_COOKIE_POLICY,
                   pv_mode = DEFAULT_COOKIE_CONCURRENCY_MODE, pv_revision = 0\<rparr>
      | Some row \<Rightarrow>
          bindE (validate_resolved_redirect (pr_redirect row)) (\<lambda>r.
          bindE (validate_resolved_cookie (pr_cookie row)) (\<lambda>c.
          bindE (validate_cookie_mode (cookie_mode_json (pr_mode row))) (\<lambda>m.
          Inr \<lparr>pv_redirect = r, pv_cookie = c, pv_mode = m, pv_revision = pr_revision row\<rparr>))))"

text \<open>\<open>update\<close>: the view, the table and the revisions audited. The arguments come from a client and
  are checked before they are stored.\<close>

definition update_preferences ::
  "preferences_table \<Rightarrow> string \<Rightarrow> nat \<Rightarrow> json \<Rightarrow> json \<Rightarrow> json
     \<Rightarrow> policy_error + (preferences_view \<times> preferences_table \<times> nat list)" where
  "update_preferences t user expected redirect cookie mode =
     bindE (validate_resolved_redirect redirect) (\<lambda>r.
     bindE (validate_resolved_cookie cookie) (\<lambda>c.
     bindE (validate_cookie_mode mode) (\<lambda>m.
     let revision = (case map_of t user of None \<Rightarrow> 0 | Some row \<Rightarrow> pr_revision row);
         json = redirect_policy_json r;
         cookie_json = cookie_policy_json c;
         view = (\<lambda>n. \<lparr>pv_redirect = r, pv_cookie = c, pv_mode = m, pv_revision = n\<rparr>);
         row = (\<lambda>n. \<lparr>pr_revision = n, pr_redirect = json, pr_cookie = cookie_json, pr_mode = m\<rparr>) in
     bindE (requireE (revision = expected) PreferencesChanged) (\<lambda>_.
     if map_of t user = Some (row revision) then Inr (view revision, t, [])
     else Inr (view (revision + 1), AList.update user (row (revision + 1)) t, [revision + 1])))))"

section \<open>What validation accepts\<close>

definition redirect_count_ok :: "int option \<Rightarrow> bool" where
  "redirect_count_ok x \<longleftrightarrow> (case x of None \<Rightarrow> True | Some n \<Rightarrow> 0 \<le> n \<and> n \<le> MAX_REDIRECTS_HARD_LIMIT)"

lemma optional_redirect_count_ok: "optional_redirect_count x = Inr n \<Longrightarrow> redirect_count_ok n"
  by (induction x rule: optional_redirect_count.induct) (auto simp: redirect_count_ok_def split: if_splits)

lemma validate_redirect_override_ok:
  "validate_redirect_override x = Inr r \<Longrightarrow> redirect_count_ok (ro_max_redirects r)"
  by (induction x rule: validate_redirect_override.induct)
     (auto simp: result_simps redirect_count_ok_def [of None] dest: optional_redirect_count_ok)

lemma redirect_override_roundtrip:
  "redirect_count_ok (ro_max_redirects r) \<Longrightarrow> parse_redirect_override (redirect_override_json r) = Inr r"
  by (cases "ro_follow r"; cases "ro_max_redirects r")
     (auto simp: parse_redirect_override_def redirect_override_json_def redirect_count_ok_def)

lemma validate_resolved_redirect_ok:
  assumes "validate_resolved_redirect j = Inr r"
  shows "0 \<le> rp_max_redirects r \<and> rp_max_redirects r \<le> MAX_REDIRECTS_HARD_LIMIT"
proof -
  obtain parsed where "validate_redirect_override (Some j) = Inr parsed"
    using assms by (auto simp: validate_resolved_redirect_def bindE_eq_Inr)
  with assms validate_redirect_override_ok [OF this] show ?thesis
    by (cases "ro_follow parsed"; cases "ro_max_redirects parsed")
       (auto simp: validate_resolved_redirect_def redirect_count_ok_def)
qed

lemma redirect_policy_roundtrip:
  "0 \<le> rp_max_redirects r \<Longrightarrow> rp_max_redirects r \<le> MAX_REDIRECTS_HARD_LIMIT \<Longrightarrow>
     validate_resolved_redirect (redirect_policy_json r) = Inr r"
  by (simp add: validate_resolved_redirect_def redirect_policy_json_def)

lemma cookie_override_roundtrip: "parse_cookie_override (cookie_override_json c) = Inr c"
  by (cases "ck_enabled c") (simp_all add: parse_cookie_override_def cookie_override_json_def)

lemma cookie_policy_roundtrip: "validate_resolved_cookie (cookie_policy_json b) = Inr b"
  by (simp add: validate_resolved_cookie_def cookie_policy_json_def)

lemma cookie_mode_roundtrip: "validate_cookie_mode (cookie_mode_json m) = Inr m"
  by (cases m) (simp_all add: validate_cookie_mode_def cookie_mode_json_def)

section \<open>Properties\<close>

text \<open>
  Redirect limits. However the request, the workspace and the user preferences were written, a
  resolved redirect policy takes each field from the first of request, workspace, user and packaged
  defaults that sets it, and never allows more than fifty redirects.
\<close>

theorem redirect_policy_layers:
  assumes "validate_redirect_override stored = Inr request"
    and "resolve_redirect_policy workspace preferences request = Inr r"
  shows "0 \<le> rp_max_redirects r \<and> rp_max_redirects r \<le> MAX_REDIRECTS_HARD_LIMIT \<and>
    (\<exists>j w u. workspace = Some j \<and> parse_redirect_override j = Inr w \<and>
       (case preferences of None \<Rightarrow> u = DEFAULT_REDIRECT_POLICY
        | Some p \<Rightarrow> validate_resolved_redirect p = Inr u) \<and>
       rp_follow r = coalesce (ro_follow request) (coalesce (ro_follow w) (rp_follow u)) \<and>
       rp_max_redirects r =
         coalesce (ro_max_redirects request) (coalesce (ro_max_redirects w) (rp_max_redirects u)))"
proof -
  obtain j w u where layers: "workspace = Some j" "parse_redirect_override j = Inr w"
      "case preferences of None \<Rightarrow> u = DEFAULT_REDIRECT_POLICY
       | Some p \<Rightarrow> validate_resolved_redirect p = Inr u"
    and r: "rp_follow r = coalesce (ro_follow request) (coalesce (ro_follow w) (rp_follow u))"
      "rp_max_redirects r =
         coalesce (ro_max_redirects request) (coalesce (ro_max_redirects w) (rp_max_redirects u))"
    using assms(2)
    by (cases workspace; cases preferences) (auto simp: resolve_redirect_policy_def result_simps)
  have "redirect_count_ok (ro_max_redirects request)" "redirect_count_ok (ro_max_redirects w)"
    using assms(1) layers(2) by (auto simp: parse_redirect_override_def dest: validate_redirect_override_ok)
  moreover have "0 \<le> rp_max_redirects u \<and> rp_max_redirects u \<le> MAX_REDIRECTS_HARD_LIMIT"
    using layers(3) validate_resolved_redirect_ok
    by (auto simp: DEFAULT_REDIRECT_POLICY_def MAX_REDIRECTS_HARD_LIMIT_def split: option.splits)
  ultimately have "0 \<le> rp_max_redirects r \<and> rp_max_redirects r \<le> MAX_REDIRECTS_HARD_LIMIT"
    unfolding r(2) coalesce_def redirect_count_ok_def by (auto split: option.splits)
  with layers r show ?thesis by blast
qed

theorem redirect_policy_layers_witness:
  "resolve_redirect_policy (Some (JObject [(''follow'', JBool False)])) None
     \<lparr>ro_follow = None, ro_max_redirects = Some 50\<rparr> = Inr \<lparr>rp_follow = False, rp_max_redirects = 50\<rparr> \<and>
   (50::int) \<le> MAX_REDIRECTS_HARD_LIMIT"
proof -
  have v: "validate_redirect_override (Some (JObject [(''maxRedirects'', JInteger 50)])) =
      Inr \<lparr>ro_follow = None, ro_max_redirects = Some 50\<rparr>" by code_simp
  have r: "resolve_redirect_policy (Some (JObject [(''follow'', JBool False)])) None
     \<lparr>ro_follow = None, ro_max_redirects = Some 50\<rparr> = Inr \<lparr>rp_follow = False, rp_max_redirects = 50\<rparr>"
    by code_simp
  from redirect_policy_layers [OF v r] r show ?thesis by simp
qed

text \<open>
  Preference updates. An accepted update was made against the current revision; reading the
  preferences back gives exactly the returned view; the revision and the audit advance by one
  unless nothing changed, and no other user is affected.
\<close>

theorem preferences_update_reads_back:
  assumes "update_preferences t user expected redirect cookie mode = Inr (v, t', audit)"
  shows "get_preferences t' user = Inr v \<and>
    expected = (case map_of t user of None \<Rightarrow> 0 | Some row \<Rightarrow> pr_revision row) \<and>
    (t' = t \<and> audit = [] \<and> pv_revision v = expected \<or>
     audit = [expected + 1] \<and> pv_revision v = expected + 1) \<and>
    (\<forall>other. other = user \<or> map_of t' other = map_of t other)"
proof -
  let ?row = "\<lambda>r c m n. \<lparr>pr_revision = n, pr_redirect = redirect_policy_json r,
    pr_cookie = cookie_policy_json c, pr_mode = m\<rparr>"
  let ?view = "\<lambda>r c m n. \<lparr>pv_redirect = r, pv_cookie = c, pv_mode = m, pv_revision = n\<rparr>"
  obtain r c m where valid: "validate_resolved_redirect redirect = Inr r"
    and expected: "(case map_of t user of None \<Rightarrow> 0 | Some row \<Rightarrow> pr_revision row) = expected"
    and result: "(if map_of t user = Some (?row r c m expected) then Inr (?view r c m expected, t, [])
      else Inr (?view r c m (expected + 1), AList.update user (?row r c m (expected + 1)) t, [expected + 1]))
      = (Inr (v, t', audit) :: policy_error + _)"
    using assms unfolding update_preferences_def Let_def bindE_eq_Inr requireE_eq_Inr by blast
  have reads: "get_preferences s user = Inr (?view r c m n)" if "map_of s user = Some (?row r c m n)" for s n
    using that validate_resolved_redirect_ok [OF valid]
    by (simp add: get_preferences_def redirect_policy_roundtrip cookie_policy_roundtrip cookie_mode_roundtrip)
  show ?thesis
  proof (cases "map_of t user = Some (?row r c m expected)")
    case True
    with result reads expected show ?thesis by auto
  next
    case False
    with result have out: "v = ?view r c m (expected + 1)" "audit = [expected + 1]"
      "t' = AList.update user (?row r c m (expected + 1)) t" by auto
    then have "get_preferences t' user = Inr v" by (intro trans [OF reads]) (simp_all add: js_map.get_put)
    moreover have "other = user \<or> map_of t' other = map_of t other" for other
      using out(3) by (cases "other = user") (simp_all add: js_map.get_put)
    ultimately show ?thesis using out(1,2) expected by simp
  qed
qed

theorem preferences_update_reads_back_witness:
  "\<exists>v t'. update_preferences [] ''u'' 0 (JObject [(''follow'', JBool True), (''maxRedirects'', JInteger 3)])
       (JObject [(''enabled'', JBool False)]) (JString ''serialized'') = Inr (v, t', [1]) \<and>
     get_preferences t' ''u'' = Inr v"
proof -
  let ?r = "JObject [(''follow'', JBool True), (''maxRedirects'', JInteger 3)]"
  let ?c = "JObject [(''enabled'', JBool False)]"
  have "\<exists>v t'. update_preferences [] ''u'' 0 ?r ?c (JString ''serialized'') = Inr (v, t', [1])"
    by (simp add: update_preferences_def validate_resolved_redirect_def validate_resolved_cookie_def
        validate_cookie_mode_def MAX_REDIRECTS_HARD_LIMIT_def)
  then obtain v t' where u: "update_preferences [] ''u'' 0 ?r ?c (JString ''serialized'') = Inr (v, t', [1])"
    by blast
  from preferences_update_reads_back [OF u] u show ?thesis by blast
qed

end
