(* ===== verification/Variable_Profiles.thy ===== *)
theory Variable_Profiles
  imports Prelude
begin

text \<open>
  The scope-neutral variable store of the backend (\<open>VariableProfileStore\<close> in
  \<open>apps/backend/src/variables/variable-profile-store.ts\<close>). The tables \<open>variables\<close> and
  \<open>variable_secrets\<close> belong to their profile row by cascading foreign keys, so a profile carries its
  ordered rows and a secret row carries its version and payload. A failing operation is \<open>Inl\<close>:
  the caller's transaction rolls back. Identifiers drawn by \<open>createEntityId\<close> are a parameter.
\<close>

section \<open>Data\<close>

type_synonym entity_id = string

datatype scope_kind = ScopeWorkspace | ScopeCollection | ScopeEnvironment | ScopeRequest

datatype variable_kind = KindValue | KindSecret | KindAlias | KindUnset

text \<open>The content columns of a variable row, as the table's check constraint admits them, with the
  joined secret row: its version and payload.\<close>

datatype content =
    Value string
  | Alias string
  | Unset
  | Secret (secret_version: nat) (secret_payload: "string option")

record variable =
  va_id :: entity_id
  va_name :: string
  va_description :: string
  va_content :: content

record profile =
  vp_id :: entity_id
  vp_workspace :: entity_id
  vp_scope_kind :: scope_kind
  vp_scope_id :: entity_id
  vp_revision :: nat
  vp_variables :: "variable list"

type_synonym profile_store = "profile list"

datatype write_body =
    WriteValue string
  | WriteAlias string
  | WriteUnset
  | WriteSecret "string option" bool

record variable_write =
  wr_id :: "entity_id option"
  wr_name :: string
  wr_description :: "string option"
  wr_body :: write_body

datatype mutation_type = SecretCreated | SecretReplaced | SecretCleared | SecretDeleted

type_synonym secret_mutation = "mutation_type \<times> entity_id \<times> nat"

datatype profile_error =
    InvalidVariableName
  | DuplicateVariableName
  | DuplicateIdentifier
  | VariableNotFound
  | KindChanged
  | ReplaceAndClear
  | SecretRequiresValue
  | DescriptionTooLarge
  | ProfileChanged

text \<open>What composition sees of a variable, secret plaintext included.\<close>

record resolved_variable =
  rv_id :: entity_id
  rv_name :: string
  rv_kind :: variable_kind
  rv_value :: "string option"
  rv_alias_target :: "string option"
  rv_secret_version :: "nat option"

datatype variable_view_body =
    ViewValue string
  | ViewAlias string
  | ViewUnset
  | ViewSecret bool nat

record variable_view =
  vv_id :: entity_id
  vv_name :: string
  vv_description :: string
  vv_body :: variable_view_body

fun kind_of :: "content \<Rightarrow> variable_kind" where
  "kind_of (Value v) = KindValue"
| "kind_of (Alias t) = KindAlias"
| "kind_of Unset = KindUnset"
| "kind_of (Secret n p) = KindSecret"

fun write_kind :: "write_body \<Rightarrow> variable_kind" where
  "write_kind (WriteValue v) = KindValue"
| "write_kind (WriteAlias t) = KindAlias"
| "write_kind WriteUnset = KindUnset"
| "write_kind (WriteSecret v c) = KindSecret"

section \<open>Validation\<close>

definition name_start :: "char \<Rightarrow> bool" where
  "name_start c \<longleftrightarrow>
     (let n = of_char c :: nat in (65 \<le> n \<and> n \<le> 90) \<or> (97 \<le> n \<and> n \<le> 122) \<or> n = 95)"

definition name_rest :: "char \<Rightarrow> bool" where
  "name_rest c \<longleftrightarrow> name_start c \<or>
     (let n = of_char c :: nat in (48 \<le> n \<and> n \<le> 57) \<or> n = 46 \<or> n = 45)"

fun valid_name :: "string \<Rightarrow> bool" where
  "valid_name [] = False"
| "valid_name (c # cs) = (name_start c \<and> list_all name_rest cs)"

definition validate_variable_name :: "string \<Rightarrow> profile_error + unit" where
  "validate_variable_name name = requireE (valid_name name) InvalidVariableName"

text \<open>UTF-8 length of a string of Latin-1 code units.\<close>

definition utf8_length :: "string \<Rightarrow> nat" where
  "utf8_length s = sum_list (map (\<lambda>c. if (of_char c :: nat) < 128 then 1 else 2) s)"

definition validate_field_description :: "string option \<Rightarrow> profile_error + string" where
  "validate_field_description value =
     (let normalized = (case value of None \<Rightarrow> [] | Some s \<Rightarrow> s) in
      if int (utf8_length normalized) > 4096 then Inl DescriptionTooLarge else Inr normalized)"

section \<open>Replacing the rows of a profile\<close>

record prepared =
  pp_write :: variable_write
  pp_id :: entity_id
  pp_previous :: "content option"
  pp_description :: string

text \<open>The \<open>map\<close> callback of \<open>#replaceRows\<close>, with the sets of used identifiers and names.\<close>

definition prepare_write ::
  "bool \<Rightarrow> (nat \<Rightarrow> entity_id) \<Rightarrow> (entity_id \<times> content) list
     \<Rightarrow> entity_id list \<times> string list \<times> prepared list \<Rightarrow> variable_write
     \<Rightarrow> profile_error + (entity_id list \<times> string list \<times> prepared list)" where
  "prepare_write allow fresh existing st w =
     (case st of (used_ids, used_names, done) \<Rightarrow>
        bindE (validate_variable_name (wr_name w)) (\<lambda>_.
        bindE (requireE (wr_name w \<notin> set used_names) DuplicateVariableName) (\<lambda>_.
        let variable_id = (case wr_id w of Some i \<Rightarrow> i | None \<Rightarrow> fresh (length done)) in
        bindE (requireE (variable_id \<notin> set used_ids) DuplicateIdentifier) (\<lambda>_.
        let previous = map_of existing variable_id in
        bindE (requireE (wr_id w = None \<or> previous \<noteq> None) VariableNotFound) (\<lambda>_.
        bindE (requireE (case previous of None \<Rightarrow> True | Some c \<Rightarrow> kind_of c = write_kind (wr_body w))
                 KindChanged) (\<lambda>_.
        bindE (case wr_body w of WriteAlias t \<Rightarrow> validate_variable_name t | _ \<Rightarrow> Inr ()) (\<lambda>_.
        bindE (validate_field_description (wr_description w)) (\<lambda>description.
        bindE (case wr_body w of
                 WriteSecret value clear \<Rightarrow>
                   bindE (requireE (\<not> (value \<noteq> None \<and> clear)) ReplaceAndClear) (\<lambda>_.
                   requireE (previous \<noteq> None \<or> value \<noteq> None \<or> allow) SecretRequiresValue)
               | _ \<Rightarrow> Inr ()) (\<lambda>_.
        Inr (used_ids @ [variable_id], used_names @ [wr_name w],
             done @ [\<lparr>pp_write = w, pp_id = variable_id, pp_previous = previous,
                      pp_description = description\<rparr>]))))))))))"

fun stored_content :: "content option \<Rightarrow> write_body \<Rightarrow> content" where
  "stored_content previous (WriteValue v) = Value v"
| "stored_content previous (WriteAlias t) = Alias t"
| "stored_content previous WriteUnset = Unset"
| "stored_content previous (WriteSecret value clear) =
     (let changed = (value \<noteq> None \<or> clear);
          version = (case previous of
              Some (Secret n _) \<Rightarrow> n + (if changed then 1 else 0) | _ \<Rightarrow> 1);
          payload = (case value of
              Some v \<Rightarrow> Some v
            | None \<Rightarrow> if clear then None
                      else (case previous of Some (Secret _ p) \<Rightarrow> p | _ \<Rightarrow> None)) in
      Secret version payload)"

definition stored_row :: "prepared \<Rightarrow> variable" where
  "stored_row item =
     \<lparr>va_id = pp_id item, va_name = wr_name (pp_write item), va_description = pp_description item,
      va_content = stored_content (pp_previous item) (wr_body (pp_write item))\<rparr>"

definition row_mutations :: "prepared \<Rightarrow> secret_mutation list" where
  "row_mutations item =
     (case (wr_body (pp_write item), stored_row item) of
        (WriteSecret value clear, row) \<Rightarrow>
          let version = secret_version (va_content row) in
          (case pp_previous item of
             Some (Secret _ _) \<Rightarrow>
               if clear then [(SecretCleared, pp_id item, version)]
               else if value \<noteq> None then [(SecretReplaced, pp_id item, version)] else []
           | _ \<Rightarrow> [(SecretCreated, pp_id item, version)])
      | _ \<Rightarrow> [])"

definition deleted_mutations :: "entity_id list \<Rightarrow> (entity_id \<times> content) list \<Rightarrow> secret_mutation list" where
  "deleted_mutations used existing =
     concat (map (\<lambda>(i, c). case c of
         Secret n _ \<Rightarrow> if i \<in> set used then [] else [(SecretDeleted, i, n)] | _ \<Rightarrow> []) existing)"

definition replace_rows ::
  "bool \<Rightarrow> (nat \<Rightarrow> entity_id) \<Rightarrow> variable list \<Rightarrow> variable_write list
     \<Rightarrow> profile_error + (variable list \<times> secret_mutation list)" where
  "replace_rows allow fresh rows writes =
     (let existing = map (\<lambda>v. (va_id v, va_content v)) rows in
      bindE (foldE (prepare_write allow fresh existing) ([], [], []) writes) (\<lambda>(used, _, items).
      Inr (map stored_row items,
           deleted_mutations used existing @ concat (map row_mutations items))))"

section \<open>The store's operations\<close>

definition metadata :: "profile_store \<Rightarrow> scope_kind \<Rightarrow> entity_id \<Rightarrow> profile option" where
  "metadata st kind scope = find (\<lambda>p. vp_scope_kind p = kind \<and> vp_scope_id p = scope) st"

definition create_profile ::
  "entity_id \<Rightarrow> (nat \<Rightarrow> entity_id) \<Rightarrow> bool \<Rightarrow> entity_id \<Rightarrow> scope_kind \<Rightarrow> entity_id \<Rightarrow> nat
     \<Rightarrow> variable_write list \<Rightarrow> profile_store \<Rightarrow> profile_error + (secret_mutation list \<times> profile_store)" where
  "create_profile profile_id fresh allow workspace kind scope revision writes st =
     (if metadata st kind scope \<noteq> None then Inl ProfileChanged
      else bindE (replace_rows allow fresh [] writes) (\<lambda>(rows, mutations).
        Inr (mutations, st @ [\<lparr>vp_id = profile_id, vp_workspace = workspace, vp_scope_kind = kind,
               vp_scope_id = scope, vp_revision = revision, vp_variables = rows\<rparr>])))"

definition update_profile ::
  "scope_kind \<Rightarrow> entity_id \<Rightarrow> (profile \<Rightarrow> profile) \<Rightarrow> profile_store \<Rightarrow> profile_store" where
  "update_profile kind scope f st =
     map (\<lambda>p. if vp_scope_kind p = kind \<and> vp_scope_id p = scope then f p else p) st"

definition replace_profile ::
  "(nat \<Rightarrow> entity_id) \<Rightarrow> scope_kind \<Rightarrow> entity_id \<Rightarrow> nat \<Rightarrow> variable_write list \<Rightarrow> profile_store
     \<Rightarrow> profile_error + (nat \<times> secret_mutation list \<times> profile_store)" where
  "replace_profile fresh kind scope expected writes st =
     (case metadata st kind scope of
        None \<Rightarrow> Inl ProfileChanged
      | Some p \<Rightarrow>
          if vp_revision p \<noteq> expected then Inl ProfileChanged
          else bindE (replace_rows False fresh (vp_variables p) writes) (\<lambda>(rows, mutations).
            Inr (expected + 1, mutations,
                 update_profile kind scope
                   (\<lambda>q. q\<lparr>vp_revision := expected + 1, vp_variables := rows\<rparr>) st)))"

fun cloned_content :: "content \<Rightarrow> content" where
  "cloned_content (Secret n payload) = Secret 1 payload"
| "cloned_content c = c"

definition cloned_row :: "(nat \<Rightarrow> entity_id) \<Rightarrow> nat \<times> variable \<Rightarrow> variable" where
  "cloned_row fresh iv =
     (case iv of (i, v) \<Rightarrow> v\<lparr>va_id := fresh i, va_content := cloned_content (va_content v)\<rparr>)"

definition cloned_mutations :: "variable \<Rightarrow> secret_mutation list" where
  "cloned_mutations v = (case va_content v of Secret n p \<Rightarrow> [(SecretCreated, va_id v, 1)] | _ \<Rightarrow> [])"

definition clone_profile ::
  "entity_id \<Rightarrow> (nat \<Rightarrow> entity_id) \<Rightarrow> entity_id \<Rightarrow> scope_kind \<Rightarrow> entity_id \<Rightarrow> entity_id \<Rightarrow> profile_store
     \<Rightarrow> profile_error + ((secret_mutation list) option \<times> profile_store)" where
  "clone_profile profile_id fresh workspace kind source target st =
     (case metadata st kind source of
        None \<Rightarrow> Inr (None, st)
      | Some p \<Rightarrow>
          if metadata st kind target \<noteq> None then Inl ProfileChanged
          else
            let rows = map (cloned_row fresh) (enumerate 0 (vp_variables p)) in
            Inr (Some (concat (map cloned_mutations rows)),
              st @ [\<lparr>vp_id = profile_id, vp_workspace = workspace, vp_scope_kind = kind,
                     vp_scope_id = target, vp_revision = 1, vp_variables = rows\<rparr>]))"

definition delete_profile :: "scope_kind \<Rightarrow> entity_id \<Rightarrow> profile_store \<Rightarrow> profile_store" where
  "delete_profile kind scope st = filter (\<lambda>p. \<not> (vp_scope_kind p = kind \<and> vp_scope_id p = scope)) st"

fun redact :: "content \<Rightarrow> variable_view_body" where
  "redact (Value v) = ViewValue v"
| "redact (Alias t) = ViewAlias t"
| "redact Unset = ViewUnset"
| "redact (Secret n payload) = ViewSecret (payload \<noteq> None) n"

definition redacted_variable :: "variable \<Rightarrow> variable_view" where
  "redacted_variable v =
     \<lparr>vv_id = va_id v, vv_name = va_name v, vv_description = va_description v,
      vv_body = redact (va_content v)\<rparr>"

definition redacted_variables :: "profile_store \<Rightarrow> scope_kind \<Rightarrow> entity_id \<Rightarrow> variable_view list" where
  "redacted_variables st kind scope =
     (case metadata st kind scope of None \<Rightarrow> [] | Some p \<Rightarrow> map redacted_variable (vp_variables p))"

definition resolved_of :: "variable \<Rightarrow> resolved_variable" where
  "resolved_of v =
     \<lparr>rv_id = va_id v, rv_name = va_name v, rv_kind = kind_of (va_content v),
      rv_value = (case va_content v of Value s \<Rightarrow> Some s | Secret n p \<Rightarrow> p | _ \<Rightarrow> None),
      rv_alias_target = (case va_content v of Alias t \<Rightarrow> Some t | _ \<Rightarrow> None),
      rv_secret_version = (case va_content v of Secret n p \<Rightarrow> Some n | _ \<Rightarrow> None)\<rparr>"

definition resolved_variables :: "profile_store \<Rightarrow> scope_kind \<Rightarrow> entity_id \<Rightarrow> resolved_variable list" where
  "resolved_variables st kind scope =
     (case metadata st kind scope of None \<Rightarrow> [] | Some p \<Rightarrow> map resolved_of (vp_variables p))"

section \<open>What replacing rows does\<close>

definition prepared_ok :: "(entity_id \<times> content) list \<Rightarrow> prepared \<Rightarrow> bool" where
  "prepared_ok existing item \<longleftrightarrow>
     (let w = pp_write item in
      valid_name (wr_name w) \<and>
      pp_previous item = map_of existing (pp_id item) \<and>
      (\<forall>i. wr_id w = Some i \<longrightarrow> pp_id item = i \<and> pp_previous item \<noteq> None) \<and>
      (\<forall>c. pp_previous item = Some c \<longrightarrow> kind_of c = write_kind (wr_body w)) \<and>
      (\<forall>t. wr_body w = WriteAlias t \<longrightarrow> valid_name t) \<and>
      (\<forall>v c. wr_body w = WriteSecret v c \<longrightarrow> \<not> (v \<noteq> None \<and> c)) \<and>
      pp_description item = (case wr_description w of None \<Rightarrow> [] | Some s \<Rightarrow> s))"

lemma validate_field_description_value:
  "validate_field_description x = Inr d \<Longrightarrow> d = (case x of None \<Rightarrow> [] | Some s \<Rightarrow> s)"
  by (auto simp: validate_field_description_def Let_def split: if_splits)

lemma prepare_write_step:
  assumes "prepare_write allow fresh existing (ids, names, done) w = Inr st"
  obtains item where "st = (ids @ [pp_id item], names @ [wr_name w], done @ [item])"
    "pp_write item = w" "prepared_ok existing item" "pp_id item \<notin> set ids" "wr_name w \<notin> set names"
proof -
  let ?id = "case wr_id w of Some i \<Rightarrow> i | None \<Rightarrow> fresh (length done)"
  let ?item = "\<lambda>d. \<lparr>pp_write = w, pp_id = ?id, pp_previous = map_of existing ?id, pp_description = d\<rparr>"
  obtain d where d: "st = (ids @ [?id], names @ [wr_name w], done @ [?item d])"
    and description: "validate_field_description (wr_description w) = Inr d"
    using assms by (auto simp: prepare_write_def Let_def result_simps)
  have "prepared_ok existing (?item d)"
    using assms validate_field_description_value [OF description]
    by (auto simp: prepare_write_def prepared_ok_def validate_variable_name_def Let_def result_simps
        split: option.split_asm write_body.split_asm)
  moreover have "?id \<notin> set ids" "wr_name w \<notin> set names"
    using assms by (auto simp: prepare_write_def Let_def result_simps)
  ultimately show thesis using that [of "?item d"] d by simp
qed

lemma prepare_all:
  assumes "foldE (prepare_write allow fresh existing) (ids, names, done) ws = Inr (ids', names', items)"
    and "distinct ids" and "distinct names"
  shows "\<exists>new. items = done @ new \<and> ids' = ids @ map pp_id new \<and>
    names' = names @ map wr_name ws \<and> map pp_write new = ws \<and> distinct ids' \<and> distinct names' \<and>
    list_all (prepared_ok existing) new"
  using assms
proof (induction ws arbitrary: ids names "done")
  case Nil
  then show ?case by simp
next
  case (Cons w ws)
  then obtain st where st: "prepare_write allow fresh existing (ids, names, done) w = Inr st"
      "foldE (prepare_write allow fresh existing) st ws = Inr (ids', names', items)"
    by (auto simp: bindE_eq_Inr)
  obtain item where item: "st = (ids @ [pp_id item], names @ [wr_name w], done @ [item])"
    "pp_write item = w" "prepared_ok existing item" "pp_id item \<notin> set ids" "wr_name w \<notin> set names"
    by (rule prepare_write_step [OF st(1)])
  have "distinct (ids @ [pp_id item])" "distinct (names @ [wr_name w])"
    using Cons.prems(2,3) item(4,5) by simp_all
  from Cons.IH [OF st(2) [unfolded item(1)] this] obtain new where
    "items = (done @ [item]) @ new" "ids' = (ids @ [pp_id item]) @ map pp_id new"
    "names' = (names @ [wr_name w]) @ map wr_name ws" "map pp_write new = ws" "distinct ids'"
    "distinct names'" "list_all (prepared_ok existing) new" by blast
  with item show ?case by (intro exI [of _ "item # new"]) simp
qed

lemma replace_rows_items:
  assumes "replace_rows allow fresh rows writes = Inr (rows', mutations)"
  obtains items where "map pp_write items = writes" "rows' = map stored_row items"
    "list_all (prepared_ok (map (\<lambda>v. (va_id v, va_content v)) rows)) items"
    "distinct (map pp_id items)" "distinct (map wr_name writes)"
    "mutations = deleted_mutations (map pp_id items) (map (\<lambda>v. (va_id v, va_content v)) rows) @
       concat (map row_mutations items)"
proof -
  obtain used names items where f:
    "foldE (prepare_write allow fresh (map (\<lambda>v. (va_id v, va_content v)) rows)) ([], [], []) writes =
       Inr (used, names, items)"
    and out: "rows' = map stored_row items"
      "mutations = deleted_mutations used (map (\<lambda>v. (va_id v, va_content v)) rows) @
         concat (map row_mutations items)"
    using assms by (auto simp: replace_rows_def Let_def bindE_eq_Inr)
  from prepare_all [OF f] out that show thesis by auto
qed

definition well_formed_rows :: "variable list \<Rightarrow> bool" where
  "well_formed_rows rows \<longleftrightarrow>
     distinct (map va_id rows) \<and> distinct (map va_name rows) \<and> list_all (\<lambda>v. valid_name (va_name v)) rows \<and>
     list_all (\<lambda>v. case va_content v of Alias t \<Rightarrow> valid_name t | Secret n p \<Rightarrow> 1 \<le> n | _ \<Rightarrow> True) rows"

lemma stored_row_simps [simp]:
  "va_id (stored_row item) = pp_id item" "va_name (stored_row item) = wr_name (pp_write item)"
  "va_content (stored_row item) = stored_content (pp_previous item) (wr_body (pp_write item))"
  by (simp_all add: stored_row_def)

lemma map_of_rows:
  "map_of (map (\<lambda>v. (va_id v, va_content v)) rows) i = Some c \<Longrightarrow>
     \<exists>v \<in> set rows. va_id v = i \<and> va_content v = c"
  by (induction rows) (auto split: if_splits)

lemma map_of_rows_distinct:
  "distinct (map va_id rows) \<Longrightarrow> v \<in> set rows \<Longrightarrow>
     map_of (map (\<lambda>v. (va_id v, va_content v)) rows) (va_id v) = Some (va_content v)"
  by (rule map_of_is_SomeI) (simp_all add: comp_def)

lemma kind_of_stored: "kind_of (stored_content previous b) = write_kind b"
  by (cases b) (auto simp: Let_def)

text \<open>
  C21. Replacing a profile's rows keeps it well formed. When a submitted list of variables is
  accepted, the new rows carry the submitted names in order; identifiers and names are unique,
  names and alias targets are valid, secret versions are at least 1; and a row that keeps an
  identifier keeps its kind.
\<close>

theorem replace_rows_well_formed:
  assumes "replace_rows allow fresh rows writes = Inr (rows', mutations)" and "well_formed_rows rows"
  shows "well_formed_rows rows' \<and> map va_name rows' = map wr_name writes \<and>
    map (kind_of \<circ> va_content) rows' = map (write_kind \<circ> wr_body) writes \<and>
    (\<forall>v \<in> set rows. \<forall>v' \<in> set rows'. va_id v' = va_id v \<longrightarrow>
       kind_of (va_content v') = kind_of (va_content v))"
proof -
  let ?existing = "map (\<lambda>v. (va_id v, va_content v)) rows"
  obtain items where items: "map pp_write items = writes" "rows' = map stored_row items"
    "list_all (prepared_ok ?existing) items" "distinct (map pp_id items)" "distinct (map wr_name writes)"
    by (rule replace_rows_items [OF assms(1)])
  have names: "map va_name rows' = map wr_name writes"
    using items(1,2) by auto
  have kinds: "map (kind_of \<circ> va_content) rows' = map (write_kind \<circ> wr_body) writes"
    unfolding items(2) items(1) [symmetric] by (simp add: kind_of_stored)
  have content: "case stored_content (pp_previous i) (wr_body (pp_write i)) of
      Alias t \<Rightarrow> valid_name t | Secret n p \<Rightarrow> 1 \<le> n | _ \<Rightarrow> True" if "i \<in> set items" for i
  proof -
    have ok: "prepared_ok ?existing i" using items(3) that by (simp add: list_all_iff)
    show ?thesis
    proof (cases "wr_body (pp_write i)")
      case (WriteSecret v cl)
      have "1 \<le> n" if "pp_previous i = Some (Secret n p)" for n p
      proof -
        have "map_of ?existing (pp_id i) = Some (Secret n p)"
          using ok that by (simp add: prepared_ok_def Let_def)
        from map_of_rows [OF this] obtain v where "v \<in> set rows" "va_content v = Secret n p" by blast
        with assms(2) show ?thesis by (auto simp: well_formed_rows_def list_all_iff)
      qed
      with WriteSecret show ?thesis
        by (auto simp: Let_def split: option.split content.split)
    qed (use ok in \<open>simp_all add: prepared_ok_def Let_def\<close>)
  qed
  have "well_formed_rows rows'"
    using items names content
    by (auto simp: well_formed_rows_def list_all_iff prepared_ok_def Let_def comp_def)
  moreover have "kind_of (va_content v') = kind_of (va_content v)"
    if mem: "v \<in> set rows" "v' \<in> set rows'" "va_id v' = va_id v" for v v'
  proof -
    obtain i where i: "i \<in> set items" "v' = stored_row i" using mem(2) items(2) by auto
    have ok: "prepared_ok ?existing i" using items(3) i(1) by (simp add: list_all_iff)
    have "map_of ?existing (va_id v) = Some (va_content v)"
      using assms(2) mem(1) by (intro map_of_rows_distinct) (simp_all add: well_formed_rows_def)
    with ok i mem(3) show ?thesis by (simp add: prepared_ok_def Let_def kind_of_stored)
  qed
  ultimately show ?thesis using names kinds by blast
qed

definition demo_rows :: "variable list" where
  "demo_rows =
     [\<lparr>va_id = ''a'', va_name = ''host'', va_description = [], va_content = Value ''x''\<rparr>,
      \<lparr>va_id = ''b'', va_name = ''key'', va_description = [], va_content = Secret 3 (Some ''s'')\<rparr>]"

definition demo_writes :: "variable_write list" where
  "demo_writes =
     [\<lparr>wr_id = Some ''b'', wr_name = ''key2'', wr_description = None, wr_body = WriteSecret (Some ''t'') False\<rparr>,
      \<lparr>wr_id = None, wr_name = ''port'', wr_description = None, wr_body = WriteValue ''80''\<rparr>]"

lemma demo_rows_ok: "well_formed_rows demo_rows"
  by code_simp

lemma demo_replace:
  "replace_rows False (\<lambda>i. ''new'') demo_rows demo_writes = Inr
    ([\<lparr>va_id = ''b'', va_name = ''key2'', va_description = [], va_content = Secret 4 (Some ''t'')\<rparr>,
      \<lparr>va_id = ''new'', va_name = ''port'', va_description = [], va_content = Value ''80''\<rparr>],
     [(SecretReplaced, ''b'', 4)])"
  by code_simp

theorem replace_rows_well_formed_witness:
  "\<exists>rows' mutations. replace_rows False (\<lambda>i. ''new'') demo_rows demo_writes = Inr (rows', mutations) \<and>
     well_formed_rows rows' \<and> map va_name rows' = [''key2'', ''port'']"
  using replace_rows_well_formed [OF demo_replace demo_rows_ok] demo_replace
  by (simp add: demo_writes_def)

lemma row_mutations_not_deleted: "(SecretDeleted, x) \<notin> set (row_mutations item)"
  by (cases "wr_body (pp_write item)")
     (auto simp: row_mutations_def Let_def split: option.splits content.splits)

lemma deleted_mutations_iff:
  "(SecretDeleted, i, n) \<in> set (deleted_mutations used existing) \<longleftrightarrow>
     i \<notin> set used \<and> (\<exists>p. (i, Secret n p) \<in> set existing)"
proof (induction existing)
  case (Cons e existing)
  then show ?case
    by (cases e; cases "snd e") (auto simp: deleted_mutations_def)
qed (simp add: deleted_mutations_def)

text \<open>
  Secrets survive unless they are replaced, cleared or left out. For a stored secret: a write
  that names its identifier and submits no value keeps payload and version; one with a value stores
  it under the next version; one that clears it stores none under the next version; and the audit
  trail lists it as deleted exactly when no new row keeps its identifier.
\<close>

theorem secrets_preserved:
  assumes "replace_rows allow fresh rows writes = Inr (rows', mutations)" and "well_formed_rows rows"
    and "v \<in> set rows" and "va_content v = Secret n payload"
  shows "(\<forall>w \<in> set writes. wr_id w = Some (va_id v) \<longrightarrow>
      (\<exists>v' \<in> set rows'. va_id v' = va_id v \<and>
        (wr_body w = WriteSecret None False \<and> va_content v' = Secret n payload \<or>
         wr_body w = WriteSecret None True \<and> va_content v' = Secret (n + 1) None \<or>
         (\<exists>x. wr_body w = WriteSecret (Some x) False \<and> va_content v' = Secret (n + 1) (Some x))))) \<and>
    ((SecretDeleted, va_id v, n) \<in> set mutations \<longleftrightarrow> va_id v \<notin> va_id ` set rows')"
proof -
  let ?existing = "map (\<lambda>v. (va_id v, va_content v)) rows"
  obtain items where items: "map pp_write items = writes" "rows' = map stored_row items"
    "list_all (prepared_ok ?existing) items" "distinct (map pp_id items)"
    "mutations = deleted_mutations (map pp_id items) ?existing @ concat (map row_mutations items)"
    by (rule replace_rows_items [OF assms(1)])
  have here: "map_of ?existing (va_id v) = Some (Secret n payload)"
    using map_of_rows_distinct [of rows v] assms(2-4) by (simp add: well_formed_rows_def)
  have kept: "\<exists>v' \<in> set rows'. va_id v' = va_id v \<and>
        (wr_body w = WriteSecret None False \<and> va_content v' = Secret n payload \<or>
         wr_body w = WriteSecret None True \<and> va_content v' = Secret (n + 1) None \<or>
         (\<exists>x. wr_body w = WriteSecret (Some x) False \<and> va_content v' = Secret (n + 1) (Some x)))"
    if w: "w \<in> set writes" "wr_id w = Some (va_id v)" for w
  proof -
    obtain i where i: "i \<in> set items" "pp_write i = w" using w(1) items(1) by auto
    have ok: "prepared_ok ?existing i" using items(3) i(1) by (simp add: list_all_iff)
    then have pid: "pp_id i = va_id v" "pp_previous i = Some (Secret n payload)"
      using i(2) w(2) here by (simp_all add: prepared_ok_def Let_def)
    moreover have "write_kind (wr_body w) = KindSecret"
      using ok i(2) pid(2) by (simp add: prepared_ok_def Let_def)
    then obtain val cl where body: "wr_body w = WriteSecret val cl" by (cases "wr_body w") auto
    moreover have "\<not> (val \<noteq> None \<and> cl)"
      using ok i(2) body by (simp add: prepared_ok_def Let_def)
    ultimately have "va_id (stored_row i) = va_id v \<and>
        (wr_body w = WriteSecret None False \<and> va_content (stored_row i) = Secret n payload \<or>
         wr_body w = WriteSecret None True \<and> va_content (stored_row i) = Secret (n + 1) None \<or>
         (\<exists>x. wr_body w = WriteSecret (Some x) False \<and> va_content (stored_row i) = Secret (n + 1) (Some x)))"
      using i(2) by (cases val; cases cl) (auto simp: Let_def)
    with items(2) i(1) show ?thesis by auto
  qed
  have "(SecretDeleted, va_id v, n) \<notin> set (concat (map row_mutations items))"
    using row_mutations_not_deleted by auto
  moreover have "(SecretDeleted, va_id v, n) \<in> set (deleted_mutations (map pp_id items) ?existing) \<longleftrightarrow>
      va_id v \<notin> pp_id ` set items"
  proof -
    have "(va_id v, va_content v) \<in> set ?existing" using assms(3) by simp
    then show ?thesis
      using assms(4) here unfolding deleted_mutations_iff by auto
  qed
  moreover have "va_id ` set rows' = pp_id ` set items" using items(2) by (auto simp: image_iff)
  ultimately show ?thesis using items(5) kept by auto
qed

theorem secrets_preserved_witness:
  "\<exists>rows' mutations. replace_rows False (\<lambda>i. ''new'') demo_rows demo_writes = Inr (rows', mutations) \<and>
     (\<exists>v' \<in> set rows'. va_id v' = ''b'' \<and> va_content v' = Secret 4 (Some ''t''))"
  using secrets_preserved [OF demo_replace demo_rows_ok, of "demo_rows ! 1" 3 "Some ''s''"] demo_replace
  by (auto simp: demo_rows_def demo_writes_def)

lemma metadata_update:
  assumes "\<And>q. vp_scope_kind (f q) = vp_scope_kind q \<and> vp_scope_id (f q) = vp_scope_id q"
  shows "metadata (update_profile kind scope f st) k s =
    (if k = kind \<and> s = scope then map_option f (metadata st k s) else metadata st k s)"
  using assms by (induction st) (auto simp: metadata_def update_profile_def)

lemma find_concat: "find P (xs @ ys) = (case find P xs of None \<Rightarrow> find P ys | Some x \<Rightarrow> Some x)"
  by (induction xs) auto

lemma replace_profile_metadata:
  assumes "replace_profile fresh kind scope expected writes st = Inr (revision, mutations, st')"
  obtains p rows where "metadata st kind scope = Some p" "vp_revision p = expected" "revision = expected + 1"
    "replace_rows False fresh (vp_variables p) writes = Inr (rows, mutations)"
    "\<And>k s. metadata st' k s =
      (if k = kind \<and> s = scope then Some (p\<lparr>vp_revision := expected + 1, vp_variables := rows\<rparr>)
       else metadata st k s)"
proof -
  obtain p rows where p: "metadata st kind scope = Some p" "vp_revision p = expected"
      "replace_rows False fresh (vp_variables p) writes = Inr (rows, mutations)" "revision = expected + 1"
      "st' = update_profile kind scope (\<lambda>q. q\<lparr>vp_revision := expected + 1, vp_variables := rows\<rparr>) st"
    using assms by (auto simp: replace_profile_def bindE_eq_Inr split: option.splits if_splits)
  have "metadata st' k s =
      (if k = kind \<and> s = scope then Some (p\<lparr>vp_revision := expected + 1, vp_variables := rows\<rparr>)
       else metadata st k s)" for k s
    unfolding p(5) by (subst metadata_update) (simp_all add: p(1))
  with p show thesis by (intro that)
qed

lemma create_profile_metadata:
  assumes "create_profile profile_id fresh allow workspace kind scope revision writes st = Inr (mutations, st')"
  obtains rows where "metadata st kind scope = None"
    "replace_rows allow fresh [] writes = Inr (rows, mutations)"
    "\<And>k s. metadata st' k s =
      (if k = kind \<and> s = scope
       then Some \<lparr>vp_id = profile_id, vp_workspace = workspace, vp_scope_kind = kind,
               vp_scope_id = scope, vp_revision = revision, vp_variables = rows\<rparr>
       else metadata st k s)"
proof -
  let ?new = "\<lambda>rows. \<lparr>vp_id = profile_id, vp_workspace = workspace, vp_scope_kind = kind,
    vp_scope_id = scope, vp_revision = revision, vp_variables = rows\<rparr>"
  obtain rows where r: "metadata st kind scope = None" "replace_rows allow fresh [] writes = Inr (rows, mutations)"
      "st' = st @ [?new rows]"
    using assms by (auto simp: create_profile_def bindE_eq_Inr split: if_splits)
  have "metadata st' k s = (if k = kind \<and> s = scope then Some (?new rows) else metadata st k s)" for k s
    using r(1) by (auto simp: r(3) metadata_def find_concat split: option.split)
  with r show thesis by (intro that)
qed

lemma delete_profile_metadata:
  "metadata (delete_profile kind scope st) k s = (if k = kind \<and> s = scope then None else metadata st k s)"
  by (induction st) (auto simp: metadata_def delete_profile_def)

text \<open>
  Optimistic concurrency of profiles. A replacement succeeds only against the current revision;
  it then advances it by one, stores the new rows under the same scope and leaves every other scope
  alone, so a second replacement prepared against the same revision is refused.
\<close>

theorem stale_replacement_refused:
  assumes "replace_profile fresh kind scope expected writes st = Inr (revision, mutations, st')"
  shows "revision = expected + 1 \<and>
    (\<exists>p p'. metadata st kind scope = Some p \<and> vp_revision p = expected \<and>
       metadata st' kind scope = Some p' \<and> vp_revision p' = expected + 1 \<and>
       vp_id p' = vp_id p \<and>
       replace_rows False fresh (vp_variables p) writes = Inr (vp_variables p', mutations)) \<and>
    (\<forall>k s. (k, s) \<noteq> (kind, scope) \<longrightarrow> metadata st' k s = metadata st k s) \<and>
    (\<forall>fresh' writes'. replace_profile fresh' kind scope expected writes' st' = Inl ProfileChanged)"
  using assms
proof (rule replace_profile_metadata)
  fix p rows
  assume p: "metadata st kind scope = Some p" "vp_revision p = expected" "revision = expected + 1"
      "replace_rows False fresh (vp_variables p) writes = Inr (rows, mutations)"
    and meta: "\<And>k s. metadata st' k s =
      (if k = kind \<and> s = scope then Some (p\<lparr>vp_revision := expected + 1, vp_variables := rows\<rparr>)
       else metadata st k s)"
  have "replace_profile fresh' kind scope expected writes' st' = Inl ProfileChanged" for fresh' writes'
    by (simp add: replace_profile_def meta)
  with p meta show ?thesis by auto
qed

definition demo_store :: profile_store where
  "demo_store = [\<lparr>vp_id = ''P'', vp_workspace = ''W'', vp_scope_kind = ScopeRequest, vp_scope_id = ''R'',
     vp_revision = 7, vp_variables = demo_rows\<rparr>]"

theorem stale_replacement_refused_witness:
  "replace_profile (\<lambda>i. ''n'') ScopeRequest ''R'' 7 []
     (snd (snd (projr (replace_profile (\<lambda>i. ''n'') ScopeRequest ''R'' 7 [] demo_store)))) = Inl ProfileChanged"
proof -
  have "replace_profile (\<lambda>i. ''n'') ScopeRequest ''R'' 7 [] demo_store =
      Inr (8, [(SecretDeleted, ''b'', 3)], [(hd demo_store)\<lparr>vp_revision := 8, vp_variables := []\<rparr>])"
    by code_simp
  from stale_replacement_refused [OF this] this show ?thesis by simp
qed

fun same_but_secret :: "content \<Rightarrow> content \<Rightarrow> bool" where
  "same_but_secret (Secret n p) (Secret m q) = (n = m \<and> (p = None \<longleftrightarrow> q = None))"
| "same_but_secret c d = (c = d)"

definition same_variable :: "variable \<Rightarrow> variable \<Rightarrow> bool" where
  "same_variable v w \<longleftrightarrow>
     va_id v = va_id w \<and> va_name v = va_name w \<and> va_description v = va_description w \<and>
     same_but_secret (va_content v) (va_content w)"

definition same_profile :: "profile \<Rightarrow> profile \<Rightarrow> bool" where
  "same_profile p q \<longleftrightarrow>
     vp_scope_kind p = vp_scope_kind q \<and> vp_scope_id p = vp_scope_id q \<and>
     list_all2 same_variable (vp_variables p) (vp_variables q)"

lemma redacted_same: "same_variable v w \<Longrightarrow> redacted_variable v = redacted_variable w"
  by (cases "va_content v"; cases "va_content w") (auto simp: same_variable_def redacted_variable_def)

text \<open>
  Redaction hides secrets. Two stores that differ only in the plaintext of configured secrets
  have the same redacted views in every scope.
\<close>

theorem redaction_hides_secrets:
  assumes "list_all2 same_profile st st'"
  shows "redacted_variables st kind scope = redacted_variables st' kind scope"
  using assms
proof (induction rule: list_all2_induct)
  case (Cons p st q st')
  have "map redacted_variable (vp_variables p) = map redacted_variable (vp_variables q)"
    if "list_all2 same_variable (vp_variables p) (vp_variables q)"
    using that by (induction rule: list_all2_induct) (auto simp: redacted_same)
  with Cons show ?case by (auto simp: redacted_variables_def metadata_def same_profile_def)
qed simp

theorem redaction_hides_secrets_witness:
  "redacted_variables demo_store ScopeRequest ''R'' =
   redacted_variables
     [(hd demo_store)\<lparr>vp_variables := [hd demo_rows, (demo_rows ! 1)\<lparr>va_content := Secret 3 (Some ''other'')\<rparr>]\<rparr>]
     ScopeRequest ''R''"
  by (rule redaction_hides_secrets)
     (simp add: demo_store_def demo_rows_def same_profile_def same_variable_def)

lemma cloned_rows:
  "map va_name (map (cloned_row fresh) (enumerate n vs)) = map va_name vs"
  "map va_description (map (cloned_row fresh) (enumerate n vs)) = map va_description vs"
  "map va_content (map (cloned_row fresh) (enumerate n vs)) = map (cloned_content \<circ> va_content) vs"
  "map va_id (map (cloned_row fresh) (enumerate n vs)) = map fresh [n..<n + length vs]"
  by (induction vs arbitrary: n) (simp_all add: cloned_row_def upt_rec)

text \<open>
  Cloning a profile. The clone has the source's variables in order, with the same names,
  descriptions, values, alias targets and secret payloads, under fresh identifiers and with every
  secret at version 1; it is as well formed as the source, which stays as it was.
\<close>

theorem clone_copies:
  assumes "clone_profile profile_id fresh workspace kind source target st = Inr (Some mutations, st')"
    and "metadata st kind source = Some p" and "well_formed_rows (vp_variables p)" and "inj fresh"
  shows "\<exists>q. metadata st' kind target = Some q \<and> vp_revision q = 1 \<and>
    well_formed_rows (vp_variables q) \<and> metadata st' kind source = Some p \<and>
    map va_name (vp_variables q) = map va_name (vp_variables p) \<and>
    map va_description (vp_variables q) = map va_description (vp_variables p) \<and>
    map va_content (vp_variables q) = map (cloned_content \<circ> va_content) (vp_variables p) \<and>
    map va_id (vp_variables q) = map fresh [0..<length (vp_variables p)]"
proof -
  let ?rows = "map (cloned_row fresh) (enumerate 0 (vp_variables p))"
  have st': "st' = st @ [\<lparr>vp_id = profile_id, vp_workspace = workspace, vp_scope_kind = kind,
      vp_scope_id = target, vp_revision = 1, vp_variables = ?rows\<rparr>]" and free: "metadata st kind target = None"
    using assms(1,2) by (auto simp: clone_profile_def Let_def split: if_splits)
  have target: "metadata st' kind target = Some \<lparr>vp_id = profile_id, vp_workspace = workspace,
      vp_scope_kind = kind, vp_scope_id = target, vp_revision = 1, vp_variables = ?rows\<rparr>"
    using free unfolding st' metadata_def by (simp add: find_concat)
  have source: "metadata st' kind source = Some p"
    using assms(2) unfolding st' metadata_def by (simp add: find_concat)
  have names: "map va_name ?rows = map va_name (vp_variables p)"
    and descriptions: "map va_description ?rows = map va_description (vp_variables p)"
    and contents: "map va_content ?rows = map (cloned_content \<circ> va_content) (vp_variables p)"
    and ids: "map va_id ?rows = map fresh [0..<length (vp_variables p)]"
    using cloned_rows [of fresh 0 "vp_variables p"] by simp_all
  have "(\<lambda>c. case c of Alias t \<Rightarrow> valid_name t | Secret n p \<Rightarrow> 1 \<le> n | _ \<Rightarrow> True) (cloned_content (va_content v))"
    if "v \<in> set (vp_variables p)" for v
    using that assms(3) by (cases "va_content v") (auto simp: well_formed_rows_def list_all_iff)
  then have "list_all (\<lambda>c. case c of Alias t \<Rightarrow> valid_name t | Secret n p \<Rightarrow> 1 \<le> n | _ \<Rightarrow> True)
      (map va_content ?rows)"
    unfolding contents by (simp add: list_all_iff)
  moreover have "list_all valid_name (map va_name ?rows)" "distinct (map va_name ?rows)"
    unfolding names using assms(3) by (simp_all add: well_formed_rows_def list_all_iff)
  moreover have "distinct (map va_id ?rows)"
    unfolding ids distinct_map using inj_on_subset [OF assms(4) subset_UNIV] by simp
  ultimately have "well_formed_rows ?rows"
    by (simp add: well_formed_rows_def list_all_iff)
  with target source names descriptions contents ids show ?thesis by auto
qed

theorem clone_copies_witness:
  "\<exists>q. metadata (snd (projr (clone_profile ''Q'' (\<lambda>i. replicate i CHR ''x'') ''W'' ScopeRequest ''R'' ''T''
       demo_store))) ScopeRequest ''T'' = Some q \<and> map va_name (vp_variables q) = [''host'', ''key'']"
proof -
  let ?fresh = "\<lambda>i. replicate i CHR ''x''"
  have inj: "inj ?fresh" by (rule injI) (metis length_replicate)
  obtain mutations st' where c:
    "clone_profile ''Q'' ?fresh ''W'' ScopeRequest ''R'' ''T'' demo_store = Inr (Some mutations, st')"
    by (simp add: clone_profile_def metadata_def demo_store_def Let_def)
  have "metadata demo_store ScopeRequest ''R'' = Some (hd demo_store)"
    by (simp add: metadata_def demo_store_def)
  from clone_copies [OF c this _ inj] demo_rows_ok c show ?thesis
    by (auto simp: demo_store_def demo_rows_def)
qed

end
