(* ===== verification/Workspaces.thy ===== *)
theory Workspaces
  imports Http_Policies Variable_Profiles
begin

text \<open>
  Workspaces and their memberships (\<open>WorkspaceService\<close> in
  \<open>apps/backend/src/workspaces/workspace-service.ts\<close>, with the text limits of
  \<open>documentation/documentation.ts\<close>). An operation is one transaction: \<open>Inl\<close> rolls it back.
  Generated identifiers, the clock and the WHATWG URL parser are parameters; of a parsed URL the
  service reads the scheme and whether it carries credentials. A JSON column is the value it holds.
\<close>

section \<open>Data\<close>

datatype role = Owner | Editor | Viewer

datatype header_mode = HeaderOverride | HeaderAppend

record workspace_header =
  wh_name :: string
  wh_value :: string
  wh_enabled :: bool
  wh_mode :: "header_mode option"
  wh_description :: "string option"

record parsed_url =
  pu_protocol :: string
  pu_username :: string
  pu_password :: string

record workspace =
  ws_id :: entity_id
  ws_name :: string
  ws_description :: string
  ws_notes :: string
  ws_revision :: nat
  ws_headers :: "workspace_header list"
  ws_base_url :: string
  ws_redirect :: json
  ws_cookie :: json
  ws_created_at :: int
  ws_deleted :: "(entity_id \<times> int) option"

datatype workspace_event =
    WorkspaceCreated string
  | WorkspaceUpdated nat "(string \<times> bool) list"
  | WorkspaceDeleted nat

record workspace_db =
  wd_workspaces :: "workspace list"
  wd_memberships :: "((entity_id \<times> entity_id) \<times> role) list"
  wd_cookie_jars :: "(entity_id \<times> entity_id) list"
  wd_audit :: "(workspace_event \<times> entity_id \<times> entity_id) list"

datatype workspace_error =
    NameInvalid
  | TooManyHeaders
  | HeaderInvalid
  | DocumentedHeaderNeedsName
  | BaseUrlInvalid
  | BaseUrlNotHttp
  | DescriptionInvalid
  | NotesInvalid
  | PolicyInvalid policy_error
  | AccessDenied
  | WorkspaceNotFound
  | WorkspaceChanged
  | MembershipMissing

record workspace_view =
  wv_id :: entity_id
  wv_name :: string
  wv_role :: role
  wv_description :: string
  wv_notes :: string
  wv_base_url :: string
  wv_headers :: "workspace_header list"
  wv_redirect :: redirect_override
  wv_cookie :: cookie_override
  wv_revision :: nat

section \<open>Validation\<close>

definition normalize_name :: "string \<Rightarrow> workspace_error + string" where
  "normalize_name name =
     (let normalized = js_trim name in
      if length normalized = 0 \<or> int (length normalized) > 200 then Inl NameInvalid else Inr normalized)"

definition RESOURCE_DESCRIPTION_MAX_BYTES :: int where
  "RESOURCE_DESCRIPTION_MAX_BYTES = 2048"

definition RESOURCE_NOTES_MAX_BYTES :: int where
  "RESOURCE_NOTES_MAX_BYTES = 262144"

definition validate_resource_description :: "string \<Rightarrow> workspace_error + string" where
  "validate_resource_description s =
     (if int (utf8_length s) > RESOURCE_DESCRIPTION_MAX_BYTES then Inl DescriptionInvalid
      else if list_ex (\<lambda>c. (of_char c :: nat) = 13 \<or> (of_char c :: nat) = 10) s then Inl DescriptionInvalid
      else Inr s)"

definition validate_resource_notes :: "string \<Rightarrow> workspace_error + string" where
  "validate_resource_notes s =
     (if int (utf8_length s) > RESOURCE_NOTES_MAX_BYTES then Inl NotesInvalid else Inr s)"

definition contains_control_character :: "string \<Rightarrow> bool" where
  "contains_control_character s = list_ex (\<lambda>c. (of_char c :: nat) \<le> 31 \<or> (of_char c :: nat) = 127) s"

definition validate_base_url :: "(string \<Rightarrow> parsed_url option) \<Rightarrow> string \<Rightarrow> workspace_error + string" where
  "validate_base_url parse text_value =
     (let normalized = js_trim text_value in
      if normalized = [] then Inr []
      else if int (length normalized) > 8192 \<or> CHR ''?'' \<in> set normalized \<or> CHR ''#'' \<in> set normalized
        \<or> CHR 0x5C \<in> set normalized \<or> contains_control_character normalized then Inl BaseUrlInvalid
      else if index_of ''<<'' normalized \<noteq> None then Inr normalized
      else (case parse normalized of
          None \<Rightarrow> Inl BaseUrlInvalid
        | Some url \<Rightarrow>
            if (pu_protocol url \<noteq> ''http:'' \<and> pu_protocol url \<noteq> ''https:'')
              \<or> pu_username url \<noteq> [] \<or> pu_password url \<noteq> [] then Inl BaseUrlNotHttp
            else Inr normalized))"

definition validate_header :: "workspace_header \<Rightarrow> workspace_error + workspace_header" where
  "validate_header h =
     (if int (length (wh_name h)) > 1024 \<or> int (length (wh_value h)) > 16384
        \<or> (wh_enabled h \<and> js_trim (wh_name h) = []) then Inl HeaderInvalid
      else case validate_field_description (wh_description h) of
          Inl e \<Rightarrow> Inl DescriptionInvalid
        | Inr description \<Rightarrow>
            if description \<noteq> [] \<and> js_trim (wh_name h) = [] then Inl DocumentedHeaderNeedsName
            else Inr (h\<lparr>wh_mode := Some (case wh_mode h of None \<Rightarrow> HeaderOverride | Some m \<Rightarrow> m)\<rparr>))"

definition validate_workspace_headers :: "workspace_header list \<Rightarrow> workspace_error + workspace_header list" where
  "validate_workspace_headers headers =
     (if int (length headers) > 200 then Inl TooManyHeaders else mapE validate_header headers)"

definition policy_result :: "policy_error + 'a \<Rightarrow> workspace_error + 'a" where
  "policy_result r = (case r of Inl e \<Rightarrow> Inl (PolicyInvalid e) | Inr x \<Rightarrow> Inr x)"

section \<open>Access\<close>

definition live_workspace :: "workspace_db \<Rightarrow> entity_id \<Rightarrow> workspace option" where
  "live_workspace db w = find (\<lambda>r. ws_id r = w \<and> ws_deleted r = None) (wd_workspaces db)"

text \<open>The join of memberships with live workspaces.\<close>

definition membership :: "workspace_db \<Rightarrow> entity_id \<Rightarrow> entity_id \<Rightarrow> role option" where
  "membership db user w =
     (case live_workspace db w of None \<Rightarrow> None | Some r \<Rightarrow> map_of (wd_memberships db) (w, user))"

definition require_can_edit :: "workspace_db \<Rightarrow> entity_id \<Rightarrow> entity_id \<Rightarrow> workspace_error + unit" where
  "require_can_edit db user w =
     (case membership db user w of
        None \<Rightarrow> Inl AccessDenied
      | Some r \<Rightarrow> if r \<noteq> Owner \<and> r \<noteq> Editor then Inl AccessDenied else Inr ())"

definition require_can_read :: "workspace_db \<Rightarrow> entity_id \<Rightarrow> entity_id \<Rightarrow> workspace_error + unit" where
  "require_can_read db user w =
     (case membership db user w of None \<Rightarrow> Inl WorkspaceNotFound | Some r \<Rightarrow> Inr ())"

section \<open>Operations\<close>

definition create_workspace ::
  "entity_id \<Rightarrow> int \<Rightarrow> entity_id \<Rightarrow> string \<Rightarrow> string \<Rightarrow> string \<Rightarrow> workspace_db
     \<Rightarrow> workspace_error + ((entity_id \<times> string \<times> role) \<times> workspace_db)" where
  "create_workspace fresh now user name description notes db =
     bindE (normalize_name name) (\<lambda>normalized.
     bindE (validate_resource_description description) (\<lambda>d.
     bindE (validate_resource_notes notes) (\<lambda>n.
     Inr ((fresh, normalized, Owner),
       db\<lparr>wd_workspaces := wd_workspaces db @
            [\<lparr>ws_id = fresh, ws_name = normalized, ws_description = d, ws_notes = n, ws_revision = 0,
              ws_headers = [], ws_base_url = [], ws_redirect = JObject [], ws_cookie = JObject [],
              ws_created_at = now, ws_deleted = None\<rparr>],
          wd_memberships := wd_memberships db @ [((fresh, user), Owner)],
          wd_audit := wd_audit db @ [(WorkspaceCreated normalized, user, fresh)]\<rparr>))))"

definition get_workspace :: "entity_id \<Rightarrow> entity_id \<Rightarrow> workspace_db \<Rightarrow> workspace_error + workspace_view" where
  "get_workspace user w db =
     (case (live_workspace db w, membership db user w) of
        (Some row, Some r) \<Rightarrow>
          bindE (validate_workspace_headers (ws_headers row)) (\<lambda>headers.
          bindE (policy_result (parse_redirect_override (ws_redirect row))) (\<lambda>redirect.
          bindE (policy_result (parse_cookie_override (ws_cookie row))) (\<lambda>cookie.
          Inr \<lparr>wv_id = w, wv_name = ws_name row, wv_role = r, wv_description = ws_description row,
               wv_notes = ws_notes row, wv_base_url = ws_base_url row, wv_headers = headers,
               wv_redirect = redirect, wv_cookie = cookie, wv_revision = ws_revision row\<rparr>)))
      | _ \<Rightarrow> Inl WorkspaceNotFound)"

record workspace_update =
  wu_name :: string
  wu_headers :: "workspace_header list"
  wu_base_url :: string
  wu_description :: string
  wu_notes :: string
  wu_redirect :: "json option"
  wu_cookie :: "json option"

text \<open>The validated columns of an update, in the order the code validates them.\<close>

definition validate_update ::
  "(string \<Rightarrow> parsed_url option) \<Rightarrow> entity_id \<Rightarrow> workspace_update \<Rightarrow> workspace_error + workspace_view" where
  "validate_update parse w u =
     bindE (normalize_name (wu_name u)) (\<lambda>name.
     bindE (validate_workspace_headers (wu_headers u)) (\<lambda>headers.
     bindE (validate_base_url parse (wu_base_url u)) (\<lambda>base.
     bindE (validate_resource_description (wu_description u)) (\<lambda>description.
     bindE (validate_resource_notes (wu_notes u)) (\<lambda>notes.
     bindE (policy_result (validate_redirect_override (wu_redirect u))) (\<lambda>redirect.
     bindE (policy_result (validate_cookie_override (wu_cookie u))) (\<lambda>cookie.
     Inr \<lparr>wv_id = w, wv_name = name, wv_role = Viewer, wv_description = description, wv_notes = notes,
          wv_base_url = base, wv_headers = headers, wv_redirect = redirect, wv_cookie = cookie,
          wv_revision = 0\<rparr>)))))))"

text \<open>Which columns differ from the stored row; the keys are those of the audit data.\<close>

definition changed_columns :: "workspace \<Rightarrow> workspace_view \<Rightarrow> (string \<times> bool) list" where
  "changed_columns row v =
     [(''nameChanged'', ws_name row \<noteq> wv_name v),
      (''descriptionChanged'', ws_description row \<noteq> wv_description v),
      (''notesChanged'', ws_notes row \<noteq> wv_notes v),
      (''headersChanged'', ws_headers row \<noteq> wv_headers v),
      (''baseUrlChanged'', ws_base_url row \<noteq> wv_base_url v),
      (''redirectPolicyChanged'', ws_redirect row \<noteq> redirect_override_json (wv_redirect v)),
      (''cookiePolicyChanged'', ws_cookie row \<noteq> cookie_override_json (wv_cookie v))]"

definition update_row :: "workspace_view \<Rightarrow> nat \<Rightarrow> workspace \<Rightarrow> workspace" where
  "update_row v revision row =
     row\<lparr>ws_name := wv_name v, ws_description := wv_description v, ws_notes := wv_notes v,
         ws_headers := wv_headers v, ws_base_url := wv_base_url v,
         ws_redirect := redirect_override_json (wv_redirect v),
         ws_cookie := cookie_override_json (wv_cookie v), ws_revision := revision\<rparr>"

definition map_workspaces ::
  "(workspace \<Rightarrow> bool) \<Rightarrow> (workspace \<Rightarrow> workspace) \<Rightarrow> workspace_db \<Rightarrow> workspace_db" where
  "map_workspaces P f db = db\<lparr>wd_workspaces := map (\<lambda>r. if P r then f r else r) (wd_workspaces db)\<rparr>"

definition update_workspace ::
  "(string \<Rightarrow> parsed_url option) \<Rightarrow> entity_id \<Rightarrow> entity_id \<Rightarrow> nat \<Rightarrow> workspace_update \<Rightarrow> workspace_db
     \<Rightarrow> workspace_error + (workspace_view \<times> workspace_db)" where
  "update_workspace parse user w expected u db =
     bindE (validate_update parse w u) (\<lambda>v.
     bindE (require_can_edit db user w) (\<lambda>_.
     case live_workspace db w of
       None \<Rightarrow> Inl WorkspaceNotFound
     | Some row \<Rightarrow>
         if ws_revision row \<noteq> expected then Inl WorkspaceChanged
         else (case map_of (wd_memberships db) (w, user) of
             None \<Rightarrow> Inl MembershipMissing
           | Some r \<Rightarrow>
               let changes = changed_columns row v in
               if list_all (\<lambda>(k, changed). \<not> changed) changes
               then Inr (v\<lparr>wv_role := r, wv_revision := ws_revision row\<rparr>, db)
               else
                 let revision = ws_revision row + 1 in
                 Inr (v\<lparr>wv_role := r, wv_revision := revision\<rparr>,
                   (map_workspaces
                      (\<lambda>x. ws_id x = w \<and> ws_revision x = expected \<and> ws_deleted x = None)
                      (update_row v revision) db)
                   \<lparr>wd_audit := wd_audit db @ [(WorkspaceUpdated revision changes, user, w)]\<rparr>))))"

definition delete_workspace ::
  "int \<Rightarrow> entity_id \<Rightarrow> entity_id \<Rightarrow> nat \<Rightarrow> workspace_db \<Rightarrow> workspace_error + workspace_db" where
  "delete_workspace now user w expected db =
     (case (live_workspace db w, membership db user w) of
        (Some row, Some r) \<Rightarrow>
          if r \<noteq> Owner then Inl AccessDenied
          else if ws_revision row \<noteq> expected then Inl WorkspaceChanged
          else Inr ((map_workspaces
                (\<lambda>x. ws_id x = w \<and> ws_revision x = expected \<and> ws_deleted x = None)
                (\<lambda>x. x\<lparr>ws_deleted := Some (user, now)\<rparr>) db)
             \<lparr>wd_cookie_jars := filter (\<lambda>(j, owner). owner \<noteq> w) (wd_cookie_jars db),
              wd_audit := wd_audit db @ [(WorkspaceDeleted expected, user, w)]\<rparr>)
      | _ \<Rightarrow> Inl WorkspaceNotFound)"

text \<open>\<open>list\<close>; the rows of the table are in the order of creation time and identifier.\<close>

definition list_workspaces :: "entity_id \<Rightarrow> workspace_db \<Rightarrow> (entity_id \<times> string \<times> role) list" where
  "list_workspaces user db =
     concat (map (\<lambda>row. case (ws_deleted row, map_of (wd_memberships db) (ws_id row, user)) of
         (None, Some r) \<Rightarrow> [(ws_id row, ws_name row, r)] | _ \<Rightarrow> []) (wd_workspaces db))"

section \<open>Reading back\<close>

lemma validate_header_idem: "validate_header h = Inr h' \<Longrightarrow> validate_header h' = Inr h'"
  by (auto simp: validate_header_def split: if_splits sum.splits)

lemma validate_headers_idem:
  assumes "validate_workspace_headers hs = Inr hs'"
  shows "validate_workspace_headers hs' = Inr hs'"
proof -
  from assms have all: "list_all2 (\<lambda>h h'. validate_header h = Inr h') hs hs'" and "length hs \<le> 200"
    by (auto simp: validate_workspace_headers_def mapE_eq_Inr split: if_splits)
  then have "list_all2 (\<lambda>h h'. validate_header h = Inr h') hs' hs'"
    by (induction rule: list_all2_induct) (auto intro: validate_header_idem)
  with all \<open>length hs \<le> 200\<close> show ?thesis
    by (auto simp: validate_workspace_headers_def mapE_eq_Inr dest: list_all2_lengthD)
qed

lemma policy_result_Inr [simp]:
  "policy_result r = Inr x \<longleftrightarrow> r = Inr x" "policy_result (Inr x) = Inr x"
  by (cases r) (simp_all add: policy_result_def)

definition validated :: "workspace_view \<Rightarrow> bool" where
  "validated v \<longleftrightarrow> validate_workspace_headers (wv_headers v) = Inr (wv_headers v) \<and>
     redirect_count_ok (ro_max_redirects (wv_redirect v))"

lemma validate_update_validated: "validate_update parse w u = Inr v \<Longrightarrow> validated v \<and> wv_id v = w"
  by (auto simp: validate_update_def validated_def bindE_eq_Inr
      intro: validate_headers_idem validate_redirect_override_ok)

lemma find_map_live:
  assumes "find Q rows = Some row" and "P row" and "\<And>x. P x \<Longrightarrow> Q (f x) = Q x"
  shows "find Q (map (\<lambda>r. if P r then f r else r) rows) = Some (f row)"
  using assms by (induction rows) (auto split: if_splits)

lemma find_map_other:
  assumes "\<And>x. P x \<Longrightarrow> \<not> Q x \<and> \<not> Q (f x)"
  shows "find Q (map (\<lambda>r. if P r then f r else r) rows) = find Q rows"
  using assms by (induction rows) auto

lemma live_workspaceD: "live_workspace db w = Some row \<Longrightarrow> ws_id row = w \<and> ws_deleted row = None \<and> row \<in> set (wd_workspaces db)"
  by (auto simp: live_workspace_def find_Some_iff in_set_conv_nth)

lemma live_map_same:
  assumes "live_workspace db w = Some row" and "ws_revision row = expected"
    and "\<And>x. ws_id (f x) = ws_id x \<and> ws_deleted (f x) = ws_deleted x"
  shows "live_workspace (map_workspaces (\<lambda>x. ws_id x = w \<and> ws_revision x = expected \<and> ws_deleted x = None) f db) w
    = Some (f row)"
  using live_workspaceD [OF assms(1)] assms unfolding live_workspace_def map_workspaces_def
  by (simp add: find_map_live)

lemma live_map_other:
  assumes "w' \<noteq> w" and "\<And>x. ws_id (f x) = ws_id x"
  shows "live_workspace (map_workspaces (\<lambda>x. ws_id x = w \<and> ws_revision x = expected \<and> ws_deleted x = None) f db) w'
    = live_workspace db w'"
  using assms unfolding live_workspace_def map_workspaces_def
  by (simp, intro find_map_other) simp

lemma live_audit [simp]:
  "live_workspace (wd_audit_update g db) = live_workspace db"
  "live_workspace (wd_cookie_jars_update h db) = live_workspace db"
  by (simp_all add: live_workspace_def [abs_def] fun_eq_iff)

lemma map_workspaces_fields [simp]:
  "wd_memberships (map_workspaces P f db) = wd_memberships db"
  "wd_cookie_jars (map_workspaces P f db) = wd_cookie_jars db"
  by (simp_all add: map_workspaces_def)

lemma update_row_fields [simp]:
  "ws_id (update_row v n row) = ws_id row" "ws_deleted (update_row v n row) = ws_deleted row"
  by (simp_all add: update_row_def)

lemma get_updated_row:
  assumes "validated v" and "wv_id v = w" and "live_workspace db w = Some row"
    and "map_of (wd_memberships db) (w, user) = Some r"
    and "changed_columns row v = map (\<lambda>(k, c). (k, False)) (changed_columns row v)"
  shows "get_workspace user w db = Inr (v\<lparr>wv_role := r, wv_revision := ws_revision row\<rparr>)"
  using assms
  by (simp add: get_workspace_def membership_def validated_def changed_columns_def
      redirect_override_roundtrip cookie_override_roundtrip)

lemma changed_columns_updated:
  "changed_columns (update_row v n row) v = map (\<lambda>(k, c). (k, False)) (changed_columns (update_row v n row) v)"
  by (simp add: changed_columns_def update_row_def)

lemma changed_columns_none:
  "list_all (\<lambda>(k, c). \<not> c) (changed_columns row v) \<Longrightarrow>
     changed_columns row v = map (\<lambda>(k, c). (k, False)) (changed_columns row v)"
  by (simp add: changed_columns_def)

text \<open>
  Workspace updates. An accepted update was made by an owner or editor against the current
  revision of a live workspace. Reading the workspace back gives exactly the view returned; the
  revision advances by one exactly when a column changed, an unchanged update leaves the database
  as it was, and no other workspace and no membership is affected.
\<close>

theorem workspace_update_reads_back:
  assumes "update_workspace parse user w expected u db = Inr (v, db')"
  shows "membership db user w \<in> {Some Owner, Some Editor} \<and>
    (\<exists>row. live_workspace db w = Some row \<and> ws_revision row = expected) \<and>
    get_workspace user w db' = Inr v \<and>
    (db' = db \<and> wv_revision v = expected \<or> wv_revision v = expected + 1) \<and>
    wd_memberships db' = wd_memberships db \<and>
    (\<forall>other. other = w \<or> live_workspace db' other = live_workspace db other)"
proof -
  obtain v0 row r where v0: "validate_update parse w u = Inr v0"
    and edit: "require_can_edit db user w = Inr ()"
    and row: "live_workspace db w = Some row" "ws_revision row = expected"
    and r: "map_of (wd_memberships db) (w, user) = Some r"
    and out: "(if list_all (\<lambda>(k, changed). \<not> changed) (changed_columns row v0)
       then Inr (v0\<lparr>wv_role := r, wv_revision := ws_revision row\<rparr>, db)
       else Inr (v0\<lparr>wv_role := r, wv_revision := ws_revision row + 1\<rparr>,
         (map_workspaces (\<lambda>x. ws_id x = w \<and> ws_revision x = expected \<and> ws_deleted x = None)
            (update_row v0 (ws_revision row + 1)) db)
         \<lparr>wd_audit := wd_audit db @
            [(WorkspaceUpdated (ws_revision row + 1) (changed_columns row v0), user, w)]\<rparr>))
       = (Inr (v, db') :: workspace_error + _)"
  proof -
    from assms obtain v0 where v0: "validate_update parse w u = Inr v0" "require_can_edit db user w = Inr ()"
      by (auto simp: update_workspace_def bindE_eq_Inr)
    note step = assms [unfolded update_workspace_def v0 bindE_Inr Let_def]
    from step obtain row where row: "live_workspace db w = Some row" "ws_revision row = expected"
      by (cases "live_workspace db w") (auto split: if_split_asm)
    from step row obtain r where r: "map_of (wd_memberships db) (w, user) = Some r"
      by (cases "map_of (wd_memberships db) (w, user)") auto
    show thesis by (rule that [OF v0 row r]) (use step row r in simp)
  qed
  have role: "membership db user w \<in> {Some Owner, Some Editor}"
    using edit by (cases "membership db user w") (auto simp: require_can_edit_def split: if_splits)
  note ok = validate_update_validated [OF v0]
  show ?thesis
  proof (cases "list_all (\<lambda>(k, changed). \<not> changed) (changed_columns row v0)")
    case True
    from get_updated_row [OF _ _ row(1) r changed_columns_none [OF True]] ok True out row role
    show ?thesis by auto
  next
    case False
    let ?f = "update_row v0 (ws_revision row + 1)"
    from False out have v: "v = v0\<lparr>wv_role := r, wv_revision := ws_revision row + 1\<rparr>"
      and db': "db' = (map_workspaces (\<lambda>x. ws_id x = w \<and> ws_revision x = expected \<and> ws_deleted x = None) ?f db)
        \<lparr>wd_audit := wd_audit db @
           [(WorkspaceUpdated (ws_revision row + 1) (changed_columns row v0), user, w)]\<rparr>"
      by simp_all
    have live: "live_workspace db' w = Some (?f row)"
      unfolding db' live_audit by (rule live_map_same [OF row]) simp
    have mem: "wd_memberships db' = wd_memberships db" unfolding db' by simp
    have "get_workspace user w db' = Inr (v0\<lparr>wv_role := r, wv_revision := ws_revision (?f row)\<rparr>)"
      using ok mem r by (intro get_updated_row [OF _ _ live _ changed_columns_updated]) simp_all
    moreover have "ws_revision (?f row) = ws_revision row + 1" by (simp add: update_row_def)
    moreover have "live_workspace db' other = live_workspace db other" if "other \<noteq> w" for other
      unfolding db' live_audit using that by (rule live_map_other) simp
    ultimately show ?thesis using role row v mem by auto
  qed
qed

text \<open>
  Deletion revokes access. Only an owner deletes a workspace, at its current revision; from then
  on nobody reads, lists or edits it and it has no cookie jar, while every other workspace keeps its
  members' access and its jars.
\<close>

theorem workspace_delete_revokes:
  assumes "delete_workspace now user w expected db = Inr db'"
    and "distinct (map ws_id (wd_workspaces db))"
  shows "membership db user w = Some Owner \<and>
    (\<exists>row. live_workspace db w = Some row \<and> ws_revision row = expected) \<and>
    (\<forall>u. require_can_read db' u w = Inl WorkspaceNotFound \<and> require_can_edit db' u w = Inl AccessDenied \<and>
       w \<notin> fst ` set (list_workspaces u db')) \<and>
    w \<notin> snd ` set (wd_cookie_jars db') \<and>
    (\<forall>u other. other = w \<or> membership db' u other = membership db u other) \<and>
    (\<forall>j other. other = w \<or> (j, other) \<in> set (wd_cookie_jars db') = ((j, other) \<in> set (wd_cookie_jars db)))"
proof -
  let ?P = "\<lambda>x. ws_id x = w \<and> ws_revision x = expected \<and> ws_deleted x = None"
  let ?f = "\<lambda>x. x\<lparr>ws_deleted := Some (user, now)\<rparr>"
  obtain row where row: "live_workspace db w = Some row" "ws_revision row = expected"
    and owner: "membership db user w = Some Owner"
    and db': "db' = (map_workspaces ?P ?f db)
      \<lparr>wd_cookie_jars := filter (\<lambda>(j, owner). owner \<noteq> w) (wd_cookie_jars db),
       wd_audit := wd_audit db @ [(WorkspaceDeleted expected, user, w)]\<rparr>"
    using assms(1)
    by (cases "live_workspace db w"; cases "membership db user w")
       (auto simp: delete_workspace_def split: if_split_asm)
  have unique: "x = row" if "x \<in> set (wd_workspaces db)" "ws_id x = w" for x
    using that live_workspaceD [OF row(1)] assms(2) by (metis distinct_map inj_onD)
  have gone: "ws_deleted x \<noteq> None" if "x \<in> set (wd_workspaces db')" "ws_id x = w" for x
  proof -
    note x = that
    obtain y where y: "y \<in> set (wd_workspaces db)" "x = (if ?P y then ?f y else y)"
    proof -
      have "x \<in> (\<lambda>r. if ?P r then ?f r else r) ` set (wd_workspaces db)"
        using x(1) by (simp add: db' map_workspaces_def)
      then show thesis using that by (elim imageE) (simp only:)
    qed
    then have "ws_id y = w" using x(2) by (simp split: if_splits)
    then have "y = row" by (rule unique [OF y(1)])
    then have "?P y" using live_workspaceD [OF row(1)] row(2) by simp
    with y(2) show ?thesis by simp
  qed
  then have none: "live_workspace db' w = None"
    by (auto simp: live_workspace_def find_None_iff)
  have "live_workspace db' other = live_workspace db other" if "other \<noteq> w" for other
    unfolding db' live_audit using that by (rule live_map_other) simp
  then have "membership db' u other = membership db u other" if "other \<noteq> w" for u other
    using that by (simp add: membership_def db' split: option.split)
  moreover have "w \<notin> fst ` set (list_workspaces u db')" for u
  proof
    assume "w \<in> fst ` set (list_workspaces u db')"
    then obtain x where "x \<in> set (wd_workspaces db')" "ws_id x = w" "ws_deleted x = None"
      by (force simp: list_workspaces_def split: option.splits)
    with gone show False by blast
  qed
  moreover have "require_can_read db' u w = Inl WorkspaceNotFound \<and> require_can_edit db' u w = Inl AccessDenied" for u
    using none by (simp add: require_can_read_def require_can_edit_def membership_def)
  moreover have "w \<notin> snd ` set (wd_cookie_jars db')" by (auto simp: db')
  moreover have "(j, other) \<in> set (wd_cookie_jars db') = ((j, other) \<in> set (wd_cookie_jars db))"
    if "other \<noteq> w" for j other using that by (auto simp: db')
  ultimately show ?thesis using row owner by blast
qed

section \<open>An example\<close>

definition demo_db :: workspace_db where
  "demo_db = (case create_workspace ''w'' 5 ''u'' '' Team '' [] [] \<lparr>wd_workspaces = [], wd_memberships = [],
       wd_cookie_jars = [(''j'', ''w''), (''k'', ''x'')], wd_audit = []\<rparr> of Inr (_, db) \<Rightarrow> db)"

definition demo_update :: workspace_update where
  "demo_update = \<lparr>wu_name = ''Team'', wu_headers = [\<lparr>wh_name = ''A'', wh_value = ''1'', wh_enabled = True,
     wh_mode = None, wh_description = None\<rparr>], wu_base_url = '' <<base>>/v1 '', wu_description = [],
     wu_notes = [], wu_redirect = None, wu_cookie = Some (JObject [(''enabled'', JBool False)])\<rparr>"

theorem workspace_update_reads_back_witness:
  "\<exists>v db'. update_workspace (\<lambda>_. None) ''u'' ''w'' 0 demo_update demo_db = Inr (v, db') \<and>
     get_workspace ''u'' ''w'' db' = Inr v \<and> wv_base_url v = ''<<base>>/v1'' \<and> wv_revision v = 1"
proof -
  have "(case update_workspace (\<lambda>_. None) ''u'' ''w'' 0 demo_update demo_db of
      Inl _ \<Rightarrow> False | Inr (v, db') \<Rightarrow> wv_base_url v = ''<<base>>/v1'' \<and> wv_revision v = 1)"
    by code_simp
  then obtain v db' where u: "update_workspace (\<lambda>_. None) ''u'' ''w'' 0 demo_update demo_db = Inr (v, db')"
    and v: "wv_base_url v = ''<<base>>/v1''" "wv_revision v = 1"
    by (auto split: sum.splits)
  from workspace_update_reads_back [OF u] u v show ?thesis by blast
qed

theorem workspace_delete_revokes_witness:
  "\<exists>db'. delete_workspace 7 ''u'' ''w'' 0 demo_db = Inr db' \<and>
     require_can_read db' ''u'' ''w'' = Inl WorkspaceNotFound"
proof -
  have "(case delete_workspace 7 ''u'' ''w'' 0 demo_db of Inl _ \<Rightarrow> False | Inr _ \<Rightarrow> True)" by code_simp
  then obtain db' where d: "delete_workspace 7 ''u'' ''w'' 0 demo_db = Inr db'" by (auto split: sum.splits)
  have "distinct (map ws_id (wd_workspaces demo_db))" by code_simp
  from workspace_delete_revokes [OF d this]
  have "require_can_read db' ''u'' ''w'' = Inl WorkspaceNotFound" by simp
  with d show ?thesis by blast
qed

end
