(* ===== verification/Variable_Resolver.thy ===== *)
theory Variable_Resolver
  imports Variable_Profiles
begin

text \<open>
  Alias resolution and placeholder interpolation
  (\<open>VariableResolver\<close> in \<open>apps/backend/src/environments/variable-resolver.ts\<close>). The
  resolution path is the set of names already visited, so the recursion ends on every profile; a
  cursor into the source string is the suffix that remains.
\<close>

section \<open>Data and operations\<close>

record resolved_value =
  rs_value :: string
  rs_secret :: bool
  rs_references :: "(entity_id \<times> nat) list"

datatype resolution_error =
    AliasCycle "string list"
  | VariableMissing string
  | VariableUnset string
  | SecretWithoutValue string
  | AliasWithoutTarget string
  | InvalidPlaceholder string

type_synonym variable_map = "(string \<times> resolved_variable) list"

definition variable_map :: "resolved_variable list \<Rightarrow> variable_map" where
  "variable_map variables = foldl (\<lambda>m v. AList.update (rv_name v) v m) [] variables"

text \<open>The result of a variable that is not an alias.\<close>

definition final_value :: "string \<Rightarrow> resolved_variable \<Rightarrow> resolution_error + resolved_value" where
  "final_value name v =
     (case rv_kind v of
        KindUnset \<Rightarrow> Inl (VariableUnset name)
      | KindValue \<Rightarrow>
          Inr \<lparr>rs_value = (case rv_value v of Some s \<Rightarrow> s | None \<Rightarrow> []), rs_secret = False, rs_references = []\<rparr>
      | KindSecret \<Rightarrow>
          (case (rv_value v, rv_secret_version v) of
             (Some s, Some n) \<Rightarrow> Inr \<lparr>rs_value = s, rs_secret = True, rs_references = [(rv_id v, n)]\<rparr>
           | _ \<Rightarrow> Inl (SecretWithoutValue name))
      | KindAlias \<Rightarrow> Inl (AliasWithoutTarget name))"

function resolve_path ::
  "variable_map \<Rightarrow> string \<Rightarrow> string list \<Rightarrow> resolution_error + resolved_value" where
  "resolve_path vars name path =
     (if name \<in> set path then Inl (AliasCycle (path @ [name]))
      else case map_of vars name of
        None \<Rightarrow> Inl (VariableMissing name)
      | Some v \<Rightarrow>
          (case (rv_kind v, rv_alias_target v) of
             (KindAlias, Some target) \<Rightarrow> resolve_path vars target (path @ [name])
           | _ \<Rightarrow> final_value name v))"
  by pat_completeness auto
termination
proof (relation "measure (\<lambda>(vars, name, path). card (set (map fst vars) - set path))", goal_cases)
  case (2 vars name path v)
  then have "name \<in> set (map fst vars)"
    by (auto dest!: map_of_SomeD intro: rev_image_eqI)
  with 2(1) have "card (set (map fst vars) - set path - {name}) < card (set (map fst vars) - set path)"
    by (intro card_Diff1_less) auto
  moreover have "set (map fst vars) - set path - {name} = set (map fst vars) - set (path @ [name])"
    by auto
  ultimately show ?case by simp
qed simp

declare resolve_path.simps [simp del]

definition resolve :: "variable_map \<Rightarrow> string \<Rightarrow> resolution_error + resolved_value" where
  "resolve vars name = resolve_path vars name []"

record interpolation =
  in_value :: string
  in_secret :: bool
  in_references :: "(entity_id \<times> nat) list"
  in_names :: "string list"

definition add_text :: "string \<Rightarrow> interpolation \<Rightarrow> interpolation" where
  "add_text s acc = acc\<lparr>in_value := in_value acc @ s\<rparr>"

definition add_resolved :: "string \<Rightarrow> resolved_value \<Rightarrow> interpolation \<Rightarrow> interpolation" where
  "add_resolved name r acc =
     \<lparr>in_value = in_value acc @ rs_value r, in_secret = (in_secret acc \<or> rs_secret r),
      in_references = foldl (\<lambda>m (i, n). AList.update i n m) (in_references acc) (rs_references r),
      in_names = in_names acc @ [name]\<rparr>"

function interpolate_from ::
  "variable_map \<Rightarrow> string \<Rightarrow> interpolation \<Rightarrow> resolution_error + interpolation" where
  "interpolate_from vars source acc =
     (case index_of ''<<'' source of
        None \<Rightarrow> Inr (add_text source acc)
      | Some start \<Rightarrow>
          let acc1 = add_text (take start source) acc;
              rest = drop start source in
          if starts_with rest ''<<<<'' then interpolate_from vars (drop 4 rest) (add_text ''<<'' acc1)
          else
            (case index_of ''>>'' (drop 2 rest) of
               None \<Rightarrow> Inr (add_text rest acc1)
             | Some closing \<Rightarrow>
                 let name = take closing (drop 2 rest) in
                 if \<not> valid_name name then Inl (InvalidPlaceholder name)
                 else (case resolve vars name of
                     Inl e \<Rightarrow> Inl e
                   | Inr r \<Rightarrow>
                       interpolate_from vars (drop (closing + 4) rest) (add_resolved name r acc1))))"
  by pat_completeness auto
termination
proof (relation "measure (\<lambda>(vars, source, acc). length source)", goal_cases)
  case (2 vars source acc start acc1 rest)
  then have "starts_with (drop start source) ''<<''" using index_of_Some by blast
  then have "drop start source \<noteq> []" by (auto simp: starts_with_iff)
  then have "start < length source" by simp
  with 2 show ?case by simp
next
  case (3 vars source acc start acc1 rest closing name r)
  then have "starts_with (drop start source) ''<<''" using index_of_Some by blast
  then have "drop start source \<noteq> []" by (auto simp: starts_with_iff)
  then have "start < length source" by simp
  with 3 show ?case by simp
qed simp

declare interpolate_from.simps [simp del]

definition no_text :: interpolation where
  "no_text = \<lparr>in_value = [], in_secret = False, in_references = [], in_names = []\<rparr>"

definition interpolate :: "variable_map \<Rightarrow> string \<Rightarrow> resolution_error + interpolation" where
  "interpolate vars source = interpolate_from vars source no_text"

section \<open>Alias chains\<close>

definition alias_step :: "variable_map \<Rightarrow> (string \<times> string) set" where
  "alias_step vars =
     {(a, b). \<exists>v. map_of vars a = Some v \<and> rv_kind v = KindAlias \<and> rv_alias_target v = Some b}"

definition ends_at :: "variable_map \<Rightarrow> string \<Rightarrow> bool" where
  "ends_at vars m \<longleftrightarrow> (\<forall>b. (m, b) \<notin> alias_step vars)"

lemma alias_step_deterministic: "(a, b) \<in> alias_step vars \<Longrightarrow> (a, c) \<in> alias_step vars \<Longrightarrow> b = c"
  by (auto simp: alias_step_def)

lemma cycle_never_ends:
  assumes "(n, m) \<in> (alias_step vars)\<^sup>*" and "(n, n) \<in> (alias_step vars)\<^sup>+"
  shows "\<not> ends_at vars m"
  using assms
proof (induction rule: converse_rtrancl_induct)
  case base
  then show ?case by (auto simp: ends_at_def dest: tranclD)
next
  case (step a b)
  from step.prems obtain c where c: "(a, c) \<in> alias_step vars" "(c, a) \<in> (alias_step vars)\<^sup>*"
    by (auto dest: tranclD)
  then have "c = b" using step.hyps(1) alias_step_deterministic by blast
  with c step.hyps(1) have "(b, b) \<in> (alias_step vars)\<^sup>+" by (auto intro: rtrancl_into_trancl1)
  with step.IH show ?case .
qed

lemma resolve_path_alias:
  "name \<notin> set path \<Longrightarrow> (name, b) \<in> alias_step vars \<Longrightarrow>
     resolve_path vars name path = resolve_path vars b (path @ [name])"
  by (subst resolve_path.simps) (auto simp: alias_step_def)

lemma resolve_path_end:
  "name \<notin> set path \<Longrightarrow> ends_at vars name \<Longrightarrow>
     resolve_path vars name path =
       (case map_of vars name of None \<Rightarrow> Inl (VariableMissing name) | Some v \<Rightarrow> final_value name v)"
  by (subst resolve_path.simps)
     (auto simp: ends_at_def alias_step_def split: option.split variable_kind.split)

lemma resolve_path_reaches:
  assumes "(name, m) \<in> (alias_step vars)\<^sup>*" and "ends_at vars m"
    and "\<forall>p \<in> set path. (p, name) \<in> (alias_step vars)\<^sup>+"
  shows "resolve_path vars name path =
    (case map_of vars m of None \<Rightarrow> Inl (VariableMissing m) | Some v \<Rightarrow> final_value m v)"
  using assms
proof (induction arbitrary: path rule: converse_rtrancl_induct)
  case base
  have "m \<notin> set path"
    using base cycle_never_ends by blast
  with base show ?case by (simp add: resolve_path_end)
next
  case (step a b)
  have "(a, m) \<in> (alias_step vars)\<^sup>*" using step.hyps by auto
  then have "a \<notin> set path" using step.prems cycle_never_ends by blast
  moreover have "\<forall>p \<in> set (path @ [a]). (p, b) \<in> (alias_step vars)\<^sup>+"
    using step.hyps(1) step.prems(2) by auto
  ultimately show ?case
    using step.IH [OF step.prems(1)] step.hyps(1) by (simp add: resolve_path_alias)
qed

lemma resolve_path_cycle:
  assumes "\<nexists>m. (name, m) \<in> (alias_step vars)\<^sup>* \<and> ends_at vars m"
  shows "\<exists>p. resolve_path vars name path = Inl (AliasCycle p)"
  using assms
proof (induction vars name path rule: resolve_path.induct)
  case (1 vars name path)
  show ?case
  proof (cases "name \<in> set path")
    case True
    then show ?thesis by (simp add: resolve_path.simps)
  next
    case False
    from 1(2) obtain b where b: "(name, b) \<in> alias_step vars" by (auto simp: ends_at_def)
    then obtain v where v: "map_of vars name = Some v" "rv_kind v = KindAlias" "rv_alias_target v = Some b"
      by (auto simp: alias_step_def)
    have "\<nexists>m. (b, m) \<in> (alias_step vars)\<^sup>* \<and> ends_at vars m"
      using 1(2) b by (meson converse_rtrancl_into_rtrancl)
    from 1(1) [OF False v(1) refl v(2,3) this] show ?thesis
      using False b by (simp add: resolve_path_alias)
  qed
qed

section \<open>Properties\<close>

lemma resolve_outcomes:
  "(\<exists>m. (name, m) \<in> (alias_step vars)\<^sup>* \<and> ends_at vars m \<and>
      resolve vars name =
        (case map_of vars m of None \<Rightarrow> Inl (VariableMissing m) | Some v \<Rightarrow> final_value m v)) \<or>
   ((\<nexists>m. (name, m) \<in> (alias_step vars)\<^sup>* \<and> ends_at vars m) \<and>
      (\<exists>p. resolve vars name = Inl (AliasCycle p)))"
proof (cases "\<exists>m. (name, m) \<in> (alias_step vars)\<^sup>* \<and> ends_at vars m")
  case True
  then obtain m where "(name, m) \<in> (alias_step vars)\<^sup>*" "ends_at vars m" by blast
  with resolve_path_reaches [OF this, of "[]"] show ?thesis by (auto simp: resolve_def)
next
  case False
  with resolve_path_cycle [OF False] show ?thesis by (simp add: resolve_def)
qed

text \<open>
  Alias resolution finds the end of the chain. Resolving a name follows its alias chain and
  gives the value, or the error, of the variable the chain ends at, reporting as missing the name
  it ends at when that is not defined; if the chain never ends, and only then, resolution reports
  an alias cycle instead of running forever.
\<close>

theorem resolve_follows_chain:
  "(\<exists>m. (name, m) \<in> (alias_step vars)\<^sup>* \<and> ends_at vars m \<and>
      resolve vars name =
        (case map_of vars m of None \<Rightarrow> Inl (VariableMissing m) | Some v \<Rightarrow> final_value m v)) \<or>
   ((\<nexists>m. (name, m) \<in> (alias_step vars)\<^sup>* \<and> ends_at vars m) \<and>
      (\<exists>p. resolve vars name = Inl (AliasCycle p)))"
  by (rule resolve_outcomes)

section \<open>Escaping\<close>

text \<open>How a text is written so that interpolation gives it back: every \<open><<\<close> is doubled.\<close>

fun escape :: "string \<Rightarrow> string" where
  "escape (c # d # s) =
     (if c = CHR ''<'' \<and> d = CHR ''<'' then ''<<<<'' @ escape s else c # escape (d # s))"
| "escape s = s"

lemma escape_hd: "escape (c # s) = c # tl (escape (c # s))"
  by (cases s) auto

lemma escape_plain: "index_of ''<<'' s = None \<Longrightarrow> escape s = s"
  by (induction s rule: escape.induct) (auto split: if_splits)

lemma escape_found:
  "index_of ''<<'' s = Some n \<Longrightarrow>
     index_of ''<<'' (escape s) = Some n \<and> take n (escape s) = take n s \<and>
     drop n (escape s) = ''<<<<'' @ escape (drop (n + 2) s)"
proof (induction s arbitrary: n rule: escape.induct)
  case (1 c d s)
  show ?case
  proof (cases "c = CHR ''<'' \<and> d = CHR ''<''")
    case True
    with 1(3) show ?thesis by auto
  next
    case False
    then obtain m where m: "n = Suc m" "index_of ''<<'' (d # s) = Some m"
      using 1(3) by (auto split: if_splits)
    from 1(2) [OF False m(2)] have IH: "index_of ''<<'' (escape (d # s)) = Some m"
      "take m (escape (d # s)) = take m (d # s)"
      "drop m (escape (d # s)) = ''<<<<'' @ escape (drop (m + 2) (d # s))" by auto
    obtain t where "escape (d # s) = d # t" using escape_hd by blast
    with False IH m show ?thesis by auto
  qed
qed auto

lemma interpolate_escaped:
  "interpolate_from vars (escape s) acc = Inr (add_text s acc)"
proof (induction "length s" arbitrary: s acc rule: less_induct)
  case less
  show ?case
  proof (cases "index_of ''<<'' s")
    case None
    then show ?thesis by (subst interpolate_from.simps) (simp add: escape_plain)
  next
    case (Some n)
    have at: "starts_with (drop n s) ''<<''" using index_of_Some [OF Some] by blast
    then obtain r where r: "drop n s = ''<<'' @ r" by (auto simp: starts_with_iff)
    have rest: "drop (n + 2) s = r" using r by (metis add.commute drop_drop drop_Suc_Cons drop0
        append_Cons append_Nil numeral_2_eq_2)
    have whole: "s = take n s @ ''<<'' @ r" using r by (metis append_take_drop_id)
    have "length r < length s" by (subst whole) simp
    from less [OF this] have IH: "interpolate_from vars (escape r) acc' = Inr (add_text r acc')" for acc' .
    have "interpolate_from vars (escape s) acc =
        interpolate_from vars (escape r) (add_text ''<<'' (add_text (take n s) acc))"
      using escape_found [OF Some] rest by (subst interpolate_from.simps) simp
    also have "\<dots> = Inr (add_text s acc)"
      using IH whole by (simp add: add_text_def)
    finally show ?thesis .
  qed
qed

text \<open>
  Escaping round trip. Any text, written with every \<open><<\<close> doubled, is given back unchanged by
  interpolation, on every profile, without touching a variable.
\<close>

theorem escape_roundtrip:
  "interpolate vars (escape s) =
     Inr \<lparr>in_value = s, in_secret = False, in_references = [], in_names = []\<rparr>"
  by (simp add: interpolate_def interpolate_escaped no_text_def add_text_def)

section \<open>Secrets do not leak\<close>

text \<open>Two variables that differ at most in the plaintext of a configured secret.\<close>

definition low_variable :: "resolved_variable \<Rightarrow> resolved_variable \<Rightarrow> bool" where
  "low_variable v w \<longleftrightarrow>
     rv_id v = rv_id w \<and> rv_name v = rv_name w \<and> rv_kind v = rv_kind w \<and>
     rv_alias_target v = rv_alias_target w \<and> rv_secret_version v = rv_secret_version w \<and>
     (if rv_kind v = KindSecret then rv_value v = None \<longleftrightarrow> rv_value w = None
      else rv_value v = rv_value w)"

definition low_equivalent :: "variable_map \<Rightarrow> variable_map \<Rightarrow> bool" where
  "low_equivalent vars vars' \<longleftrightarrow>
     (\<forall>name. rel_option low_variable (map_of vars name) (map_of vars' name))"

definition low_value :: "resolved_value \<Rightarrow> resolved_value \<Rightarrow> bool" where
  "low_value r q \<longleftrightarrow>
     rs_secret r = rs_secret q \<and> rs_references r = rs_references q \<and>
     (rs_secret r \<or> rs_value r = rs_value q)"

definition low_text :: "interpolation \<Rightarrow> interpolation \<Rightarrow> bool" where
  "low_text r q \<longleftrightarrow>
     in_secret r = in_secret q \<and> in_references r = in_references q \<and> in_names r = in_names q \<and>
     (in_secret r \<or> in_value r = in_value q)"

lemma low_final: "low_variable v w \<Longrightarrow> rel_sum (=) low_value (final_value n v) (final_value n w)"
  by (auto simp: low_variable_def final_value_def low_value_def split: variable_kind.split option.split)

lemma low_resolve_path:
  "low_equivalent vars vars' \<Longrightarrow>
     rel_sum (=) low_value (resolve_path vars name path) (resolve_path vars' name path)"
proof (induction vars name path rule: resolve_path.induct)
  case (1 vars name path)
  from 1(2) have rel: "rel_option low_variable (map_of vars name) (map_of vars' name)"
    by (simp add: low_equivalent_def)
  show ?case
  proof (cases "name \<in> set path")
    case True
    then show ?thesis by (simp add: resolve_path.simps)
  next
    case fresh: False
    show ?thesis
    proof (cases "map_of vars name")
      case None
      with rel fresh show ?thesis by (simp add: resolve_path.simps)
    next
      case (Some v)
      then obtain w where w: "map_of vars' name = Some w" "low_variable v w"
        using rel by (auto elim: option.rel_cases)
      show ?thesis
      proof (cases "rv_kind v = KindAlias \<and> rv_alias_target v \<noteq> None")
        case True
        then obtain t where t: "rv_kind v = KindAlias" "rv_alias_target v = Some t" by blast
        with w(2) have "rv_kind w = KindAlias" "rv_alias_target w = Some t"
          by (simp_all add: low_variable_def)
        with 1(1) [OF fresh Some refl t 1(2)] fresh Some w(1) t show ?thesis
          by (simp add: resolve_path.simps [of vars] resolve_path.simps [of vars' name])
      next
        case False
        then have "resolve_path vars name path = final_value name v"
            "resolve_path vars' name path = final_value name w"
          using fresh Some w
          by (subst resolve_path.simps; auto simp: low_variable_def split: variable_kind.split option.split)+
        with low_final [OF w(2)] show ?thesis by simp
      qed
    qed
  qed
qed

lemma low_add_text: "low_text a b \<Longrightarrow> low_text (add_text s a) (add_text s b)"
  by (auto simp: low_text_def add_text_def)

lemma low_add_resolved:
  "low_text a b \<Longrightarrow> low_value r q \<Longrightarrow> low_text (add_resolved n r a) (add_resolved n q b)"
  by (auto simp: low_text_def low_value_def add_resolved_def)

lemma low_interpolate_from:
  assumes "low_equivalent vars vars'"
  shows "low_text a b \<Longrightarrow>
    rel_sum (=) low_text (interpolate_from vars source a) (interpolate_from vars' source b)"
  using assms
proof (induction vars source a arbitrary: b rule: interpolate_from.induct)
  case (1 vars source a)
  note step = interpolate_from.simps [of vars source a] interpolate_from.simps [of vars' source b]
  show ?case
  proof (cases "index_of ''<<'' source")
    case None
    with 1(3) show ?thesis by (simp add: step low_add_text)
  next
    case (Some start)
    let ?rest = "drop start source"
    have pre: "low_text (add_text (take start source) a) (add_text (take start source) b)"
      using 1(3) by (rule low_add_text)
    show ?thesis
    proof (cases "starts_with ?rest ''<<<<''")
      case True
      with 1(1) [OF Some refl refl True low_add_text [OF pre] 1(4)] Some show ?thesis
        by (simp add: step)
    next
      case plain: False
      show ?thesis
      proof (cases "index_of ''>>'' (drop 2 ?rest)")
        case None
        with plain Some pre show ?thesis by (simp add: step low_add_text)
      next
        case closed: (Some stop)
        let ?name = "take stop (drop 2 ?rest)"
        show ?thesis
        proof (cases "valid_name ?name")
          case False
          with plain Some closed show ?thesis by (simp add: step)
        next
          case valid: True
          have rel: "rel_sum (=) low_value (resolve vars ?name) (resolve vars' ?name)"
            unfolding resolve_def by (rule low_resolve_path [OF 1(4)])
          show ?thesis
          proof (cases "resolve vars ?name")
            case (Inl e)
            with rel have "resolve vars' ?name = Inl e" by (cases "resolve vars' ?name") auto
            with Inl plain Some closed valid show ?thesis by (simp add: step)
          next
            case (Inr r)
            with rel obtain q where q: "resolve vars' ?name = Inr q" "low_value r q"
              by (cases "resolve vars' ?name") auto
            have "\<not> \<not> valid_name ?name" using valid by simp
            from 1(2) [OF Some refl refl plain closed refl this Inr low_add_resolved [OF pre q(2)] 1(4)]
            show ?thesis using q(1) Inr plain Some closed valid by (simp add: step)
          qed
        qed
      qed
    qed
  qed
qed

text \<open>
  C30. Secret taint is sound. On two profiles that differ only in the plaintext of configured
  secrets, interpolating any text fails with the same error or succeeds with the same taint flag,
  secret references and referenced names, and when the result is not marked secret its text is the
  same: no unmarked text depends on a secret.
\<close>

theorem taint_is_sound:
  assumes "low_equivalent vars vars'"
  shows "(case interpolate vars source of
      Inl e \<Rightarrow> interpolate vars' source = Inl e
    | Inr r \<Rightarrow> \<exists>r'. interpolate vars' source = Inr r' \<and> in_secret r' = in_secret r \<and>
        in_references r' = in_references r \<and> in_names r' = in_names r \<and>
        (in_secret r \<or> in_value r' = in_value r))"
proof -
  have "low_text no_text no_text" by (simp add: low_text_def)
  from low_interpolate_from [OF assms this, of source]
  show ?thesis
    unfolding interpolate_def
    by (cases "interpolate_from vars source no_text"; cases "interpolate_from vars' source no_text")
       (auto simp: low_text_def)
qed

definition demo_variables :: "string \<Rightarrow> variable_map" where
  "demo_variables secret = variable_map
     [\<lparr>rv_id = ''1'', rv_name = ''host'', rv_kind = KindValue, rv_value = Some ''h'', rv_alias_target = None,
       rv_secret_version = None\<rparr>,
      \<lparr>rv_id = ''2'', rv_name = ''key'', rv_kind = KindSecret, rv_value = Some secret, rv_alias_target = None,
       rv_secret_version = Some 4\<rparr>,
      \<lparr>rv_id = ''3'', rv_name = ''a'', rv_kind = KindAlias, rv_value = None, rv_alias_target = Some ''key'',
       rv_secret_version = None\<rparr>,
      \<lparr>rv_id = ''4'', rv_name = ''b'', rv_kind = KindAlias, rv_value = None, rv_alias_target = Some ''b'',
       rv_secret_version = None\<rparr>]"

theorem taint_is_sound_witness:
  "low_equivalent (demo_variables ''s'') (demo_variables ''t'') \<and>
   interpolate (demo_variables ''t'') ''x<<host>>'' =
     Inr \<lparr>in_value = ''xh'', in_secret = False, in_references = [], in_names = [''host'']\<rparr>"
proof -
  have low: "low_equivalent (demo_variables ''s'') (demo_variables ''t'')"
    by (auto simp: low_equivalent_def demo_variables_def variable_map_def low_variable_def)
  have "interpolate (demo_variables ''s'') ''x<<host>>'' =
     Inr \<lparr>in_value = ''xh'', in_secret = False, in_references = [], in_names = [''host'']\<rparr>"
    by code_simp
  with taint_is_sound [OF low, of "''x<<host>>''"] low show ?thesis by auto
qed

theorem resolve_follows_chain_witness:
  "\<exists>p. resolve (demo_variables ''s'') ''b'' = Inl (AliasCycle p)"
proof -
  have "resolve (demo_variables ''s'') ''b'' = Inl (AliasCycle [''b'', ''b''])" by code_simp
  with resolve_follows_chain [of "''b''" "demo_variables ''s''"] show ?thesis by blast
qed

end
