(* ===== verification/Environment_Graph.thy ===== *)
theory Environment_Graph
  imports Prelude
begin

text \<open>
  The inclusion graph of environments: \<open>findEnvironmentCycle\<close> of
  \<open>apps/backend/src/environments/environment-service.ts\<close>. The map from an environment to its
  ordered includes is \<open>edges\<close>; the JavaScript closure's \<open>stack\<close> and \<open>complete\<close> are arguments and,
  for \<open>complete\<close>, part of the result. The correctness proof keeps \<open>complete\<close>, newest first, in
  topological order.
\<close>

type_synonym edges = "(string \<times> string list) list"

definition includes_of :: "edges \<Rightarrow> string \<Rightarrow> string list" where
  "includes_of edges e = (case map_of edges e of None \<Rightarrow> [] | Some l \<Rightarrow> l)"

definition unvisited :: "edges \<Rightarrow> string list \<Rightarrow> nat" where
  "unvisited edges stack = card (fst ` set edges - set stack)"

lemma unvisited_push:
  assumes "current \<notin> set stack" and "includes_of edges current \<noteq> []"
  shows "unvisited edges (stack @ [current]) < unvisited edges stack"
proof -
  have "current \<in> fst ` set edges"
    using assms(2) by (cases "map_of edges current") (auto simp: includes_of_def dest: map_of_SomeD intro: rev_image_eqI)
  then have "card (fst ` set edges - set stack - {current}) < unvisited edges stack"
    unfolding unvisited_def using assms(1) by (intro card_Diff1_less) auto
  moreover have "fst ` set edges - set stack - {current} = fst ` set edges - set (stack @ [current])"
    by auto
  ultimately show ?thesis by (simp add: unvisited_def)
qed

lemma unvisited_push_le: "unvisited edges (stack @ [current]) \<le> unvisited edges stack"
  unfolding unvisited_def by (rule card_mono) auto

function visit :: "edges \<Rightarrow> string list \<Rightarrow> string list \<Rightarrow> string \<Rightarrow> string list option \<times> string list"
  and visit_all ::
    "edges \<Rightarrow> string list \<Rightarrow> string list \<Rightarrow> string list \<Rightarrow> string list option \<times> string list" where
  "visit edges stack complete current =
     (if current \<in> set stack then (Some (dropWhile (\<lambda>x. x \<noteq> current) stack @ [current]), complete)
      else if current \<in> set complete then (None, complete)
      else
        (case visit_all edges (stack @ [current]) complete (includes_of edges current) of
           (Some cycle, complete') \<Rightarrow> (Some cycle, complete')
         | (None, complete') \<Rightarrow> (None, current # complete')))"
| "visit_all edges stack complete [] = (None, complete)"
| "visit_all edges stack complete (included # rest) =
     (case visit edges stack complete included of
        (Some cycle, complete') \<Rightarrow> (Some cycle, complete')
      | (None, complete') \<Rightarrow> visit_all edges stack complete' rest)"
  by pat_completeness auto

termination
proof (relation "measures
    [\<lambda>x. case x of Inl (edges, stack, complete, current) \<Rightarrow> unvisited edges stack
       | Inr (edges, stack, complete, l) \<Rightarrow> unvisited edges stack,
     \<lambda>x. case x of Inl (edges, stack, complete, current) \<Rightarrow> 1
       | Inr (edges, stack, complete, l) \<Rightarrow> 2 * length l]", goal_cases)
  case (2 edges stack complete current)
  then show ?case
    using unvisited_push [of current stack edges] unvisited_push_le [of edges stack current]
    by (cases "includes_of edges current = []") auto
qed auto

declare visit.simps [simp del]

text \<open>\<open>findEnvironmentCycle\<close>.\<close>

definition find_environment_cycle :: "string \<Rightarrow> edges \<Rightarrow> string list option" where
  "find_environment_cycle e edges = fst (visit edges [] [] e)"

section \<open>The graph\<close>

definition edge_rel :: "edges \<Rightarrow> (string \<times> string) set" where
  "edge_rel edges = {(a, b). b \<in> set (includes_of edges a)}"

text \<open>A non-empty list of nodes, each including the next.\<close>

fun walk :: "edges \<Rightarrow> string list \<Rightarrow> bool" where
  "walk edges [] = False"
| "walk edges [a] = True"
| "walk edges (a # b # p) = (b \<in> set (includes_of edges a) \<and> walk edges (b # p))"

lemma walk_snoc: "walk edges p \<Longrightarrow> b \<in> set (includes_of edges (last p)) \<Longrightarrow> walk edges (p @ [b])"
  by (induction p rule: walk.induct) auto

lemma walk_drop: "walk edges p \<Longrightarrow> n < length p \<Longrightarrow> walk edges (drop n p)"
  by (induction p arbitrary: n rule: walk.induct) (auto simp: drop_Cons split: nat.splits)

lemma walk_dropWhile:
  assumes "walk edges p" and "x \<in> set p"
  shows "walk edges (dropWhile (\<lambda>y. y \<noteq> x) p)" and "hd (dropWhile (\<lambda>y. y \<noteq> x) p) = x"
    and "last (dropWhile (\<lambda>y. y \<noteq> x) p) = last p" and "dropWhile (\<lambda>y. y \<noteq> x) p \<noteq> []"
proof -
  let ?q = "dropWhile (\<lambda>y. y \<noteq> x) p"
  show ne: "?q \<noteq> []" using assms(2) by (simp add: dropWhile_eq_Nil_conv)
  then show "hd ?q = x" using hd_dropWhile by blast
  have eq: "?q = drop (length (takeWhile (\<lambda>y. y \<noteq> x) p)) p" by (simp add: dropWhile_eq_drop)
  with ne have "length (takeWhile (\<lambda>y. y \<noteq> x) p) < length p" by (metis drop_all not_le)
  with assms(1) show "walk edges ?q" unfolding eq by (rule walk_drop)
  show "last ?q = last p" using ne by (metis eq last_drop drop_eq_Nil not_le)
qed

lemma walk_rtrancl: "walk edges p \<Longrightarrow> (hd p, last p) \<in> (edge_rel edges)\<^sup>*"
  by (induction p rule: walk.induct)
     (auto simp: edge_rel_def intro: converse_rtrancl_into_rtrancl)

lemma walk_reaches: "walk edges p \<Longrightarrow> x \<in> set p \<Longrightarrow> (hd p, x) \<in> (edge_rel edges)\<^sup>*"
  by (induction p rule: walk.induct)
     (auto simp: edge_rel_def intro: converse_rtrancl_into_rtrancl)

text \<open>A reported cycle is a walk of at least one edge back to its start.\<close>

definition closed_walk :: "edges \<Rightarrow> string list \<Rightarrow> bool" where
  "closed_walk edges c \<longleftrightarrow> walk edges c \<and> 2 \<le> length c \<and> hd c = last c"

lemma closed_walk_trancl:
  assumes "closed_walk edges c"
  shows "(hd c, hd c) \<in> (edge_rel edges)\<^sup>+"
proof -
  obtain a b p where c: "c = a # b # p"
    using assms by (cases c; cases "tl c") (auto simp: closed_walk_def)
  have "walk edges (a # b # p)" using assms unfolding closed_walk_def c by blast
  then have "(a, b) \<in> edge_rel edges" "walk edges (b # p)" by (simp_all add: edge_rel_def)
  moreover from walk_rtrancl [OF this(2)] assms c have "(b, a) \<in> (edge_rel edges)\<^sup>*"
    by (simp add: closed_walk_def)
  ultimately show ?thesis using c by (simp add: rtrancl_into_trancl2)
qed

section \<open>A reported cycle is a cycle\<close>

lemma visit_cycle:
  "(stack = [] \<or> walk edges stack \<and> current \<in> set (includes_of edges (last stack))) \<Longrightarrow>
     visit edges stack complete current = (Some c, complete') \<Longrightarrow> closed_walk edges c"
  "(stack = [] \<longrightarrow> l = []) \<Longrightarrow> (stack \<noteq> [] \<longrightarrow> walk edges stack \<and> set l \<subseteq> set (includes_of edges (last stack))) \<Longrightarrow>
     visit_all edges stack complete l = (Some c, complete') \<Longrightarrow> closed_walk edges c"
proof (induction edges stack complete current and edges stack complete l arbitrary: c complete' and c complete'
    rule: visit_visit_all.induct)
  case (1 edges stack complete current)
  show ?case
  proof (cases "current \<in> set stack")
    case True
    then have "stack \<noteq> []" by auto
    with 1(2) have w: "walk edges stack" "current \<in> set (includes_of edges (last stack))" by auto
    let ?q = "dropWhile (\<lambda>x. x \<noteq> current) stack"
    have "c = ?q @ [current]" using 1(3) True by (auto simp: visit.simps)
    moreover note q = walk_dropWhile [OF w(1) True]
    have "walk edges (?q @ [current])" using q(1,3) w(2) by (intro walk_snoc) simp_all
    moreover have "2 \<le> length (?q @ [current])" using q(4) by (cases ?q) auto
    moreover have "hd (?q @ [current]) = last (?q @ [current])" using q(2,4) by simp
    ultimately show ?thesis by (simp add: closed_walk_def)
  next
    case False
    with 1(3) have "current \<notin> set complete"
      and all: "visit_all edges (stack @ [current]) complete (includes_of edges current) = (Some c, complete')"
      by (auto simp: visit.simps split: if_splits prod.splits option.splits)
    have "walk edges (stack @ [current])"
      using 1(2) by (cases "stack = []") (auto intro: walk_snoc)
    with 1(1) [OF False \<open>current \<notin> set complete\<close> _ _ all] show ?thesis by simp
  qed
next
  case (3 edges stack complete included rest)
  have hyp: "stack \<noteq> []" "walk edges stack" "set (included # rest) \<subseteq> set (includes_of edges (last stack))"
    using 3(3,4) by auto
  show ?case
  proof (cases "visit edges stack complete included")
    case (Pair r comp)
    show ?thesis
    proof (cases r)
      case None
      with Pair 3(5) have "visit_all edges stack comp rest = (Some c, complete')" by simp
      with 3(2) [OF Pair [symmetric] None] hyp show ?thesis by auto
    next
      case (Some c1)
      with Pair 3(5) have "c1 = c" by simp
      with 3(1) hyp Pair Some show ?thesis by auto
    qed
  qed
qed simp

section \<open>No reported cycle means no cycle\<close>

text \<open>Every node of the list includes only nodes further down.\<close>

fun topological :: "edges \<Rightarrow> string list \<Rightarrow> bool" where
  "topological edges [] = True"
| "topological edges (x # xs) = (set (includes_of edges x) \<subseteq> set xs \<and> topological edges xs)"

lemma visit_topological:
  "topological edges complete \<Longrightarrow> visit edges stack complete current = (None, complete') \<Longrightarrow>
     topological edges complete' \<and> current \<in> set complete' \<and> set complete \<subseteq> set complete'"
  "topological edges complete \<Longrightarrow> visit_all edges stack complete l = (None, complete') \<Longrightarrow>
     topological edges complete' \<and> set l \<subseteq> set complete' \<and> set complete \<subseteq> set complete'"
proof (induction edges stack complete current and edges stack complete l arbitrary: complete' and complete'
    rule: visit_visit_all.induct)
  case (1 edges stack complete current)
  show ?case
  proof (cases "current \<in> set complete")
    case True
    with 1(2,3) show ?thesis by (auto simp: visit.simps split: if_splits)
  next
    case False
    with 1(3) have "current \<notin> set stack" by (auto simp: visit.simps)
    with False 1(3) obtain comp where
      all: "visit_all edges (stack @ [current]) complete (includes_of edges current) = (None, comp)"
      and out: "complete' = current # comp"
      by (auto simp: visit.simps split: prod.splits option.splits)
    from 1(1) [OF \<open>current \<notin> set stack\<close> False 1(2) all] out show ?thesis by auto
  qed
next
  case (3 edges stack complete included rest)
  obtain r comp where v: "visit edges stack complete included = (r, comp)" by (metis surj_pair)
  with 3(4) have r: "r = None" by (cases r) auto
  with v 3(4) have all: "visit_all edges stack comp rest = (None, complete')" by simp
  from 3(1) [OF 3(3)] v r have one: "topological edges comp" "included \<in> set comp"
    "set complete \<subseteq> set comp" by auto
  from 3(2) [OF v [symmetric] r one(1) all] one show ?case by auto
qed simp

lemma topological_closed:
  "topological edges xs \<Longrightarrow> a \<in> set xs \<Longrightarrow> (a, b) \<in> (edge_rel edges)\<^sup>* \<Longrightarrow> b \<in> set xs"
proof (induction xs arbitrary: a b)
  case (Cons x xs)
  have step: "b \<in> set (x # xs)" if "(a, b) \<in> edge_rel edges" "a \<in> set (x # xs)" for a b
  proof (cases "a \<in> set xs")
    case True
    with Cons.IH [of a b] Cons.prems(1) that(1) show ?thesis by auto
  next
    case False
    with that Cons.prems(1) show ?thesis by (auto simp: edge_rel_def)
  qed
  from Cons.prems(3,2) show ?case
    by (induction rule: rtrancl_induct) (use step in blast)+
qed simp

lemma topological_acyclic:
  "topological edges xs \<Longrightarrow> a \<in> set xs \<Longrightarrow> (a, a) \<notin> (edge_rel edges)\<^sup>+"
proof (induction xs arbitrary: a)
  case (Cons x xs)
  show ?case
  proof (cases "a \<in> set xs")
    case True
    with Cons show ?thesis by simp
  next
    case False
    with Cons.prems(2) have a: "a = x" by simp
    show ?thesis
    proof
      assume "(a, a) \<in> (edge_rel edges)\<^sup>+"
      then obtain b where b: "(a, b) \<in> edge_rel edges" "(b, a) \<in> (edge_rel edges)\<^sup>*"
        by (auto dest: tranclD)
      then have "b \<in> set xs" using a Cons.prems(1) by (auto simp: edge_rel_def)
      with Cons.prems(1) b(2) have "a \<in> set xs" by (auto intro: topological_closed)
      with False show False by simp
    qed
  qed
qed simp

lemma no_cycle_reported:
  assumes "find_environment_cycle e edges = None" and "(e, a) \<in> (edge_rel edges)\<^sup>*"
  shows "(a, a) \<notin> (edge_rel edges)\<^sup>+"
proof -
  obtain complete where v: "visit edges [] [] e = (None, complete)"
    using assms(1) by (cases "visit edges [] [] e") (simp add: find_environment_cycle_def)
  from visit_topological(1) [OF _ v] have "topological edges complete" "e \<in> set complete" by auto
  with assms(2) show ?thesis using topological_closed topological_acyclic by blast
qed

lemma cycle_reported:
  assumes "find_environment_cycle e edges = Some c"
  shows "closed_walk edges c"
proof -
  obtain complete where "visit edges [] [] e = (Some c, complete)"
    using assms by (cases "visit edges [] [] e") (simp add: find_environment_cycle_def)
  from visit_cycle(1) [OF _ this] show ?thesis by simp
qed

lemma visit_walk_reach:
  "(stack = [] \<longrightarrow> current = e) \<Longrightarrow> (stack \<noteq> [] \<longrightarrow> hd stack = e \<and> walk edges stack \<and>
      current \<in> set (includes_of edges (last stack))) \<Longrightarrow>
     visit edges stack complete current = (Some c, complete') \<Longrightarrow> (e, hd c) \<in> (edge_rel edges)\<^sup>*"
  "stack \<noteq> [] \<Longrightarrow> hd stack = e \<Longrightarrow> walk edges stack \<Longrightarrow> set l \<subseteq> set (includes_of edges (last stack)) \<Longrightarrow>
     visit_all edges stack complete l = (Some c, complete') \<Longrightarrow> (e, hd c) \<in> (edge_rel edges)\<^sup>*"
proof (induction edges stack complete current and edges stack complete l arbitrary: c complete' and c complete'
    rule: visit_visit_all.induct)
  case (1 edges stack complete current)
  show ?case
  proof (cases "current \<in> set stack")
    case True
    then have "stack \<noteq> []" by auto
    with 1(3) have s: "hd stack = e" "walk edges stack" by auto
    have "(e, current) \<in> (edge_rel edges)\<^sup>*"
      using walk_reaches [OF s(2) True] s(1) by simp
    moreover have "hd c = current"
      using 1(4) True walk_dropWhile [OF s(2) True] by (auto simp: visit.simps)
    ultimately show ?thesis by simp
  next
    case False
    with 1(4) have "current \<notin> set complete"
      and all: "visit_all edges (stack @ [current]) complete (includes_of edges current) = (Some c, complete')"
      by (auto simp: visit.simps split: if_splits prod.splits option.splits)
    have "walk edges (stack @ [current])" "hd (stack @ [current]) = e"
      using 1(2,3) by (cases "stack = []"; auto intro: walk_snoc)+
    with 1(1) [OF False \<open>current \<notin> set complete\<close> _ _ _ _ all] show ?thesis by simp
  qed
next
  case (3 edges stack complete included rest)
  obtain r comp where v: "visit edges stack complete included = (r, comp)" by (metis surj_pair)
  show ?case
  proof (cases r)
    case None
    with v 3(7) have "visit_all edges stack comp rest = (Some c, complete')" by simp
    with 3(2) [OF v [symmetric] None] 3(3-6) show ?thesis by auto
  next
    case (Some c1)
    with v 3(7) have "c1 = c" by simp
    with 3(1) v Some 3(3-6) show ?thesis by auto
  qed
qed simp

lemma cycle_exists:
  assumes "find_environment_cycle e edges \<noteq> None"
  shows "\<exists>a. (e, a) \<in> (edge_rel edges)\<^sup>* \<and> (a, a) \<in> (edge_rel edges)\<^sup>+"
proof -
  obtain c complete where v: "visit edges [] [] e = (Some c, complete)"
    using assms by (cases "visit edges [] [] e") (auto simp: find_environment_cycle_def)
  from visit_walk_reach(1) [OF _ _ v, of e] visit_cycle(1) [OF _ v] closed_walk_trancl
  show ?thesis by auto
qed

text \<open>
  C29. The cycle check is exact. The search from an environment always ends; it reports no cycle
  exactly when no environment reachable by inclusion includes itself, directly or through others,
  and what it reports is such a cycle: a walk along includes back to its first environment.
\<close>

theorem cycle_check_exact:
  "(find_environment_cycle e edges = None \<longleftrightarrow>
      \<not> (\<exists>a. (e, a) \<in> (edge_rel edges)\<^sup>* \<and> (a, a) \<in> (edge_rel edges)\<^sup>+)) \<and>
   (\<forall>c. find_environment_cycle e edges = Some c \<longrightarrow> closed_walk edges c)"
proof (intro conjI iffI allI impI)
  assume "find_environment_cycle e edges = None"
  then show "\<not> (\<exists>a. (e, a) \<in> (edge_rel edges)\<^sup>* \<and> (a, a) \<in> (edge_rel edges)\<^sup>+)"
    using no_cycle_reported by blast
next
  assume none: "\<not> (\<exists>a. (e, a) \<in> (edge_rel edges)\<^sup>* \<and> (a, a) \<in> (edge_rel edges)\<^sup>+)"
  show "find_environment_cycle e edges = None"
    using none cycle_exists by blast
next
  fix c assume "find_environment_cycle e edges = Some c"
  then show "closed_walk edges c" by (rule cycle_reported)
qed

theorem cycle_check_exact_witness:
  "find_environment_cycle ''a'' [(''a'', [''b'']), (''b'', [''c'', ''a''])] = Some [''a'', ''b'', ''a''] \<and>
   closed_walk [(''a'', [''b'']), (''b'', [''c'', ''a''])] [''a'', ''b'', ''a'']"
proof -
  have "find_environment_cycle ''a'' [(''a'', [''b'']), (''b'', [''c'', ''a''])] = Some [''a'', ''b'', ''a'']"
    by code_simp
  with cycle_check_exact [of "''a''" "[(''a'', [''b'']), (''b'', [''c'', ''a''])]"] show ?thesis by blast
qed

end
