(* ===== verification/Environment_Composition.thy ===== *)
theory Environment_Composition
  imports Environment_Graph
begin

text \<open>
  Composition of an environment from its includes (\<open>#composeEnvironment\<close>, \<open>mergeComposedProfile\<close>
  and \<open>mergeEnvironmentEvidence\<close> in \<open>apps/backend/src/environments/environment-service.ts\<close>).
  \<open>load\<close> gives the variables stored in one environment and \<open>nm\<close> their names, so the same
  definitions serve plaintext and redacted profiles. \<open>resolve_node\<close> is the code's recursion with
  its result cache; \<open>compose\<close> is the reference recursion without one, and the two are equal.
\<close>

section \<open>Definitions\<close>

datatype cookie_source = FromEnvironment | FromWorkspace

record environment_meta =
  em_id :: string
  em_name :: string
  em_revision :: nat
  em_cookie_source :: cookie_source

record 'v composed =
  co_variables :: "(string \<times> 'v) list"
  co_sources :: "(string \<times> environment_meta) list"
  co_evidence :: "environment_meta list"

datatype composition_error =
    StoredCycle "string list"
  | IncludedNotFound
  | EnvironmentNotFound

definition empty_composed :: "'v composed" where
  "empty_composed = \<lparr>co_variables = [], co_sources = [], co_evidence = []\<rparr>"

text \<open>\<open>findIndex\<close> and \<open>splice\<close> of one element, then \<open>push\<close>.\<close>

fun remove_evidence :: "string \<Rightarrow> environment_meta list \<Rightarrow> environment_meta list" where
  "remove_evidence i [] = []"
| "remove_evidence i (m # ms) = (if em_id m = i then ms else m # remove_evidence i ms)"

definition merge_evidence ::
  "environment_meta list \<Rightarrow> environment_meta list \<Rightarrow> environment_meta list" where
  "merge_evidence evidence incoming =
     foldl (\<lambda>ev s. remove_evidence (em_id s) ev @ [s]) evidence incoming"

definition merge_composed :: "'v composed \<Rightarrow> 'v composed \<Rightarrow> 'v composed" where
  "merge_composed acc p =
     \<lparr>co_variables = foldl (\<lambda>m (n, v). AList.update n v m) (co_variables acc) (co_variables p),
      co_sources = foldl (\<lambda>m (n, v). case map_of (co_sources p) n of
            Some s \<Rightarrow> AList.update n s m | None \<Rightarrow> m) (co_sources acc) (co_variables p),
      co_evidence = merge_evidence (co_evidence acc) (co_evidence p)\<rparr>"

definition add_own :: "('v \<Rightarrow> string) \<Rightarrow> environment_meta \<Rightarrow> 'v list \<Rightarrow> 'v composed \<Rightarrow> 'v composed" where
  "add_own nm current own acc =
     \<lparr>co_variables = foldl (\<lambda>m v. AList.update (nm v) v m) (co_variables acc) own,
      co_sources = foldl (\<lambda>m v. AList.update (nm v) current m) (co_sources acc) own,
      co_evidence = merge_evidence (co_evidence acc) [current]\<rparr>"

text \<open>The closure \<open>resolve\<close> of \<open>#composeEnvironment\<close>, with its cache passed along, and the loop over
  the includes of a node.\<close>

type_synonym 'v composition_cache = "(string \<times> 'v composed) list"

definition stored_cycle ::
  "(string \<times> environment_meta) list \<Rightarrow> string list \<Rightarrow> string \<Rightarrow> composition_error" where
  "stored_cycle meta stack current =
     StoredCycle (map (\<lambda>i. case map_of meta i of Some m \<Rightarrow> em_name m | None \<Rightarrow> i)
       (dropWhile (\<lambda>x. x \<noteq> current) stack @ [current]))"

function resolve_node ::
  "edges \<Rightarrow> (string \<times> environment_meta) list \<Rightarrow> (string \<Rightarrow> 'v list) \<Rightarrow> ('v \<Rightarrow> string)
     \<Rightarrow> string list \<Rightarrow> 'v composition_cache \<Rightarrow> string
     \<Rightarrow> (composition_error + 'v composed) \<times> 'v composition_cache"
  and resolve_includes ::
  "edges \<Rightarrow> (string \<times> environment_meta) list \<Rightarrow> (string \<Rightarrow> 'v list) \<Rightarrow> ('v \<Rightarrow> string)
     \<Rightarrow> string list \<Rightarrow> 'v composition_cache \<Rightarrow> 'v composed \<Rightarrow> string list
     \<Rightarrow> (composition_error + 'v composed) \<times> 'v composition_cache" where
  "resolve_node edges meta load nm stack cache current =
     (case map_of cache current of
        Some cached \<Rightarrow> (Inr cached, cache)
      | None \<Rightarrow>
          if current \<in> set stack then (Inl (stored_cycle meta stack current), cache)
          else (case map_of meta current of
              None \<Rightarrow> (Inl IncludedNotFound, cache)
            | Some m \<Rightarrow>
                (case resolve_includes edges meta load nm (stack @ [current]) cache empty_composed
                        (includes_of edges current) of
                   (Inl e, cache') \<Rightarrow> (Inl e, cache')
                 | (Inr acc, cache') \<Rightarrow>
                     let result = add_own nm m (load current) acc in
                     (Inr result, AList.update current result cache'))))"
| "resolve_includes edges meta load nm stack cache acc [] = (Inr acc, cache)"
| "resolve_includes edges meta load nm stack cache acc (included # rest) =
     (case resolve_node edges meta load nm stack cache included of
        (Inl e, cache') \<Rightarrow> (Inl e, cache')
      | (Inr p, cache') \<Rightarrow>
          resolve_includes edges meta load nm stack cache' (merge_composed acc p) rest)"
  by pat_completeness auto

termination
proof (relation "measures
    [\<lambda>x. case x of Inl (edges, meta, load, nm, stack, cache, current) \<Rightarrow> unvisited edges stack
       | Inr (edges, meta, load, nm, stack, cache, acc, l) \<Rightarrow> unvisited edges stack,
     \<lambda>x. case x of Inl (edges, meta, load, nm, stack, cache, current) \<Rightarrow> 1
       | Inr (edges, meta, load, nm, stack, cache, acc, l) \<Rightarrow> 2 * length l]", goal_cases)
  case (2 edges meta load nm stack cache current m)
  then show ?case
    using unvisited_push [of current stack edges] unvisited_push_le [of edges stack current]
    by (cases "includes_of edges current = []") auto
qed auto

declare resolve_node.simps [simp del]

text \<open>\<open>#composeEnvironment\<close>; \<open>include_root\<close> is \<open>includeRootVariables\<close>.\<close>

definition compose_environment ::
  "edges \<Rightarrow> (string \<times> environment_meta) list \<Rightarrow> (string \<Rightarrow> 'v list) \<Rightarrow> ('v \<Rightarrow> string)
     \<Rightarrow> string \<Rightarrow> bool \<Rightarrow> composition_error + 'v composed" where
  "compose_environment edges meta load nm e include_root =
     (if map_of meta e = None then Inl EnvironmentNotFound
      else if include_root then fst (resolve_node edges meta load nm [] [] e)
      else fst (resolve_includes edges meta load nm [] [] empty_composed (includes_of edges e)))"

section \<open>The reference recursion\<close>

function compose ::
  "edges \<Rightarrow> (string \<times> environment_meta) list \<Rightarrow> (string \<Rightarrow> 'v list) \<Rightarrow> ('v \<Rightarrow> string)
     \<Rightarrow> string list \<Rightarrow> string \<Rightarrow> composition_error + 'v composed"
  and compose_all ::
  "edges \<Rightarrow> (string \<times> environment_meta) list \<Rightarrow> (string \<Rightarrow> 'v list) \<Rightarrow> ('v \<Rightarrow> string)
     \<Rightarrow> string list \<Rightarrow> 'v composed \<Rightarrow> string list \<Rightarrow> composition_error + 'v composed" where
  "compose edges meta load nm stack current =
     (if current \<in> set stack
      then Inl (stored_cycle meta stack current)
      else case map_of meta current of
        None \<Rightarrow> Inl IncludedNotFound
      | Some m \<Rightarrow>
          bindE (compose_all edges meta load nm (stack @ [current]) empty_composed
                   (includes_of edges current)) (\<lambda>acc.
          Inr (add_own nm m (load current) acc)))"
| "compose_all edges meta load nm stack acc [] = Inr acc"
| "compose_all edges meta load nm stack acc (included # rest) =
     bindE (compose edges meta load nm stack included) (\<lambda>p.
     compose_all edges meta load nm stack (merge_composed acc p) rest)"
  by pat_completeness auto

termination
proof (relation "measures
    [\<lambda>x. case x of Inl (edges, meta, load, nm, stack, current) \<Rightarrow> unvisited edges stack
       | Inr (edges, meta, load, nm, stack, acc, l) \<Rightarrow> unvisited edges stack,
     \<lambda>x. case x of Inl (edges, meta, load, nm, stack, current) \<Rightarrow> 1
       | Inr (edges, meta, load, nm, stack, acc, l) \<Rightarrow> 2 * length l]", goal_cases)
  case (2 edges meta load nm stack current m)
  then show ?case
    using unvisited_push [of current stack edges] unvisited_push_le [of edges stack current]
    by (cases "includes_of edges current = []") auto
qed auto

declare compose.simps [simp del]

section \<open>Success does not depend on the recursion stack\<close>

lemma compose_smaller_stack:
  "compose edges meta load nm stack current = Inr r \<Longrightarrow> set stack' \<subseteq> set stack \<Longrightarrow>
     compose edges meta load nm stack' current = Inr r"
  "compose_all edges meta load nm stack acc l = Inr r \<Longrightarrow> set stack' \<subseteq> set stack \<Longrightarrow>
     compose_all edges meta load nm stack' acc l = Inr r"
proof (induction edges meta load nm stack current and edges meta load nm stack acc l
    arbitrary: r stack' and r stack' rule: compose_compose_all.induct)
  case (1 edges meta load nm stack current)
  from 1(2) obtain m acc where m: "current \<notin> set stack" "map_of meta current = Some m"
    "compose_all edges meta load nm (stack @ [current]) empty_composed (includes_of edges current) = Inr acc"
    "r = add_own nm m (load current) acc"
    by (auto simp: compose.simps [of edges meta load nm stack] bindE_eq_Inr split: if_splits option.splits)
  from 1(3) have "set (stack' @ [current]) \<subseteq> set (stack @ [current])" by auto
  from 1(1) [OF m(1,2,3) this] 1(3) m show ?case
    by (auto simp: compose.simps [of edges meta load nm stack'])
next
  case (3 edges meta load nm stack acc included rest)
  from 3(3) obtain p where p: "compose edges meta load nm stack included = Inr p"
    "compose_all edges meta load nm stack (merge_composed acc p) rest = Inr r"
    by (auto simp: bindE_eq_Inr)
  from 3(1) [OF p(1) 3(4)] 3(2) [OF p(1) p(2) 3(4)] show ?case by simp
qed simp

lemma compose_includes:
  assumes "compose_all edges meta load nm stack acc l = Inr r"
  shows "\<exists>ps. list_all2 (\<lambda>i p. compose edges meta load nm [] i = Inr p) l ps \<and>
    r = foldl merge_composed acc ps"
  using assms
proof (induction l arbitrary: acc)
  case (Cons i l)
  then obtain p where p: "compose edges meta load nm stack i = Inr p"
    "compose_all edges meta load nm stack (merge_composed acc p) l = Inr r"
    by (auto simp: bindE_eq_Inr)
  from Cons.IH [OF p(2)] obtain ps where
    ps: "list_all2 (\<lambda>i p. compose edges meta load nm [] i = Inr p) l ps"
      "r = foldl merge_composed (merge_composed acc p) ps" by blast
  from compose_smaller_stack(1) [OF p(1), of "[]"] ps show ?case
    by (intro exI [of _ "p # ps"]) simp
qed simp

lemma compose_result:
  assumes "compose edges meta load nm stack current = Inr r"
  obtains m ps where "map_of meta current = Some m"
    "list_all2 (\<lambda>i p. compose edges meta load nm [] i = Inr p) (includes_of edges current) ps"
    "r = add_own nm m (load current) (foldl merge_composed empty_composed ps)"
proof -
  from assms obtain m acc where m: "map_of meta current = Some m"
    "compose_all edges meta load nm (stack @ [current]) empty_composed (includes_of edges current) = Inr acc"
    "r = add_own nm m (load current) acc"
    by (auto simp: compose.simps [of edges meta load nm stack] bindE_eq_Inr split: if_splits option.splits)
  from compose_includes [OF m(2)] m(1,3) that show thesis by blast
qed

section \<open>Last writer wins\<close>

text \<open>The value the last element of a list of writers gives.\<close>

definition last_some :: "'a option list \<Rightarrow> 'a option" where
  "last_some xs = foldl (\<lambda>acc x. case x of None \<Rightarrow> acc | Some v \<Rightarrow> Some v) None xs"

lemma last_some_snoc [simp]: "last_some (xs @ [x]) = (case x of None \<Rightarrow> last_some xs | Some v \<Rightarrow> Some v)"
  by (cases x) (simp_all add: last_some_def)

lemma last_some_Nil [simp]: "last_some [] = None"
  by (simp add: last_some_def)

lemma map_of_update_all:
  "map_of (foldl (\<lambda>m (n, v). AList.update n v m) m kvs) x =
     (case map_of (rev kvs) x of None \<Rightarrow> map_of m x | Some v \<Rightarrow> Some v)"
  by (induction kvs rule: rev_induct) (auto simp: js_map.get_put split: option.split)

lemma update_all_distinct:
  "distinct (map fst m) \<Longrightarrow> distinct (map fst (foldl (\<lambda>m (n, v). AList.update n v m) m kvs))"
  by (induction kvs arbitrary: m) (auto simp: distinct_update split: prod.split)

lemma map_of_rev: "distinct (map fst kvs) \<Longrightarrow> map_of (rev kvs) = map_of kvs"
  by (rule map_of_eqI) (auto simp: rev_map [symmetric] map_of_is_SomeI)

definition own_value :: "('v \<Rightarrow> string) \<Rightarrow> 'v list \<Rightarrow> string \<Rightarrow> 'v option" where
  "own_value nm own x = map_of (rev (map (\<lambda>v. (nm v, v)) own)) x"

lemma own_fold:
  "foldl (\<lambda>m v. AList.update (nm v) (f v) m) m own =
     foldl (\<lambda>m (n, v). AList.update n v m) m (map (\<lambda>v. (nm v, f v)) own)"
  by (induction own arbitrary: m) simp_all

lemma add_own_value:
  "map_of (co_variables (add_own nm m own acc)) x =
     (case own_value nm own x of None \<Rightarrow> map_of (co_variables acc) x | Some v \<Rightarrow> Some v)"
  by (simp add: add_own_def own_fold map_of_update_all own_value_def)

definition keyed_composed :: "'v composed \<Rightarrow> bool" where
  "keyed_composed p \<longleftrightarrow> distinct (map fst (co_variables p))"

lemma merge_value:
  "keyed_composed p \<Longrightarrow> map_of (co_variables (merge_composed acc p)) x =
     (case map_of (co_variables p) x of None \<Rightarrow> map_of (co_variables acc) x | Some v \<Rightarrow> Some v)"
  by (simp add: merge_composed_def map_of_update_all keyed_composed_def map_of_rev)

lemma keyed_merge: "keyed_composed acc \<Longrightarrow> keyed_composed (merge_composed acc p)"
  by (simp add: keyed_composed_def merge_composed_def update_all_distinct)

lemma keyed_add_own: "keyed_composed acc \<Longrightarrow> keyed_composed (add_own nm m own acc)"
  by (simp add: keyed_composed_def add_own_def own_fold update_all_distinct)

lemma keyed_empty: "keyed_composed empty_composed"
  by (simp add: keyed_composed_def empty_composed_def)

lemma keyed_merge_all: "keyed_composed acc \<Longrightarrow> keyed_composed (foldl merge_composed acc ps)"
  by (induction ps arbitrary: acc) (simp_all add: keyed_merge)

lemma keyed_compose: "compose edges meta load nm stack current = Inr r \<Longrightarrow> keyed_composed r"
  by (erule compose_result) (simp add: keyed_add_own keyed_merge_all keyed_empty)

lemma merge_all_value:
  "\<forall>p \<in> set ps. keyed_composed p \<Longrightarrow>
     map_of (co_variables (foldl merge_composed empty_composed ps)) x =
       last_some (map (\<lambda>p. map_of (co_variables p) x) ps)"
  by (induction ps rule: rev_induct)
     (auto simp: merge_value empty_composed_def split: option.split)

section \<open>The cache does not change the result\<close>

text \<open>Every cached node is off the stack and composes to its cached value whenever the stack avoids
  all cached nodes.\<close>

definition cache_ok ::
  "edges \<Rightarrow> (string \<times> environment_meta) list \<Rightarrow> (string \<Rightarrow> 'v list) \<Rightarrow> ('v \<Rightarrow> string)
     \<Rightarrow> string list \<Rightarrow> 'v composition_cache \<Rightarrow> bool" where
  "cache_ok edges meta load nm stack cache \<longleftrightarrow>
     set stack \<inter> dom (map_of cache) = {} \<and>
     (\<forall>k r stack'. map_of cache k = Some r \<longrightarrow> set stack' \<inter> dom (map_of cache) = {} \<longrightarrow>
        compose edges meta load nm stack' k = Inr r)"

lemma cache_okD:
  "cache_ok edges meta load nm stack cache \<Longrightarrow> map_of cache k = Some r \<Longrightarrow>
     set stack' \<inter> dom (map_of cache) = {} \<Longrightarrow> compose edges meta load nm stack' k = Inr r"
  unfolding cache_ok_def by blast

lemma cache_ok_disjoint: "cache_ok edges meta load nm stack cache \<Longrightarrow> set stack \<inter> dom (map_of cache) = {}"
  unfolding cache_ok_def by blast

lemma cache_ok_push:
  "cache_ok edges meta load nm stack cache \<Longrightarrow> map_of cache current = None \<Longrightarrow>
     cache_ok edges meta load nm (stack @ [current]) cache"
  unfolding cache_ok_def by auto

lemma cache_ok_add:
  assumes ok: "cache_ok edges meta load nm (stack @ [current]) cache"
    and fresh: "current \<notin> set stack" and m: "map_of meta current = Some m"
    and all: "\<And>stack'. set stack' \<inter> dom (map_of cache) = {} \<Longrightarrow>
      compose_all edges meta load nm stack' empty_composed (includes_of edges current) = Inr acc"
  shows "cache_ok edges meta load nm stack (AList.update current (add_own nm m (load current) acc) cache)"
    (is "cache_ok _ _ _ _ _ ?new")
proof -
  have dom: "dom (map_of ?new) = insert current (dom (map_of cache))"
    by (simp add: update_conv')
  have current: "current \<notin> dom (map_of cache)"
    using cache_ok_disjoint [OF ok] by auto
  have "compose edges meta load nm stack' k = Inr r"
    if k: "map_of ?new k = Some r" and s: "set stack' \<inter> dom (map_of ?new) = {}" for k r stack'
  proof (cases "k = current")
    case True
    have "set (stack' @ [current]) \<inter> dom (map_of cache) = {}"
      using s current dom by auto
    from all [OF this] True k m s dom show ?thesis
      by (auto simp: compose.simps [of edges meta load nm stack'] js_map.get_put)
  next
    case False
    with k have "map_of cache k = Some r" by (simp add: js_map.get_put)
    with cache_okD [OF ok] s dom show ?thesis by auto
  qed
  moreover have "set stack \<inter> dom (map_of ?new) = {}"
    using cache_ok_disjoint [OF ok] fresh dom by auto
  ultimately show ?thesis unfolding cache_ok_def by blast
qed

lemma resolve_is_compose:
  "cache_ok edges meta load nm stack cache \<Longrightarrow> resolve_node edges meta load nm stack cache current = (res, cache') \<Longrightarrow>
     res = compose edges meta load nm stack current \<and>
     (\<forall>r. res = Inr r \<longrightarrow> cache_ok edges meta load nm stack cache' \<and>
        dom (map_of cache) \<subseteq> dom (map_of cache') \<and> map_of cache' current = Some r)"
  "cache_ok edges meta load nm stack cache \<Longrightarrow> resolve_includes edges meta load nm stack cache acc l = (res', cache') \<Longrightarrow>
     res' = compose_all edges meta load nm stack acc l \<and>
     (\<forall>r. res' = Inr r \<longrightarrow> cache_ok edges meta load nm stack cache' \<and>
        dom (map_of cache) \<subseteq> dom (map_of cache') \<and>
        (\<forall>stack'. set stack' \<inter> dom (map_of cache') = {} \<longrightarrow>
           compose_all edges meta load nm stack' acc l = Inr r))"
proof (induction edges meta load nm stack cache current and edges meta load nm stack cache acc l
    arbitrary: res cache' and res' cache' rule: resolve_node_resolve_includes.induct)
  case (1 edges meta load nm stack cache current)
  show ?case
  proof (cases "map_of cache current")
    case (Some cached)
    from cache_okD [OF 1(2) Some cache_ok_disjoint [OF 1(2)]] Some 1(2,3) show ?thesis
      by (auto simp: resolve_node.simps [of edges meta load nm stack])
  next
    case uncached: None
    show ?thesis
    proof (cases "current \<in> set stack \<or> map_of meta current = None")
      case True
      with 1(3) uncached show ?thesis
        by (auto simp: resolve_node.simps [of edges meta load nm stack]
            compose.simps [of edges meta load nm stack])
    next
      case False
      then obtain m where m: "current \<notin> set stack" "map_of meta current = Some m" by auto
      obtain res1 cache1 where inc: "resolve_includes edges meta load nm (stack @ [current]) cache
          empty_composed (includes_of edges current) = (res1, cache1)" by (metis surj_pair)
      note ih = 1(1) [OF uncached m cache_ok_push [OF 1(2) uncached] inc]
      show ?thesis
      proof (cases res1)
        case (Inl e)
        with 1(3) uncached m inc have "res = Inl e"
          by (simp add: resolve_node.simps [of edges meta load nm stack])
        moreover from conjunct1 [OF ih] Inl m have "compose edges meta load nm stack current = Inl e"
          by (simp add: compose.simps [of edges meta load nm stack] flip: conjunct1 [OF ih])
        ultimately show ?thesis by simp
      next
        case (Inr acc)
        with ih have ih': "compose_all edges meta load nm (stack @ [current]) empty_composed
            (includes_of edges current) = Inr acc" "cache_ok edges meta load nm (stack @ [current]) cache1"
          "dom (map_of cache) \<subseteq> dom (map_of cache1)"
          "\<And>stack'. set stack' \<inter> dom (map_of cache1) = {} \<Longrightarrow>
             compose_all edges meta load nm stack' empty_composed (includes_of edges current) = Inr acc"
          by auto
        let ?r = "add_own nm m (load current) acc"
        have out: "res = Inr ?r" "cache' = AList.update current ?r cache1"
          using 1(3) uncached m inc Inr
          by (simp_all add: resolve_node.simps [of edges meta load nm stack] Let_def)
        have "compose edges meta load nm stack current = Inr ?r"
          using m ih'(1) by (simp add: compose.simps [of edges meta load nm stack])
        moreover have "dom (map_of cache) \<subseteq> dom (map_of cache')"
          using ih'(3) out(2) by (auto simp: update_conv')
        moreover have "cache_ok edges meta load nm stack cache'"
          using cache_ok_add [OF ih'(2) m ih'(4)] out(2) by simp
        moreover have "map_of cache' current = Some ?r" using out(2) by (simp add: js_map.get_put)
        ultimately show ?thesis using out(1) by simp
      qed
    qed
  qed
next
  case (2 edges meta load nm stack cache acc)
  then show ?case by auto
next
  case (3 edges meta load nm stack cache acc included rest)
  obtain res1 cache1 where node: "resolve_node edges meta load nm stack cache included = (res1, cache1)"
    by (metis surj_pair)
  note ih1 = 3(1) [OF 3(3) node]
  show ?case
  proof (cases res1)
    case (Inl e)
    with conjunct1 [OF ih1] have "compose edges meta load nm stack included = Inl e" by simp
    moreover from Inl node 3(4) have "res' = Inl e" by simp
    ultimately show ?thesis by simp
  next
    case (Inr p)
    with ih1 have one: "compose edges meta load nm stack included = Inr p"
      "cache_ok edges meta load nm stack cache1" "dom (map_of cache) \<subseteq> dom (map_of cache1)"
      "map_of cache1 included = Some p" by auto
    from node Inr 3(4) have rest: "resolve_includes edges meta load nm stack cache1
        (merge_composed acc p) rest = (res', cache')" by simp
    note ih2 = 3(2) [OF node [symmetric] Inr one(2) rest]
    show ?thesis
    proof (intro conjI allI impI)
      show "res' = compose_all edges meta load nm stack acc (included # rest)"
        using conjunct1 [OF ih2] one(1) by simp
    next
      fix r assume r: "res' = Inr r"
      with ih2 show "cache_ok edges meta load nm stack cache'" by blast
      from r ih2 one(3) show "dom (map_of cache) \<subseteq> dom (map_of cache')" by blast
      fix stack' assume s: "set stack' \<inter> dom (map_of cache') = {}"
      from r ih2 have "dom (map_of cache1) \<subseteq> dom (map_of cache')" by blast
      with s have "set stack' \<inter> dom (map_of cache1) = {}" by blast
      note node' = cache_okD [OF one(2,4) this]
      from r ih2 s have "compose_all edges meta load nm stack' (merge_composed acc p) rest = Inr r" by blast
      with node' show "compose_all edges meta load nm stack' acc (included # rest) = Inr r" by simp
    qed
  qed
qed

lemma cache_ok_empty: "cache_ok edges meta load nm [] []"
  by (simp add: cache_ok_def)

lemma compose_environment_reference:
  "compose_environment edges meta load nm e include_root =
     (if map_of meta e = None then Inl EnvironmentNotFound
      else if include_root then compose edges meta load nm [] e
      else compose_all edges meta load nm [] empty_composed (includes_of edges e))"
  using conjunct1 [OF resolve_is_compose(1) [OF cache_ok_empty [of edges meta load nm] surjective_pairing, of e]]
    conjunct1 [OF resolve_is_compose(2) [OF cache_ok_empty [of edges meta load nm] surjective_pairing, of empty_composed "includes_of edges e"]]
  by (simp add: compose_environment_def)

section \<open>Composition succeeds on an acyclic graph\<close>

lemma compose_topological:
  assumes "topological edges xs" and "a \<in> set xs" and "set stack \<inter> set xs = {}"
    and "\<And>b. (a, b) \<in> (edge_rel edges)\<^sup>* \<Longrightarrow> map_of meta b \<noteq> None"
  shows "\<exists>r. compose edges meta load nm stack a = Inr r"
  using assms
proof (induction xs arbitrary: a stack)
  case (Cons x xs)
  show ?case
  proof (cases "a \<in> set xs")
    case True
    with Cons.IH [of a stack] Cons.prems show ?thesis by auto
  next
    case False
    with Cons.prems have a: "a = x" "a \<notin> set stack" "set (includes_of edges a) \<subseteq> set xs"
      "set (stack @ [a]) \<inter> set xs = {}" by auto
    obtain m where m: "map_of meta a = Some m" using Cons.prems(4) [of a] by auto
    have "\<exists>acc'. compose_all edges meta load nm (stack @ [a]) acc l = Inr acc'"
      if "set l \<subseteq> set (includes_of edges a)" for acc l
      using that
    proof (induction l arbitrary: acc)
      case (Cons i l)
      have "(a, i) \<in> edge_rel edges" using Cons.prems by (simp add: edge_rel_def)
      then have "map_of meta b \<noteq> None" if "(i, b) \<in> (edge_rel edges)\<^sup>*" for b
        using Cons.prems \<open>\<And>b. (a, b) \<in> (edge_rel edges)\<^sup>* \<Longrightarrow> map_of meta b \<noteq> None\<close> [of b] that
        by (meson converse_rtrancl_into_rtrancl)
      with a(3,4) Cons.prems \<open>topological edges (x # xs)\<close>
        \<open>\<And>stack a. topological edges xs \<Longrightarrow> a \<in> set xs \<Longrightarrow> set stack \<inter> set xs = {} \<Longrightarrow>
           (\<And>b. (a, b) \<in> (edge_rel edges)\<^sup>* \<Longrightarrow> map_of meta b \<noteq> None) \<Longrightarrow>
           \<exists>r. compose edges meta load nm stack a = Inr r\<close> [of i "stack @ [a]"]
      obtain p where "compose edges meta load nm (stack @ [a]) i = Inr p" by auto
      with Cons.IH Cons.prems show ?case by simp
    qed simp
    from this [of "includes_of edges a" empty_composed] m a(2) show ?thesis
      by (auto simp: compose.simps [of edges meta load nm stack])
  qed
qed simp

section \<open>Where the values come from\<close>

definition provenance ::
  "(string \<times> environment_meta) list \<Rightarrow> (string \<Rightarrow> 'v list) \<Rightarrow> ('v \<Rightarrow> string)
     \<Rightarrow> string set \<Rightarrow> 'v composed \<Rightarrow> bool" where
  "provenance meta load nm nodes p \<longleftrightarrow>
     (\<forall>n v. map_of (co_variables p) n = Some v \<longrightarrow>
        (\<exists>s. map_of (co_sources p) n = Some s \<and> em_id s \<in> nodes \<and> map_of meta (em_id s) = Some s \<and>
             own_value nm (load (em_id s)) n = Some v))"

lemma provenance_mono: "provenance meta load nm A p \<Longrightarrow> A \<subseteq> B \<Longrightarrow> provenance meta load nm B p"
  unfolding provenance_def by (meson subsetD)

lemma provenance_empty: "provenance meta load nm A empty_composed"
  by (simp add: provenance_def empty_composed_def)

lemma merge_sources_value:
  "map_of (foldl (\<lambda>m (n, v). case g n of Some s \<Rightarrow> AList.update n s m | None \<Rightarrow> m) m kvs) x =
     (if x \<in> fst ` set kvs \<and> g x \<noteq> None then g x else map_of m x)"
  by (induction kvs rule: rev_induct) (force simp: js_map.get_put split: option.split)+

lemma provenance_merge:
  assumes acc: "provenance meta load nm A acc" and p: "provenance meta load nm A p"
    and keyed: "keyed_composed p"
  shows "provenance meta load nm A (merge_composed acc p)"
  unfolding provenance_def
proof (intro allI impI)
  fix n v assume v: "map_of (co_variables (merge_composed acc p)) n = Some v"
  have src: "map_of (co_sources (merge_composed acc p)) n =
      (if n \<in> fst ` set (co_variables p) \<and> map_of (co_sources p) n \<noteq> None then map_of (co_sources p) n
       else map_of (co_sources acc) n)"
    by (simp add: merge_composed_def merge_sources_value)
  show "\<exists>s. map_of (co_sources (merge_composed acc p)) n = Some s \<and> em_id s \<in> A \<and>
      map_of meta (em_id s) = Some s \<and> own_value nm (load (em_id s)) n = Some v"
  proof (cases "map_of (co_variables p) n")
    case None
    then have "n \<notin> fst ` set (co_variables p)" by (simp add: map_of_eq_None_iff)
    with src acc v None merge_value [OF keyed, of acc n] show ?thesis by (auto simp: provenance_def)
  next
    case (Some w)
    then have "n \<in> fst ` set (co_variables p)" by (metis map_of_eq_None_iff option.simps(3))
    moreover obtain s where "map_of (co_sources p) n = Some s" "em_id s \<in> A"
      "map_of meta (em_id s) = Some s" "own_value nm (load (em_id s)) n = Some w"
      using p Some unfolding provenance_def by blast
    ultimately show ?thesis using src v Some merge_value [OF keyed, of acc n] by simp
  qed
qed

lemma provenance_add_own:
  assumes "provenance meta load nm A acc" and m: "map_of meta current = Some m" "em_id m = current"
    and "current \<in> A"
  shows "provenance meta load nm A (add_own nm m (load current) acc)"
proof -
  have src: "map_of (co_sources (add_own nm m (load current) acc)) n =
      (case own_value nm (load current) n of None \<Rightarrow> map_of (co_sources acc) n | Some v \<Rightarrow> Some m)" for n
  proof -
    have "map_of (rev (map (\<lambda>v. (nm v, m)) vs)) n = map_option (\<lambda>_. m) (map_of (rev (map (\<lambda>v. (nm v, v)) vs)) n)"
      for vs by (induction vs rule: rev_induct) auto
    then show ?thesis
      by (simp add: add_own_def own_fold map_of_update_all own_value_def split: option.split)
  qed
  show ?thesis
    unfolding provenance_def add_own_value src
    using assms by (auto simp: provenance_def split: option.splits)
qed

lemma provenance_merge_all:
  "provenance meta load nm A acc \<Longrightarrow> \<forall>p \<in> set ps. provenance meta load nm A p \<and> keyed_composed p \<Longrightarrow>
     provenance meta load nm A (foldl merge_composed acc ps)"
  by (induction ps arbitrary: acc) (simp_all add: provenance_merge)

text \<open>Metadata rows carry the identifier they are stored under.\<close>

definition meta_ok :: "(string \<times> environment_meta) list \<Rightarrow> bool" where
  "meta_ok meta \<longleftrightarrow> (\<forall>k m. map_of meta k = Some m \<longrightarrow> em_id m = k)"

lemma meta_okD: "meta_ok meta \<Longrightarrow> map_of meta k = Some m \<Longrightarrow> em_id m = k"
  unfolding meta_ok_def by blast

section \<open>Evidence\<close>

definition evidence_ok :: "(string \<times> environment_meta) list \<Rightarrow> string set \<Rightarrow> environment_meta list \<Rightarrow> bool" where
  "evidence_ok meta nodes ev \<longleftrightarrow> distinct (map em_id ev) \<and> em_id ` set ev = nodes \<and>
     (\<forall>m \<in> set ev. map_of meta (em_id m) = Some m)"

lemma remove_evidence_filter:
  "distinct (map em_id ev) \<Longrightarrow> remove_evidence i ev = filter (\<lambda>m. em_id m \<noteq> i) ev"
  by (induction ev) (auto simp: filter_id_conv intro!: filter_True [symmetric] intro: rev_image_eqI)

lemma evidence_ok_add:
  "evidence_ok meta A ev \<Longrightarrow> map_of meta (em_id s) = Some s \<Longrightarrow>
     evidence_ok meta (insert (em_id s) A) (remove_evidence (em_id s) ev @ [s])"
  by (auto simp: evidence_ok_def remove_evidence_filter distinct_map_filter)

lemma evidence_ok_merge:
  "evidence_ok meta A ev \<Longrightarrow> \<forall>m \<in> set inc. map_of meta (em_id m) = Some m \<Longrightarrow>
     evidence_ok meta (A \<union> em_id ` set inc) (merge_evidence ev inc)"
proof (induction inc arbitrary: ev A)
  case (Cons s inc)
  from Cons.IH [OF evidence_ok_add [OF Cons.prems(1)]] Cons.prems(2) show ?case
    by (simp add: merge_evidence_def)
qed (simp add: merge_evidence_def)

lemma evidence_ok_merge_all:
  "evidence_ok meta A (co_evidence acc) \<Longrightarrow>
     list_all2 (\<lambda>i p. evidence_ok meta (R i) (co_evidence p)) l ps \<Longrightarrow>
     evidence_ok meta (A \<union> (\<Union>i \<in> set l. R i)) (co_evidence (foldl merge_composed acc ps))"
proof (induction ps arbitrary: acc A l)
  case (Cons p ps)
  then obtain i l' where l: "l = i # l'" "evidence_ok meta (R i) (co_evidence p)"
    "list_all2 (\<lambda>i p. evidence_ok meta (R i) (co_evidence p)) l' ps"
    by (auto simp: list_all2_Cons2)
  then have "evidence_ok meta (A \<union> R i) (co_evidence (merge_composed acc p))"
    using evidence_ok_merge [OF Cons.prems(1), of "co_evidence p"]
    by (auto simp: merge_composed_def evidence_ok_def)
  from Cons.IH [OF this l(3)] l(1) show ?case by (simp add: Un_assoc)
qed simp

lemma compose_induct_all:
  assumes node: "\<And>current m ps. map_of meta current = Some m \<Longrightarrow>
      list_all2 (\<lambda>i p. compose edges meta load nm [] i = Inr p \<and> P i p) (includes_of edges current) ps \<Longrightarrow>
      P current (add_own nm m (load current) (foldl merge_composed empty_composed ps))"
  shows "compose edges meta load nm stack current = Inr r \<Longrightarrow> P current r"
    and "compose_all edges meta load nm stack acc l = Inr r \<Longrightarrow>
       \<exists>ps. list_all2 (\<lambda>i p. compose edges meta load nm [] i = Inr p \<and> P i p) l ps \<and>
         r = foldl merge_composed acc ps"
  using node
proof (induction edges meta load nm stack current and edges meta load nm stack acc l
    arbitrary: r and r rule: compose_compose_all.induct)
  case (1 edges meta load nm stack current)
  from 1(2) obtain m acc where m: "current \<notin> set stack" "map_of meta current = Some m"
    "compose_all edges meta load nm (stack @ [current]) empty_composed (includes_of edges current) = Inr acc"
    "r = add_own nm m (load current) acc"
    by (auto simp: compose.simps [of edges meta load nm stack] bindE_eq_Inr split: if_splits option.splits)
  from 1(1) [OF m(1,2,3) 1(3)] obtain ps where
    "list_all2 (\<lambda>i p. compose edges meta load nm [] i = Inr p \<and> P i p) (includes_of edges current) ps"
    "acc = foldl merge_composed empty_composed ps" by blast
  with 1(3) [OF m(2)] m(4) show ?case by simp
next
  case (2 edges meta load nm stack acc)
  then show ?case by simp
next
  case (3 edges meta load nm stack acc included rest)
  from 3(3) obtain p where p: "compose edges meta load nm stack included = Inr p"
    "compose_all edges meta load nm stack (merge_composed acc p) rest = Inr r"
    by (auto simp: bindE_eq_Inr)
  from 3(2) [OF p 3(4)] obtain ps where
    "list_all2 (\<lambda>i p. compose edges meta load nm [] i = Inr p \<and> P i p) rest ps"
    "r = foldl merge_composed (merge_composed acc p) ps" by blast
  with 3(1) [OF p(1) 3(4)] compose_smaller_stack(1) [OF p(1), of "[]"] show ?case
    by (intro exI [of _ "p # ps"]) simp
qed

lemmas compose_induct = compose_induct_all(1) [rotated, consumes 1, case_names node]

section \<open>Exact conditions for success\<close>

lemma compose_avoids_stack:
  "compose edges meta load nm stack a = Inr r \<Longrightarrow> (a, b) \<in> (edge_rel edges)\<^sup>* \<Longrightarrow> b \<notin> set stack"
  "compose_all edges meta load nm stack acc l = Inr r \<Longrightarrow> a \<in> set l \<Longrightarrow> (a, b) \<in> (edge_rel edges)\<^sup>* \<Longrightarrow>
     b \<notin> set stack"
proof (induction edges meta load nm stack a and edges meta load nm stack acc l
    arbitrary: r and r a rule: compose_compose_all.induct)
  case (1 edges meta load nm stack current)
  from 1(2) obtain m acc where m: "current \<notin> set stack" "map_of meta current = Some m"
    "compose_all edges meta load nm (stack @ [current]) empty_composed (includes_of edges current) = Inr acc"
    by (auto simp: compose.simps [of edges meta load nm stack] bindE_eq_Inr split: if_splits option.splits)
  from 1(3) show ?case
  proof (cases rule: converse_rtranclE)
    case (step i)
    then have "i \<in> set (includes_of edges current)" by (simp add: edge_rel_def)
    from 1(1) [OF m(1-3) this step(2)] show ?thesis by simp
  qed (use m(1) in simp)
next
  case (3 edges meta load nm stack acc included rest)
  from 3(3) obtain p where p: "compose edges meta load nm stack included = Inr p"
    "compose_all edges meta load nm stack (merge_composed acc p) rest = Inr r"
    by (auto simp: bindE_eq_Inr)
  from 3(4) consider "a = included" | "a \<in> set rest" by auto
  then show ?case
  proof cases
    case 1
    with 3(1) [OF p(1)] 3(5) show ?thesis by simp
  next
    case 2
    from 3(2) [OF p 2 3(5)] show ?thesis .
  qed
qed simp

lemma compose_all_member:
  "compose_all edges meta load nm stack acc l = Inr r \<Longrightarrow> i \<in> set l \<Longrightarrow>
     \<exists>p. compose edges meta load nm stack i = Inr p"
  by (induction l arbitrary: acc) (auto simp: bindE_eq_Inr)

lemma compose_included:
  assumes "compose edges meta load nm [] a = Inr r" and "i \<in> set (includes_of edges a)"
  shows "\<exists>p. compose edges meta load nm [a] i = Inr p"
proof -
  from assms(1) obtain acc where
    "compose_all edges meta load nm [a] empty_composed (includes_of edges a) = Inr acc"
    by (auto simp: compose.simps [of edges meta load nm "[]"] bindE_eq_Inr split: if_splits option.splits)
  from compose_all_member [OF this assms(2)] show ?thesis .
qed

lemma compose_reachable:
  assumes "(a, b) \<in> (edge_rel edges)\<^sup>*" and "compose edges meta load nm [] a = Inr r"
  shows "\<exists>p. compose edges meta load nm [] b = Inr p"
  using assms
proof (induction rule: rtrancl_induct)
  case (step b c)
  then obtain p where "compose edges meta load nm [] b = Inr p" by blast
  from compose_included [OF this, of c] step(2) obtain q where "compose edges meta load nm [b] c = Inr q"
    by (auto simp: edge_rel_def)
  from compose_smaller_stack(1) [OF this, of "[]"] show ?case by simp
qed blast

lemma compose_success_iff:
  "(\<exists>r. compose edges meta load nm [] e = Inr r) \<longleftrightarrow>
     find_environment_cycle e edges = None \<and> {b. (e, b) \<in> (edge_rel edges)\<^sup>*} \<subseteq> dom (map_of meta)"
proof (intro iffI conjI)
  assume "\<exists>r. compose edges meta load nm [] e = Inr r"
  then obtain r where r: "compose edges meta load nm [] e = Inr r" ..
  show "{b. (e, b) \<in> (edge_rel edges)\<^sup>*} \<subseteq> dom (map_of meta)"
  proof
    fix b assume "b \<in> {b. (e, b) \<in> (edge_rel edges)\<^sup>*}"
    with compose_reachable [OF _ r] obtain p where "compose edges meta load nm [] b = Inr p" by blast
    then show "b \<in> dom (map_of meta)" by (rule compose_result) auto
  qed
  show "find_environment_cycle e edges = None"
  proof (rule ccontr)
    assume "find_environment_cycle e edges \<noteq> None"
    then obtain a where a: "(e, a) \<in> (edge_rel edges)\<^sup>*" "(a, a) \<in> (edge_rel edges)\<^sup>+"
      using cycle_exists by blast
    from compose_reachable [OF a(1) r] obtain p where p: "compose edges meta load nm [] a = Inr p" ..
    from a(2) obtain i where i: "(a, i) \<in> edge_rel edges" "(i, a) \<in> (edge_rel edges)\<^sup>*"
      by (auto dest: tranclD)
    from compose_included [OF p] i(1) obtain q where "compose edges meta load nm [a] i = Inr q"
      by (auto simp: edge_rel_def)
    from compose_avoids_stack(1) [OF this i(2)] show False by simp
  qed
next
  assume h: "find_environment_cycle e edges = None \<and> {b. (e, b) \<in> (edge_rel edges)\<^sup>*} \<subseteq> dom (map_of meta)"
  then obtain complete where v: "visit edges [] [] e = (None, complete)"
    by (cases "visit edges [] [] e") (simp add: find_environment_cycle_def)
  from visit_topological(1) [OF _ v] have t: "topological edges complete" "e \<in> set complete" by auto
  show "\<exists>r. compose edges meta load nm [] e = Inr r"
    using h by (intro compose_topological [OF t]) auto
qed

lemma list_all2_right: "list_all2 P xs ys \<Longrightarrow> y \<in> set ys \<Longrightarrow> \<exists>x \<in> set xs. P x y"
  by (induction rule: list_all2_induct) auto

section \<open>Properties\<close>

text \<open>
  C36. The result cache is transparent. Composing an environment with the cache of the code gives
  exactly the result of the plain recursion without a cache: the same variables, sources and
  evidence on success and the same error on failure.
\<close>

theorem composition_cache_transparent:
  "compose_environment edges meta load nm e include_root =
     (if map_of meta e = None then Inl EnvironmentNotFound
      else if include_root then compose edges meta load nm [] e
      else compose_all edges meta load nm [] empty_composed (includes_of edges e))"
  by (rule compose_environment_reference)

text \<open>
  C24. Composition succeeds exactly on sound graphs. Composing an environment returns a profile if
  and only if the cycle check finds no cycle from it and everything it reaches by inclusion exists
  in the workspace; the recursion always ends.
\<close>

theorem composition_succeeds_iff:
  "(\<exists>r. compose_environment edges meta load nm e True = Inr r) \<longleftrightarrow>
     find_environment_cycle e edges = None \<and> {b. (e, b) \<in> (edge_rel edges)\<^sup>*} \<subseteq> dom (map_of meta)"
  using compose_success_iff [of edges meta load nm e]
  by (auto simp: compose_environment_reference elim: compose_result)

text \<open>
  Precedence. In a composed profile a variable has the value the environment itself stores for
  it; failing that, the value it has in the composed profile of the last of the direct includes
  that defines it.
\<close>

theorem composition_precedence:
  assumes "compose_environment edges meta load nm e True = Inr r"
  shows "map_of (co_variables r) x =
    (case own_value nm (load e) x of
       Some v \<Rightarrow> Some v
     | None \<Rightarrow> last_some (map (\<lambda>i. case compose_environment edges meta load nm i True of
           Inl err \<Rightarrow> None | Inr p \<Rightarrow> map_of (co_variables p) x) (includes_of edges e)))"
proof -
  have "compose edges meta load nm [] e = Inr r"
    using assms by (simp add: compose_environment_reference split: if_splits)
  then obtain m ps where
    ps: "list_all2 (\<lambda>i p. compose edges meta load nm [] i = Inr p) (includes_of edges e) ps"
      "r = add_own nm m (load e) (foldl merge_composed empty_composed ps)" by (rule compose_result)
  have env: "compose_environment edges meta load nm i True = Inr p"
    if "compose edges meta load nm [] i = Inr p" for i p
    using that by (auto simp: compose_environment_reference elim: compose_result)
  have "map (\<lambda>i. case compose_environment edges meta load nm i True of
      Inl err \<Rightarrow> None | Inr p \<Rightarrow> map_of (co_variables p) x) (includes_of edges e) =
    map (\<lambda>p. map_of (co_variables p) x) ps"
    using ps(1) by (induction rule: list_all2_induct) (simp_all add: env)
  moreover have "\<forall>p \<in> set ps. keyed_composed p"
    using list_all2_right [OF ps(1)] keyed_compose by blast
  then have "map_of (co_variables (foldl merge_composed empty_composed ps)) x =
      last_some (map (\<lambda>p. map_of (co_variables p) x) ps)" by (rule merge_all_value)
  ultimately show ?thesis unfolding ps(2) add_own_value by (auto split: option.split)
qed

text \<open>
  Provenance. Every variable of a composed profile names as its source an environment reachable
  by inclusion that itself stores the variable with that value, and the evidence lists exactly the
  reachable environments, each once, the composed one last.
\<close>

theorem composition_provenance:
  assumes "compose_environment edges meta load nm e True = Inr r" and "meta_ok meta"
  shows "provenance meta load nm {a. (e, a) \<in> (edge_rel edges)\<^sup>*} r \<and>
    evidence_ok meta {a. (e, a) \<in> (edge_rel edges)\<^sup>*} (co_evidence r) \<and>
    map_of meta e = Some (last (co_evidence r))"
proof -
  let ?R = "\<lambda>a. {b. (a, b) \<in> (edge_rel edges)\<^sup>*}"
  let ?P = "\<lambda>a r. provenance meta load nm (?R a) r \<and> evidence_ok meta (?R a) (co_evidence r) \<and>
    map_of meta a = Some (last (co_evidence r))"
  have "compose edges meta load nm [] e = Inr r"
    using assms(1) by (simp add: compose_environment_reference split: if_splits)
  then show ?thesis
  proof (induction rule: compose_induct [where P = ?P])
    case (node current m ps)
    have m: "em_id m = current" using meta_okD [OF assms(2) node(1)] .
    have sub: "?R i \<subseteq> ?R current" if "i \<in> set (includes_of edges current)" for i
      using that by (auto simp: edge_rel_def intro: converse_rtrancl_into_rtrancl)
    have "provenance meta load nm (?R current) p \<and> keyed_composed p" if "p \<in> set ps" for p
    proof -
      obtain i where "i \<in> set (includes_of edges current)" "compose edges meta load nm [] i = Inr p"
        "provenance meta load nm (?R i) p"
        using list_all2_right [OF node(2) \<open>p \<in> set ps\<close>] by blast
      with sub [of i] show ?thesis using keyed_compose provenance_mono by blast
    qed
    then have "provenance meta load nm (?R current) (foldl merge_composed empty_composed ps)"
      by (intro provenance_merge_all provenance_empty) blast
    from provenance_add_own [OF this node(1) m]
    have "provenance meta load nm (?R current) (add_own nm m (load current) (foldl merge_composed empty_composed ps))"
      by simp
    moreover have "list_all2 (\<lambda>i p. evidence_ok meta (?R i) (co_evidence p)) (includes_of edges current) ps"
      using node(2) by (rule list_all2_mono) blast
    then have "evidence_ok meta (\<Union>i \<in> set (includes_of edges current). ?R i)
        (co_evidence (foldl merge_composed empty_composed ps))"
      using evidence_ok_merge_all [of meta "{}" empty_composed ?R "includes_of edges current" ps]
      by (simp add: evidence_ok_def empty_composed_def)
    from evidence_ok_add [OF this, of m] m node(1)
    have "evidence_ok meta (insert current (\<Union>i \<in> set (includes_of edges current). ?R i))
        (co_evidence (add_own nm m (load current) (foldl merge_composed empty_composed ps)))"
      by (simp add: add_own_def merge_evidence_def)
    moreover have "insert current (\<Union>i \<in> set (includes_of edges current). ?R i) = ?R current"
      by (auto simp: edge_rel_def intro: converse_rtrancl_into_rtrancl elim: converse_rtranclE)
    moreover have "last (co_evidence (add_own nm m (load current) (foldl merge_composed empty_composed ps))) = m"
      by (simp add: add_own_def merge_evidence_def)
    ultimately show ?case using node(1) by simp
  qed
qed

section \<open>A diamond\<close>

definition demo_edges :: edges where
  "demo_edges = [(''top'', [''left'', ''right'']), (''left'', [''base'']), (''right'', [''base''])]"

definition demo_meta :: "(string \<times> environment_meta) list" where
  "demo_meta = map (\<lambda>i. (i, \<lparr>em_id = i, em_name = i, em_revision = 0, em_cookie_source = FromEnvironment\<rparr>))
     [''top'', ''left'', ''right'', ''base'']"

definition demo_load :: "string \<Rightarrow> (string \<times> string) list" where
  "demo_load i = (if i = ''top'' then [(''a'', ''1'')]
     else if i = ''base'' then [(''a'', ''2''), (''b'', ''3'')]
     else if i = ''left'' then [(''b'', ''4'')] else [])"

definition demo_result :: "(string \<times> string) composed" where
  "demo_result = (case compose_environment demo_edges demo_meta demo_load fst ''top'' True of
     Inr r \<Rightarrow> r | Inl e \<Rightarrow> empty_composed)"

lemma demo_composes: "compose_environment demo_edges demo_meta demo_load fst ''top'' True = Inr demo_result"
  by code_simp

theorem composition_precedence_witness:
  "map_of (co_variables demo_result) ''b'' = Some (''b'', ''3'')"
  using composition_precedence [OF demo_composes, of "''b''"] by code_simp

theorem composition_provenance_witness:
  "evidence_ok demo_meta {a. (''top'', a) \<in> (edge_rel demo_edges)\<^sup>*} (co_evidence demo_result) \<and>
   map em_id (co_evidence demo_result) = [''left'', ''base'', ''right'', ''top'']"
proof -
  have "meta_ok demo_meta" by (auto simp: meta_ok_def demo_meta_def split: if_splits)
  with composition_provenance [OF demo_composes]
  have "evidence_ok demo_meta {a. (''top'', a) \<in> (edge_rel demo_edges)\<^sup>*} (co_evidence demo_result)"
    by blast
  moreover have "map em_id (co_evidence demo_result) = [''left'', ''base'', ''right'', ''top'']"
    by code_simp
  ultimately show ?thesis by blast
qed

end
