(* ===== verification/Environment_Service.thy ===== *)
theory Environment_Service
  imports Workspaces Variable_Resolver Environment_Composition
    "HOL-Library.Char_ord" "HOL-Library.List_Lexorder" "HOL-Library.Product_Lexorder"
begin

text \<open>
  Environments, their inclusion lists and the selection per session (\<open>EnvironmentService\<close> in
  \<open>apps/backend/src/environments/environment-service.ts\<close>). Each operation is one transaction on the
  tables it touches: \<open>Inl\<close> rolls it back. A row removed by a cascading foreign key is removed by the
  operation. Names are Latin-1, for which \<open>normalize("NFC")\<close> is the identity. Generated identifiers
  and the clock are parameters.
\<close>

section \<open>Data\<close>

record environment_row =
  er_id :: entity_id
  er_workspace :: entity_id
  er_name :: string
  er_name_key :: string
  er_description :: string
  er_notes :: string
  er_cookie_source :: cookie_source
  er_revision :: nat
  er_created_at :: int

record include_row =
  ir_workspace :: entity_id
  ir_environment :: entity_id
  ir_included :: entity_id
  ir_position :: nat

datatype environment_event =
    EnvironmentCreated entity_id string "entity_id list" cookie_source
  | EnvironmentUpdated entity_id nat "entity_id list option" "cookie_source option"
  | EnvironmentDeleted entity_id
  | SecretChanged entity_id secret_mutation
  | ProfileUpdated scope_kind entity_id nat "entity_id option"
  | ProfileDuplicated entity_id entity_id
  | ScriptVariableUpdated entity_id scope_kind entity_id string bool bool nat
  | ProfileSecretChanged scope_kind entity_id secret_mutation "entity_id option"

record environment_db =
  ed_workspaces :: workspace_db
  ed_sessions :: "(entity_id \<times> entity_id) list"
  ed_environments :: "environment_row list"
  ed_includes :: "include_row list"
  ed_selections :: "((entity_id \<times> entity_id) \<times> entity_id) list"
  ed_profiles :: profile_store
  ed_audit :: "(environment_event \<times> entity_id \<times> entity_id) list"

datatype environment_error =
    WorkspaceFailure workspace_error
  | ProfileFailure profile_error
  | CompositionFailure composition_error
  | NoSuchEnvironment
  | EnvironmentChanged
  | IncludedTwice
  | NoSuchInclude
  | WouldBeCyclic "string list"
  | IncludedBy "string list"
  | NameTaken
  | NoSuchSession
  | NoSuchWorkspaceRow

definition workspace_result :: "workspace_error + 'a \<Rightarrow> environment_error + 'a" where
  "workspace_result r = (case r of Inl e \<Rightarrow> Inl (WorkspaceFailure e) | Inr x \<Rightarrow> Inr x)"

definition profile_result :: "profile_error + 'a \<Rightarrow> environment_error + 'a" where
  "profile_result r = (case r of Inl e \<Rightarrow> Inl (ProfileFailure e) | Inr x \<Rightarrow> Inr x)"

text \<open>The \<open>catch\<close> of \<open>update\<close>: profile conflicts become environment conflicts.\<close>

definition replace_result :: "profile_error + 'a \<Rightarrow> environment_error + 'a" where
  "replace_result r =
     (case r of
        Inl e \<Rightarrow> if e = ProfileChanged \<or> e = KindChanged then Inl EnvironmentChanged else Inl (ProfileFailure e)
      | Inr x \<Rightarrow> Inr x)"

definition composition_result :: "composition_error + 'a \<Rightarrow> environment_error + 'a" where
  "composition_result r = (case r of Inl e \<Rightarrow> Inl (CompositionFailure e) | Inr x \<Rightarrow> Inr x)"

section \<open>Reading the tables\<close>

definition environment_name_key :: "string \<Rightarrow> string" where
  "environment_name_key name = js_lower name"

definition env_row :: "environment_db \<Rightarrow> entity_id \<Rightarrow> environment_row option" where
  "env_row db e = find (\<lambda>r. er_id r = e) (ed_environments db)"

definition workspace_environments :: "environment_db \<Rightarrow> entity_id \<Rightarrow> environment_row list" where
  "workspace_environments db w = filter (\<lambda>r. er_workspace r = w) (ed_environments db)"

definition load_edges :: "environment_db \<Rightarrow> entity_id \<Rightarrow> edges" where
  "load_edges db w =
     foldl (\<lambda>m r. AList.update (ir_environment r) (includes_of m (ir_environment r) @ [ir_included r]) m) []
       (sort_key (\<lambda>r. (ir_environment r, ir_position r)) (filter (\<lambda>r. ir_workspace r = w) (ed_includes db)))"

definition environment_meta_of :: "environment_row \<Rightarrow> environment_meta" where
  "environment_meta_of r = \<lparr>em_id = er_id r, em_name = er_name r, em_revision = er_revision r,
     em_cookie_source = er_cookie_source r\<rparr>"

definition load_metadata :: "environment_db \<Rightarrow> entity_id \<Rightarrow> (string \<times> environment_meta) list" where
  "load_metadata db w =
     foldl (\<lambda>m r. AList.update (er_id r) (environment_meta_of r) m) [] (workspace_environments db w)"

definition compose_for ::
  "environment_db \<Rightarrow> entity_id \<Rightarrow> entity_id \<Rightarrow> (string \<Rightarrow> 'v list) \<Rightarrow> ('v \<Rightarrow> string) \<Rightarrow> bool
     \<Rightarrow> environment_error + 'v composed" where
  "compose_for db w e load nm include_root =
     composition_result (compose_environment (load_edges db w) (load_metadata db w) load nm e include_root)"

text \<open>\<open>list\<close>\<close>

definition list_environments ::
  "entity_id \<Rightarrow> entity_id \<Rightarrow> entity_id \<Rightarrow> environment_db
     \<Rightarrow> environment_error + ((entity_id \<times> string \<times> nat) list \<times> entity_id option)" where
  "list_environments user session w db =
     bindE (workspace_result (require_can_read (ed_workspaces db) user w)) (\<lambda>_.
     Inr (map (\<lambda>r. (er_id r, er_name r, er_revision r))
            (sort_key (\<lambda>r. (er_created_at r, er_id r)) (workspace_environments db w)),
          map_of (ed_selections db) (session, w)))"

definition selected_metadata :: "environment_db \<Rightarrow> entity_id \<Rightarrow> entity_id \<Rightarrow> environment_meta option" where
  "selected_metadata db session w =
     (case map_of (ed_selections db) (session, w) of
        None \<Rightarrow> None
      | Some e \<Rightarrow>
          (case env_row db e of
             None \<Rightarrow> None
           | Some r \<Rightarrow> if er_workspace r = w then Some (environment_meta_of r) else None))"

definition selected_profile ::
  "environment_db \<Rightarrow> entity_id \<Rightarrow> entity_id
     \<Rightarrow> environment_error + (environment_meta \<times> resolved_variable composed) option" where
  "selected_profile db session w =
     (case selected_metadata db session w of
        None \<Rightarrow> Inr None
      | Some m \<Rightarrow>
          bindE (compose_for db w (em_id m) (resolved_variables (ed_profiles db) ScopeEnvironment) rv_name True)
            (\<lambda>c. Inr (Some (m, c))))"

definition selected_redacted_profile ::
  "environment_db \<Rightarrow> entity_id \<Rightarrow> entity_id
     \<Rightarrow> environment_error + (environment_meta \<times> variable_view composed) option" where
  "selected_redacted_profile db session w =
     (case selected_metadata db session w of
        None \<Rightarrow> Inr None
      | Some m \<Rightarrow>
          bindE (compose_for db w (em_id m) (redacted_variables (ed_profiles db) ScopeEnvironment) vv_name True)
            (\<lambda>c. Inr (Some (m, c))))"

section \<open>Views\<close>

record variable_source =
  vs_workspace_scope :: bool
  vs_id :: entity_id
  vs_name :: string
  vs_revision :: nat

definition environment_preview_source :: "environment_meta \<Rightarrow> variable_source" where
  "environment_preview_source m =
     \<lparr>vs_workspace_scope = False, vs_id = em_id m, vs_name = em_name m, vs_revision = em_revision m\<rparr>"

definition direct_includes :: "environment_db \<Rightarrow> entity_id \<Rightarrow> (entity_id \<times> string \<times> nat) list" where
  "direct_includes db e =
     concat (map (\<lambda>i. case env_row db (ir_included i) of
         None \<Rightarrow> [] | Some r \<Rightarrow> [(er_id r, er_name r, er_revision r)])
       (sort_key ir_position (filter (\<lambda>i. ir_environment i = e) (ed_includes db))))"

definition workspace_inherited ::
  "environment_db \<Rightarrow> entity_id \<Rightarrow> string \<Rightarrow> (string \<times> variable_view \<times> variable_source) list" where
  "workspace_inherited db w workspace_name =
     (case metadata (ed_profiles db) ScopeWorkspace w of
        None \<Rightarrow> []
      | Some p \<Rightarrow>
          let source = \<lparr>vs_workspace_scope = True, vs_id = w, vs_name = workspace_name,
                vs_revision = vp_revision p\<rparr> in
          foldl (\<lambda>m v. AList.update (vv_name v) (v, source) m) []
            (redacted_variables (ed_profiles db) ScopeWorkspace w))"

definition inherited_variables ::
  "environment_db \<Rightarrow> entity_id \<Rightarrow> entity_id \<Rightarrow> environment_error + (variable_view \<times> variable_source) list" where
  "inherited_variables db w e =
     (case find (\<lambda>r. ws_id r = w) (wd_workspaces (ed_workspaces db)) of
        None \<Rightarrow> Inl NoSuchWorkspaceRow
      | Some row \<Rightarrow>
          bindE (compose_for db w e (redacted_variables (ed_profiles db) ScopeEnvironment) vv_name False) (\<lambda>c.
          Inr (map snd (foldl (\<lambda>m (n, v). case map_of (co_sources c) n of
                None \<Rightarrow> m
              | Some s \<Rightarrow> AList.update n (v, environment_preview_source s) m)
            (workspace_inherited db w (ws_name row)) (co_variables c)))))"

record environment_view =
  ev_id :: entity_id
  ev_workspace :: entity_id
  ev_name :: string
  ev_description :: string
  ev_notes :: string
  ev_cookie_source :: cookie_source
  ev_revision :: nat
  ev_includes :: "(entity_id \<times> string \<times> nat) list"
  ev_variables :: "variable_view list"
  ev_inherited :: "(variable_view \<times> variable_source) list"

definition view_environment :: "environment_db \<Rightarrow> entity_id \<Rightarrow> environment_error + environment_view" where
  "view_environment db e =
     (case env_row db e of
        None \<Rightarrow> Inl NoSuchEnvironment
      | Some r \<Rightarrow>
          bindE (inherited_variables db (er_workspace r) e) (\<lambda>inherited.
          Inr \<lparr>ev_id = e, ev_workspace = er_workspace r, ev_name = er_name r,
               ev_description = er_description r, ev_notes = er_notes r,
               ev_cookie_source = er_cookie_source r, ev_revision = er_revision r,
               ev_includes = direct_includes db e,
               ev_variables = redacted_variables (ed_profiles db) ScopeEnvironment e,
               ev_inherited = inherited\<rparr>))"

definition get_environment :: "entity_id \<Rightarrow> entity_id \<Rightarrow> environment_db \<Rightarrow> environment_error + environment_view" where
  "get_environment user e db =
     (case env_row db e of
        None \<Rightarrow> Inl NoSuchEnvironment
      | Some r \<Rightarrow>
          bindE (workspace_result (require_can_read (ed_workspaces db) user (er_workspace r))) (\<lambda>_.
          view_environment db e))"

section \<open>Previews\<close>

datatype preview_status = PreviewResolved | PreviewMissing | PreviewUnset | PreviewError

datatype diagnostic = NoEnvironmentSelected | NameMissing | NameUnset | ResolutionFailed resolution_error

record 's preview =
  pw_name :: string
  pw_status :: preview_status
  pw_declared :: "variable_kind option"
  pw_effective :: "variable_kind option"
  pw_alias :: "string option"
  pw_value :: "string option"
  pw_secret_version :: "nat option"
  pw_diagnostic :: "diagnostic option"
  pw_source :: "'s option"

definition missing_preview :: "diagnostic \<Rightarrow> string \<Rightarrow> 's preview" where
  "missing_preview d name =
     \<lparr>pw_name = name, pw_status = PreviewMissing, pw_declared = None, pw_effective = None, pw_alias = None,
      pw_value = None, pw_secret_version = None, pw_diagnostic = Some d, pw_source = None\<rparr>"

definition preview_variable :: "variable_map \<Rightarrow> 's option \<Rightarrow> string \<Rightarrow> 's preview" where
  "preview_variable variables source name =
     (case map_of variables name of
        None \<Rightarrow> missing_preview NameMissing name
      | Some v \<Rightarrow>
          let common = \<lparr>pw_name = name, pw_status = PreviewUnset, pw_declared = Some (rv_kind v),
                pw_effective = None,
                pw_alias = (if rv_kind v = KindAlias then rv_alias_target v else None),
                pw_value = None, pw_secret_version = None, pw_diagnostic = Some NameUnset,
                pw_source = source\<rparr> in
          if rv_kind v = KindUnset then common
          else (case resolve variables name of
              Inr r \<Rightarrow> common\<lparr>pw_status := PreviewResolved,
                  pw_effective := Some (if rs_secret r then KindSecret else KindValue),
                  pw_value := (if rs_secret r then None else Some (rs_value r)),
                  pw_secret_version := (case rs_references r of
                      (i, n) # _ \<Rightarrow> Some n
                    | [] \<Rightarrow> if rv_kind v = KindSecret then rv_secret_version v else None),
                  pw_diagnostic := None\<rparr>
            | Inl err \<Rightarrow> common\<lparr>pw_status := PreviewError,
                  pw_effective := (if rv_kind v = KindSecret then Some KindSecret else None),
                  pw_secret_version := (if rv_kind v = KindSecret then rv_secret_version v else None),
                  pw_diagnostic := Some (ResolutionFailed err)\<rparr>))"

definition preview_variables ::
  "entity_id \<Rightarrow> entity_id \<Rightarrow> entity_id \<Rightarrow> string list \<Rightarrow> environment_db \<Rightarrow> environment_error + variable_source preview list" where
  "preview_variables user session w names db =
     bindE (workspace_result (require_can_read (ed_workspaces db) user w)) (\<lambda>_.
     bindE (selected_profile db session w) (\<lambda>profile.
     case profile of
       None \<Rightarrow> Inr (map (missing_preview NoEnvironmentSelected) names)
     | Some (m, c) \<Rightarrow>
         mapE (\<lambda>name. bindE (profile_result (validate_variable_name name)) (\<lambda>_.
           Inr (preview_variable (variable_map (map snd (co_variables c)))
                  (map_option environment_preview_source (map_of (co_sources c) name)) name))) names))"

section \<open>Inclusion lists\<close>

definition include_rows :: "entity_id \<Rightarrow> entity_id \<Rightarrow> entity_id list \<Rightarrow> include_row list" where
  "include_rows w e included =
     map (\<lambda>(position, i). \<lparr>ir_workspace = w, ir_environment = e, ir_included = i, ir_position = position\<rparr>)
       (enumerate 0 included)"

definition replace_includes ::
  "entity_id \<Rightarrow> entity_id \<Rightarrow> entity_id list \<Rightarrow> environment_db \<Rightarrow> environment_error + environment_db" where
  "replace_includes w e included db =
     (if \<not> distinct included then Inl IncludedTwice
      else
        let names = load_metadata db w in
        if map_of names e = None \<or> (\<exists>i \<in> set included. map_of names i = None) then Inl NoSuchInclude
        else (case find_environment_cycle e (AList.update e included (load_edges db w)) of
            Some cycle \<Rightarrow> Inl (WouldBeCyclic (map (\<lambda>i. case map_of names i of
                Some m \<Rightarrow> em_name m | None \<Rightarrow> i) cycle))
          | None \<Rightarrow> Inr (db\<lparr>ed_includes := filter (\<lambda>r. ir_environment r \<noteq> e) (ed_includes db) @
                include_rows w e included\<rparr>)))"

definition record_secret_mutations ::
  "entity_id \<Rightarrow> entity_id \<Rightarrow> entity_id \<Rightarrow> secret_mutation list \<Rightarrow> environment_db \<Rightarrow> environment_db" where
  "record_secret_mutations user w e mutations db =
     db\<lparr>ed_audit := ed_audit db @ map (\<lambda>m. (SecretChanged e m, user, w)) mutations\<rparr>"

definition record_event ::
  "environment_event \<Rightarrow> entity_id \<Rightarrow> entity_id \<Rightarrow> environment_db \<Rightarrow> environment_db" where
  "record_event event user w db = db\<lparr>ed_audit := ed_audit db @ [(event, user, w)]\<rparr>"

text \<open>The unique index on workspace and name key.\<close>

definition name_taken :: "environment_db \<Rightarrow> entity_id \<Rightarrow> entity_id \<Rightarrow> string \<Rightarrow> bool" where
  "name_taken db w e key =
     list_ex (\<lambda>r. er_workspace r = w \<and> er_id r \<noteq> e \<and> er_name_key r = key) (ed_environments db)"

section \<open>Operations\<close>

record environment_input =
  ei_name :: string
  ei_variables :: "variable_write list"
  ei_includes :: "entity_id list option"
  ei_description :: string
  ei_notes :: string
  ei_cookie_source :: "cookie_source option"

definition create_environment ::
  "entity_id \<Rightarrow> entity_id \<Rightarrow> (nat \<Rightarrow> entity_id) \<Rightarrow> int \<Rightarrow> entity_id \<Rightarrow> entity_id \<Rightarrow> environment_input
     \<Rightarrow> environment_db \<Rightarrow> environment_error + (environment_view \<times> environment_db)" where
  "create_environment e profile_id fresh now user w input db =
     bindE (workspace_result (validate_resource_description (ei_description input))) (\<lambda>description.
     bindE (workspace_result (validate_resource_notes (ei_notes input))) (\<lambda>notes.
     bindE (workspace_result (require_can_edit (ed_workspaces db) user w)) (\<lambda>_.
     bindE (workspace_result (normalize_name (ei_name input))) (\<lambda>name.
     let included = coalesce (ei_includes input) [];
         source = coalesce (ei_cookie_source input) FromEnvironment in
     bindE (requireE (\<not> name_taken db w e (environment_name_key name)) NameTaken) (\<lambda>_.
     let db1 = db\<lparr>ed_environments := ed_environments db @
           [\<lparr>er_id = e, er_workspace = w, er_name = name, er_name_key = environment_name_key name,
             er_description = description, er_notes = notes, er_cookie_source = source,
             er_revision = 0, er_created_at = now\<rparr>]\<rparr> in
     bindE (profile_result (create_profile profile_id fresh False w ScopeEnvironment e 0
              (ei_variables input) (ed_profiles db1))) (\<lambda>(mutations, profiles).
     bindE (replace_includes w e included (db1\<lparr>ed_profiles := profiles\<rparr>)) (\<lambda>db2.
     let db3 = record_secret_mutations user w e mutations
           (record_event (EnvironmentCreated e name included source) user w db2) in
     bindE (view_environment db3 e) (\<lambda>view. Inr (view, db3)))))))))"

definition updated_row ::
  "string \<Rightarrow> string \<Rightarrow> string \<Rightarrow> cookie_source option \<Rightarrow> nat \<Rightarrow> environment_row \<Rightarrow> environment_row" where
  "updated_row name description notes source revision r =
     r\<lparr>er_name := name, er_name_key := environment_name_key name, er_description := description,
       er_notes := notes, er_cookie_source := coalesce source (er_cookie_source r), er_revision := revision\<rparr>"

definition update_environment ::
  "(nat \<Rightarrow> entity_id) \<Rightarrow> entity_id \<Rightarrow> entity_id \<Rightarrow> nat \<Rightarrow> environment_input \<Rightarrow> environment_db
     \<Rightarrow> environment_error + (environment_view \<times> environment_db)" where
  "update_environment fresh user e expected input db =
     bindE (workspace_result (validate_resource_description (ei_description input))) (\<lambda>description.
     bindE (workspace_result (validate_resource_notes (ei_notes input))) (\<lambda>notes.
     case env_row db e of
       None \<Rightarrow> Inl NoSuchEnvironment
     | Some row \<Rightarrow>
         let w = er_workspace row in
         bindE (workspace_result (require_can_edit (ed_workspaces db) user w)) (\<lambda>_.
         bindE (requireE (er_revision row = expected) EnvironmentChanged) (\<lambda>_.
         bindE (workspace_result (normalize_name (ei_name input))) (\<lambda>name.
         bindE (replace_result (replace_profile fresh ScopeEnvironment e expected (ei_variables input)
                  (ed_profiles db))) (\<lambda>(_, mutations, profiles).
         let db1 = db\<lparr>ed_profiles := profiles\<rparr> in
         bindE (case ei_includes input of
                  None \<Rightarrow> Inr db1 | Some included \<Rightarrow> replace_includes w e included db1) (\<lambda>db2.
         bindE (requireE (\<not> name_taken db w e (environment_name_key name)) NameTaken) (\<lambda>_.
         let update = (\<lambda>r. if er_id r = e
               then updated_row name description notes (ei_cookie_source input) (expected + 1) r else r);
             db3 = record_secret_mutations user w e mutations
               (record_event
                 (EnvironmentUpdated e (expected + 1) (ei_includes input) (ei_cookie_source input)) user w
                 (db2\<lparr>ed_environments := map update (ed_environments db2)\<rparr>)) in
         bindE (view_environment db3 e) (\<lambda>view. Inr (view, db3))))))))))"

definition dependents :: "environment_db \<Rightarrow> entity_id \<Rightarrow> string list" where
  "dependents db e =
     concat (map (\<lambda>i. case env_row db (ir_environment i) of None \<Rightarrow> [] | Some r \<Rightarrow> [er_name r])
       (sort_key ir_environment (filter (\<lambda>i. ir_included i = e) (ed_includes db))))"

definition deleted_secrets :: "environment_db \<Rightarrow> entity_id \<Rightarrow> secret_mutation list" where
  "deleted_secrets db e =
     (case metadata (ed_profiles db) ScopeEnvironment e of
        None \<Rightarrow> []
      | Some p \<Rightarrow> concat (map (\<lambda>v. case va_content v of
            Secret n payload \<Rightarrow> [(SecretDeleted, va_id v, n)] | _ \<Rightarrow> []) (vp_variables p)))"

definition delete_environment ::
  "entity_id \<Rightarrow> entity_id \<Rightarrow> nat \<Rightarrow> environment_db \<Rightarrow> environment_error + environment_db" where
  "delete_environment user e expected db =
     (case env_row db e of
        None \<Rightarrow> Inl NoSuchEnvironment
      | Some row \<Rightarrow>
          let w = er_workspace row in
          bindE (workspace_result (require_can_edit (ed_workspaces db) user w)) (\<lambda>_.
          bindE (requireE (er_revision row = expected) EnvironmentChanged) (\<lambda>_.
          bindE (requireE (dependents db e = []) (IncludedBy (dependents db e))) (\<lambda>_.
          Inr (record_secret_mutations user w e (deleted_secrets db e)
            (record_event (EnvironmentDeleted e) user w
              (db\<lparr>ed_profiles := delete_profile ScopeEnvironment e (ed_profiles db),
                  ed_environments := filter (\<lambda>r. er_id r \<noteq> e) (ed_environments db),
                  ed_includes := filter (\<lambda>r. ir_environment r \<noteq> e) (ed_includes db),
                  ed_selections := filter (\<lambda>(k, s). s \<noteq> e) (ed_selections db)\<rparr>)))))))"

definition select_environment ::
  "entity_id \<Rightarrow> entity_id \<Rightarrow> entity_id \<Rightarrow> entity_id option \<Rightarrow> environment_db
     \<Rightarrow> environment_error + environment_db" where
  "select_environment user session w choice db =
     bindE (workspace_result (require_can_edit (ed_workspaces db) user w)) (\<lambda>_.
     bindE (requireE ((session, user) \<in> set (ed_sessions db)) NoSuchSession) (\<lambda>_.
     case choice of
       None \<Rightarrow> Inr (db\<lparr>ed_selections := AList.delete (session, w) (ed_selections db)\<rparr>)
     | Some e \<Rightarrow>
         (case env_row db e of
            None \<Rightarrow> Inl NoSuchEnvironment
          | Some row \<Rightarrow>
              if er_workspace row \<noteq> w then Inl NoSuchEnvironment
              else Inr (db\<lparr>ed_selections := AList.update (session, w) e (ed_selections db)\<rparr>))))"

end
