(* ===== verification/Environment_Invariant.thy ===== *)
theory Environment_Invariant
  imports Environment_Service
begin

text \<open>
  The invariant of the environment tables and its preservation by every operation of
  \<open>Environment_Service\<close>: rows are keyed, includes and selections stay inside one workspace and never
  dangle, the inclusion graph of every workspace is acyclic, names are unique per workspace, and an
  environment and its variable profile have the same revision.
\<close>

section \<open>The stored graph\<close>

lemma sort_key_single:
  "(\<And>x. x \<in> set xs \<Longrightarrow> f x = a) \<Longrightarrow> sort_key (\<lambda>x. (f x, g x)) xs = sort_key g xs"
proof (induction xs)
  case (Cons x xs)
  have "insort_key (\<lambda>x. (f x, g x)) x ys = insort_key g x ys" if "\<forall>y \<in> set ys. f y = a" for ys
    using that Cons.prems [of x] by (induction ys) auto
  with Cons show ?case by simp
qed simp

definition includes_rows :: "environment_db \<Rightarrow> entity_id \<Rightarrow> entity_id \<Rightarrow> include_row list" where
  "includes_rows db w e =
     sort_key ir_position (filter (\<lambda>r. ir_workspace r = w \<and> ir_environment r = e) (ed_includes db))"

lemma load_edges_fold:
  "includes_of (foldl (\<lambda>m r. AList.update (ir_environment r)
       (includes_of m (ir_environment r) @ [ir_included r]) m) m rows) e =
     includes_of m e @ map ir_included (filter (\<lambda>r. ir_environment r = e) rows)"
  by (induction rows arbitrary: m) (auto simp: includes_of_def js_map.get_put)

lemma load_edges_includes: "includes_of (load_edges db w) e = map ir_included (includes_rows db w e)"
proof -
  have "includes_of (load_edges db w) e = map ir_included
      (sort_key (\<lambda>r. (ir_environment r, ir_position r))
        (filter (\<lambda>r. ir_environment r = e) (filter (\<lambda>r. ir_workspace r = w) (ed_includes db))))"
    unfolding load_edges_def load_edges_fold by (simp add: includes_of_def filter_sort)
  also have "sort_key (\<lambda>r. (ir_environment r, ir_position r))
      (filter (\<lambda>r. ir_environment r = e) (filter (\<lambda>r. ir_workspace r = w) (ed_includes db))) =
    includes_rows db w e"
    unfolding includes_rows_def by (subst sort_key_single [where a = e]) (auto simp: conj_commute)
  finally show ?thesis .
qed

lemma edge_rel_load_edges:
  "(a, b) \<in> edge_rel (load_edges db w) \<longleftrightarrow>
     (\<exists>r \<in> set (ed_includes db). ir_workspace r = w \<and> ir_environment r = a \<and> ir_included r = b)"
  by (auto simp: edge_rel_def load_edges_includes includes_rows_def)

section \<open>Metadata\<close>

lemma load_metadata_fold:
  "map_of (foldl (\<lambda>m r. AList.update (er_id r) (environment_meta_of r) m) m rows) e =
     (case find (\<lambda>r. er_id r = e) (rev rows) of None \<Rightarrow> map_of m e | Some r \<Rightarrow> Some (environment_meta_of r))"
  by (induction rows arbitrary: m rule: rev_induct) (auto simp: js_map.get_put)

lemma load_metadata_None:
  "map_of (load_metadata db w) e = None \<longleftrightarrow> (\<nexists>r. r \<in> set (ed_environments db) \<and> er_id r = e \<and> er_workspace r = w)"
  unfolding load_metadata_def load_metadata_fold workspace_environments_def
  by (auto simp: find_None_iff split: option.split dest!: find_SomeD)

lemma load_metadata_ok: "meta_ok (load_metadata db w)"
  unfolding meta_ok_def load_metadata_def load_metadata_fold
  by (auto simp: environment_meta_of_def find_Some_iff split: option.splits)

section \<open>The invariant\<close>

definition graph_ok :: "environment_db \<Rightarrow> bool" where
  "graph_ok db \<longleftrightarrow>
     distinct (map er_id (ed_environments db)) \<and>
     (\<forall>i \<in> set (ed_includes db).
        (\<exists>r \<in> set (ed_environments db). er_id r = ir_environment i \<and> er_workspace r = ir_workspace i) \<and>
        (\<exists>r \<in> set (ed_environments db). er_id r = ir_included i \<and> er_workspace r = ir_workspace i)) \<and>
     (\<forall>w. acyclic (edge_rel (load_edges db w))) \<and>
     (\<forall>((s, w), e) \<in> set (ed_selections db).
        \<exists>r \<in> set (ed_environments db). er_id r = e \<and> er_workspace r = w) \<and>
     distinct (map (\<lambda>r. (er_workspace r, er_name_key r)) (ed_environments db))"

definition revisions_ok :: "environment_db \<Rightarrow> bool" where
  "revisions_ok db \<longleftrightarrow>
     (\<forall>r \<in> set (ed_environments db). \<exists>p. metadata (ed_profiles db) ScopeEnvironment (er_id r) = Some p \<and>
        vp_revision p = er_revision r)"

definition env_ok :: "environment_db \<Rightarrow> bool" where
  "env_ok db \<longleftrightarrow> graph_ok db \<and> revisions_ok db"

lemma graph_okI:
  assumes "distinct (map er_id (ed_environments db))"
    and "\<And>i. i \<in> set (ed_includes db) \<Longrightarrow>
      \<exists>r \<in> set (ed_environments db). er_id r = ir_environment i \<and> er_workspace r = ir_workspace i"
    and "\<And>i. i \<in> set (ed_includes db) \<Longrightarrow>
      \<exists>r \<in> set (ed_environments db). er_id r = ir_included i \<and> er_workspace r = ir_workspace i"
    and "\<And>w. acyclic (edge_rel (load_edges db w))"
    and "\<And>s w e. ((s, w), e) \<in> set (ed_selections db) \<Longrightarrow>
      \<exists>r \<in> set (ed_environments db). er_id r = e \<and> er_workspace r = w"
    and "distinct (map (\<lambda>r. (er_workspace r, er_name_key r)) (ed_environments db))"
  shows "graph_ok db"
  using assms unfolding graph_ok_def by blast

lemma graph_okD:
  assumes "graph_ok db"
  shows "distinct (map er_id (ed_environments db))"
    and "i \<in> set (ed_includes db) \<Longrightarrow>
      \<exists>r \<in> set (ed_environments db). er_id r = ir_environment i \<and> er_workspace r = ir_workspace i"
    and "i \<in> set (ed_includes db) \<Longrightarrow>
      \<exists>r \<in> set (ed_environments db). er_id r = ir_included i \<and> er_workspace r = ir_workspace i"
    and "acyclic (edge_rel (load_edges db w))"
    and "((s, w), e) \<in> set (ed_selections db) \<Longrightarrow>
      \<exists>r \<in> set (ed_environments db). er_id r = e \<and> er_workspace r = w"
    and "distinct (map (\<lambda>r. (er_workspace r, er_name_key r)) (ed_environments db))"
  using assms unfolding graph_ok_def by (blast, blast, blast, blast, fastforce, blast)

lemma graph_ok_cong:
  "ed_environments db' = ed_environments db \<Longrightarrow> ed_includes db' = ed_includes db \<Longrightarrow>
     ed_selections db' = ed_selections db \<Longrightarrow> graph_ok db' = graph_ok db"
  by (simp add: graph_ok_def load_edges_def)

lemma revisions_ok_cong:
  "ed_environments db' = ed_environments db \<Longrightarrow> ed_profiles db' = ed_profiles db \<Longrightarrow>
     revisions_ok db' = revisions_ok db"
  by (simp add: revisions_ok_def)

lemma record_fields [simp]:
  "ed_environments (record_secret_mutations u w e ms db) = ed_environments db"
  "ed_includes (record_secret_mutations u w e ms db) = ed_includes db"
  "ed_selections (record_secret_mutations u w e ms db) = ed_selections db"
  "ed_profiles (record_secret_mutations u w e ms db) = ed_profiles db"
  "ed_environments (record_event ev u w db) = ed_environments db"
  "ed_includes (record_event ev u w db) = ed_includes db"
  "ed_selections (record_event ev u w db) = ed_selections db"
  "ed_profiles (record_event ev u w db) = ed_profiles db"
  by (simp_all add: record_secret_mutations_def record_event_def)

lemma env_row_iff:
  "distinct (map er_id (ed_environments db)) \<Longrightarrow>
     env_row db e = Some r \<longleftrightarrow> r \<in> set (ed_environments db) \<and> er_id r = e"
proof
  assume "env_row db e = Some r"
  then show "r \<in> set (ed_environments db) \<and> er_id r = e"
    unfolding env_row_def by (auto dest: find_SomeD)
next
  assume d: "distinct (map er_id (ed_environments db))" and r: "r \<in> set (ed_environments db) \<and> er_id r = e"
  then obtain x where x: "env_row db e = Some x"
    by (cases "env_row db e") (auto simp: env_row_def find_None_iff)
  then have "er_id x = e" "x \<in> set (ed_environments db)" unfolding env_row_def by (auto dest: find_SomeD)
  with d r have "x = r" by (metis distinct_map inj_onD)
  with x show "env_row db e = Some r" by simp
qed

lemma env_row_SomeD: "env_row db e = Some r \<Longrightarrow> r \<in> set (ed_environments db) \<and> er_id r = e"
  unfolding env_row_def by (auto dest: find_SomeD)

section \<open>Replacing inclusion lists\<close>

lemma include_rows_map: "map ir_included (include_rows w e l) = l"
  by (simp add: include_rows_def comp_def case_prod_beta')

lemma include_rows_fields: "r \<in> set (include_rows w e l) \<Longrightarrow> ir_workspace r = w \<and> ir_environment r = e \<and> ir_included r \<in> set l"
  by (auto simp: include_rows_def in_set_enumerate_eq)

lemma include_rows_member: "i \<in> set l \<Longrightarrow> \<exists>r \<in> set (include_rows w e l). ir_included r = i"
  using include_rows_map [of w e l] by (metis (no_types) imageE list.set_map)

lemma include_rows_sorted: "sorted (map ir_position (include_rows w e l))"
proof -
  have "map ir_position (include_rows w e l) = map fst (enumerate 0 l)"
    by (simp add: include_rows_def comp_def case_prod_beta')
  then show ?thesis by simp
qed

lemma redirected_trancl:
  assumes "(a, b) \<in> R\<^sup>+" and "\<And>x y. (x, y) \<in> R \<Longrightarrow> x \<noteq> e \<Longrightarrow> (x, y) \<in> S"
  shows "(a, b) \<in> S\<^sup>+ \<or> (a, e) \<in> R\<^sup>* \<and> (e, b) \<in> R\<^sup>+"
  using assms(1)
proof (induction rule: trancl_induct)
  case (base b)
  then show ?case using assms(2) [of a b] by (cases "a = e") auto
next
  case (step b c)
  then show ?case
  proof (cases "b = e")
    case True
    with step show ?thesis by (auto intro: trancl_into_rtrancl)
  next
    case False
    with step assms(2) have "(b, c) \<in> S" by blast
    with step show ?thesis by (auto intro: trancl_into_trancl)
  qed
qed

lemma acyclic_redirected:
  assumes "acyclic S" and "\<And>x y. (x, y) \<in> R \<Longrightarrow> x \<noteq> e \<Longrightarrow> (x, y) \<in> S" and "(e, e) \<notin> R\<^sup>+"
  shows "acyclic R"
  unfolding acyclic_def
proof (intro allI notI)
  fix a assume "(a, a) \<in> R\<^sup>+"
  from redirected_trancl [OF this assms(2)] assms(1,3) show False
    by (auto simp: acyclic_def dest: trancl_rtrancl_trancl)
qed

lemma replace_includes_elim:
  assumes "replace_includes w e included db = Inr db'"
  obtains "distinct included" "map_of (load_metadata db w) e \<noteq> None"
    "\<And>i. i \<in> set included \<Longrightarrow> map_of (load_metadata db w) i \<noteq> None"
    "find_environment_cycle e (AList.update e included (load_edges db w)) = None"
    "db' = db\<lparr>ed_includes := filter (\<lambda>r. ir_environment r \<noteq> e) (ed_includes db) @
       include_rows w e included\<rparr>"
proof -
  have "distinct included" using assms by (auto simp: replace_includes_def split: if_splits)
  moreover have names: "\<not> (map_of (load_metadata db w) e = None \<or> (\<exists>i \<in> set included. map_of (load_metadata db w) i = None))"
    using assms \<open>distinct included\<close> by (simp add: replace_includes_def Let_def split: if_splits)
  moreover have cycle: "find_environment_cycle e (AList.update e included (load_edges db w)) = None"
    using assms \<open>distinct included\<close> names
    by (simp add: replace_includes_def Let_def split: option.splits)
  moreover have "db' = db\<lparr>ed_includes := filter (\<lambda>r. ir_environment r \<noteq> e) (ed_includes db) @
      include_rows w e included\<rparr>"
    using assms \<open>distinct included\<close> names cycle by (simp add: replace_includes_def Let_def)
  ultimately show thesis by (intro that) auto
qed

lemma replaced_edges:
  assumes db': "db' = db\<lparr>ed_includes := filter (\<lambda>r. ir_environment r \<noteq> e) (ed_includes db) @
       include_rows w e included\<rparr>"
  shows "(a, b) \<in> edge_rel (load_edges db' v) \<longleftrightarrow>
    (if a = e then v = w \<and> b \<in> set included else (a, b) \<in> edge_rel (load_edges db v))"
proof -
  have mem: "r \<in> set (ed_includes db') \<longleftrightarrow>
      r \<in> set (ed_includes db) \<and> ir_environment r \<noteq> e \<or> r \<in> set (include_rows w e included)" for r
    by (auto simp: db')
  show ?thesis
  proof (cases "a = e")
    case True
    have "(\<exists>r \<in> set (ed_includes db'). ir_workspace r = v \<and> ir_environment r = e \<and> ir_included r = b) \<longleftrightarrow>
        v = w \<and> b \<in> set included"
      using mem include_rows_fields include_rows_member [of b included w e] by metis
    with True show ?thesis by (simp add: edge_rel_load_edges)
  next
    case False
    then have "(\<exists>r \<in> set (ed_includes db'). ir_workspace r = v \<and> ir_environment r = a \<and> ir_included r = b) \<longleftrightarrow>
        (\<exists>r \<in> set (ed_includes db). ir_workspace r = v \<and> ir_environment r = a \<and> ir_included r = b)"
      using mem include_rows_fields by metis
    with False show ?thesis by (simp add: edge_rel_load_edges)
  qed
qed

text \<open>The stored order of an inclusion list is the submitted order.\<close>

lemma replaced_includes:
  assumes "replace_includes w e included db = Inr db'"
  shows "includes_of (load_edges db' w) e = included"
proof -
  let ?new = "include_rows w e included"
  from assms have db': "db' = db\<lparr>ed_includes := filter (\<lambda>r. ir_environment r \<noteq> e) (ed_includes db) @ ?new\<rparr>"
    by (rule replace_includes_elim)
  have "filter (\<lambda>r. ir_workspace r = w \<and> ir_environment r = e) (ed_includes db') = ?new"
    unfolding db' by (auto simp: filter_empty_conv dest: include_rows_fields intro!: filter_True)
  then have "includes_rows db' w e = ?new"
    unfolding includes_rows_def by (simp add: sort_key_id_if_sorted include_rows_sorted)
  then show ?thesis by (simp add: load_edges_includes include_rows_map)
qed

lemma replace_includes_graph_ok:
  assumes "graph_ok db" and rep: "replace_includes w e included db = Inr db'"
  shows "graph_ok db' \<and> ed_environments db' = ed_environments db \<and> ed_profiles db' = ed_profiles db \<and>
    ed_selections db' = ed_selections db"
proof -
  note ok = graph_okD [OF assms(1)]
  from rep show ?thesis
  proof (rule replace_includes_elim)
    assume exists: "map_of (load_metadata db w) e \<noteq> None"
      "\<And>i. i \<in> set included \<Longrightarrow> map_of (load_metadata db w) i \<noteq> None"
      and cycle: "find_environment_cycle e (AList.update e included (load_edges db w)) = None"
      and db': "db' = db\<lparr>ed_includes := filter (\<lambda>r. ir_environment r \<noteq> e) (ed_includes db) @
       include_rows w e included\<rparr>"
    have row: "\<exists>r \<in> set (ed_environments db). er_id r = i \<and> er_workspace r = w"
      if "map_of (load_metadata db w) i \<noteq> None" for i
      using that unfolding load_metadata_None by blast
    have old_or_new: "i \<in> set (ed_includes db) \<or>
        ir_workspace i = w \<and> ir_environment i = e \<and> ir_included i \<in> set included"
      if "i \<in> set (ed_includes db')" for i
      using that unfolding db' by (auto dest: include_rows_fields)
    have "acyclic (edge_rel (load_edges db' v))" for v
    proof (rule acyclic_redirected [where e = e])
      show "acyclic (edge_rel (load_edges db v))" by (rule ok(4))
      show "(x, y) \<in> edge_rel (load_edges db v)" if "(x, y) \<in> edge_rel (load_edges db' v)" "x \<noteq> e" for x y
        using that by (simp add: replaced_edges [OF db'])
      show "(e, e) \<notin> (edge_rel (load_edges db' v))\<^sup>+"
      proof (cases "v = w")
        case True
        have "edge_rel (load_edges db' w) = edge_rel (AList.update e included (load_edges db w))"
          by (auto simp: replaced_edges [OF db'] set_eq_iff)
             (auto simp: edge_rel_def includes_of_def js_map.get_put split: if_splits)
        with no_cycle_reported [OF cycle, of e] True show ?thesis by simp
      next
        case False
        show ?thesis
        proof
          assume "(e, e) \<in> (edge_rel (load_edges db' v))\<^sup>+"
          then obtain x where "(e, x) \<in> edge_rel (load_edges db' v)" by (auto dest: tranclD)
          with False show False by (simp add: replaced_edges [OF db'])
        qed
      qed
    qed
    moreover have "\<exists>r \<in> set (ed_environments db). er_id r = ir_environment i \<and> er_workspace r = ir_workspace i"
      if "i \<in> set (ed_includes db')" for i
      using old_or_new [OF that] ok(2) row [OF exists(1)] by auto
    moreover have "\<exists>r \<in> set (ed_environments db). er_id r = ir_included i \<and> er_workspace r = ir_workspace i"
      if "i \<in> set (ed_includes db')" for i
      using old_or_new [OF that] ok(3) row [OF exists(2)] by auto
    ultimately have "graph_ok db'"
      using ok(1,5,6) by (intro graph_okI) (simp_all add: db')
    then show ?thesis by (simp add: db')
  qed
qed

section \<open>The operations\<close>

lemma wrapped_Inr [simp]:
  "workspace_result r1 = Inr x \<longleftrightarrow> r1 = Inr x" "profile_result r2 = Inr y \<longleftrightarrow> r2 = Inr y"
  "replace_result r3 = Inr z \<longleftrightarrow> r3 = Inr z" "composition_result r4 = Inr c \<longleftrightarrow> r4 = Inr c"
  by (cases r1; cases r2; cases r3; cases r4;
      simp add: workspace_result_def profile_result_def replace_result_def composition_result_def)+

lemma create_environment_elim:
  assumes "create_environment e profile_id fresh now user w input db = Inr (view, db')"
  obtains row mutations profiles db2 where
    "require_can_edit (ed_workspaces db) user w = Inr ()"
    "normalize_name (ei_name input) = Inr (er_name row)" "er_id row = e" "er_workspace row = w"
    "er_name_key row = environment_name_key (er_name row)" "er_revision row = 0"
    "\<not> name_taken db w e (er_name_key row)"
    "create_profile profile_id fresh False w ScopeEnvironment e 0 (ei_variables input) (ed_profiles db) =
       Inr (mutations, profiles)"
    "replace_includes w e (coalesce (ei_includes input) [])
       (db\<lparr>ed_environments := ed_environments db @ [row], ed_profiles := profiles\<rparr>) = Inr db2"
    "view_environment db' e = Inr view"
    "db' = record_secret_mutations user w e mutations
       (record_event (EnvironmentCreated e (er_name row) (coalesce (ei_includes input) [])
          (coalesce (ei_cookie_source input) FromEnvironment)) user w db2)"
proof -
  obtain description nts name mutations profiles db2 where c:
    "require_can_edit (ed_workspaces db) user w = Inr ()" "normalize_name (ei_name input) = Inr name"
    "\<not> name_taken db w e (environment_name_key name)"
    "create_profile profile_id fresh False w ScopeEnvironment e 0 (ei_variables input) (ed_profiles db) =
       Inr (mutations, profiles)"
    "replace_includes w e (coalesce (ei_includes input) [])
       (db\<lparr>ed_environments := ed_environments db @
           [\<lparr>er_id = e, er_workspace = w, er_name = name, er_name_key = environment_name_key name,
             er_description = description, er_notes = nts,
             er_cookie_source = coalesce (ei_cookie_source input) FromEnvironment,
             er_revision = 0, er_created_at = now\<rparr>], ed_profiles := profiles\<rparr>) = Inr db2"
    "view_environment db' e = Inr view"
    "db' = record_secret_mutations user w e mutations
       (record_event (EnvironmentCreated e name (coalesce (ei_includes input) [])
          (coalesce (ei_cookie_source input) FromEnvironment)) user w db2)"
    using assms
    by (auto simp: create_environment_def bindE_eq_Inr requireE_eq_Inr Let_def)
  show thesis
    by (rule that [of "\<lparr>er_id = e, er_workspace = w, er_name = name, er_name_key = environment_name_key name,
             er_description = description, er_notes = nts,
             er_cookie_source = coalesce (ei_cookie_source input) FromEnvironment,
             er_revision = 0, er_created_at = now\<rparr>"]) (use c in simp_all)
qed

lemma updated_row_fields [simp]:
  "er_id (updated_row n d t s v r) = er_id r" "er_workspace (updated_row n d t s v r) = er_workspace r"
  "er_name_key (updated_row n d t s v r) = environment_name_key n" "er_revision (updated_row n d t s v r) = v"
  "er_name (updated_row n d t s v r) = n"
  by (simp_all add: updated_row_def)

lemma update_environment_elim:
  assumes "update_environment fresh user e expected input db = Inr (view, db')"
  obtains row name description nts revision mutations profiles db2 where
    "env_row db e = Some row" "require_can_edit (ed_workspaces db) user (er_workspace row) = Inr ()"
    "er_revision row = expected" "normalize_name (ei_name input) = Inr name"
    "replace_profile fresh ScopeEnvironment e expected (ei_variables input) (ed_profiles db) =
       Inr (revision, mutations, profiles)"
    "(case ei_includes input of None \<Rightarrow> Inr (db\<lparr>ed_profiles := profiles\<rparr>)
      | Some included \<Rightarrow> replace_includes (er_workspace row) e included (db\<lparr>ed_profiles := profiles\<rparr>)) = Inr db2"
    "\<not> name_taken db (er_workspace row) e (environment_name_key name)"
    "view_environment db' e = Inr view"
    "db' = record_secret_mutations user (er_workspace row) e mutations
       (record_event (EnvironmentUpdated e (expected + 1) (ei_includes input) (ei_cookie_source input)) user
          (er_workspace row)
          (db2\<lparr>ed_environments := map (\<lambda>r. if er_id r = e
             then updated_row name description nts (ei_cookie_source input) (expected + 1) r else r)
             (ed_environments db2)\<rparr>))"
proof -
  obtain row where row: "env_row db e = Some row"
    using assms by (cases "env_row db e") (auto simp: update_environment_def bindE_eq_Inr)
  show thesis
    using assms row
    unfolding update_environment_def bindE_eq_Inr requireE_eq_Inr Let_def
    by (auto simp: bindE_eq_Inr requireE_eq_Inr updated_row_def intro!: that)
qed

lemma graph_ok_add:
  assumes ok: "graph_ok db" and fresh: "er_id row \<notin> er_id ` set (ed_environments db)"
    and free: "\<not> name_taken db (er_workspace row) (er_id row) (er_name_key row)"
    and db': "ed_environments db' = ed_environments db @ [row]" "ed_includes db' = ed_includes db"
      "ed_selections db' = ed_selections db"
  shows "graph_ok db'"
proof -
  note d = graph_okD [OF ok]
  have "load_edges db' w = load_edges db w" for w by (simp add: load_edges_def db')
  moreover have "(er_workspace row, er_name_key row) \<notin> (\<lambda>r. (er_workspace r, er_name_key r)) ` set (ed_environments db)"
  proof
    assume "(er_workspace row, er_name_key row) \<in> (\<lambda>r. (er_workspace r, er_name_key r)) ` set (ed_environments db)"
    then obtain r where r: "r \<in> set (ed_environments db)" "er_workspace r = er_workspace row"
      "er_name_key r = er_name_key row" by auto
    with fresh have "er_id r \<noteq> er_id row" by (metis imageI)
    with r free show False by (auto simp: name_taken_def list_ex_iff)
  qed
  ultimately show ?thesis
    using d fresh by (intro graph_okI) (auto simp: db' dest: d(2,3,5))
qed

lemma distinct_keys_update:
  assumes "distinct (map er_id rs)" and "distinct (map key rs)"
    and "\<And>r. r \<in> set rs \<Longrightarrow> er_id r \<noteq> e \<Longrightarrow> key r \<noteq> k" and "\<And>r. r \<in> set rs \<Longrightarrow> er_id r = e \<Longrightarrow> key (f r) = k"
  shows "distinct (map (\<lambda>r. key (if er_id r = e then f r else r)) rs)"
  using assms
proof (induction rs)
  case (Cons r rs)
  have ih: "distinct (map (\<lambda>r. key (if er_id r = e then f r else r)) rs)"
    using Cons.prems by (intro Cons.IH) auto
  have "key (if er_id r = e then f r else r) \<noteq> key (if er_id x = e then f x else x)" if "x \<in> set rs" for x
  proof -
    have "er_id r \<noteq> er_id x" "key r \<noteq> key x" using Cons.prems(1,2) that by auto
    then show ?thesis using Cons.prems(3) [of r] Cons.prems(3) [of x] Cons.prems(4) [of r] Cons.prems(4) [of x] that
      by (cases "er_id r = e"; cases "er_id x = e") auto
  qed
  then have "key (if er_id r = e then f r else r) \<notin> (\<lambda>r. key (if er_id r = e then f r else r)) ` set rs" by blast
  with ih show ?case by (simp only: list.map distinct.simps list.set_map) simp
qed simp

lemma graph_ok_update:
  assumes ok: "graph_ok db" and row: "env_row db e = Some row"
    and free: "\<not> name_taken db (er_workspace row) e (environment_name_key name)"
    and db': "ed_environments db' = map (\<lambda>r. if er_id r = e then updated_row name d t src v r else r) (ed_environments db)"
      "ed_includes db' = ed_includes db" "ed_selections db' = ed_selections db"
  shows "graph_ok db'"
proof -
  note d = graph_okD [OF ok]
  let ?f = "\<lambda>r. if er_id r = e then updated_row name d t src v r else r"
  have ids: "map er_id (ed_environments db') = map er_id (ed_environments db)"
    by (simp add: db' comp_def if_distrib cong: if_cong)
  have kept: "\<exists>r \<in> set (ed_environments db'). er_id r = i \<and> er_workspace r = w"
    if "\<exists>r \<in> set (ed_environments db). er_id r = i \<and> er_workspace r = w" for i w
  proof -
    from that obtain r where "r \<in> set (ed_environments db)" "er_id r = i" "er_workspace r = w" by blast
    then show ?thesis by (intro bexI [of _ "?f r"]) (auto simp: db')
  qed
  have same: "er_workspace r = er_workspace row" if "r \<in> set (ed_environments db)" "er_id r = e" for r
    using env_row_iff [OF d(1), of e r] row that by simp
  have "distinct (map (\<lambda>r. (\<lambda>r. (er_workspace r, er_name_key r)) (?f r)) (ed_environments db))"
    using free by (intro distinct_keys_update [OF d(1) d(6), where k = "(er_workspace row, environment_name_key name)"])
      (auto simp: name_taken_def list_ex_iff same)
  moreover have "load_edges db' w = load_edges db w" for w by (simp add: load_edges_def db')
  ultimately show ?thesis
    using d(1,4) kept d(2,3,5) by (intro graph_okI) (simp_all add: ids db'(2,3), simp_all add: db' comp_def)
qed

lemma revisions_okD:
  "revisions_ok db \<Longrightarrow> r \<in> set (ed_environments db) \<Longrightarrow>
     \<exists>p. metadata (ed_profiles db) ScopeEnvironment (er_id r) = Some p \<and> vp_revision p = er_revision r"
  unfolding revisions_ok_def by blast

lemma create_environment_ok:
  assumes "env_ok db" and "create_environment e profile_id fresh now user w input db = Inr (view, db')"
    and "e \<notin> er_id ` set (ed_environments db)"
  shows "env_ok db'"
  using assms(2)
proof (rule create_environment_elim)
  fix row mutations profiles db2
  let ?db1 = "db\<lparr>ed_environments := ed_environments db @ [row], ed_profiles := profiles\<rparr>"
  assume row: "er_id row = e" "er_workspace row = w" "er_revision row = 0"
    and free: "\<not> name_taken db w e (er_name_key row)"
    and prof: "create_profile profile_id fresh False w ScopeEnvironment e 0 (ei_variables input) (ed_profiles db) =
       Inr (mutations, profiles)"
    and rep: "replace_includes w e (coalesce (ei_includes input) []) ?db1 = Inr db2"
    and db': "db' = record_secret_mutations user w e mutations
       (record_event (EnvironmentCreated e (er_name row) (coalesce (ei_includes input) [])
          (coalesce (ei_cookie_source input) FromEnvironment)) user w db2)"
  have "graph_ok ?db1"
    by (rule graph_ok_add [where db = db and row = row]) (use assms(1,3) free row in \<open>simp_all add: env_ok_def\<close>)
  from replace_includes_graph_ok [OF this rep]
  have two: "graph_ok db2" "ed_environments db2 = ed_environments db @ [row]" "ed_profiles db2 = profiles" by auto
  have "revisions_ok db2"
    using prof
  proof (rule create_profile_metadata)
    fix rows
    assume meta: "\<And>k s. metadata profiles k s =
      (if k = ScopeEnvironment \<and> s = e
       then Some \<lparr>vp_id = profile_id, vp_workspace = w, vp_scope_kind = ScopeEnvironment,
               vp_scope_id = e, vp_revision = 0, vp_variables = rows\<rparr>
       else metadata (ed_profiles db) k s)"
    have "\<exists>p. metadata profiles ScopeEnvironment (er_id r) = Some p \<and> vp_revision p = er_revision r"
      if "r \<in> set (ed_environments db @ [row])" for r
    proof (cases "r = row")
      case True
      then show ?thesis by (simp add: meta row)
    next
      case False
      with that have old: "r \<in> set (ed_environments db)" by simp
      with assms(3) have "er_id r \<noteq> e" by (metis imageI)
      with revisions_okD [OF _ old] assms(1) show ?thesis by (simp add: meta env_ok_def)
    qed
    then show ?thesis unfolding revisions_ok_def two by blast
  qed
  moreover have "graph_ok db' = graph_ok db2" by (rule graph_ok_cong) (simp_all add: db')
  moreover have "revisions_ok db' = revisions_ok db2" by (rule revisions_ok_cong) (simp_all add: db')
  ultimately show ?thesis using two(1) by (simp add: env_ok_def)
qed

lemma update_environment_ok:
  assumes "env_ok db" and "update_environment fresh user e expected input db = Inr (view, db')"
  shows "env_ok db'"
  using assms(2)
proof (rule update_environment_elim)
  fix row name description nts revision mutations profiles db2
  let ?db1 = "db\<lparr>ed_profiles := profiles\<rparr>"
  let ?f = "\<lambda>r. if er_id r = e
    then updated_row name description nts (ei_cookie_source input) (expected + 1) r else r"
  assume row: "env_row db e = Some row" "er_revision row = expected"
    and prof: "replace_profile fresh ScopeEnvironment e expected (ei_variables input) (ed_profiles db) =
       Inr (revision, mutations, profiles)"
    and rep: "(case ei_includes input of None \<Rightarrow> Inr ?db1
      | Some included \<Rightarrow> replace_includes (er_workspace row) e included ?db1) = Inr db2"
    and free: "\<not> name_taken db (er_workspace row) e (environment_name_key name)"
    and db': "db' = record_secret_mutations user (er_workspace row) e mutations
       (record_event (EnvironmentUpdated e (expected + 1) (ei_includes input) (ei_cookie_source input)) user
          (er_workspace row) (db2\<lparr>ed_environments := map ?f (ed_environments db2)\<rparr>))"
  have "graph_ok ?db1" using assms(1) graph_ok_cong [of ?db1 db] by (simp add: env_ok_def)
  then have two: "graph_ok db2" "ed_environments db2 = ed_environments db" "ed_profiles db2 = profiles"
    using rep replace_includes_graph_ok [OF \<open>graph_ok ?db1\<close>] by (auto split: option.splits)
  have "graph_ok db'"
    by (rule graph_ok_update [OF two(1), where e = e and row = row and name = name and d = description
          and t = nts and src = "ei_cookie_source input" and v = "expected + 1"])
       (use row free two(2) in \<open>simp_all add: db' env_row_def name_taken_def\<close>)
  moreover have "revisions_ok db'"
    using prof
  proof (rule replace_profile_metadata)
    fix p rows
    assume p: "metadata (ed_profiles db) ScopeEnvironment e = Some p"
      and meta: "\<And>k s. metadata profiles k s =
      (if k = ScopeEnvironment \<and> s = e then Some (p\<lparr>vp_revision := expected + 1, vp_variables := rows\<rparr>)
       else metadata (ed_profiles db) k s)"
    have "\<exists>p. metadata profiles ScopeEnvironment (er_id (?f r)) = Some p \<and> vp_revision p = er_revision (?f r)"
      if r: "r \<in> set (ed_environments db)" for r
      using revisions_okD [OF _ r] assms(1) by (cases "er_id r = e") (simp_all add: meta env_ok_def)
    moreover have "ed_environments db' = map ?f (ed_environments db)" "ed_profiles db' = profiles"
      by (simp_all add: db' two)
    ultimately show ?thesis unfolding revisions_ok_def by (simp only: list.set_map ball_simps) blast
  qed
  ultimately show ?thesis by (simp add: env_ok_def)
qed

lemma dependents_none:
  assumes "graph_ok db" and "dependents db e = []" and "i \<in> set (ed_includes db)"
  shows "ir_included i \<noteq> e"
proof
  assume "ir_included i = e"
  with assms(2,3) have "env_row db (ir_environment i) = None"
    by (auto simp: dependents_def concat_eq_Nil_conv split: option.splits)
  with graph_okD(2) [OF assms(1,3)] show False by (auto simp: env_row_def find_None_iff)
qed

lemma delete_environment_elim:
  assumes "delete_environment user e expected db = Inr db'"
  obtains row where "env_row db e = Some row" "require_can_edit (ed_workspaces db) user (er_workspace row) = Inr ()"
    "er_revision row = expected" "dependents db e = []"
    "db' = record_secret_mutations user (er_workspace row) e (deleted_secrets db e)
      (record_event (EnvironmentDeleted e) user (er_workspace row)
        (db\<lparr>ed_profiles := delete_profile ScopeEnvironment e (ed_profiles db),
            ed_environments := filter (\<lambda>r. er_id r \<noteq> e) (ed_environments db),
            ed_includes := filter (\<lambda>r. ir_environment r \<noteq> e) (ed_includes db),
            ed_selections := filter (\<lambda>(k, s). s \<noteq> e) (ed_selections db)\<rparr>))"
proof -
  obtain row where row: "env_row db e = Some row"
    using assms by (cases "env_row db e") (auto simp: delete_environment_def)
  with assms show thesis
    by (intro that [of row]) (auto simp: delete_environment_def bindE_eq_Inr requireE_eq_Inr Let_def)
qed

lemma distinct_map_filter_all: "distinct (map f xs) \<Longrightarrow> distinct (map f (filter P xs))"
  by (rule distinct_map_filter)

lemma delete_environment_ok:
  assumes "env_ok db" and "delete_environment user e expected db = Inr db'"
  shows "env_ok db'"
  using assms(2)
proof (rule delete_environment_elim)
  fix row
  assume none: "dependents db e = []"
    and db': "db' = record_secret_mutations user (er_workspace row) e (deleted_secrets db e)
      (record_event (EnvironmentDeleted e) user (er_workspace row)
        (db\<lparr>ed_profiles := delete_profile ScopeEnvironment e (ed_profiles db),
            ed_environments := filter (\<lambda>r. er_id r \<noteq> e) (ed_environments db),
            ed_includes := filter (\<lambda>r. ir_environment r \<noteq> e) (ed_includes db),
            ed_selections := filter (\<lambda>(k, s). s \<noteq> e) (ed_selections db)\<rparr>))"
  have ok: "graph_ok db" "revisions_ok db" using assms(1) by (simp_all add: env_ok_def)
  note d = graph_okD [OF ok(1)]
  have kept: "\<exists>r \<in> set (ed_environments db'). er_id r = i \<and> er_workspace r = w"
    if "\<exists>r \<in> set (ed_environments db). er_id r = i \<and> er_workspace r = w" "i \<noteq> e" for i w
    using that by (auto simp: db')
  have "edge_rel (load_edges db' w) \<subseteq> edge_rel (load_edges db w)" for w
    by (auto simp: edge_rel_load_edges db')
  then have "acyclic (edge_rel (load_edges db' w))" for w using d(4) acyclic_subset by blast
  then have "graph_ok db'"
    using d(1,6) kept d(2,3,5) dependents_none [OF ok(1) none]
    by (intro graph_okI) (auto simp: db' distinct_map_filter)
  moreover have "revisions_ok db'"
    using ok(2) by (auto simp: revisions_ok_def db' delete_profile_metadata)
  ultimately show ?thesis by (simp add: env_ok_def)
qed

lemma select_environment_ok:
  assumes "env_ok db" and "select_environment user session w choice db = Inr db'"
  shows "env_ok db'"
proof -
  have ok: "graph_ok db" "revisions_ok db" using assms(1) by (simp_all add: env_ok_def)
  note d = graph_okD [OF ok(1)]
  have fields: "ed_environments db' = ed_environments db" "ed_includes db' = ed_includes db"
    "ed_profiles db' = ed_profiles db"
    using assms(2) by (auto simp: select_environment_def bindE_eq_Inr split: option.splits if_splits)
  have "\<exists>r \<in> set (ed_environments db). er_id r = x \<and> er_workspace r = v"
    if "((s, v), x) \<in> set (ed_selections db')" for s v x
  proof (cases choice)
    case None
    then have "ed_selections db' = AList.delete (session, w) (ed_selections db)"
      using assms(2) by (auto simp: select_environment_def bindE_eq_Inr)
    with that have "((s, v), x) \<in> set (ed_selections db)" by (auto simp: AList.delete_eq)
    then show ?thesis by (rule d(5))
  next
    case (Some e)
    then obtain row where row: "env_row db e = Some row" "er_workspace row = w"
      and sel: "ed_selections db' = AList.update (session, w) e (ed_selections db)"
      using assms(2) by (auto simp: select_environment_def bindE_eq_Inr split: option.splits if_splits)
    have "((s, v), x) \<in> set (ed_selections db) \<or> s = session \<and> v = w \<and> x = e"
      using that unfolding sel by (auto dest: alist_update_member)
    with d(5) env_row_SomeD [OF row(1)] row(2) show ?thesis by auto
  qed
  moreover have "load_edges db' v = load_edges db v" for v by (simp add: load_edges_def fields)
  ultimately have "graph_ok db'" using d(1,2,3,4,6) by (intro graph_okI) (simp_all add: fields)
  moreover have "revisions_ok db' = revisions_ok db" by (rule revisions_ok_cong) (simp_all add: fields)
  ultimately show ?thesis using ok(2) by (simp add: env_ok_def)
qed

end
