(* ===== verification/Variable_Service.thy ===== *)
theory Variable_Service
  imports Environment_Invariant
begin

text \<open>
  Variable profiles of workspaces, collections and requests, their layering with the selected
  environment, and the durable writes of post-response scripts (\<open>VariableService\<close> in
  \<open>apps/backend/src/variables/variable-service.ts\<close>). \<open>nodes\<close> is the table \<open>workspace_tree_nodes\<close>,
  which these operations only read.
\<close>

section \<open>Data\<close>

datatype node_kind = CollectionNode | RequestNode

record tree_node =
  tn_id :: entity_id
  tn_workspace :: entity_id
  tn_parent :: "entity_id option"
  tn_kind :: node_kind
  tn_name :: string

datatype variable_error =
    ScopeMissing
  | ParentCollectionMissing
  | HierarchyBroken
  | AccessFailure workspace_error
  | EnvironmentFailure environment_error
  | ProfileRejected profile_error
  | WriteDenied
  | EditDenied
  | TargetUnavailable
  | TargetGone
  | TargetOutside
  | WriteConflict

record scope_identity =
  si_workspace :: entity_id
  si_kind :: scope_kind
  si_id :: entity_id
  si_name :: string
  si_parent :: "entity_id option"

record profile_source =
  ps_scope :: scope_kind
  ps_id :: entity_id
  ps_name :: string
  ps_revision :: nat

record 'v layer =
  ly_source :: profile_source
  ly_variables :: "'v list"

type_synonym profile_evidence = "scope_kind \<times> entity_id \<times> nat"

record effective_profile =
  ep_variables :: "(string \<times> resolved_variable) list"
  ep_sources :: "(string \<times> profile_source) list"
  ep_evidence :: "profile_evidence list"
  ep_environment :: "entity_id option"
  ep_cookie_environment :: "entity_id option"

section \<open>Scopes\<close>

definition workspace_row :: "environment_db \<Rightarrow> entity_id \<Rightarrow> workspace option" where
  "workspace_row db w = find (\<lambda>r. ws_id r = w) (wd_workspaces (ed_workspaces db))"

definition tree_node_row :: "tree_node list \<Rightarrow> node_kind \<Rightarrow> entity_id \<Rightarrow> tree_node option" where
  "tree_node_row nodes kind i = find (\<lambda>n. tn_id n = i \<and> tn_kind n = kind) nodes"

definition node_identity :: "scope_kind \<Rightarrow> tree_node option \<Rightarrow> variable_error + scope_identity" where
  "node_identity kind node =
     (case node of
        None \<Rightarrow> Inl ScopeMissing
      | Some n \<Rightarrow> Inr \<lparr>si_workspace = tn_workspace n, si_kind = kind, si_id = tn_id n,
                   si_name = tn_name n, si_parent = tn_parent n\<rparr>)"

fun scope_identity_of ::
  "environment_db \<Rightarrow> tree_node list \<Rightarrow> scope_kind \<Rightarrow> entity_id \<Rightarrow> variable_error + scope_identity" where
  "scope_identity_of db nodes ScopeWorkspace i =
     (case workspace_row db i of
        None \<Rightarrow> Inl ScopeMissing
      | Some r \<Rightarrow> Inr \<lparr>si_workspace = ws_id r, si_kind = ScopeWorkspace, si_id = i, si_name = ws_name r,
                   si_parent = None\<rparr>)"
| "scope_identity_of db nodes ScopeCollection i = node_identity ScopeCollection (tree_node_row nodes CollectionNode i)"
| "scope_identity_of db nodes ScopeRequest i = node_identity ScopeRequest (tree_node_row nodes RequestNode i)"
| "scope_identity_of db nodes ScopeEnvironment i = Inl ScopeMissing"

text \<open>\<open>#collectionPath\<close>, root first; at most 64 collections are visited.\<close>

function collection_path_from ::
  "tree_node list \<Rightarrow> entity_id \<Rightarrow> entity_id list \<Rightarrow> (entity_id \<times> string) list \<Rightarrow> entity_id option
     \<Rightarrow> variable_error + (entity_id \<times> string) list" where
  "collection_path_from nodes w visited path None = Inr path"
| "collection_path_from nodes w visited path (Some current) =
     (if current \<in> set visited \<or> length visited \<ge> 64 then Inl HierarchyBroken
      else (case tree_node_row nodes CollectionNode current of
          None \<Rightarrow> Inl ParentCollectionMissing
        | Some n \<Rightarrow>
            if tn_workspace n \<noteq> w then Inl ParentCollectionMissing
            else collection_path_from nodes w (visited @ [current]) ((tn_id n, tn_name n) # path) (tn_parent n)))"
  by pat_completeness auto
termination
  by (relation "measure (\<lambda>(nodes, w, visited, path, current). 64 - length visited)") auto

definition collection_path ::
  "tree_node list \<Rightarrow> entity_id \<Rightarrow> entity_id option \<Rightarrow> variable_error + (entity_id \<times> string) list" where
  "collection_path nodes w parent = collection_path_from nodes w [] [] parent"

section \<open>Layers\<close>

definition profile_layer ::
  "environment_db \<Rightarrow> (profile_store \<Rightarrow> scope_kind \<Rightarrow> entity_id \<Rightarrow> 'v list)
     \<Rightarrow> scope_kind \<Rightarrow> entity_id \<Rightarrow> string \<Rightarrow> 'v layer list" where
  "profile_layer db load kind i name =
     (case metadata (ed_profiles db) kind i of
        None \<Rightarrow> []
      | Some p \<Rightarrow> [\<lparr>ly_source = \<lparr>ps_scope = kind, ps_id = i, ps_name = name, ps_revision = vp_revision p\<rparr>,
                  ly_variables = load (ed_profiles db) kind i\<rparr>])"

definition environment_source :: "environment_meta \<Rightarrow> profile_source" where
  "environment_source m =
     \<lparr>ps_scope = ScopeEnvironment, ps_id = em_id m, ps_name = em_name m, ps_revision = em_revision m\<rparr>"

definition source_evidence :: "profile_source \<Rightarrow> profile_evidence" where
  "source_evidence s = (ps_scope s, ps_id s, ps_revision s)"

definition add_layer :: "effective_profile \<Rightarrow> resolved_variable layer \<Rightarrow> effective_profile" where
  "add_layer p l = p\<lparr>
     ep_variables := foldl (\<lambda>m v. AList.update (rv_name v) v m) (ep_variables p) (ly_variables l),
     ep_sources := foldl (\<lambda>m v. AList.update (rv_name v) (ly_source l) m) (ep_sources p) (ly_variables l),
     ep_evidence := ep_evidence p @ [source_evidence (ly_source l)]\<rparr>"

definition add_environment ::
  "effective_profile \<Rightarrow> environment_meta \<Rightarrow> resolved_variable composed \<Rightarrow> effective_profile" where
  "add_environment p m c = p\<lparr>
     ep_variables := foldl (\<lambda>m (n, v). AList.update (rv_name v) v m) (ep_variables p) (co_variables c),
     ep_sources := foldl (\<lambda>m (n, v). case map_of (co_sources c) (rv_name v) of
         None \<Rightarrow> m | Some s \<Rightarrow> AList.update (rv_name v) (environment_source s) m)
       (ep_sources p) (co_variables c),
     ep_evidence := ep_evidence p @ map (\<lambda>s. (ScopeEnvironment, em_id s, em_revision s)) (co_evidence c),
     ep_environment := Some (em_id m),
     ep_cookie_environment := (if em_cookie_source m = FromEnvironment then Some (em_id m) else None)\<rparr>"

definition empty_profile :: effective_profile where
  "empty_profile = \<lparr>ep_variables = [], ep_sources = [], ep_evidence = [], ep_environment = None,
     ep_cookie_environment = None\<rparr>"

definition request_identity ::
  "environment_db \<Rightarrow> tree_node list \<Rightarrow> entity_id \<Rightarrow> entity_id option \<Rightarrow> variable_error + scope_identity option" where
  "request_identity db nodes w request =
     (case request of
        None \<Rightarrow> Inr None
      | Some r \<Rightarrow>
          bindE (scope_identity_of db nodes ScopeRequest r) (\<lambda>identity.
          if si_workspace identity \<noteq> w then Inl ScopeMissing else Inr (Some identity)))"

definition environment_failure :: "environment_error + 'a \<Rightarrow> variable_error + 'a" where
  "environment_failure r = (case r of Inl e \<Rightarrow> Inl (EnvironmentFailure e) | Inr x \<Rightarrow> Inr x)"

definition access_failure :: "workspace_error + 'a \<Rightarrow> variable_error + 'a" where
  "access_failure r = (case r of Inl e \<Rightarrow> Inl (AccessFailure e) | Inr x \<Rightarrow> Inr x)"

definition profile_failure :: "profile_error + 'a \<Rightarrow> variable_error + 'a" where
  "profile_failure r = (case r of Inl e \<Rightarrow> Inl (ProfileRejected e) | Inr x \<Rightarrow> Inr x)"

text \<open>\<open>effectiveProfile\<close>\<close>

definition effective_profile_of ::
  "environment_db \<Rightarrow> tree_node list \<Rightarrow> entity_id \<Rightarrow> entity_id \<Rightarrow> entity_id option \<Rightarrow> entity_id option
     \<Rightarrow> variable_error + effective_profile" where
  "effective_profile_of db nodes session w parent request =
     bindE (request_identity db nodes w request) (\<lambda>identity.
     case workspace_row db w of
       None \<Rightarrow> Inl ScopeMissing
     | Some row \<Rightarrow>
         bindE (environment_failure (selected_profile db session w)) (\<lambda>environment.
         bindE (collection_path nodes w (case identity of None \<Rightarrow> parent | Some r \<Rightarrow> si_parent r)) (\<lambda>collections.
         let lower = profile_layer db resolved_variables ScopeWorkspace w (ws_name row);
             higher = concat (map (\<lambda>(i, name). profile_layer db resolved_variables ScopeCollection i name) collections)
               @ (case identity of
                    None \<Rightarrow> []
                  | Some r \<Rightarrow> profile_layer db resolved_variables ScopeRequest (si_id r) (si_name r));
             base = foldl add_layer empty_profile lower;
             middle = (case environment of None \<Rightarrow> base | Some (m, c) \<Rightarrow> add_environment base m c) in
         Inr (foldl add_layer middle higher))))"

text \<open>\<open>resolveTemporaryVariableWrites\<close>: the loop with its sets of used identifiers and names.\<close>

definition temporary_content :: "variable_write \<Rightarrow> entity_id \<Rightarrow> resolved_variable" where
  "temporary_content w i =
     \<lparr>rv_id = i, rv_name = wr_name w, rv_kind = write_kind (wr_body w),
      rv_value = (case wr_body w of WriteValue v \<Rightarrow> Some v
        | WriteSecret v clear \<Rightarrow> if clear then None else v | _ \<Rightarrow> None),
      rv_alias_target = (case wr_body w of WriteAlias t \<Rightarrow> Some t | _ \<Rightarrow> None),
      rv_secret_version = (case wr_body w of WriteSecret v clear \<Rightarrow> Some 1 | _ \<Rightarrow> None)\<rparr>"

definition resolve_temporary ::
  "(nat \<Rightarrow> entity_id) \<Rightarrow> entity_id list \<times> string list \<times> resolved_variable list \<Rightarrow> variable_write
     \<Rightarrow> profile_error + (entity_id list \<times> string list \<times> resolved_variable list)" where
  "resolve_temporary fresh st w =
     (case st of (used_ids, used_names, out) \<Rightarrow>
        bindE (validate_variable_name (wr_name w)) (\<lambda>_.
        bindE (requireE (wr_name w \<notin> set used_names) DuplicateVariableName) (\<lambda>_.
        let i = (case wr_id w of Some i \<Rightarrow> i | None \<Rightarrow> fresh (length out)) in
        bindE (requireE (i \<notin> set used_ids) DuplicateIdentifier) (\<lambda>_.
        bindE (case wr_body w of WriteAlias t \<Rightarrow> validate_variable_name t | _ \<Rightarrow> Inr ()) (\<lambda>_.
        Inr (used_ids @ [i], used_names @ [wr_name w], out @ [temporary_content w i]))))))"

definition effective_temporary_profile ::
  "(nat \<Rightarrow> entity_id) \<Rightarrow> environment_db \<Rightarrow> tree_node list \<Rightarrow> entity_id \<Rightarrow> entity_id \<Rightarrow> entity_id option
     \<Rightarrow> entity_id \<Rightarrow> string \<Rightarrow> variable_write list \<Rightarrow> variable_error + effective_profile" where
  "effective_temporary_profile fresh db nodes session w parent scope name writes =
     bindE (effective_profile_of db nodes session w parent None) (\<lambda>inherited.
     bindE (profile_failure (foldE (resolve_temporary fresh) ([], [], []) writes)) (\<lambda>(_, _, variables).
     let source = \<lparr>ps_scope = ScopeRequest, ps_id = scope, ps_name = name, ps_revision = 0\<rparr> in
     Inr ((add_layer inherited \<lparr>ly_source = source, ly_variables = variables\<rparr>)
       \<lparr>ep_evidence := ep_evidence inherited\<rparr>)))"

text \<open>\<open>previewVariables\<close> over the effective profile.\<close>

definition preview_effective :: "effective_profile \<Rightarrow> string list \<Rightarrow> variable_error + profile_source preview list" where
  "preview_effective p names =
     (let variables = variable_map (map snd (ep_variables p)) in
      mapE (\<lambda>name. bindE (profile_failure (validate_variable_name name)) (\<lambda>_.
        Inr (preview_variable variables (map_of (ep_sources p) name) name))) names)"

record temporary_request =
  tr_scope :: entity_id
  tr_name :: string
  tr_writes :: "variable_write list"

definition preview_scopes ::
  "(nat \<Rightarrow> entity_id) \<Rightarrow> entity_id \<Rightarrow> entity_id \<Rightarrow> entity_id \<Rightarrow> entity_id option \<Rightarrow> entity_id option \<Rightarrow> string list
     \<Rightarrow> temporary_request option \<Rightarrow> tree_node list \<Rightarrow> environment_db
     \<Rightarrow> variable_error + profile_source preview list" where
  "preview_scopes fresh user session w parent request names temporary nodes db =
     bindE (access_failure (require_can_read (ed_workspaces db) user w)) (\<lambda>_.
     bindE (case temporary of
              None \<Rightarrow> effective_profile_of db nodes session w parent request
            | Some t \<Rightarrow> effective_temporary_profile fresh db nodes session w parent
                (tr_scope t) (tr_name t) (tr_writes t)) (\<lambda>p.
     preview_effective p names))"

section \<open>Views\<close>

definition inherit_layer ::
  "(string \<times> variable_view \<times> profile_source) list \<Rightarrow> variable_view layer
     \<Rightarrow> (string \<times> variable_view \<times> profile_source) list" where
  "inherit_layer m l = foldl (\<lambda>m v. AList.update (vv_name v) (v, ly_source l) m) m (ly_variables l)"

definition inherited_of ::
  "environment_db \<Rightarrow> tree_node list \<Rightarrow> entity_id option \<Rightarrow> scope_identity
     \<Rightarrow> variable_error + (variable_view \<times> profile_source) list" where
  "inherited_of db nodes session identity =
     (if si_kind identity = ScopeWorkspace then Inr []
      else case workspace_row db (si_workspace identity) of
        None \<Rightarrow> Inl ScopeMissing
      | Some row \<Rightarrow>
          bindE (case session of
                   None \<Rightarrow> Inr None
                 | Some s \<Rightarrow> environment_failure (selected_redacted_profile db s (si_workspace identity))) (\<lambda>environment.
          bindE (collection_path nodes (si_workspace identity) (si_parent identity)) (\<lambda>collections.
          let lower = profile_layer db redacted_variables ScopeWorkspace (si_workspace identity) (ws_name row);
              higher = concat (map (\<lambda>(i, name). profile_layer db redacted_variables ScopeCollection i name) collections);
              base = foldl inherit_layer [] lower;
              middle = (case environment of
                  None \<Rightarrow> base
                | Some (m, c) \<Rightarrow> foldl (\<lambda>acc (n, v). case map_of (co_sources c) (vv_name v) of
                      None \<Rightarrow> acc
                    | Some s \<Rightarrow> AList.update (vv_name v) (v, environment_source s) acc) base (co_variables c)) in
          Inr (map snd (foldl inherit_layer middle higher)))))"

record profile_view =
  pf_identity :: scope_identity
  pf_revision :: nat
  pf_variables :: "variable_view list"
  pf_inherited :: "(variable_view \<times> profile_source) list"

definition view_profile ::
  "environment_db \<Rightarrow> tree_node list \<Rightarrow> entity_id option \<Rightarrow> scope_identity \<Rightarrow> variable_error + profile_view" where
  "view_profile db nodes session identity =
     bindE (inherited_of db nodes session identity) (\<lambda>inherited.
     Inr \<lparr>pf_identity = identity,
          pf_revision = (case metadata (ed_profiles db) (si_kind identity) (si_id identity) of
              None \<Rightarrow> 0 | Some p \<Rightarrow> vp_revision p),
          pf_variables = redacted_variables (ed_profiles db) (si_kind identity) (si_id identity),
          pf_inherited = inherited\<rparr>)"

definition get_profile ::
  "entity_id \<Rightarrow> scope_kind \<Rightarrow> entity_id \<Rightarrow> entity_id option \<Rightarrow> tree_node list \<Rightarrow> environment_db
     \<Rightarrow> variable_error + profile_view" where
  "get_profile user kind i session nodes db =
     bindE (scope_identity_of db nodes kind i) (\<lambda>identity.
     bindE (access_failure (require_can_read (ed_workspaces db) user (si_workspace identity))) (\<lambda>_.
     view_profile db nodes session identity))"

definition get_temporary_profile ::
  "entity_id \<Rightarrow> entity_id \<Rightarrow> entity_id \<Rightarrow> entity_id option \<Rightarrow> entity_id \<Rightarrow> string \<Rightarrow> tree_node list
     \<Rightarrow> environment_db \<Rightarrow> variable_error + profile_view" where
  "get_temporary_profile user session w parent scope name nodes db =
     bindE (access_failure (require_can_read (ed_workspaces db) user w)) (\<lambda>_.
     let identity = \<lparr>si_workspace = w, si_kind = ScopeRequest, si_id = scope, si_name = name,
           si_parent = parent\<rparr> in
     bindE (inherited_of db nodes (Some session) identity) (\<lambda>inherited.
     Inr \<lparr>pf_identity = identity, pf_revision = 0, pf_variables = [], pf_inherited = inherited\<rparr>))"

section \<open>Profile updates\<close>

definition record_profile_mutations ::
  "entity_id \<Rightarrow> entity_id \<Rightarrow> scope_kind \<Rightarrow> entity_id \<Rightarrow> entity_id option \<Rightarrow> secret_mutation list
     \<Rightarrow> environment_db \<Rightarrow> environment_db" where
  "record_profile_mutations user w kind i execution mutations db =
     db\<lparr>ed_audit := ed_audit db @
         map (\<lambda>m. (ProfileSecretChanged kind i m execution, user, w)) mutations\<rparr>"

definition write_profile ::
  "entity_id \<Rightarrow> (nat \<Rightarrow> entity_id) \<Rightarrow> bool \<Rightarrow> entity_id \<Rightarrow> scope_kind \<Rightarrow> entity_id \<Rightarrow> nat \<Rightarrow> variable_write list
     \<Rightarrow> profile_store \<Rightarrow> profile_error + (nat \<times> secret_mutation list \<times> profile_store)" where
  "write_profile profile_id fresh allow w kind i expected writes st =
     (case metadata st kind i of
        None \<Rightarrow>
          if expected \<noteq> 0 then Inl ProfileChanged
          else bindE (create_profile profile_id fresh allow w kind i 1 writes st) (\<lambda>(mutations, st').
            Inr (1, mutations, st'))
      | Some p \<Rightarrow> replace_profile fresh kind i expected writes st)"

definition update_profile_in ::
  "entity_id \<Rightarrow> (nat \<Rightarrow> entity_id) \<Rightarrow> bool \<Rightarrow> entity_id option \<Rightarrow> entity_id \<Rightarrow> scope_kind \<Rightarrow> entity_id \<Rightarrow> nat
     \<Rightarrow> variable_write list \<Rightarrow> tree_node list \<Rightarrow> environment_db
     \<Rightarrow> variable_error + (profile_view \<times> environment_db)" where
  "update_profile_in profile_id fresh allow session user kind i expected writes nodes db =
     bindE (scope_identity_of db nodes kind i) (\<lambda>identity.
     bindE (access_failure (require_can_read (ed_workspaces db) user (si_workspace identity))) (\<lambda>_.
     bindE (access_failure (require_can_edit (ed_workspaces db) user (si_workspace identity))) (\<lambda>_.
     bindE (profile_failure (write_profile profile_id fresh allow (si_workspace identity) kind i expected writes
              (ed_profiles db))) (\<lambda>(revision, mutations, profiles).
     let db1 = record_profile_mutations user (si_workspace identity) kind i None mutations
           (record_event (ProfileUpdated kind i revision None) user (si_workspace identity)
             (db\<lparr>ed_profiles := profiles\<rparr>)) in
     bindE (view_profile db1 nodes session identity) (\<lambda>view. Inr (view, db1))))))"

definition clone_request_profile ::
  "entity_id \<Rightarrow> (nat \<Rightarrow> entity_id) \<Rightarrow> entity_id \<Rightarrow> entity_id \<Rightarrow> entity_id \<Rightarrow> entity_id \<Rightarrow> environment_db
     \<Rightarrow> variable_error + environment_db" where
  "clone_request_profile profile_id fresh user w source target db =
     bindE (profile_failure (clone_profile profile_id fresh w ScopeRequest source target (ed_profiles db)))
       (\<lambda>(mutations, profiles).
     case mutations of
       None \<Rightarrow> Inr db
     | Some ms \<Rightarrow>
         Inr (record_profile_mutations user w ScopeRequest target None ms
           (record_event (ProfileDuplicated source target) user w (db\<lparr>ed_profiles := profiles\<rparr>))))"

section \<open>Script writes\<close>

datatype write_scope = ToWorkspace | ToParentCollection | ToRequest | ToEnvironment

record script_write =
  sw_scope :: write_scope
  sw_name :: string
  sw_secret :: bool
  sw_value :: string

record write_policy =
  wy_scopes :: "write_scope list"
  wy_secrets :: bool

record write_target =
  wt_kind :: scope_kind
  wt_id :: entity_id
  wt_revision :: nat

record write_targets =
  tt_workspace :: write_target
  tt_parent :: "write_target option"
  tt_request :: "write_target option"
  tt_environment :: "write_target option"

fun script_write_target :: "write_targets \<Rightarrow> write_scope \<Rightarrow> write_target option" where
  "script_write_target t ToWorkspace = Some (tt_workspace t)"
| "script_write_target t ToParentCollection = tt_parent t"
| "script_write_target t ToRequest = tt_request t"
| "script_write_target t ToEnvironment = tt_environment t"

fun preserved_body :: "variable_view_body \<Rightarrow> write_body" where
  "preserved_body (ViewValue v) = WriteValue v"
| "preserved_body (ViewAlias t) = WriteAlias t"
| "preserved_body ViewUnset = WriteUnset"
| "preserved_body (ViewSecret has n) = WriteSecret None False"

definition preserved_write :: "variable_view \<Rightarrow> variable_write" where
  "preserved_write v = \<lparr>wr_id = Some (vv_id v), wr_name = vv_name v,
     wr_description = Some (vv_description v), wr_body = preserved_body (vv_body v)\<rparr>"

definition script_body :: "script_write \<Rightarrow> write_body" where
  "script_body w = (if sw_secret w then WriteSecret (Some (sw_value w)) False else WriteValue (sw_value w))"

fun view_kind :: "variable_view_body \<Rightarrow> variable_kind" where
  "view_kind (ViewValue v) = KindValue"
| "view_kind (ViewAlias t) = KindAlias"
| "view_kind ViewUnset = KindUnset"
| "view_kind (ViewSecret has n) = KindSecret"

text \<open>The callback over the current variables: pending writes, changes so far, next rows.\<close>

definition merge_script_write ::
  "(string \<times> script_write) list \<times> (script_write \<times> bool) list \<times> variable_write list \<Rightarrow> variable_view
     \<Rightarrow> variable_error + ((string \<times> script_write) list \<times> (script_write \<times> bool) list \<times> variable_write list)" where
  "merge_script_write st v =
     (case st of (pending, changed, next) \<Rightarrow>
        (case map_of pending (vv_name v) of
           None \<Rightarrow> Inr (pending, changed, next @ [preserved_write v])
         | Some w \<Rightarrow>
             let kind = view_kind (vv_body v);
                 same = (kind = write_kind (script_body w)) in
             if kind = KindAlias \<or> (kind \<noteq> KindUnset \<and> \<not> same) then Inl WriteConflict
             else Inr (AList.delete (vv_name v) pending, changed @ [(w, False)],
               next @ [\<lparr>wr_id = (if same then Some (vv_id v) else None), wr_name = sw_name w,
                 wr_description = Some (vv_description v), wr_body = script_body w\<rparr>])))"

definition merge_script_writes ::
  "variable_view list \<Rightarrow> script_write list
     \<Rightarrow> variable_error + ((script_write \<times> bool) list \<times> variable_write list)" where
  "merge_script_writes current writes =
     bindE (foldE merge_script_write (foldl (\<lambda>m w. AList.update (sw_name w) w m) [] writes, [], []) current)
       (\<lambda>(pending, changed, next).
     Inr (changed @ map (\<lambda>(n, w). (w, True)) pending,
          next @ map (\<lambda>(n, w). \<lparr>wr_id = None, wr_name = sw_name w, wr_description = None,
            wr_body = script_body w\<rparr>) pending))"

definition script_conflict :: "profile_error + 'a \<Rightarrow> variable_error + 'a" where
  "script_conflict r =
     (case r of
        Inl e \<Rightarrow> Inl (if e = ProfileChanged \<or> e = KindChanged then WriteConflict else ProfileRejected e)
      | Inr x \<Rightarrow> Inr x)"

definition script_profile ::
  "entity_id \<Rightarrow> (nat \<Rightarrow> entity_id) \<Rightarrow> entity_id \<Rightarrow> scope_kind \<Rightarrow> entity_id \<Rightarrow> nat \<Rightarrow> variable_write list
     \<Rightarrow> profile_store \<Rightarrow> profile_error + (nat \<times> secret_mutation list \<times> profile_store)" where
  "script_profile profile_id fresh w kind i expected next st =
     (case metadata st kind i of
        None \<Rightarrow> bindE (create_profile profile_id fresh False w kind i 1 next st) (\<lambda>(ms, st'). Inr (1, ms, st'))
      | Some p \<Rightarrow> replace_profile fresh kind i expected next st)"

definition set_environment_revision :: "entity_id \<Rightarrow> nat \<Rightarrow> nat \<Rightarrow> environment_db \<Rightarrow> environment_db" where
  "set_environment_revision e expected revision db =
     db\<lparr>ed_environments := map (\<lambda>r. if er_id r = e \<and> er_revision r = expected
          then r\<lparr>er_revision := revision\<rparr> else r) (ed_environments db)\<rparr>"

definition commit_script_group ::
  "entity_id \<Rightarrow> entity_id \<Rightarrow> entity_id \<Rightarrow> scope_kind \<Rightarrow> entity_id \<Rightarrow> nat \<Rightarrow> (script_write \<times> bool) list \<Rightarrow> nat
     \<Rightarrow> secret_mutation list \<Rightarrow> profile_store \<Rightarrow> environment_db \<Rightarrow> environment_db" where
  "commit_script_group user execution w kind i expected changed revision mutations profiles db =
     (let db1 = db\<lparr>ed_profiles := profiles\<rparr>;
          db2 = (if kind = ScopeEnvironment then set_environment_revision i expected revision db1 else db1);
          db3 = record_event (ProfileUpdated kind i revision (Some execution)) user w db2;
          db4 = db3\<lparr>ed_audit := ed_audit db3 @ map (\<lambda>(x, created).
                (ScriptVariableUpdated execution kind i (sw_name x) (sw_secret x) created revision, user, w)) changed\<rparr> in
      record_profile_mutations user w kind i (Some execution) mutations db4)"

definition apply_script_group ::
  "entity_id \<Rightarrow> (nat \<Rightarrow> entity_id) \<Rightarrow> entity_id \<Rightarrow> entity_id \<Rightarrow> entity_id \<Rightarrow> scope_kind \<Rightarrow> entity_id \<Rightarrow> nat
     \<Rightarrow> script_write list \<Rightarrow> environment_db \<Rightarrow> variable_error + environment_db" where
  "apply_script_group profile_id fresh user execution w kind i expected writes db =
     (let current_revision = (case metadata (ed_profiles db) kind i of None \<Rightarrow> 0 | Some p \<Rightarrow> vp_revision p);
          environment_ok = (case env_row db i of
              None \<Rightarrow> False | Some r \<Rightarrow> er_workspace r = w \<and> er_revision r = expected) in
      bindE (requireE (current_revision = expected) WriteConflict) (\<lambda>_.
      bindE (requireE (kind \<noteq> ScopeEnvironment \<or> environment_ok) WriteConflict) (\<lambda>_.
      bindE (merge_script_writes (redacted_variables (ed_profiles db) kind i) writes) (\<lambda>(changed, next).
      bindE (script_conflict (script_profile profile_id fresh w kind i expected next (ed_profiles db)))
        (\<lambda>(revision, mutations, profiles).
      Inr (commit_script_group user execution w kind i expected changed revision mutations profiles db))))))"

text \<open>The workspace of a pinned destination.\<close>

definition script_write_workspace ::
  "environment_db \<Rightarrow> tree_node list \<Rightarrow> scope_kind \<Rightarrow> entity_id \<Rightarrow> entity_id option" where
  "script_write_workspace db nodes kind i =
     (if kind = ScopeEnvironment then map_option er_workspace (env_row db i)
      else (case scope_identity_of db nodes kind i of
          Inl e \<Rightarrow> None | Inr identity \<Rightarrow> Some (si_workspace identity)))"

definition group_writes :: "script_write list \<Rightarrow> (write_scope \<times> script_write list) list" where
  "group_writes writes =
     foldl (\<lambda>m w. AList.update (sw_scope w)
        ((case map_of m (sw_scope w) of None \<Rightarrow> [] | Some g \<Rightarrow> g) @ [w]) m) [] writes"

definition apply_group ::
  "(nat \<Rightarrow> entity_id) \<Rightarrow> (nat \<Rightarrow> nat \<Rightarrow> entity_id) \<Rightarrow> entity_id \<Rightarrow> entity_id \<Rightarrow> write_targets \<Rightarrow> tree_node list
     \<Rightarrow> nat \<times> environment_db \<Rightarrow> write_scope \<times> script_write list \<Rightarrow> variable_error + (nat \<times> environment_db)" where
  "apply_group profile_ids fresh user execution targets nodes st g =
     (case (st, g) of ((k, db), (scope, writes)) \<Rightarrow>
        (case script_write_target targets scope of
           None \<Rightarrow> Inl TargetUnavailable
         | Some t \<Rightarrow>
             (case script_write_workspace db nodes (wt_kind t) (wt_id t) of
                None \<Rightarrow> Inl TargetGone
              | Some w \<Rightarrow>
                  if w \<noteq> wt_id (tt_workspace targets) then Inl TargetOutside
                  else bindE (apply_script_group (profile_ids k) (fresh k) user execution w (wt_kind t) (wt_id t)
                         (wt_revision t) writes db) (\<lambda>db'. Inr (k + 1, db')))))"

definition apply_script_writes ::
  "(nat \<Rightarrow> entity_id) \<Rightarrow> (nat \<Rightarrow> nat \<Rightarrow> entity_id) \<Rightarrow> entity_id \<Rightarrow> entity_id \<Rightarrow> write_targets \<Rightarrow> script_write list
     \<Rightarrow> write_policy \<Rightarrow> tree_node list \<Rightarrow> environment_db \<Rightarrow> variable_error + environment_db" where
  "apply_script_writes profile_ids fresh user execution targets writes policy nodes db =
     (if writes = [] then Inr db
      else
        bindE (requireE (list_all (\<lambda>w. sw_scope w \<in> set (wy_scopes policy) \<and> (sw_secret w \<longrightarrow> wy_secrets policy)) writes)
                 WriteDenied) (\<lambda>_.
        bindE (case require_can_edit (ed_workspaces db) user (wt_id (tt_workspace targets)) of
                 Inl e \<Rightarrow> Inl EditDenied | Inr u \<Rightarrow> Inr u) (\<lambda>_.
        bindE (foldE (apply_group profile_ids fresh user execution targets nodes) (0, db) (group_writes writes))
          (\<lambda>(k, db'). Inr db'))))"

end
