(* ===== verification/Variable_Properties.thy ===== *)
theory Variable_Properties
  imports Variable_Service
begin

text \<open>
  What the environment and variable services keep and compute: the invariant of their shared tables
  in every reachable state, the layering of profiles, and the effect of script writes.
\<close>

section \<open>Reachable databases\<close>

inductive env_step :: "environment_db \<Rightarrow> environment_db \<Rightarrow> bool" where
  create: "create_environment e profile_id fresh now user w input db = Inr (view, db') \<Longrightarrow>
     e \<notin> er_id ` set (ed_environments db) \<Longrightarrow> env_step db db'"
| update: "update_environment fresh user e expected input db = Inr (view, db') \<Longrightarrow> env_step db db'"
| delete: "delete_environment user e expected db = Inr db' \<Longrightarrow> env_step db db'"
| select: "select_environment user session w choice db = Inr db' \<Longrightarrow> env_step db db'"
| profile: "update_profile_in profile_id fresh allow session_id user kind i expected writes nodes db =
     Inr (pview, db') \<Longrightarrow> env_step db db'"
| clone: "clone_request_profile profile_id fresh user w source target db = Inr db' \<Longrightarrow> env_step db db'"
| script: "apply_script_writes profile_ids fresh_ids user execution targets writes' policy nodes db = Inr db' \<Longrightarrow>
     env_step db db'"
| outside: "env_step db (db\<lparr>ed_workspaces := ws, ed_sessions := ss\<rparr>)"

inductive env_reachable :: "environment_db \<Rightarrow> bool" where
  empty: "env_reachable \<lparr>ed_workspaces = ws, ed_sessions = ss, ed_environments = [], ed_includes = [],
     ed_selections = [], ed_profiles = [], ed_audit = []\<rparr>"
| step: "env_reachable db \<Longrightarrow> env_step db db' \<Longrightarrow> env_reachable db'"

lemma record_profile_fields [simp]:
  "ed_environments (record_profile_mutations u w k i x ms db) = ed_environments db"
  "ed_includes (record_profile_mutations u w k i x ms db) = ed_includes db"
  "ed_selections (record_profile_mutations u w k i x ms db) = ed_selections db"
  "ed_profiles (record_profile_mutations u w k i x ms db) = ed_profiles db"
  by (simp_all add: record_profile_mutations_def)

lemma commit_script_fields [simp]:
  "ed_profiles (commit_script_group user x w kind i expected changed revision ms profiles db) = profiles"
  "ed_includes (commit_script_group user x w kind i expected changed revision ms profiles db) = ed_includes db"
  "ed_selections (commit_script_group user x w kind i expected changed revision ms profiles db) = ed_selections db"
  "ed_environments (commit_script_group user x w kind i expected changed revision ms profiles db) =
     (if kind = ScopeEnvironment
      then map (\<lambda>r. if er_id r = i \<and> er_revision r = expected then r\<lparr>er_revision := revision\<rparr> else r)
        (ed_environments db) else ed_environments db)"
  by (simp_all add: commit_script_group_def set_environment_revision_def Let_def)

lemma failures_Inr [simp]:
  "environment_failure r1 = Inr x \<longleftrightarrow> r1 = Inr x" "access_failure r2 = Inr y \<longleftrightarrow> r2 = Inr y"
  "profile_failure r3 = Inr z \<longleftrightarrow> r3 = Inr z" "script_conflict r4 = Inr c \<longleftrightarrow> r4 = Inr c"
  by (cases r1; cases r2; cases r3; cases r4;
      simp add: environment_failure_def access_failure_def profile_failure_def script_conflict_def)+

text \<open>A change of the profiles of other scopes.\<close>

lemma env_ok_other_profiles:
  assumes "env_ok db"
    and "ed_environments db' = ed_environments db" "ed_includes db' = ed_includes db"
      "ed_selections db' = ed_selections db"
    and "\<And>e. metadata (ed_profiles db') ScopeEnvironment e = metadata (ed_profiles db) ScopeEnvironment e"
  shows "env_ok db'"
  using assms graph_ok_cong [of db' db] by (simp add: env_ok_def revisions_ok_def)

lemma write_profile_metadata:
  assumes "write_profile profile_id fresh allow w kind i expected writes st = Inr (revision, mutations, st')"
  shows "revision = expected + 1 \<and> (\<forall>k s. (k, s) \<noteq> (kind, i) \<longrightarrow> metadata st' k s = metadata st k s)"
proof (cases "metadata st kind i")
  case None
  with assms have "revision = 1" "expected = 0"
    and c: "create_profile profile_id fresh allow w kind i 1 writes st = Inr (mutations, st')"
    by (auto simp: write_profile_def bindE_eq_Inr split: if_splits)
  from c have "\<forall>k s. (k, s) \<noteq> (kind, i) \<longrightarrow> metadata st' k s = metadata st k s"
    by (rule create_profile_metadata) auto
  with \<open>revision = 1\<close> \<open>expected = 0\<close> show ?thesis by simp
next
  case (Some p)
  with assms have "replace_profile fresh kind i expected writes st = Inr (revision, mutations, st')"
    by (simp add: write_profile_def)
  then show ?thesis by (rule replace_profile_metadata) auto
qed

lemma update_profile_ok:
  assumes "env_ok db" and "update_profile_in profile_id fresh allow session user kind i expected writes nodes db = Inr (v, db')"
  shows "env_ok db'"
proof -
  obtain identity revision mutations profiles where
    "scope_identity_of db nodes kind i = Inr identity"
    and w: "write_profile profile_id fresh allow (si_workspace identity) kind i expected writes (ed_profiles db) =
      Inr (revision, mutations, profiles)"
    and db': "db' = record_profile_mutations user (si_workspace identity) kind i None mutations
      (record_event (ProfileUpdated kind i revision None) user (si_workspace identity)
        (db\<lparr>ed_profiles := profiles\<rparr>))"
    using assms(2) by (auto simp: update_profile_in_def bindE_eq_Inr Let_def)
  then have "kind \<noteq> ScopeEnvironment" by auto
  with write_profile_metadata [OF w] show ?thesis
    by (intro env_ok_other_profiles [OF assms(1)]) (simp_all add: db')
qed

lemma clone_profile_other:
  "clone_profile profile_id fresh w kind source target st = Inr (r, st') \<Longrightarrow> k \<noteq> kind \<Longrightarrow>
     metadata st' k s = metadata st k s"
  by (auto simp: clone_profile_def metadata_def find_concat Let_def split: option.splits if_splits)

lemma clone_request_ok:
  assumes "env_ok db" and "clone_request_profile profile_id fresh user w source target db = Inr db'"
  shows "env_ok db'"
proof -
  obtain r profiles where c: "clone_profile profile_id fresh w ScopeRequest source target (ed_profiles db) = Inr (r, profiles)"
    and db': "ed_environments db' = ed_environments db" "ed_includes db' = ed_includes db"
      "ed_selections db' = ed_selections db" "ed_profiles db' = ed_profiles db \<or> ed_profiles db' = profiles"
    using assms(2) by (auto simp: clone_request_profile_def bindE_eq_Inr split: option.splits)
  have "metadata (ed_profiles db') ScopeEnvironment e = metadata (ed_profiles db) ScopeEnvironment e" for e
    using db'(4) clone_profile_other [OF c, of ScopeEnvironment e] by auto
  with db'(1-3) show ?thesis by (intro env_ok_other_profiles [OF assms(1)]) simp_all
qed

lemma apply_script_group_elim:
  assumes "apply_script_group profile_id fresh user execution w kind i expected writes db = Inr db'"
  obtains changed next_rows revision mutations profiles where
    "(case metadata (ed_profiles db) kind i of None \<Rightarrow> 0 | Some p \<Rightarrow> vp_revision p) = expected"
    "kind = ScopeEnvironment \<Longrightarrow> \<exists>r. env_row db i = Some r \<and> er_workspace r = w \<and> er_revision r = expected"
    "merge_script_writes (redacted_variables (ed_profiles db) kind i) writes = Inr (changed, next_rows)"
    "script_profile profile_id fresh w kind i expected next_rows (ed_profiles db) = Inr (revision, mutations, profiles)"
    "ed_profiles db' = profiles" "ed_includes db' = ed_includes db" "ed_selections db' = ed_selections db"
    "ed_environments db' = (if kind = ScopeEnvironment
       then map (\<lambda>r. if er_id r = i \<and> er_revision r = expected then r\<lparr>er_revision := revision\<rparr> else r)
         (ed_environments db) else ed_environments db)"
proof -
  let ?current = "case metadata (ed_profiles db) kind i of None \<Rightarrow> 0 | Some p \<Rightarrow> vp_revision p"
  obtain x y where c: "?current = expected"
    "kind \<noteq> ScopeEnvironment \<or> (case env_row db i of
              None \<Rightarrow> False | Some r \<Rightarrow> er_workspace r = w \<and> er_revision r = expected)"
    "merge_script_writes (redacted_variables (ed_profiles db) kind i) writes = Inr x"
    "script_profile profile_id fresh w kind i expected (snd x) (ed_profiles db) = Inr y"
    "db' = commit_script_group user execution w kind i expected (fst x) (fst y) (fst (snd y)) (snd (snd y)) db"
    using assms
    unfolding apply_script_group_def Let_def bindE_eq_Inr requireE_eq_Inr failures_Inr case_prod_beta' sum.inject
    by blast
  have "kind = ScopeEnvironment \<Longrightarrow> \<exists>r. env_row db i = Some r \<and> er_workspace r = w \<and> er_revision r = expected"
    using c(2) by (auto split: option.splits)
  then show thesis
    by (rule that [OF c(1), of "fst x" "snd x" "fst y" "fst (snd y)" "snd (snd y)"]) (simp_all add: c(3-5))
qed

lemma script_profile_metadata:
  assumes "script_profile profile_id fresh w kind i expected next_rows st = Inr (revision, mutations, st')"
    and "(case metadata st kind i of None \<Rightarrow> 0 | Some p \<Rightarrow> vp_revision p) = expected"
  obtains p where "metadata st' kind i = Some p" "vp_revision p = expected + 1" "revision = expected + 1"
    "\<And>k s. (k, s) \<noteq> (kind, i) \<Longrightarrow> metadata st' k s = metadata st k s"
proof (cases "metadata st kind i")
  case None
  with assms have r: "revision = 1" "expected = 0"
    and c: "create_profile profile_id fresh False w kind i 1 next_rows st = Inr (mutations, st')"
    by (auto simp: script_profile_def bindE_eq_Inr split: if_splits)
  from c show thesis by (rule create_profile_metadata) (use that r in auto)
next
  case (Some p)
  with assms have "replace_profile fresh kind i expected next_rows st = Inr (revision, mutations, st')"
    by (simp add: script_profile_def)
  then show thesis
  proof (rule replace_profile_metadata)
    fix q rows
    assume "revision = expected + 1" and meta: "\<And>k s. metadata st' k s =
      (if k = kind \<and> s = i then Some (q\<lparr>vp_revision := expected + 1, vp_variables := rows\<rparr>)
       else metadata st k s)"
    then show thesis by (intro that [of "q\<lparr>vp_revision := expected + 1, vp_variables := rows\<rparr>"]) auto
  qed
qed

lemma graph_ok_revision:
  assumes "graph_ok db"
    and "ed_environments db' = map (\<lambda>r. if P r then r\<lparr>er_revision := v\<rparr> else r) (ed_environments db)"
      "ed_includes db' = ed_includes db" "ed_selections db' = ed_selections db"
  shows "graph_ok db'"
proof -
  note d = graph_okD [OF assms(1)]
  have same: "map er_id (ed_environments db') = map er_id (ed_environments db)"
    "map (\<lambda>r. (er_workspace r, er_name_key r)) (ed_environments db') =
     map (\<lambda>r. (er_workspace r, er_name_key r)) (ed_environments db)"
    by (auto simp: assms(2))
  have kept: "\<exists>r \<in> set (ed_environments db'). er_id r = i \<and> er_workspace r = w"
    if "\<exists>r \<in> set (ed_environments db). er_id r = i \<and> er_workspace r = w" for i w
  proof -
    from that obtain r where "r \<in> set (ed_environments db)" "er_id r = i" "er_workspace r = w" by blast
    then show ?thesis
      by (intro bexI [of _ "if P r then r\<lparr>er_revision := v\<rparr> else r"]) (auto simp: assms(2))
  qed
  moreover have "load_edges db' w = load_edges db w" for w by (simp add: load_edges_def assms(3))
  ultimately show ?thesis
    using d(1,4,6) kept d(2,3,5) by (intro graph_okI) (simp_all add: same assms(3,4))
qed

lemma apply_script_group_ok:
  assumes "env_ok db" and "apply_script_group profile_id fresh user execution w kind i expected writes db = Inr db'"
  shows "env_ok db'"
  using assms(2)
proof (rule apply_script_group_elim)
  fix changed next_rows revision mutations profiles
  assume expected: "(case metadata (ed_profiles db) kind i of None \<Rightarrow> 0 | Some p \<Rightarrow> vp_revision p) = expected"
    and prof: "script_profile profile_id fresh w kind i expected next_rows (ed_profiles db) = Inr (revision, mutations, profiles)"
    and db': "ed_profiles db' = profiles" "ed_includes db' = ed_includes db" "ed_selections db' = ed_selections db"
    "ed_environments db' = (if kind = ScopeEnvironment
       then map (\<lambda>r. if er_id r = i \<and> er_revision r = expected then r\<lparr>er_revision := revision\<rparr> else r)
         (ed_environments db) else ed_environments db)"
  from prof expected show ?thesis
  proof (rule script_profile_metadata)
    fix p
    assume p: "metadata profiles kind i = Some p" "vp_revision p = expected + 1" "revision = expected + 1"
      and other: "\<And>k s. (k, s) \<noteq> (kind, i) \<Longrightarrow> metadata profiles k s = metadata (ed_profiles db) k s"
    show ?thesis
    proof (cases "kind = ScopeEnvironment")
      case False
      then show ?thesis
        by (intro env_ok_other_profiles [OF assms(1)]) (simp_all add: db' other)
    next
      case True
      let ?f = "\<lambda>r. if er_id r = i \<and> er_revision r = expected then r\<lparr>er_revision := revision\<rparr> else r"
      have envs: "ed_environments db' = map ?f (ed_environments db)" using True db'(4) by simp
      have ok: "graph_ok db" "revisions_ok db" using assms(1) by (simp_all add: env_ok_def)
      have "graph_ok db'" by (rule graph_ok_revision [OF ok(1) envs db'(2,3)])
      moreover have "\<exists>p. metadata (ed_profiles db') ScopeEnvironment (er_id (?f r)) = Some p \<and>
          vp_revision p = er_revision (?f r)" if r: "r \<in> set (ed_environments db)" for r
      proof (cases "er_id r = i")
        case same: True
        with revisions_okD [OF ok(2) r] expected True have "er_revision r = expected" by auto
        with same p True show ?thesis by (simp add: db')
      next
        case False
        with revisions_okD [OF ok(2) r] True show ?thesis by (simp add: db' other)
      qed
      then have "revisions_ok db'"
        unfolding revisions_ok_def envs by (simp only: list.set_map ball_simps) blast
      ultimately show ?thesis by (simp add: env_ok_def)
    qed
  qed
qed

lemma apply_script_writes_ok:
  assumes "env_ok db" and "apply_script_writes profile_ids fresh user execution targets writes policy nodes db = Inr db'"
  shows "env_ok db'"
proof (cases "writes = []")
  case True
  with assms show ?thesis by (simp add: apply_script_writes_def)
next
  case False
  obtain k where "foldE (apply_group profile_ids fresh user execution targets nodes) (0, db) (group_writes writes) = Inr (k, db')"
    using assms(2) False by (auto simp: apply_script_writes_def bindE_eq_Inr)
  then have "env_ok (snd (k, db'))"
  proof (rule foldE_invariant [where I = "\<lambda>st. env_ok (snd st)"])
    fix st g st'
    assume "env_ok (snd st)" "apply_group profile_ids fresh user execution targets nodes st g = Inr st'"
    then show "env_ok (snd st')"
      by (cases st; cases g; cases st')
         (auto simp: apply_group_def bindE_eq_Inr apply_script_group_ok split: option.splits if_splits)
  qed (use assms(1) in simp)
  then show ?thesis by simp
qed

lemma env_step_ok: "env_step db db' \<Longrightarrow> env_ok db \<Longrightarrow> env_ok db'"
proof (induction rule: env_step.induct)
  case (outside db ws ss)
  then show ?case by (rule env_ok_other_profiles) simp_all
qed (blast intro: create_environment_ok update_environment_ok delete_environment_ok select_environment_ok
    update_profile_ok clone_request_ok apply_script_writes_ok)+

lemma env_ok_empty:
  "env_ok \<lparr>ed_workspaces = ws, ed_sessions = ss, ed_environments = [], ed_includes = [],
     ed_selections = [], ed_profiles = [], ed_audit = []\<rparr>"
  unfolding env_ok_def by (auto intro!: graph_okI simp: revisions_ok_def load_edges_def edge_rel_def includes_of_def acyclic_def)

lemma env_reachable_ok: "env_reachable db \<Longrightarrow> env_ok db"
  by (induction rule: env_reachable.induct) (auto intro: env_ok_empty env_step_ok)

lemma stored_reach:
  assumes "graph_ok db" and "(e, b) \<in> (edge_rel (load_edges db w))\<^sup>*"
    and "map_of (load_metadata db w) e \<noteq> None"
  shows "map_of (load_metadata db w) b \<noteq> None"
  using assms(2,3)
proof (induction rule: rtrancl_induct)
  case (step x y)
  then obtain i where "i \<in> set (ed_includes db)" "ir_workspace i = w" "ir_included i = y"
    by (auto simp: edge_rel_load_edges)
  with graph_okD(3) [OF assms(1)] show ?case unfolding load_metadata_None by metis
qed simp

lemma stored_composition_succeeds:
  assumes "env_ok db" and "map_of (load_metadata db w) e \<noteq> None"
  shows "\<exists>c. compose_for db w e load nm b = Inr c"
proof -
  have ok: "graph_ok db" using assms(1) by (simp add: env_ok_def)
  have "find_environment_cycle e (load_edges db w) = None"
    using cycle_exists [of e "load_edges db w"] graph_okD(4) [OF ok, of w] unfolding acyclic_def by blast
  moreover have "{x. (e, x) \<in> (edge_rel (load_edges db w))\<^sup>*} \<subseteq> dom (map_of (load_metadata db w))"
    using stored_reach [OF ok _ assms(2)] by auto
  ultimately obtain r where r: "compose (load_edges db w) (load_metadata db w) load nm [] e = Inr r"
    using compose_success_iff by blast
  show ?thesis
  proof (cases b)
    case True
    with r assms(2) show ?thesis
      by (simp add: compose_for_def compose_environment_reference)
  next
    case False
    from r obtain acc where "compose_all (load_edges db w) (load_metadata db w) load nm [e] empty_composed
        (includes_of (load_edges db w) e) = Inr acc"
      by (auto simp: compose.simps [of _ _ _ _ "[]"] bindE_eq_Inr split: if_splits option.splits)
    from compose_smaller_stack(2) [OF this, of "[]"] False assms(2) show ?thesis
      by (simp add: compose_for_def compose_environment_reference)
  qed
qed

section \<open>Script writes\<close>

definition rewritten :: "(string \<times> script_write) list \<Rightarrow> variable_view \<Rightarrow> variable_write" where
  "rewritten pending v =
     (case map_of pending (vv_name v) of
        None \<Rightarrow> preserved_write v
      | Some w \<Rightarrow> \<lparr>wr_id = (if view_kind (vv_body v) = write_kind (script_body w) then Some (vv_id v) else None),
          wr_name = sw_name w, wr_description = Some (vv_description v), wr_body = script_body w\<rparr>)"

lemma merge_script_write_step:
  assumes "merge_script_write (pending, changed, rows) v = Inr (pending', changed', rows')"
  shows "rows' = rows @ [rewritten pending v] \<and> pending' = AList.delete (vv_name v) pending"
proof (cases "map_of pending (vv_name v)")
  case None
  then have "AList.delete (vv_name v) pending = pending" by (simp add: map_of_eq_None_iff alist_delete_absent)
  with None assms show ?thesis by (simp add: merge_script_write_def rewritten_def)
next
  case (Some w)
  with assms show ?thesis by (auto simp: merge_script_write_def rewritten_def Let_def split: if_splits)
qed

lemma merge_script_fold:
  assumes "foldE merge_script_write (pending, changed, rows) current = Inr (pending', changed', rows')"
    and "distinct (map vv_name current)"
  shows "rows' = rows @ map (rewritten pending) current \<and>
    (\<forall>n. map_of pending' n = (if n \<in> vv_name ` set current then None else map_of pending n))"
  using assms
proof (induction current arbitrary: pending changed rows)
  case (Cons v current)
  from Cons.prems(1) obtain p1 c1 r1 where
    step: "merge_script_write (pending, changed, rows) v = Inr (p1, c1, r1)"
    and rest: "foldE merge_script_write (p1, c1, r1) current = Inr (pending', changed', rows')"
    by (auto simp: bindE_eq_Inr)
  note one = merge_script_write_step [OF step]
  have "rewritten p1 x = rewritten pending x" if "x \<in> set current" for x
  proof -
    have "vv_name v \<notin> vv_name ` set current" using Cons.prems(2) by simp
    with that have "vv_name x \<noteq> vv_name v" by (metis imageI)
    then show ?thesis using one by (simp add: rewritten_def js_map.get_del)
  qed
  then have "map (rewritten p1) current = map (rewritten pending) current" by simp
  with Cons.IH [OF rest] Cons.prems(2) one show ?case by (auto simp: js_map.get_del)
qed simp

text \<open>The last write to a name is the one that counts.\<close>

lemma pending_writes:
  "map_of (foldl (\<lambda>m w. AList.update (sw_name w) w m) [] writes) n = own_value sw_name writes n"
  by (simp add: own_fold map_of_update_all own_value_def split: option.split)

lemma own_value_name: "own_value nm xs n = Some w \<Longrightarrow> nm w = n \<and> w \<in> set xs"
  by (auto simp: own_value_def dest!: map_of_SomeD)

lemma own_value_None: "own_value nm xs n = None \<longleftrightarrow> n \<notin> nm ` set xs"
  by (simp add: own_value_def map_of_eq_None_iff comp_def rev_map [symmetric] image_comp)

lemma preserved_item:
  assumes "prepared_ok (map (\<lambda>v. (va_id v, va_content v)) rows) item" and "distinct (map va_id rows)"
    and "v \<in> set rows" and "pp_write item = preserved_write (redacted_variable v)"
  shows "stored_row item = v"
proof -
  have "pp_id item = va_id v" "pp_previous item = Some (va_content v)" "pp_description item = va_description v"
    using assms map_of_rows_distinct [OF assms(2,3)]
    by (auto simp: prepared_ok_def preserved_write_def redacted_variable_def Let_def)
  moreover have "stored_content (Some (va_content v)) (preserved_body (redact (va_content v))) = va_content v"
    by (cases "va_content v") simp_all
  ultimately show ?thesis
    using assms(4) by (simp add: stored_row_def preserved_write_def redacted_variable_def)
qed

lemma script_content:
  "stored_content previous (script_body w) =
     (if sw_secret w then Secret (secret_version (stored_content previous (script_body w))) (Some (sw_value w))
      else Value (sw_value w))"
  by (simp add: script_body_def Let_def)

lemma merge_script_writes_rows:
  assumes "merge_script_writes current writes = Inr (changed, rows)" and "distinct (map vv_name current)"
  shows "\<exists>created. rows = map (rewritten (foldl (\<lambda>m w. AList.update (sw_name w) w m) [] writes)) current @ created \<and>
    (\<forall>n w. n \<notin> vv_name ` set current \<longrightarrow> own_value sw_name writes n = Some w \<longrightarrow>
       (\<exists>x \<in> set created. wr_name x = n \<and> wr_body x = script_body w)) \<and>
    (\<forall>x \<in> set created. wr_name x \<in> sw_name ` set writes)"
proof -
  let ?pending = "foldl (\<lambda>m w. AList.update (sw_name w) w m) [] writes"
  let ?create = "\<lambda>(n, w). \<lparr>wr_id = None, wr_name = sw_name w, wr_description = None, wr_body = script_body w\<rparr>"
  obtain pending changed0 rows0 where
    f: "foldE merge_script_write (?pending, [], []) current = Inr (pending, changed0, rows0)"
    and rows: "rows = rows0 @ map ?create pending"
    using assms(1) by (auto simp: merge_script_writes_def bindE_eq_Inr case_prod_beta')
  from merge_script_fold [OF f assms(2)]
  have r0: "rows0 = map (rewritten ?pending) current"
    and left: "\<And>n. map_of pending n = (if n \<in> vv_name ` set current then None else own_value sw_name writes n)"
    by (simp_all add: pending_writes)
  have "\<exists>x \<in> set (map ?create pending). wr_name x = n \<and> wr_body x = script_body w"
    if "n \<notin> vv_name ` set current" "own_value sw_name writes n = Some w" for n w
  proof -
    have "map_of pending n = Some w" using left that by simp
    then have "(n, w) \<in> set pending" by (rule map_of_SomeD)
    with own_value_name [OF that(2)] show ?thesis by (intro bexI [of _ "?create (n, w)"]) auto
  qed
  moreover have "wr_name x \<in> sw_name ` set writes" if x: "x \<in> set (map ?create pending)" for x
  proof -
    have sub: "snd ` set pending \<subseteq> snd ` set ?pending"
    proof -
      have "foldE merge_script_write (p, c, r) cur = Inr (p', c', r') \<Longrightarrow> set p' \<subseteq> set p" for p c r cur p' c' r'
      proof (induction cur arbitrary: p c r)
        case (Cons v cur)
        from Cons.prems obtain p1 c1 r1 where "merge_script_write (p, c, r) v = Inr (p1, c1, r1)"
          "foldE merge_script_write (p1, c1, r1) cur = Inr (p', c', r')" by (auto simp: bindE_eq_Inr)
        with Cons.IH merge_script_write_step show ?case by (fastforce simp: AList.delete_eq)
      qed simp
      from this [OF f] show ?thesis by blast
    qed
    have "snd ` set (foldl (\<lambda>m w. AList.update (sw_name w) w m) m ws) \<subseteq> snd ` set m \<union> set ws" for m ws
    proof (induction ws arbitrary: m)
      case (Cons w ws)
      have "snd ` set (AList.update (sw_name w) w m) \<subseteq> insert w (snd ` set m)"
        by (auto dest: alist_update_member)
      with Cons.IH [of "AList.update (sw_name w) w m"] show ?case by auto
    qed simp
    with sub have "snd ` set pending \<subseteq> set writes" by fastforce
    with x show ?thesis by auto
  qed
  ultimately show ?thesis unfolding rows r0 by (intro exI [of _ "map ?create pending"]) blast
qed

text \<open>The rows of a profile after the merged writes were stored.\<close>

lemma merged_rows:
  assumes wf: "well_formed_rows rows"
    and merge: "merge_script_writes (map redacted_variable rows) writes = Inr (changed, next_rows)"
    and store: "replace_rows False fresh rows next_rows = Inr (rows', mutations)"
  shows "\<forall>v \<in> set rows. va_name v \<notin> sw_name ` set writes \<longrightarrow> v \<in> set rows'"
    and "own_value sw_name writes n = Some x \<Longrightarrow> \<exists>v \<in> set rows'. va_name v = n \<and>
       (if sw_secret x then \<exists>k. va_content v = Secret k (Some (sw_value x))
        else va_content v = Value (sw_value x))"
    and "va_name ` set rows' = va_name ` set rows \<union> sw_name ` set writes"
proof -
  let ?pending = "foldl (\<lambda>m w. AList.update (sw_name w) w m) [] writes"
  have d: "distinct (map va_id rows)" "distinct (map va_name rows)"
    using wf by (simp_all add: well_formed_rows_def)
  have names: "map vv_name (map redacted_variable rows) = map va_name rows"
    by (simp add: redacted_variable_def comp_def)
  obtain created where next_rows: "next_rows = map (rewritten ?pending) (map redacted_variable rows) @ created"
    and new: "\<And>n w. n \<notin> va_name ` set rows \<Longrightarrow> own_value sw_name writes n = Some w \<Longrightarrow>
       \<exists>x \<in> set created. wr_name x = n \<and> wr_body x = script_body w"
    and from_writes: "\<And>x. x \<in> set created \<Longrightarrow> wr_name x \<in> sw_name ` set writes"
    using merge_script_writes_rows [OF merge] d(2) names
    by (metis (no_types, lifting) list.set_map)
  obtain items where items: "map pp_write items = next_rows" "rows' = map stored_row items"
    "list_all (prepared_ok (map (\<lambda>v. (va_id v, va_content v)) rows)) items"
    by (rule replace_rows_items [OF store])
  have item: "\<exists>i \<in> set items. pp_write i = y" if "y \<in> set next_rows" for y
    using that items(1) by (metis imageE list.set_map)
  have ok: "prepared_ok (map (\<lambda>v. (va_id v, va_content v)) rows) i" if "i \<in> set items" for i
    using that items(3) by (simp add: list_all_iff)
  have rewritten_row: "rewritten ?pending (redacted_variable v) \<in> set next_rows" if "v \<in> set rows" for v
    using that by (simp add: next_rows)
  have rewritten_name: "wr_name (rewritten ?pending (redacted_variable v)) = va_name v" for v
    by (auto simp: rewritten_def pending_writes redacted_variable_def preserved_write_def
        dest: own_value_name split: option.split)
  show kept: "\<forall>v \<in> set rows. va_name v \<notin> sw_name ` set writes \<longrightarrow> v \<in> set rows'"
  proof (intro ballI impI)
    fix v assume v: "v \<in> set rows" "va_name v \<notin> sw_name ` set writes"
    then have "rewritten ?pending (redacted_variable v) = preserved_write (redacted_variable v)"
      by (simp add: rewritten_def pending_writes redacted_variable_def own_value_None [THEN iffD2])
    with rewritten_row [OF v(1)] item obtain i where "i \<in> set items" "pp_write i = preserved_write (redacted_variable v)"
      by metis
    with preserved_item [OF ok d(1) v(1)] show "v \<in> set rows'" unfolding items(2) by force
  qed
  show written: "\<exists>v \<in> set rows'. va_name v = n \<and>
       (if sw_secret x then \<exists>k. va_content v = Secret k (Some (sw_value x))
        else va_content v = Value (sw_value x))" if x: "own_value sw_name writes n = Some x" for n x
  proof -
    have "\<exists>y \<in> set next_rows. wr_name y = n \<and> wr_body y = script_body x"
    proof (cases "n \<in> va_name ` set rows")
      case True
      then obtain v where v: "v \<in> set rows" "va_name v = n" by auto
      have "wr_body (rewritten ?pending (redacted_variable v)) = script_body x"
        using x v(2) by (simp add: rewritten_def pending_writes redacted_variable_def)
      with rewritten_row [OF v(1)] rewritten_name v(2) show ?thesis by blast
    next
      case False
      from new [OF this x] obtain y where "y \<in> set created" "wr_name y = n" "wr_body y = script_body x" by blast
      then show ?thesis by (intro bexI [of _ y]) (simp_all add: next_rows)
    qed
    then obtain i where i: "i \<in> set items" "wr_name (pp_write i) = n" "wr_body (pp_write i) = script_body x"
      using item by blast
    then have "stored_row i \<in> set rows'" "va_name (stored_row i) = n"
      "va_content (stored_row i) = stored_content (pp_previous i) (script_body x)"
      unfolding items(2) by simp_all
    with script_content [of "pp_previous i" x] show ?thesis by (metis (full_types))
  qed
  have all: "va_name ` set rows' = wr_name ` set next_rows"
    unfolding items(2) items(1) [symmetric] by (simp add: image_image)
  show "va_name ` set rows' = va_name ` set rows \<union> sw_name ` set writes"
  proof (intro equalityI subsetI)
    fix n assume "n \<in> va_name ` set rows'"
    then show "n \<in> va_name ` set rows \<union> sw_name ` set writes"
      unfolding all next_rows using rewritten_name from_writes by auto
  next
    fix n assume n: "n \<in> va_name ` set rows \<union> sw_name ` set writes"
    show "n \<in> va_name ` set rows'"
    proof (cases "own_value sw_name writes n")
      case None
      with n obtain v where v: "v \<in> set rows" "va_name v = n" by (auto simp: own_value_None)
      from imageI [OF rewritten_row [OF v(1)], of wr_name] show ?thesis
        unfolding all rewritten_name v(2) .
    next
      case (Some x)
      with written [OF this] show ?thesis by blast
    qed
  qed
qed

text \<open>
  C18. Script writes merge into the profile. Accepted writes of a post-response script were made
  against the current revision and advance it by one. Every variable no write names is kept exactly
  as it was, secrets with their payload and version included; every name written has the value of
  its last write, secret or plain as written; and the profile has no other variables.
\<close>

theorem script_writes_merge:
  assumes "apply_script_group profile_id fresh user execution w kind i expected writes db = Inr db'"
    and "metadata (ed_profiles db) kind i = Some p" and "well_formed_rows (vp_variables p)"
  shows "\<exists>p'. metadata (ed_profiles db') kind i = Some p' \<and> vp_revision p = expected \<and>
    vp_revision p' = expected + 1 \<and>
    (\<forall>v \<in> set (vp_variables p). va_name v \<notin> sw_name ` set writes \<longrightarrow> v \<in> set (vp_variables p')) \<and>
    (\<forall>n x. own_value sw_name writes n = Some x \<longrightarrow> (\<exists>v \<in> set (vp_variables p'). va_name v = n \<and>
       (if sw_secret x then \<exists>k. va_content v = Secret k (Some (sw_value x))
        else va_content v = Value (sw_value x)))) \<and>
    va_name ` set (vp_variables p') = va_name ` set (vp_variables p) \<union> sw_name ` set writes"
  using assms(1)
proof (rule apply_script_group_elim)
  fix changed next_rows revision mutations profiles
  assume expected: "(case metadata (ed_profiles db) kind i of None \<Rightarrow> 0 | Some p \<Rightarrow> vp_revision p) = expected"
    and merge: "merge_script_writes (redacted_variables (ed_profiles db) kind i) writes = Inr (changed, next_rows)"
    and prof: "script_profile profile_id fresh w kind i expected next_rows (ed_profiles db) = Inr (revision, mutations, profiles)"
    and db': "ed_profiles db' = profiles"
  have merge': "merge_script_writes (map redacted_variable (vp_variables p)) writes = Inr (changed, next_rows)"
    using merge assms(2) by (simp add: redacted_variables_def)
  from prof assms(2) have "replace_profile fresh kind i expected next_rows (ed_profiles db) = Inr (revision, mutations, profiles)"
    by (simp add: script_profile_def)
  then show ?thesis
  proof (rule replace_profile_metadata)
    fix q rows
    assume q: "metadata (ed_profiles db) kind i = Some q"
      and store: "replace_rows False fresh (vp_variables q) next_rows = Inr (rows, mutations)"
      and meta: "\<And>k s. metadata profiles k s =
      (if k = kind \<and> s = i then Some (q\<lparr>vp_revision := expected + 1, vp_variables := rows\<rparr>)
       else metadata (ed_profiles db) k s)"
    from q assms(2) have "q = p" by simp
    note rows = merged_rows [OF assms(3) merge' store [unfolded \<open>q = p\<close>]]
    have "metadata (ed_profiles db') kind i = Some (p\<lparr>vp_revision := expected + 1, vp_variables := rows\<rparr>)"
      by (simp add: db' meta \<open>q = p\<close>)
    moreover have "vp_revision p = expected" using expected assms(2) by simp
    moreover have "\<forall>n x. own_value sw_name writes n = Some x \<longrightarrow> (\<exists>v \<in> set rows. va_name v = n \<and>
       (if sw_secret x then \<exists>k. va_content v = Secret k (Some (sw_value x))
        else va_content v = Value (sw_value x)))"
      using rows(2) by blast
    moreover have "vp_variables (p\<lparr>vp_revision := expected + 1, vp_variables := rows\<rparr>) = rows"
      "vp_revision (p\<lparr>vp_revision := expected + 1, vp_variables := rows\<rparr>) = expected + 1" by simp_all
    ultimately show ?thesis using rows(1,3)
      by (intro exI [of _ "p\<lparr>vp_revision := expected + 1, vp_variables := rows\<rparr>"])
         (simp only: simp_thms)
  qed
qed

section \<open>Properties of the environment tables\<close>

text \<open>
  C8. The environment tables stay sound. In every reachable database includes and selections never
  dangle or leave their workspace, the inclusion graph of every workspace is acyclic, names are unique
  per workspace, an environment and its variable profile have the same revision, and therefore
  composing any stored environment succeeds.
\<close>

theorem environment_tables_sound:
  assumes "env_reachable db"
  shows "graph_ok db \<and> revisions_ok db \<and>
    (\<forall>e r. env_row db e = Some r \<longrightarrow>
       (\<exists>c. compose_for db (er_workspace r) e (resolved_variables (ed_profiles db) ScopeEnvironment) rv_name b = Inr c))"
proof -
  have ok: "env_ok db" using assms by (rule env_reachable_ok)
  have "\<exists>c. compose_for db (er_workspace r) e (resolved_variables (ed_profiles db) ScopeEnvironment) rv_name b = Inr c"
    if "env_row db e = Some r" for e r
  proof (rule stored_composition_succeeds [OF ok])
    show "map_of (load_metadata db (er_workspace r)) e \<noteq> None"
      using env_row_SomeD [OF that] unfolding load_metadata_None by blast
  qed
  with ok show ?thesis by (simp add: env_ok_def)
qed

text \<open>
  Environment updates are guarded. An accepted update was made by an owner or editor of the
  workspace against the current revision. The stored row has the next revision and the stored
  includes are the submitted ones in their order, or the old ones when none were submitted; rows
  of other environments and all selections stay as they were.
\<close>

theorem environment_update_guarded:
  assumes "update_environment fresh user e expected input db = Inr (view, db')"
  shows "\<exists>row. env_row db e = Some row \<and> er_revision row = expected \<and>
    membership (ed_workspaces db) user (er_workspace row) \<in> {Some Owner, Some Editor} \<and>
    map_option er_revision (env_row db' e) = Some (expected + 1) \<and>
    includes_of (load_edges db' (er_workspace row)) e =
      coalesce (ei_includes input) (includes_of (load_edges db (er_workspace row)) e) \<and>
    (\<forall>other. other = e \<or> env_row db' other = env_row db other) \<and>
    ed_selections db' = ed_selections db"
  using assms
proof (rule update_environment_elim)
  fix row name description nts revision mutations profiles db2
  let ?f = "\<lambda>r. if er_id r = e
    then updated_row name description nts (ei_cookie_source input) (expected + 1) r else r"
  assume row: "env_row db e = Some row" "er_revision row = expected"
    and edit: "require_can_edit (ed_workspaces db) user (er_workspace row) = Inr ()"
    and rep: "(case ei_includes input of None \<Rightarrow> Inr (db\<lparr>ed_profiles := profiles\<rparr>)
      | Some included \<Rightarrow> replace_includes (er_workspace row) e included (db\<lparr>ed_profiles := profiles\<rparr>)) = Inr db2"
    and db': "db' = record_secret_mutations user (er_workspace row) e mutations
       (record_event (EnvironmentUpdated e (expected + 1) (ei_includes input) (ei_cookie_source input)) user
          (er_workspace row) (db2\<lparr>ed_environments := map ?f (ed_environments db2)\<rparr>))"
  have role: "membership (ed_workspaces db) user (er_workspace row) \<in> {Some Owner, Some Editor}"
    using edit by (cases "membership (ed_workspaces db) user (er_workspace row)")
      (auto simp: require_can_edit_def split: if_splits)
  have two: "ed_environments db2 = ed_environments db \<and> ed_selections db2 = ed_selections db \<and>
      includes_of (load_edges db2 (er_workspace row)) e =
        coalesce (ei_includes input) (includes_of (load_edges db (er_workspace row)) e)"
  proof (cases "ei_includes input")
    case None
    with rep have "db2 = db\<lparr>ed_profiles := profiles\<rparr>" by simp
    then show ?thesis using None by (simp add: load_edges_def coalesce_def)
  next
    case (Some included)
    with rep have r: "replace_includes (er_workspace row) e included (db\<lparr>ed_profiles := profiles\<rparr>) = Inr db2" by simp
    from r have "ed_environments db2 = ed_environments db \<and> ed_selections db2 = ed_selections db"
      by (rule replace_includes_elim) simp
    with replaced_includes [OF r] Some show ?thesis by (simp add: coalesce_def)
  qed
  have envs: "ed_environments db' = map ?f (ed_environments db)" using two by (simp add: db')
  have "env_row db' e = Some (?f row)"
    using row(1) unfolding env_row_def envs
    by (intro find_map_live [where P = "\<lambda>r. er_id r = e" and f = "updated_row name description nts (ei_cookie_source input) (expected + 1)", THEN trans])
       (auto dest: find_SomeD)
  moreover have "env_row db' other = env_row db other" if "other \<noteq> e" for other
    unfolding env_row_def envs using that by (intro find_map_other) auto
  moreover have "load_edges db' (er_workspace row) = load_edges db2 (er_workspace row)"
    by (simp add: load_edges_def db')
  moreover have "ed_selections db' = ed_selections db" using two by (simp add: db')
  ultimately show ?thesis using row role two env_row_SomeD [OF row(1)] by auto
qed

text \<open>
  Deletion leaves nothing behind. In a reachable database an environment that another one
  includes is never deleted. After a deletion no row, include, selection or profile names the
  environment, and every other environment and its profile are as before.
\<close>

theorem environment_delete_clean:
  assumes "env_reachable db" and "delete_environment user e expected db = Inr db'"
  shows "(\<forall>i \<in> set (ed_includes db). ir_included i \<noteq> e) \<and>
    env_row db' e = None \<and> metadata (ed_profiles db') ScopeEnvironment e = None \<and>
    (\<forall>i \<in> set (ed_includes db'). ir_environment i \<noteq> e \<and> ir_included i \<noteq> e) \<and>
    e \<notin> snd ` set (ed_selections db') \<and>
    (\<forall>other. other = e \<or> env_row db' other = env_row db other \<and>
       metadata (ed_profiles db') ScopeEnvironment other = metadata (ed_profiles db) ScopeEnvironment other)"
  using assms(2)
proof (rule delete_environment_elim)
  fix row
  assume none: "dependents db e = []"
    and db': "db' = record_secret_mutations user (er_workspace row) e (deleted_secrets db e)
      (record_event (EnvironmentDeleted e) user (er_workspace row)
        (db\<lparr>ed_profiles := delete_profile ScopeEnvironment e (ed_profiles db),
            ed_environments := filter (\<lambda>r. er_id r \<noteq> e) (ed_environments db),
            ed_includes := filter (\<lambda>r. ir_environment r \<noteq> e) (ed_includes db),
            ed_selections := filter (\<lambda>(k, s). s \<noteq> e) (ed_selections db)\<rparr>))"
  have "graph_ok db" using env_reachable_ok [OF assms(1)] by (simp add: env_ok_def)
  then have free: "\<forall>i \<in> set (ed_includes db). ir_included i \<noteq> e" using dependents_none [OF _ none] by blast
  have "find (\<lambda>r. er_id r = other) (filter (\<lambda>r. er_id r \<noteq> e) rs) = find (\<lambda>r. er_id r = other) rs"
    if "other \<noteq> e" for other rs using that by (induction rs) auto
  then have rows: "env_row db' other = env_row db other" if "other \<noteq> e" for other
    using that by (simp add: env_row_def db')
  have "env_row db' e = None" by (auto simp: env_row_def db' find_None_iff)
  moreover have "e \<notin> snd ` set (ed_selections db')" by (auto simp: db')
  moreover have "\<forall>i \<in> set (ed_includes db'). ir_environment i \<noteq> e \<and> ir_included i \<noteq> e"
    using free by (simp add: db')
  moreover have meta: "metadata (ed_profiles db') ScopeEnvironment s =
      (if s = e then None else metadata (ed_profiles db) ScopeEnvironment s)" for s
    by (simp add: db' delete_profile_metadata)
  moreover have "other = e \<or> env_row db' other = env_row db other \<and>
      metadata (ed_profiles db') ScopeEnvironment other = metadata (ed_profiles db) ScopeEnvironment other" for other
    using rows [of other] meta [of other] by (cases "other = e") simp_all
  moreover have "metadata (ed_profiles db') ScopeEnvironment e = None" using meta [of e] by simp
  ultimately show ?thesis using free by blast
qed

section \<open>Layering\<close>

lemma last_some_single [simp]: "last_some [x] = x"
  by (cases x) (simp_all add: last_some_def)

lemma last_some_append: "last_some (xs @ ys) = (case last_some ys of None \<Rightarrow> last_some xs | Some v \<Rightarrow> Some v)"
  by (induction ys rule: rev_induct) (auto simp: append_assoc [symmetric] simp del: append_assoc split: option.split)

lemma add_layer_value:
  "map_of (ep_variables (add_layer p l)) x =
     (case own_value rv_name (ly_variables l) x of None \<Rightarrow> map_of (ep_variables p) x | Some v \<Rightarrow> Some v)"
  by (simp add: add_layer_def own_fold map_of_update_all own_value_def)

lemma add_layers_value:
  "map_of (ep_variables (foldl add_layer p ls)) x =
     (case last_some (map (\<lambda>l. own_value rv_name (ly_variables l) x) ls) of
        None \<Rightarrow> map_of (ep_variables p) x | Some v \<Rightarrow> Some v)"
  by (induction ls rule: rev_induct) (auto simp: add_layer_value split: option.split)

lemma add_environment_value:
  "map_of (ep_variables (add_environment p m c)) x =
     (case own_value rv_name (map snd (co_variables c)) x of
        None \<Rightarrow> map_of (ep_variables p) x | Some v \<Rightarrow> Some v)"
proof -
  have "foldl (\<lambda>m (n, v). AList.update (rv_name v) v m) acc kvs =
      foldl (\<lambda>m v. AList.update (rv_name v) v m) acc (map snd kvs)" for acc and kvs :: "(string \<times> resolved_variable) list"
    by (induction kvs arbitrary: acc) auto
  then show ?thesis
    by (simp add: add_environment_def own_fold map_of_update_all own_value_def)
qed

lemma own_value_Nil [simp]: "own_value nm [] x = None"
  by (simp add: own_value_def)

lemma profile_layer_values:
  "map (\<lambda>l. own_value rv_name (ly_variables l) x) (profile_layer db resolved_variables kind i name) =
     (if metadata (ed_profiles db) kind i = None then []
      else [own_value rv_name (resolved_variables (ed_profiles db) kind i) x])"
  by (simp add: profile_layer_def split: option.split)

lemma last_some_drop_None: "last_some (filter (\<lambda>v. v \<noteq> None) xs) = last_some xs"
  by (induction xs rule: rev_induct) (auto split: option.split)

text \<open>The layers of a scope without a profile are empty either way.\<close>

lemma last_some_layers:
  "last_some (concat (map (\<lambda>(kind, i, name). map (\<lambda>l. own_value rv_name (ly_variables l) x)
       (profile_layer db resolved_variables kind i name)) scopes)) =
   last_some (map (\<lambda>(kind, i, name). own_value rv_name (resolved_variables (ed_profiles db) kind i) x) scopes)"
proof (induction scopes rule: rev_induct)
  case (snoc s scopes)
  obtain kind i name where s: "s = (kind, i, name)" by (cases s)
  have "own_value rv_name (resolved_variables (ed_profiles db) kind i) x = None"
    if "metadata (ed_profiles db) kind i = None"
    using that by (simp add: resolved_variables_def)
  with snoc show ?case by (simp add: s profile_layer_values last_some_append split: option.split)
qed simp

lemma node_identity_request: "scope_identity_of db nodes ScopeRequest r = Inr identity \<Longrightarrow> si_id identity = r"
  by (auto simp: node_identity_def tree_node_row_def split: option.splits dest: find_SomeD)


section \<open>An example database\<close>

definition demo_workspaces :: workspace_db where
  "demo_workspaces = (case create_workspace ''w'' 5 ''u'' ''Team'' [] [] \<lparr>wd_workspaces = [], wd_memberships = [],
       wd_cookie_jars = [], wd_audit = []\<rparr> of Inr (_, db) \<Rightarrow> db)"

definition demo_empty :: environment_db where
  "demo_empty = \<lparr>ed_workspaces = demo_workspaces, ed_sessions = [(''s'', ''u'')], ed_environments = [],
     ed_includes = [], ed_selections = [], ed_profiles = [], ed_audit = []\<rparr>"

definition plain_write :: "string \<Rightarrow> string \<Rightarrow> variable_write" where
  "plain_write n v = \<lparr>wr_id = None, wr_name = n, wr_description = None, wr_body = WriteValue v\<rparr>"

definition demo_input :: "string \<Rightarrow> variable_write list \<Rightarrow> entity_id list \<Rightarrow> environment_input" where
  "demo_input n vs inc = \<lparr>ei_name = n, ei_variables = vs, ei_includes = Some inc, ei_description = [],
     ei_notes = [], ei_cookie_source = None\<rparr>"

definition created :: "environment_error + (environment_view \<times> environment_db) \<Rightarrow> environment_db" where
  "created r = (case r of Inl e \<Rightarrow> demo_empty | Inr (view, db) \<Rightarrow> db)"

definition demo_base :: environment_db where
  "demo_base = created (create_environment ''base'' ''p1'' (\<lambda>n. ''v1'') 1 ''u'' ''w''
     (demo_input ''Base'' [plain_write ''host'' ''h1''] []) demo_empty)"

definition demo_top :: environment_db where
  "demo_top = created (create_environment ''top'' ''p2'' (\<lambda>n. ''v2'') 2 ''u'' ''w''
     (demo_input ''Top'' [plain_write ''path'' ''x''] [''base'']) demo_base)"

definition demo_selected :: environment_db where
  "demo_selected = (case select_environment ''u'' ''s'' ''w'' (Some ''top'') demo_top of
     Inl e \<Rightarrow> demo_empty | Inr db \<Rightarrow> db)"

definition succeeded :: "'e + 'a \<Rightarrow> bool" where
  "succeeded r = (case r of Inl e \<Rightarrow> False | Inr x \<Rightarrow> True)"

lemma succeededE: "succeeded r \<Longrightarrow> \<exists>x. r = Inr x"
  by (cases r) (simp_all add: succeeded_def)

lemma demo_base_created: "succeeded (create_environment ''base'' ''p1'' (\<lambda>n. ''v1'') 1 ''u'' ''w''
     (demo_input ''Base'' [plain_write ''host'' ''h1''] []) demo_empty)"
  by code_simp

lemma demo_top_created: "succeeded (create_environment ''top'' ''p2'' (\<lambda>n. ''v2'') 2 ''u'' ''w''
     (demo_input ''Top'' [plain_write ''path'' ''x''] [''base'']) demo_base)"
  by code_simp

lemma demo_top_selected: "succeeded (select_environment ''u'' ''s'' ''w'' (Some ''top'') demo_top)"
  by code_simp

lemma demo_selected_reachable: "env_reachable demo_selected"
proof -
  obtain v1 where base: "create_environment ''base'' ''p1'' (\<lambda>n. ''v1'') 1 ''u'' ''w''
     (demo_input ''Base'' [plain_write ''host'' ''h1''] []) demo_empty = Inr (v1, demo_base)"
    using succeededE [OF demo_base_created] by (auto simp: demo_base_def created_def)
  obtain v2 where top: "create_environment ''top'' ''p2'' (\<lambda>n. ''v2'') 2 ''u'' ''w''
     (demo_input ''Top'' [plain_write ''path'' ''x''] [''base'']) demo_base = Inr (v2, demo_top)"
    using succeededE [OF demo_top_created] by (auto simp: demo_top_def created_def)
  have sel: "select_environment ''u'' ''s'' ''w'' (Some ''top'') demo_top = Inr demo_selected"
    using succeededE [OF demo_top_selected] by (auto simp: demo_selected_def)
  have "env_reachable demo_empty" unfolding demo_empty_def by (rule env_reachable.empty)
  moreover have "env_step demo_empty demo_base" by (rule env_step.create [OF base]) code_simp
  moreover have "env_step demo_base demo_top" by (rule env_step.create [OF top]) code_simp
  moreover have "env_step demo_top demo_selected" by (rule env_step.select [OF sel])
  ultimately show ?thesis by (meson env_reachable.step)
qed

theorem environment_tables_sound_witness:
  "\<exists>c. compose_for demo_selected ''w'' ''top'' (resolved_variables (ed_profiles demo_selected) ScopeEnvironment)
     rv_name True = Inr c"
proof -
  have "map_option er_workspace (env_row demo_selected ''top'') = Some ''w''" by code_simp
  then obtain r where "env_row demo_selected ''top'' = Some r" "er_workspace r = ''w''" by auto
  moreover from this environment_tables_sound [OF demo_selected_reachable, of True]
  have "\<exists>c. compose_for demo_selected (er_workspace r) ''top''
      (resolved_variables (ed_profiles demo_selected) ScopeEnvironment) rv_name True = Inr c" by blast
  ultimately show ?thesis by simp
qed

theorem environment_update_guarded_witness:
  "\<exists>view db'. update_environment (\<lambda>n. ''v3'') ''u'' ''top'' 0 (demo_input ''Top'' [] []) demo_selected = Inr (view, db') \<and>
     map_option er_revision (env_row db' ''top'') = Some 1"
proof -
  have "succeeded (update_environment (\<lambda>n. ''v3'') ''u'' ''top'' 0 (demo_input ''Top'' [] []) demo_selected)"
    by code_simp
  then obtain view db' where u: "update_environment (\<lambda>n. ''v3'') ''u'' ''top'' 0 (demo_input ''Top'' [] []) demo_selected =
      Inr (view, db')" using succeededE by fast
  from environment_update_guarded [OF u] u show ?thesis by auto
qed

theorem environment_delete_clean_witness:
  "\<exists>db'. delete_environment ''u'' ''top'' 0 demo_selected = Inr db' \<and> env_row db' ''top'' = None \<and>
     ''top'' \<notin> snd ` set (ed_selections db')"
proof -
  have "succeeded (delete_environment ''u'' ''top'' 0 demo_selected)" by code_simp
  then obtain db' where d: "delete_environment ''u'' ''top'' 0 demo_selected = Inr db'" using succeededE by fast
  from environment_delete_clean [OF demo_selected_reachable d] d show ?thesis by blast
qed

definition demo_write :: script_write where
  "demo_write = \<lparr>sw_scope = ToEnvironment, sw_name = ''token'', sw_secret = True, sw_value = ''t''\<rparr>"

theorem script_writes_merge_witness:
  "\<exists>db' p'. apply_script_group ''p3'' (\<lambda>n. ''v4'') ''u'' ''x'' ''w'' ScopeEnvironment ''top'' 0 [demo_write] demo_selected =
       Inr db' \<and> metadata (ed_profiles db') ScopeEnvironment ''top'' = Some p' \<and>
     va_name ` set (vp_variables p') = {''path'', ''token''}"
proof -
  have "succeeded (apply_script_group ''p3'' (\<lambda>n. ''v4'') ''u'' ''x'' ''w'' ScopeEnvironment ''top'' 0 [demo_write] demo_selected)"
    by code_simp
  then obtain db' where s: "apply_script_group ''p3'' (\<lambda>n. ''v4'') ''u'' ''x'' ''w'' ScopeEnvironment ''top'' 0 [demo_write]
      demo_selected = Inr db'" using succeededE by fast
  have "map_option (\<lambda>p. map va_name (vp_variables p)) (metadata (ed_profiles demo_selected) ScopeEnvironment ''top'') =
      Some [''path'']" by code_simp
  then obtain p where p: "metadata (ed_profiles demo_selected) ScopeEnvironment ''top'' = Some p"
    "map va_name (vp_variables p) = [''path'']" by auto
  have "(case metadata (ed_profiles demo_selected) ScopeEnvironment ''top'' of
      None \<Rightarrow> False | Some p \<Rightarrow> well_formed_rows (vp_variables p))" by code_simp
  with p(1) have "well_formed_rows (vp_variables p)" by simp
  from script_writes_merge [OF s p(1) this] obtain p' where
    "metadata (ed_profiles db') ScopeEnvironment ''top'' = Some p'"
    "va_name ` set (vp_variables p') = va_name ` set (vp_variables p) \<union> sw_name ` set [demo_write]" by blast
  moreover have "va_name ` set (vp_variables p) = {''path''}" using p(2) by (metis list.set_map list.simps(15) set_empty)
  ultimately show ?thesis using s by (intro exI [of _ db'] exI [of _ p']) (auto simp: demo_write_def)
qed


end
