(* ===== verification/Request_Content.thy ===== *)
theory Request_Content
  imports Workspaces
begin

text \<open>
  The content of a request: fields, bodies and targets, their validation, and the layering of common
  headers (the functions below the class in \<open>apps/backend/src/requests/request-service.ts\<close>). The
  WHATWG URL parser and the identifier check of the \<open>uuid\<close> package are the two functions of a
  \<open>content_api\<close>. The TypeScript types \<open>RequestField\<close> and \<open>WorkspaceHeader\<close> have the same members, so
  one record stands for both.
\<close>

section \<open>Data\<close>

type_synonym request_field = workspace_header

record target_url = parsed_url +
  tu_host :: string
  tu_search :: string
  tu_hash :: string
  tu_href :: string

record content_api =
  ca_parse :: "string \<Rightarrow> target_url option"
  ca_valid_id :: "string \<Rightarrow> bool"

datatype http_method = GET | POST | PUT | PATCH | DELETE | HEAD | OPTIONS

datatype target_mode = AbsoluteTarget | ComposedTarget

record attachment =
  at_id :: entity_id
  at_workspace :: entity_id
  at_file_name :: string
  at_content_type :: string
  at_length :: int
  at_sha256 :: string

record file_part =
  fp_name :: string
  fp_enabled :: bool
  fp_description :: "string option"
  fp_attachment :: attachment

datatype multipart_field = TextPart request_field | FilePart file_part

datatype request_body =
    BodyNone
  | BodyText "string option" string
  | BodyFile "string option" attachment
  | BodyUrlencoded "string option" "request_field list"
  | BodyMultipart "string option" string "multipart_field list"

datatype request_error =
    TargetUrlInvalid
  | TargetTemplateInvalid
  | PathTemplateInvalid
  | CollectionTargetInvalid workspace_error
  | TargetComponentInvalid
  | NoAbsoluteBase
  | MethodUnsupported
  | FieldNeedsName
  | FieldDescriptionInvalid
  | HeaderNotAllowed
  | BodyTooLarge
  | BodyTypeInvalid
  | BoundaryInvalid
  | BoundaryDeclared
  | BoundaryCollides
  | FieldNameInvalid
  | AttachmentInvalid
  | ScriptTooLarge
  | ContentPolicyInvalid policy_error

definition field_description :: "string option \<Rightarrow> request_error + string" where
  "field_description d =
     (case validate_field_description d of Inl e \<Rightarrow> Inl FieldDescriptionInvalid | Inr s \<Rightarrow> Inr s)"

definition optional_text :: "string \<Rightarrow> string option" where
  "optional_text s = (if s = [] then None else Some s)"

definition includes_text :: "string \<Rightarrow> string \<Rightarrow> bool" where
  "includes_text s p \<longleftrightarrow> index_of p s \<noteq> None"

section \<open>Targets\<close>

definition validate_target_url :: "content_api \<Rightarrow> string \<Rightarrow> request_error + string" where
  "validate_target_url api s =
     (case ca_parse api s of
        None \<Rightarrow> Inl TargetUrlInvalid
      | Some u \<Rightarrow>
          if (pu_protocol u \<noteq> ''http:'' \<and> pu_protocol u \<noteq> ''https:'') \<or> pu_username u \<noteq> []
            \<or> pu_password u \<noteq> [] \<or> tu_search u \<noteq> [] \<or> tu_hash u \<noteq> [] then Inl TargetUrlInvalid
          else Inr (tu_href u))"

definition validate_target_template :: "content_api \<Rightarrow> string \<Rightarrow> request_error + string" where
  "validate_target_template api s =
     (if includes_text s ''<<'' then
        (if length s = 0 \<or> int (length s) > 8192 \<or> CHR ''?'' \<in> set s \<or> CHR ''#'' \<in> set s
         then Inl TargetTemplateInvalid else Inr s)
      else validate_target_url api s)"

definition hex_digit :: "char \<Rightarrow> bool" where
  "hex_digit c \<longleftrightarrow> (let n = of_char c :: nat in
     (48 \<le> n \<and> n \<le> 57) \<or> (65 \<le> n \<and> n \<le> 70) \<or> (97 \<le> n \<and> n \<le> 102))"

text \<open>\<open>/%(?![\dA-Fa-f]{2})/\<close>: a percent sign that no two hexadecimal digits follow.\<close>

fun stray_percent :: "string \<Rightarrow> bool" where
  "stray_percent [] = False"
| "stray_percent (c # cs) =
     ((c = CHR ''%'' \<and> \<not> (case cs of a # b # _ \<Rightarrow> hex_digit a \<and> hex_digit b | _ \<Rightarrow> False))
      \<or> stray_percent cs)"

definition validate_path_template :: "string \<Rightarrow> request_error + string" where
  "validate_path_template s =
     (if int (length s) > 8192 \<or> CHR ''?'' \<in> set s \<or> CHR ''#'' \<in> set s \<or> CHR 0x5C \<in> set s
        \<or> includes_text s ''://'' \<or> starts_with s ''//'' \<or> contains_control_character s \<or> stray_percent s
      then Inl PathTemplateInvalid else Inr s)"

definition validate_collection_target :: "content_api \<Rightarrow> string \<Rightarrow> request_error + string" where
  "validate_collection_target api s =
     (if includes_text s ''://'' then
        (case validate_base_url (\<lambda>t. map_option parsed_url.truncate (ca_parse api t)) s of
           Inl e \<Rightarrow> Inl (CollectionTargetInvalid e) | Inr t \<Rightarrow> Inr t)
      else validate_path_template s)"

definition validate_target_component :: "string \<Rightarrow> request_error + string" where
  "validate_target_component s = (if int (length s) > 8192 then Inl TargetComponentInvalid else Inr s)"

definition slash :: "char \<Rightarrow> bool" where
  "slash c \<longleftrightarrow> c = CHR ''/''"

definition strip_trailing_slashes :: "string \<Rightarrow> string" where
  "strip_trailing_slashes s = rev (dropWhile slash (rev s))"

definition strip_leading_slashes :: "string \<Rightarrow> string" where
  "strip_leading_slashes s = dropWhile slash s"

definition join_component :: "string \<Rightarrow> string \<Rightarrow> string" where
  "join_component joined c = strip_trailing_slashes joined @ ''/'' @ strip_leading_slashes c"

definition join_target_components :: "string list \<Rightarrow> string" where
  "join_target_components components =
     (case filter (\<lambda>c. c \<noteq> []) components of [] \<Rightarrow> [] | c # cs \<Rightarrow> foldl join_component c cs)"

definition compose_target :: "content_api \<Rightarrow> string list \<Rightarrow> request_error + string" where
  "compose_target api components =
     (case filter (\<lambda>c. c \<noteq> []) components of
        [] \<Rightarrow> Inl NoAbsoluteBase
      | base # paths \<Rightarrow>
          bindE (validate_target_url api base) (\<lambda>_.
          bindE (mapE validate_path_template paths) (\<lambda>_.
          validate_target_url api (join_target_components (base # paths)))))"

section \<open>Methods and fields\<close>

definition method_name :: "http_method \<Rightarrow> string" where
  "method_name m = (case m of GET \<Rightarrow> ''GET'' | POST \<Rightarrow> ''POST'' | PUT \<Rightarrow> ''PUT'' | PATCH \<Rightarrow> ''PATCH''
     | DELETE \<Rightarrow> ''DELETE'' | HEAD \<Rightarrow> ''HEAD'' | OPTIONS \<Rightarrow> ''OPTIONS'')"

definition validate_method :: "string \<Rightarrow> request_error + http_method" where
  "validate_method s =
     (if s = ''GET'' then Inr GET else if s = ''POST'' then Inr POST else if s = ''PUT'' then Inr PUT
      else if s = ''PATCH'' then Inr PATCH else if s = ''DELETE'' then Inr DELETE
      else if s = ''HEAD'' then Inr HEAD else if s = ''OPTIONS'' then Inr OPTIONS
      else Inl MethodUnsupported)"

definition validate_query_field :: "request_field \<Rightarrow> request_error + request_field" where
  "validate_query_field f =
     bindE (field_description (wh_description f)) (\<lambda>d.
     if d \<noteq> [] \<and> js_trim (wh_name f) = [] then Inl FieldNeedsName
     else Inr \<lparr>wh_name = wh_name f, wh_value = wh_value f, wh_enabled = wh_enabled f, wh_mode = None,
               wh_description = optional_text d\<rparr>)"

definition validate_query :: "request_field list \<Rightarrow> request_error + request_field list" where
  "validate_query fs = mapE validate_query_field fs"

definition FORBIDDEN_HEADERS :: "string list" where
  "FORBIDDEN_HEADERS = [''host'', ''content-length'', ''transfer-encoding'', ''connection'',
     ''keep-alive'', ''proxy-connection'', ''upgrade'', ''te'', ''trailer'', ''expect'',
     ''proxy-authorization'']"

text \<open>The character class of \<open>/^[!#$%&'*+.^_`|~0-9A-Za-z-]+$/\<close>.\<close>

definition token_char :: "char \<Rightarrow> bool" where
  "token_char c \<longleftrightarrow> (let n = of_char c :: nat in
     (48 \<le> n \<and> n \<le> 57) \<or> (65 \<le> n \<and> n \<le> 90) \<or> (97 \<le> n \<and> n \<le> 122)
     \<or> n \<in> {33, 35, 36, 37, 38, 39, 42, 43, 45, 46, 94, 95, 96, 124, 126})"

definition invalid_header_value :: "string \<Rightarrow> bool" where
  "invalid_header_value s =
     list_ex (\<lambda>c. let n = of_char c :: nat in n \<le> 8 \<or> (10 \<le> n \<and> n \<le> 31) \<or> n = 127) s"

definition header_allowed :: "request_field \<Rightarrow> bool" where
  "header_allowed f \<longleftrightarrow> \<not> wh_enabled f \<or>
     (wh_name f \<noteq> [] \<and> list_all token_char (wh_name f) \<and> \<not> invalid_header_value (wh_value f)
      \<and> js_lower (wh_name f) \<notin> set FORBIDDEN_HEADERS)"

definition mode_of :: "request_field \<Rightarrow> header_mode" where
  "mode_of f = (case wh_mode f of None \<Rightarrow> HeaderOverride | Some m \<Rightarrow> m)"

definition validate_request_header :: "request_field \<Rightarrow> request_error + request_field" where
  "validate_request_header f =
     bindE (requireE (header_allowed f) HeaderNotAllowed) (\<lambda>_.
     bindE (field_description (wh_description f)) (\<lambda>d.
     if d \<noteq> [] \<and> js_trim (wh_name f) = [] then Inl FieldNeedsName
     else Inr \<lparr>wh_name = wh_name f, wh_value = wh_value f, wh_enabled = wh_enabled f,
               wh_mode = Some (mode_of f), wh_description = optional_text d\<rparr>))"

definition validate_headers :: "request_field list \<Rightarrow> request_error + request_field list" where
  "validate_headers fs = mapE validate_request_header fs"

section \<open>Bodies\<close>

definition validate_body :: "string \<Rightarrow> request_error + string" where
  "validate_body s = (if int (utf8_length s) > 786432 then Inl BodyTooLarge else Inr s)"

definition validate_body_content_type :: "string option \<Rightarrow> request_error + string option" where
  "validate_body_content_type ct =
     (case ct of
        None \<Rightarrow> Inr None
      | Some s \<Rightarrow>
          let t = js_trim s in
          if length t = 0 \<or> int (length t) > 512 \<or> contains_control_character t then Inl BodyTypeInvalid
          else Inr (Some t))"

definition breaks_line :: "string \<Rightarrow> bool" where
  "breaks_line s = list_ex (\<lambda>c. (of_char c :: nat) \<in> {0, 10, 13}) s"

definition validate_field_name :: "string \<Rightarrow> request_error + unit" where
  "validate_field_name s = requireE (\<not> breaks_line s) FieldNameInvalid"

text \<open>The second \<open>replaceAll\<close> sees no quotation mark the first one wrote, so one pass does both.\<close>

definition escape_parameter :: "string \<Rightarrow> string" where
  "escape_parameter s =
     concat (map (\<lambda>c. if c = CHR 0x5C then [CHR 0x5C, CHR 0x5C]
        else if c = CHR 0x22 then [CHR 0x5C, CHR 0x22] else [c]) s)"

definition crlf :: string where
  "crlf = [CHR 0x0D, CHR 0x0A]"

definition quoted :: "string \<Rightarrow> string" where
  "quoted s = CHR 0x22 # s @ [CHR 0x22]"

definition part_head :: "string \<Rightarrow> string \<Rightarrow> string" where
  "part_head boundary name =
     ''--'' @ boundary @ crlf @ ''Content-Disposition: form-data; name='' @ quoted (escape_parameter name)"

fun part_enabled :: "multipart_field \<Rightarrow> bool" where
  "part_enabled (TextPart f) = wh_enabled f"
| "part_enabled (FilePart f) = fp_enabled f"

fun part_name :: "multipart_field \<Rightarrow> string" where
  "part_name (TextPart f) = wh_name f"
| "part_name (FilePart f) = fp_name f"

fun serialize_part :: "string \<Rightarrow> multipart_field \<Rightarrow> request_error + string" where
  "serialize_part boundary (TextPart f) =
     bindE (validate_field_name (wh_name f)) (\<lambda>_.
     bindE (requireE (\<not> includes_text (wh_name f) boundary \<and> \<not> includes_text (wh_value f) boundary)
              BoundaryCollides) (\<lambda>_.
     Inr (part_head boundary (wh_name f) @ crlf @ crlf @ wh_value f @ crlf)))"
| "serialize_part boundary (FilePart f) =
     bindE (validate_field_name (fp_name f)) (\<lambda>_.
     bindE (requireE (\<not> includes_text (fp_name f) boundary
                \<and> \<not> includes_text (at_file_name (fp_attachment f)) boundary) BoundaryCollides) (\<lambda>_.
     Inr (part_head boundary (fp_name f) @ ''; filename='' @
       quoted (escape_parameter (at_file_name (fp_attachment f))) @ crlf @
       ''Content-Type: '' @ at_content_type (fp_attachment f) @ crlf @ crlf @
       ''[attachment:'' @ at_id (fp_attachment f) @ '']'' @ crlf)))"

text \<open>\<open>URLSearchParams.toString()\<close>: the form-urlencoded serialiser on UTF-8.\<close>

definition hex_upper :: "nat \<Rightarrow> char" where
  "hex_upper n = (if n < 10 then char_of (48 + n) else char_of (55 + n))"

definition percent_byte :: "nat \<Rightarrow> string" where
  "percent_byte n = [CHR ''%'', hex_upper (n div 16), hex_upper (n mod 16)]"

definition form_encode_char :: "char \<Rightarrow> string" where
  "form_encode_char c = (let n = of_char c :: nat in
     if n = 32 then ''+''
     else if (48 \<le> n \<and> n \<le> 57) \<or> (65 \<le> n \<and> n \<le> 90) \<or> (97 \<le> n \<and> n \<le> 122)
       \<or> n \<in> {42, 45, 46, 95} then [c]
     else if n < 128 then percent_byte n
     else percent_byte (192 + n div 64) @ percent_byte (128 + n mod 64))"

definition form_encode :: "(string \<times> string) list \<Rightarrow> string" where
  "form_encode ps = join_with ''&''
     (map (\<lambda>(n, v). concat (map form_encode_char n) @ ''='' @ concat (map form_encode_char v)) ps)"

fun serialize_body :: "request_body \<Rightarrow> request_error + string" where
  "serialize_body BodyNone = Inr []"
| "serialize_body (BodyText ct s) = Inr s"
| "serialize_body (BodyFile ct a) = Inr (''[attachment:'' @ at_id a @ '']'')"
| "serialize_body (BodyUrlencoded ct fs) =
     Inr (form_encode (map (\<lambda>f. (wh_name f, wh_value f)) (filter wh_enabled fs)))"
| "serialize_body (BodyMultipart ct boundary fs) =
     bindE (mapE (serialize_part boundary) (filter part_enabled fs)) (\<lambda>chunks.
     Inr (concat chunks @ ''--'' @ boundary @ ''--'' @ crlf))"

definition MAX_REQUEST_ATTACHMENT_BYTES :: int where
  "MAX_REQUEST_ATTACHMENT_BYTES = 786432"

definition lower_hex :: "char \<Rightarrow> bool" where
  "lower_hex c \<longleftrightarrow> (let n = of_char c :: nat in (48 \<le> n \<and> n \<le> 57) \<or> (97 \<le> n \<and> n \<le> 102))"

definition validate_attachment :: "content_api \<Rightarrow> attachment \<Rightarrow> request_error + attachment" where
  "validate_attachment api a =
     (if length (at_file_name a) = 0 \<or> int (length (at_file_name a)) > 255 \<or> breaks_line (at_file_name a)
        \<or> length (at_content_type a) = 0 \<or> int (length (at_content_type a)) > 255
        \<or> breaks_line (at_content_type a) \<or> at_length a < 0 \<or> at_length a > MAX_REQUEST_ATTACHMENT_BYTES
        \<or> length (at_sha256 a) \<noteq> 64 \<or> \<not> list_all lower_hex (at_sha256 a)
        \<or> \<not> ca_valid_id api (at_id a) \<or> \<not> ca_valid_id api (at_workspace a)
      then Inl AttachmentInvalid else Inr a)"

fun validate_part :: "content_api \<Rightarrow> multipart_field \<Rightarrow> request_error + multipart_field" where
  "validate_part api (TextPart f) = bindE (validate_query_field f) (\<lambda>g. Inr (TextPart g))"
| "validate_part api (FilePart f) =
     bindE (validate_field_name (fp_name f)) (\<lambda>_.
     bindE (field_description (fp_description f)) (\<lambda>d.
     bindE (validate_attachment api (fp_attachment f)) (\<lambda>a.
     Inr (FilePart \<lparr>fp_name = fp_name f, fp_enabled = fp_enabled f, fp_description = optional_text d,
          fp_attachment = a\<rparr>))))"

text \<open>\<open>/^[0-9A-Za-z'()+_,./:=?-]{1,70}$/\<close>\<close>

definition boundary_char :: "char \<Rightarrow> bool" where
  "boundary_char c \<longleftrightarrow> (let n = of_char c :: nat in
     (48 \<le> n \<and> n \<le> 57) \<or> (65 \<le> n \<and> n \<le> 90) \<or> (97 \<le> n \<and> n \<le> 122)
     \<or> n \<in> {39, 40, 41, 43, 44, 45, 46, 47, 58, 61, 63, 95})"

definition valid_boundary :: "string \<Rightarrow> bool" where
  "valid_boundary s \<longleftrightarrow> 1 \<le> length s \<and> int (length s) \<le> 70 \<and> list_all boundary_char s"

text \<open>\<open>/(?:^|;)\s*boundary\s*=/i\<close>: some segment between semicolons starts that way.\<close>

definition declares_boundary :: "string \<Rightarrow> bool" where
  "declares_boundary s =
     list_ex (\<lambda>segment. let t = dropWhile js_space segment in
        starts_with (js_lower t) ''boundary'' \<and>
        (case dropWhile js_space (drop 8 t) of c # _ \<Rightarrow> c = CHR ''='' | [] \<Rightarrow> False)) (split_on CHR '';'' s)"

fun validate_request_body :: "content_api \<Rightarrow> request_body option \<Rightarrow> string \<Rightarrow> request_error + request_body" where
  "validate_request_body api None legacy =
     bindE (validate_body legacy) (\<lambda>s. Inr (if s = [] then BodyNone else BodyText None s))"
| "validate_request_body api (Some BodyNone) legacy = Inr BodyNone"
| "validate_request_body api (Some (BodyText ct s)) legacy =
     bindE (validate_body_content_type ct) (\<lambda>t. bindE (validate_body s) (\<lambda>s'. Inr (BodyText t s')))"
| "validate_request_body api (Some (BodyFile ct a)) legacy =
     bindE (validate_body_content_type ct) (\<lambda>t. bindE (validate_attachment api a) (\<lambda>a'. Inr (BodyFile t a')))"
| "validate_request_body api (Some (BodyUrlencoded ct fs)) legacy =
     bindE (validate_body_content_type ct) (\<lambda>t.
     bindE (validate_query fs) (\<lambda>gs.
     bindE (serialize_body (BodyUrlencoded t gs)) (\<lambda>s.
     bindE (validate_body s) (\<lambda>_. Inr (BodyUrlencoded t gs)))))"
| "validate_request_body api (Some (BodyMultipart ct boundary fs)) legacy =
     bindE (validate_body_content_type ct) (\<lambda>t.
     bindE (requireE (valid_boundary boundary) BoundaryInvalid) (\<lambda>_.
     bindE (requireE (case t of None \<Rightarrow> True | Some s \<Rightarrow> \<not> declares_boundary s) BoundaryDeclared) (\<lambda>_.
     bindE (mapE (validate_part api) fs) (\<lambda>gs.
     bindE (serialize_body (BodyMultipart t boundary gs)) (\<lambda>s.
     bindE (validate_body s) (\<lambda>_. Inr (BodyMultipart t boundary gs)))))))"

fun body_content_type :: "request_body \<Rightarrow> string option" where
  "body_content_type BodyNone = None"
| "body_content_type (BodyText ct s) = ct"
| "body_content_type (BodyFile ct a) = Some (coalesce ct (at_content_type a))"
| "body_content_type (BodyUrlencoded ct fs) = Some (coalesce ct ''application/x-www-form-urlencoded'')"
| "body_content_type (BodyMultipart ct boundary fs) =
     Some (coalesce ct ''multipart/form-data'' @ ''; boundary='' @ boundary)"

definition with_body_content_type :: "request_field list \<Rightarrow> request_body \<Rightarrow> request_field list" where
  "with_body_content_type headers body =
     (case body_content_type body of
        None \<Rightarrow> headers
      | Some t \<Rightarrow> filter (\<lambda>h. js_lower (wh_name h) \<noteq> ''content-type'') headers @
          [\<lparr>wh_name = ''Content-Type'', wh_value = t, wh_enabled = True, wh_mode = Some HeaderOverride,
            wh_description = None\<rparr>])"

fun is_file_part :: "multipart_field \<Rightarrow> bool" where
  "is_file_part (FilePart f) = True"
| "is_file_part (TextPart f) = False"

fun has_file_attachment :: "request_body \<Rightarrow> bool" where
  "has_file_attachment (BodyFile ct a) = True"
| "has_file_attachment (BodyMultipart ct b fs) = list_ex (\<lambda>f. part_enabled f \<and> is_file_part f) fs"
| "has_file_attachment _ = False"

section \<open>Complete inputs\<close>

record execution_input =
  xi_method :: string
  xi_target_mode :: "target_mode option"
  xi_target :: string
  xi_query :: "request_field list"
  xi_headers :: "request_field list"
  xi_request_body :: "request_body option"
  xi_body :: string
  xi_pre_script :: "string option"
  xi_post_script :: "string option"
  xi_redirect :: "json option"
  xi_cookie :: "json option"

record request_content =
  rc_method :: http_method
  rc_target_mode :: target_mode
  rc_target :: string
  rc_query :: "request_field list"
  rc_headers :: "request_field list"
  rc_request_body :: request_body
  rc_body :: string
  rc_pre_script :: string
  rc_post_script :: string
  rc_redirect :: redirect_override
  rc_cookie :: cookie_override

definition validate_script :: "string \<Rightarrow> request_error + string" where
  "validate_script s = (if int (utf8_length s) > 65536 then Inl ScriptTooLarge else Inr s)"

definition content_policy :: "policy_error + 'a \<Rightarrow> request_error + 'a" where
  "content_policy r = (case r of Inl e \<Rightarrow> Inl (ContentPolicyInvalid e) | Inr x \<Rightarrow> Inr x)"

definition normalize_input :: "content_api \<Rightarrow> execution_input \<Rightarrow> request_error + request_content" where
  "normalize_input api x =
     bindE (validate_request_body api (xi_request_body x) (xi_body x)) (\<lambda>body.
     bindE (validate_method (xi_method x)) (\<lambda>meth.
     let mode = coalesce (xi_target_mode x) AbsoluteTarget in
     bindE (if mode = ComposedTarget then validate_path_template (xi_target x)
            else validate_target_template api (xi_target x)) (\<lambda>target.
     bindE (validate_query (xi_query x)) (\<lambda>query.
     bindE (validate_headers (xi_headers x)) (\<lambda>headers.
     bindE (bindE (serialize_body body) validate_body) (\<lambda>s.
     bindE (validate_script (coalesce (xi_pre_script x) [])) (\<lambda>pre.
     bindE (validate_script (coalesce (xi_post_script x) [])) (\<lambda>post.
     bindE (content_policy (validate_redirect_override (xi_redirect x))) (\<lambda>redirect.
     bindE (content_policy (validate_cookie_override (xi_cookie x))) (\<lambda>cookie.
     Inr \<lparr>rc_method = meth, rc_target_mode = mode, rc_target = target, rc_query = query,
          rc_headers = headers, rc_request_body = body, rc_body = s, rc_pre_script = pre,
          rc_post_script = post, rc_redirect = redirect, rc_cookie = cookie\<rparr>))))))))))"

section \<open>Header layers\<close>

definition header_key :: "request_field \<Rightarrow> string" where
  "header_key f = js_lower (wh_name f)"

definition group_headers :: "request_field list \<Rightarrow> (string \<times> request_field list) list" where
  "group_headers layer =
     foldl (\<lambda>m f. if \<not> wh_enabled f then m
        else AList.update (header_key f)
          ((case map_of m (header_key f) of None \<Rightarrow> [] | Some g \<Rightarrow> g) @ [f]) m) [] layer"

definition apply_header_group ::
  "request_field list \<Rightarrow> string \<times> request_field list \<Rightarrow> request_field list" where
  "apply_header_group resolved kg =
     (case kg of (key, g) \<Rightarrow>
        (if list_ex (\<lambda>f. mode_of f = HeaderOverride) g
         then filter (\<lambda>f. header_key f \<noteq> key) resolved else resolved) @ g)"

definition resolve_header_layers :: "request_field list list \<Rightarrow> request_field list" where
  "resolve_header_layers layers =
     foldl (\<lambda>resolved layer. foldl apply_header_group resolved (group_headers layer)) [] layers"


section \<open>What layering computes\<close>

definition enabled_group :: "string \<Rightarrow> request_field list \<Rightarrow> request_field list" where
  "enabled_group k layer = filter (\<lambda>f. wh_enabled f \<and> header_key f = k) layer"

definition overrides :: "string \<Rightarrow> request_field list \<Rightarrow> bool" where
  "overrides k layer \<longleftrightarrow> list_ex (\<lambda>f. mode_of f = HeaderOverride) (enabled_group k layer)"

text \<open>The reference: the enabled fields of the name from the last layer that overrides it on.\<close>

fun effective_headers :: "string \<Rightarrow> request_field list list \<Rightarrow> request_field list" where
  "effective_headers k [] = []"
| "effective_headers k (layer # layers) =
     (if list_ex (overrides k) layers then effective_headers k layers
      else enabled_group k layer @ concat (map (enabled_group k) layers))"

lemma group_headers_snoc:
  "group_headers (layer @ [f]) =
     (if \<not> wh_enabled f then group_headers layer
      else AList.update (header_key f)
        ((case map_of (group_headers layer) (header_key f) of None \<Rightarrow> [] | Some g \<Rightarrow> g) @ [f])
        (group_headers layer))"
  by (simp add: group_headers_def)

lemma group_headers_map:
  "map_of (group_headers layer) k = (if enabled_group k layer = [] then None else Some (enabled_group k layer))"
proof (induction layer rule: rev_induct)
  case Nil
  then show ?case by (simp add: group_headers_def enabled_group_def)
next
  case (snoc f layer)
  have group: "enabled_group k (layer @ [f]) =
      enabled_group k layer @ (if wh_enabled f \<and> header_key f = k then [f] else [])"
    by (simp add: enabled_group_def)
  show ?case
  proof (cases "wh_enabled f \<and> header_key f = k")
    case True
    then show ?thesis
      by (simp add: group_headers_snoc group snoc.IH [symmetric])
         (simp add: snoc.IH split: if_splits)
  next
    case False
    then show ?thesis by (auto simp: group_headers_snoc group js_map.get_put snoc.IH)
  qed
qed

lemma group_headers_distinct: "distinct (map fst (group_headers layer))"
proof (induction layer rule: rev_induct)
  case (snoc f layer)
  then show ?case by (simp add: group_headers_snoc distinct_update)
qed (simp add: group_headers_def)

lemma group_headers_keys:
  assumes "(k, g) \<in> set (group_headers layer)" shows "g = enabled_group k layer"
  using map_of_is_SomeI [OF group_headers_distinct assms] group_headers_map [where layer = layer and k = k]
  by (simp split: if_splits)

lemma apply_groups_filter:
  assumes "distinct (map fst gs)" and "\<And>k g. (k, g) \<in> set gs \<Longrightarrow> \<forall>f \<in> set g. header_key f = k"
  shows "filter (\<lambda>f. header_key f = k) (foldl apply_header_group resolved gs) =
    (case map_of gs k of
       None \<Rightarrow> filter (\<lambda>f. header_key f = k) resolved
     | Some g \<Rightarrow> (if list_ex (\<lambda>f. mode_of f = HeaderOverride) g then []
         else filter (\<lambda>f. header_key f = k) resolved) @ g)"
  using assms
proof (induction gs arbitrary: resolved)
  case (Cons kg gs)
  obtain k' g where kg: "kg = (k', g)" by (cases kg)
  have keyed: "\<forall>f \<in> set g. header_key f = k'" using Cons.prems(2) [of k' g] by (simp add: kg)
  have step: "filter (\<lambda>f. header_key f = k) (apply_header_group resolved kg) =
      (if k' = k then (if list_ex (\<lambda>f. mode_of f = HeaderOverride) g then []
         else filter (\<lambda>f. header_key f = k) resolved) @ g
       else filter (\<lambda>f. header_key f = k) resolved)"
    using keyed
    by (auto simp: kg apply_header_group_def filter_empty_conv intro!: filter_True filter_cong)
  have IH: "filter (\<lambda>f. header_key f = k) (foldl apply_header_group (apply_header_group resolved kg) gs) =
    (case map_of gs k of
       None \<Rightarrow> filter (\<lambda>f. header_key f = k) (apply_header_group resolved kg)
     | Some g \<Rightarrow> (if list_ex (\<lambda>f. mode_of f = HeaderOverride) g then []
         else filter (\<lambda>f. header_key f = k) (apply_header_group resolved kg)) @ g)"
    using Cons.prems by (intro Cons.IH) auto
  show ?case
  proof (cases "k' = k")
    case True
    then have "map_of gs k = None" using Cons.prems(1) by (auto simp: kg map_of_eq_None_iff)
    with True show ?thesis unfolding foldl_Cons IH step by (simp add: kg)
  next
    case False
    then show ?thesis unfolding foldl_Cons IH step by (simp add: kg)
  qed
qed simp

lemma layer_filter:
  "filter (\<lambda>f. header_key f = k) (foldl apply_header_group resolved (group_headers layer)) =
     (if overrides k layer then [] else filter (\<lambda>f. header_key f = k) resolved) @ enabled_group k layer"
proof -
  have "\<And>k g. (k, g) \<in> set (group_headers layer) \<Longrightarrow> \<forall>f \<in> set g. header_key f = k"
    using group_headers_keys by (fastforce simp: enabled_group_def)
  from apply_groups_filter [OF group_headers_distinct this, where k = k and resolved = resolved] show ?thesis
    by (auto simp: group_headers_map overrides_def)
qed

lemma effective_headers_snoc:
  "effective_headers k (layers @ [layer]) =
     (if overrides k layer then [] else effective_headers k layers) @ enabled_group k layer"
  by (induction layers) auto

text \<open>
  C27. Header layering. Resolving layers keeps, for every header name, exactly the enabled fields of
  that name from the last layer that overrides it on, in layer order, whatever the spelling of the
  name; no other field is in the result.
\<close>

theorem header_layers_resolve:
  "filter (\<lambda>f. header_key f = k) (resolve_header_layers layers) = effective_headers k layers"
proof (induction layers rule: rev_induct)
  case (snoc layer layers)
  then show ?case
    by (simp add: resolve_header_layers_def layer_filter effective_headers_snoc)
qed (simp add: resolve_header_layers_def)

section \<open>Validated content is stable\<close>

lemma drop_last_stable:
  assumes "t = [] \<or> \<not> P (hd t)"
  shows "dropWhile P (rev (dropWhile P (rev t))) = rev (dropWhile P (rev t))"
proof (cases "rev (dropWhile P (rev t))")
  case (Cons c cs)
  obtain ys where ys: "t = rev (dropWhile P (rev t)) @ ys"
    by (metis rev_append rev_rev_ident takeWhile_dropWhile_id)
  with Cons have "t = c # cs @ ys" by simp
  with assms have "\<not> P c" by auto
  with Cons show ?thesis by simp
next
  case Nil
  show ?thesis unfolding Nil by simp
qed

lemma js_trim_idem [simp]: "js_trim (js_trim s) = js_trim s"
proof -
  have "dropWhile js_space s = [] \<or> \<not> js_space (hd (dropWhile js_space s))"
    using hd_dropWhile by blast
  from drop_last_stable [where P = js_space, OF this] show ?thesis by (simp add: js_trim_def)
qed

lemma mapE_stable:
  assumes "mapE v xs = Inr ys" and "\<And>x y. x \<in> set xs \<Longrightarrow> v x = Inr y \<Longrightarrow> v y = Inr y"
  shows "mapE v ys = Inr ys"
  using assms
proof (induction xs arbitrary: ys)
  case (Cons x xs)
  then obtain z zs where ys: "v x = Inr z" "mapE v xs = Inr zs" "ys = z # zs" by (auto simp: bindE_eq_Inr)
  from Cons.prems(2) [OF _ ys(1)] have "v z = Inr z" by simp
  moreover have "mapE v zs = Inr zs" using ys(2) Cons.prems(2) by (intro Cons.IH) auto
  ultimately show ?case by (simp add: ys)
qed simp

lemma field_description_iff:
  "field_description x = Inr d \<longleftrightarrow> d = coalesce x [] \<and> int (utf8_length d) \<le> 4096"
  by (auto simp: field_description_def validate_field_description_def coalesce_def Let_def
      split: option.splits)

lemma coalesce_optional_text [simp]: "coalesce (optional_text d) [] = d"
  by (simp add: coalesce_def optional_text_def)

lemma query_field_stable:
  assumes "validate_query_field f = Inr g" shows "validate_query_field g = Inr g"
proof -
  from assms obtain d where d: "field_description (wh_description f) = Inr d" "\<not> (d \<noteq> [] \<and> js_trim (wh_name f) = [])"
    "g = \<lparr>wh_name = wh_name f, wh_value = wh_value f, wh_enabled = wh_enabled f, wh_mode = None,
      wh_description = optional_text d\<rparr>"
    by (auto simp: validate_query_field_def bindE_eq_Inr split: if_splits)
  then have "field_description (wh_description g) = Inr d" by (auto simp: field_description_iff)
  with d show ?thesis by (auto simp: validate_query_field_def)
qed

lemma query_stable: "validate_query fs = Inr gs \<Longrightarrow> validate_query gs = Inr gs"
  unfolding validate_query_def by (erule mapE_stable) (rule query_field_stable)

lemma request_header_stable:
  assumes "validate_request_header f = Inr g" shows "validate_request_header g = Inr g"
proof -
  from assms obtain d where d: "header_allowed f" "field_description (wh_description f) = Inr d"
    "\<not> (d \<noteq> [] \<and> js_trim (wh_name f) = [])"
    "g = \<lparr>wh_name = wh_name f, wh_value = wh_value f, wh_enabled = wh_enabled f,
      wh_mode = Some (mode_of f), wh_description = optional_text d\<rparr>"
    by (auto simp: validate_request_header_def bindE_eq_Inr requireE_eq_Inr split: if_splits)
  then have "field_description (wh_description g) = Inr d" "header_allowed g" "mode_of g = mode_of f"
    by (auto simp: field_description_iff header_allowed_def mode_of_def split: option.splits)
  with d show ?thesis by (auto simp: validate_request_header_def)
qed

lemma headers_stable: "validate_headers fs = Inr gs \<Longrightarrow> validate_headers gs = Inr gs"
  unfolding validate_headers_def by (erule mapE_stable) (rule request_header_stable)

lemma validate_body_same: "validate_body s = Inr t \<Longrightarrow> t = s"
  by (simp add: validate_body_def split: if_splits)

lemma validate_body_stable: "validate_body s = Inr t \<Longrightarrow> validate_body t = Inr t"
  using validate_body_same by auto

lemma validate_script_same: "validate_script s = Inr t \<Longrightarrow> t = s"
  by (simp add: validate_script_def split: if_splits)

lemma body_content_type_stable:
  "validate_body_content_type ct = Inr t \<Longrightarrow> validate_body_content_type t = Inr t"
  by (auto simp: validate_body_content_type_def Let_def split: option.splits if_splits)

lemma no_content_type [simp]: "validate_body_content_type None = Inr None"
  by (simp add: validate_body_content_type_def)

lemma validate_attachment_stable: "validate_attachment api a = Inr b \<Longrightarrow> validate_attachment api b = Inr b"
  by (simp add: validate_attachment_def split: if_splits)

lemma part_stable: "validate_part api f = Inr g \<Longrightarrow> validate_part api g = Inr g"
proof (cases f)
  case (TextPart t)
  assume "validate_part api f = Inr g"
  then show ?thesis using query_field_stable by (auto simp: TextPart bindE_eq_Inr)
next
  case (FilePart t)
  assume "validate_part api f = Inr g"
  then obtain d a where parts: "validate_field_name (fp_name t) = Inr ()"
    "field_description (fp_description t) = Inr d" "validate_attachment api (fp_attachment t) = Inr a"
    "g = FilePart \<lparr>fp_name = fp_name t, fp_enabled = fp_enabled t, fp_description = optional_text d,
      fp_attachment = a\<rparr>"
    by (auto simp: FilePart bindE_eq_Inr)
  moreover have "field_description (optional_text d) = Inr d"
    using parts(2) by (auto simp: field_description_iff)
  ultimately show ?thesis using validate_attachment_stable by simp
qed

lemma request_body_stable:
  "validate_request_body api b legacy = Inr b' \<Longrightarrow> validate_request_body api (Some b') legacy' = Inr b'"
proof (induction api b legacy rule: validate_request_body.induct)
  case (6 api ct boundary fs legacy)
  then obtain t gs s u where parts:
    "validate_body_content_type ct = Inr t" "valid_boundary boundary"
    "case t of None \<Rightarrow> True | Some s \<Rightarrow> \<not> declares_boundary s"
    "mapE (validate_part api) fs = Inr gs" "serialize_body (BodyMultipart t boundary gs) = Inr s"
    "validate_body s = Inr u" and b': "b' = BodyMultipart t boundary gs"
    unfolding validate_request_body.simps bindE_eq_Inr requireE_eq_Inr sum.inject by blast
  have "mapE (validate_part api) gs = Inr gs" using parts(4) by (rule mapE_stable) (rule part_stable)
  with parts body_content_type_stable [OF parts(1)] show ?case
    by (simp add: b' del: serialize_body.simps)
next
  case (5 api ct fs legacy)
  then obtain t gs s u where parts:
    "validate_body_content_type ct = Inr t" "validate_query fs = Inr gs"
    "serialize_body (BodyUrlencoded t gs) = Inr s" "validate_body s = Inr u" "b' = BodyUrlencoded t gs"
    unfolding validate_request_body.simps bindE_eq_Inr sum.inject by blast
  with body_content_type_stable [OF parts(1)] query_stable [OF parts(2)] show ?case
    by (simp del: serialize_body.simps)
next
  case (3 api ct s legacy)
  then show ?case
    using body_content_type_stable [of ct] validate_body_stable [of s] by (auto simp: bindE_eq_Inr)
next
  case (4 api ct a legacy)
  then show ?case
    using body_content_type_stable [of ct] validate_attachment_stable [of api a] by (auto simp: bindE_eq_Inr)
next
  case (1 api legacy)
  then show ?case using validate_body_stable [of legacy] by (auto simp: bindE_eq_Inr split: if_splits)
qed simp

lemma method_roundtrip [simp]: "validate_method (method_name m) = Inr m"
  by (cases m) (simp_all add: validate_method_def method_name_def)

definition content_input :: "request_content \<Rightarrow> execution_input" where
  "content_input c =
     \<lparr>xi_method = method_name (rc_method c), xi_target_mode = Some (rc_target_mode c),
      xi_target = rc_target c, xi_query = rc_query c, xi_headers = rc_headers c,
      xi_request_body = Some (rc_request_body c), xi_body = rc_body c,
      xi_pre_script = Some (rc_pre_script c), xi_post_script = Some (rc_post_script c),
      xi_redirect = Some (redirect_override_json (rc_redirect c)),
      xi_cookie = Some (cookie_override_json (rc_cookie c))\<rparr>"

text \<open>Serialising a parsed URL and parsing it again gives the same URL, and the serialiser escapes
  every \<open><\<close>.\<close>

definition parser_stable :: "content_api \<Rightarrow> bool" where
  "parser_stable api \<longleftrightarrow> (\<forall>s u. ca_parse api s = Some u \<longrightarrow>
     ca_parse api (tu_href u) = Some u \<and> CHR ''<'' \<notin> set (tu_href u))"

lemma no_template_marker: "CHR ''<'' \<notin> set s \<Longrightarrow> \<not> includes_text s ''<<''"
proof
  assume "CHR ''<'' \<notin> set s" "includes_text s ''<<''"
  then obtain n where "index_of ''<<'' s = Some n" by (auto simp: includes_text_def)
  from index_of_Some [OF this] obtain r where "drop n s = ''<<'' @ r" by (auto simp: starts_with_iff)
  then have "CHR ''<'' \<in> set (drop n s)" by simp
  with \<open>CHR ''<'' \<notin> set s\<close> show False by (meson in_set_dropD)
qed

lemma target_template_stable:
  assumes "parser_stable api" and "validate_target_template api s = Inr t"
  shows "validate_target_template api t = Inr t"
proof (cases "includes_text s ''<<''")
  case True
  with assms(2) show ?thesis by (auto simp: validate_target_template_def split: if_splits)
next
  case False
  with assms(2) obtain u where u: "ca_parse api s = Some u" "t = tu_href u"
    and ok: "validate_target_url api s = Inr t"
    by (auto simp: validate_target_template_def validate_target_url_def split: option.splits if_splits)
  from u assms(1) have "ca_parse api t = Some u" and "\<not> includes_text t ''<<''"
    by (auto simp: parser_stable_def no_template_marker)
  with ok u show ?thesis by (simp add: validate_target_template_def validate_target_url_def)
qed

lemma path_template_same: "validate_path_template s = Inr t \<Longrightarrow> t = s"
  by (simp add: validate_path_template_def split: if_splits)

definition demo_api :: content_api where
  "demo_api = \<lparr>ca_parse = (\<lambda>s. if s = ''http://h/'' then Some \<lparr>pu_protocol = ''http:'', pu_username = [],
     pu_password = [], tu_host = ''h'', tu_search = [], tu_hash = [], tu_href = ''http://h/''\<rparr> else None),
     ca_valid_id = (\<lambda>i. i = ''id'')\<rparr>"

definition demo_input :: execution_input where
  "demo_input = \<lparr>xi_method = ''POST'', xi_target_mode = None, xi_target = ''http://h/'',
     xi_query = [\<lparr>wh_name = ''q'', wh_value = ''1'', wh_enabled = True, wh_mode = Some HeaderAppend,
       wh_description = Some []\<rparr>],
     xi_headers = [\<lparr>wh_name = ''Accept'', wh_value = ''*'', wh_enabled = True, wh_mode = None,
       wh_description = None\<rparr>],
     xi_request_body = Some (BodyText (Some '' text/plain '') ''hi''), xi_body = [],
     xi_pre_script = None, xi_post_script = None, xi_redirect = None, xi_cookie = None\<rparr>"

text \<open>
  Normalisation is stable. Content that was accepted and normalised once, stored, and read back
  normalises to exactly itself: every revision, duplicate and restored draft keeps the content that
  was saved.
\<close>

theorem normalized_input_stable:
  assumes "parser_stable api" and "normalize_input api x = Inr c"
  shows "normalize_input api (content_input c) = Inr c"
proof -
  let ?mode = "coalesce (xi_target_mode x) AbsoluteTarget"
  obtain body meth url query headers s0 s pre post redirect cookie where
    parts: "validate_request_body api (xi_request_body x) (xi_body x) = Inr body"
      "(if ?mode = ComposedTarget then validate_path_template (xi_target x)
        else validate_target_template api (xi_target x)) = Inr url"
      "validate_query (xi_query x) = Inr query" "validate_headers (xi_headers x) = Inr headers"
      "serialize_body body = Inr s0" "validate_body s0 = Inr s"
      "validate_script (coalesce (xi_pre_script x) []) = Inr pre"
      "validate_script (coalesce (xi_post_script x) []) = Inr post"
      "content_policy (validate_redirect_override (xi_redirect x)) = Inr redirect"
      "content_policy (validate_cookie_override (xi_cookie x)) = Inr cookie"
    and c: "c = \<lparr>rc_method = meth, rc_target_mode = ?mode, rc_target = url, rc_query = query,
          rc_headers = headers, rc_request_body = body, rc_body = s, rc_pre_script = pre,
          rc_post_script = post, rc_redirect = redirect, rc_cookie = cookie\<rparr>"
    using assms(2) unfolding normalize_input_def Let_def bindE_eq_Inr sum.inject by blast
  have body: "validate_request_body api (Some body) s = Inr body" by (rule request_body_stable [OF parts(1)])
  have url: "(if ?mode = ComposedTarget then validate_path_template url
      else validate_target_template api url) = Inr url"
    using parts(2) target_template_stable [OF assms(1)] path_template_same
    by (auto split: if_splits)
  have scripts: "validate_script pre = Inr pre" "validate_script post = Inr post"
    using parts(7,8) validate_script_same by auto
  have redirect: "content_policy (validate_redirect_override (Some (redirect_override_json redirect))) = Inr redirect"
    using parts(9) validate_redirect_override_ok redirect_override_roundtrip
    by (auto simp: content_policy_def parse_redirect_override_def split: sum.splits)
  have cookie: "content_policy (validate_cookie_override (Some (cookie_override_json cookie))) = Inr cookie"
    using cookie_override_roundtrip by (simp add: content_policy_def parse_cookie_override_def)
  have "validate_body s0 = Inr s" by (rule parts(6))
  with body url query_stable [OF parts(3)] headers_stable [OF parts(4)] parts(5) scripts redirect cookie
  show ?thesis
    by (auto simp: c normalize_input_def content_input_def coalesce_def [of "Some _"] Let_def)
qed

theorem normalized_input_stable_witness:
  "\<exists>c. normalize_input demo_api demo_input = Inr c \<and> normalize_input demo_api (content_input c) = Inr c \<and>
     rc_request_body c = BodyText (Some ''text/plain'') ''hi''"
proof -
  have "case normalize_input demo_api demo_input of
      Inl e \<Rightarrow> False | Inr c \<Rightarrow> rc_request_body c = BodyText (Some ''text/plain'') ''hi''"
    by code_simp
  then obtain c where c: "normalize_input demo_api demo_input = Inr c"
    "rc_request_body c = BodyText (Some ''text/plain'') ''hi''"
    by (auto split: sum.splits)
  have "parser_stable demo_api" by (auto simp: parser_stable_def demo_api_def split: if_splits)
  from normalized_input_stable [OF this c(1)] c show ?thesis by blast
qed

end
