(* ===== verification/Request_Forms.thy ===== *)
theory Request_Forms
  imports Request_Content
begin

text \<open>
  What keeps the content of multipart fields from forging parts: the delimiter occurs in the body that
  \<open>serializeRequestBody\<close> of \<open>apps/backend/src/requests/request-service.ts\<close> writes only between parts.
\<close>

section \<open>Delimiters\<close>

definition delimiter :: "string \<Rightarrow> string" where
  "delimiter boundary = crlf @ ''--'' @ boundary"

text \<open>A part after its delimiter: header lines, a blank line, the value.\<close>

fun part_text :: "string list \<Rightarrow> string \<Rightarrow> string" where
  "part_text [] v = crlf @ crlf @ v"
| "part_text (h # hs) v = crlf @ h @ part_text hs v"

definition line_ok :: "string \<Rightarrow> bool" where
  "line_ok h \<longleftrightarrow> CHR 0x0D \<notin> set h \<and> h \<noteq> [] \<and> hd h \<noteq> CHR ''-''"

definition value_ok :: "string \<Rightarrow> string \<Rightarrow> bool" where
  "value_ok boundary v \<longleftrightarrow> \<not> starts_with v (''--'' @ boundary) \<and> (\<forall>a c. v \<noteq> a @ delimiter boundary @ c)"

lemma append_cr_split:
  assumes "a @ CHR 0x0D # x = h @ y" and "CHR 0x0D \<notin> set h"
  shows "\<exists>a'. a = h @ a' \<and> a' @ CHR 0x0D # x = y"
  using assms by (auto simp: append_eq_append_conv2 append_eq_Cons_conv Cons_eq_append_conv)

lemma delimiter_not_in_part:
  assumes "\<forall>h \<in> set hs. line_ok h" and "value_ok boundary v"
  shows "part_text hs v \<noteq> a @ delimiter boundary @ c"
  using assms
proof (induction hs arbitrary: a)
  case Nil
  show ?case
  proof
    assume eq: "part_text [] v = a @ delimiter boundary @ c"
    then have eq': "CHR 0x0D # CHR 0x0A # CHR 0x0D # CHR 0x0A # v =
        a @ CHR 0x0D # CHR 0x0A # CHR ''-'' # CHR ''-'' # boundary @ c"
      by (simp add: delimiter_def crlf_def)
    show False
    proof (cases a)
      case Nil
      with eq' show False by simp
    next
      case (Cons a1 as)
      from eq' [unfolded Cons append_Cons list.inject]
      have e1: "CHR 0x0A # CHR 0x0D # CHR 0x0A # v =
          as @ CHR 0x0D # CHR 0x0A # CHR ''-'' # CHR ''-'' # boundary @ c" by (rule conjunct2)
      then obtain as' where as: "as = CHR 0x0A # as'" by (cases as) auto
      with e1 have e2: "CHR 0x0D # CHR 0x0A # v = as' @ CHR 0x0D # CHR 0x0A # CHR ''-'' # CHR ''-'' # boundary @ c"
        by simp
      show False
      proof (cases as')
        case Nil
        with e2 have "v = (''--'' @ boundary) @ c" by simp
        then have "starts_with v (''--'' @ boundary)" unfolding starts_with_iff by blast
        with Nil.prems(2) show False by (simp add: value_ok_def)
      next
        case (Cons b bs)
        from e2 [unfolded Cons append_Cons list.inject]
        have e3: "CHR 0x0A # v = bs @ CHR 0x0D # CHR 0x0A # CHR ''-'' # CHR ''-'' # boundary @ c"
          by (rule conjunct2)
        then obtain bs' where "bs = CHR 0x0A # bs'" by (cases bs) auto
        with e3 have "v = bs' @ delimiter boundary @ c" by (simp add: delimiter_def crlf_def)
        with Nil.prems(2) show False unfolding value_ok_def by blast
      qed
    qed
  qed
next
  case (Cons h hs)
  have h: "line_ok h" and hs: "\<forall>h \<in> set hs. line_ok h" using Cons.prems by auto
  show ?case
  proof
    assume eq: "part_text (h # hs) v = a @ delimiter boundary @ c"
    then have eq': "CHR 0x0D # CHR 0x0A # h @ part_text hs v =
        a @ CHR 0x0D # CHR 0x0A # CHR ''-'' # CHR ''-'' # boundary @ c"
      by (simp add: delimiter_def crlf_def)
    show False
    proof (cases a)
      case Nil
      with eq' have "h @ part_text hs v = CHR ''-'' # CHR ''-'' # boundary @ c" by simp
      with h show False by (cases h) (auto simp: line_ok_def)
    next
      case (Cons a1 as)
      from eq' [unfolded Cons append_Cons list.inject]
      have e1: "CHR 0x0A # h @ part_text hs v =
          as @ CHR 0x0D # CHR 0x0A # CHR ''-'' # CHR ''-'' # boundary @ c" by (rule conjunct2)
      then obtain as' where as: "as = CHR 0x0A # as'" by (cases as) auto
      with e1 have "as' @ CHR 0x0D # (CHR 0x0A # CHR ''-'' # CHR ''-'' # boundary @ c) = h @ part_text hs v"
        by simp
      from append_cr_split [OF this] h obtain rest where
        "rest @ CHR 0x0D # (CHR 0x0A # CHR ''-'' # CHR ''-'' # boundary @ c) = part_text hs v"
        by (auto simp: line_ok_def)
      then have "part_text hs v = rest @ delimiter boundary @ c" by (simp add: delimiter_def crlf_def)
      with Cons.IH [OF hs Cons.prems(2)] show False by blast
    qed
  qed
qed

lemma index_of_self: "index_of p (p @ z) = Some 0"
  by (cases p; cases z) (auto simp: starts_with_iff)

lemma index_of_first:
  assumes "\<And>n. n < length r \<Longrightarrow> \<not> starts_with (drop n (r @ d @ z)) d"
  shows "index_of d (r @ d @ z) = Some (length r)"
  using assms
proof (induction r)
  case Nil
  then show ?case by (simp add: index_of_self)
next
  case (Cons x r)
  have "\<not> starts_with ((x # r) @ d @ z) d" using Cons.prems [of 0] by simp
  moreover have "index_of d (r @ d @ z) = Some (length r)"
  proof (rule Cons.IH)
    fix n assume "n < length r"
    then show "\<not> starts_with (drop n (r @ d @ z)) d" using Cons.prems [of "Suc n"] by simp
  qed
  ultimately show ?case by simp
qed

text \<open>A delimiter begins with its only carriage return, so it overlaps no other delimiter.\<close>

lemma delimiter_index:
  assumes cr: "CHR 0x0D \<notin> set boundary" and clean: "\<And>a c. r \<noteq> a @ delimiter boundary @ c"
  shows "index_of (delimiter boundary) (r @ delimiter boundary @ z) = Some (length r)"
proof (rule index_of_first)
  fix n assume n: "n < length r"
  let ?d = "delimiter boundary"
  show "\<not> starts_with (drop n (r @ ?d @ z)) ?d"
  proof
    assume "starts_with (drop n (r @ ?d @ z)) ?d"
    then obtain c where c: "drop n r @ ?d @ z = ?d @ c" using n by (auto simp: starts_with_iff)
    show False
    proof (cases "length ?d \<le> length (drop n r)")
      case True
      then have "take (length ?d) (drop n r) = ?d"
        using c by (metis append_eq_append_conv_if append_take_drop_id take_append)
      then have "r = take n r @ ?d @ drop (length ?d) (drop n r)"
        by (metis append_take_drop_id)
      with clean show False by blast
    next
      case False
      let ?k = "length (drop n r)"
      have k: "0 < ?k" "?k < length ?d" using n False by auto
      have "(drop n r @ ?d @ z) ! ?k = CHR 0x0D" by (simp add: nth_append delimiter_def crlf_def)
      then have "(?d @ c) ! ?k = CHR 0x0D" by (simp only: c)
      with k(2) have "?d ! ?k = CHR 0x0D" by (simp add: nth_append)
      moreover obtain m where m: "?k = Suc m" using k(1) by (cases ?k) auto
      ultimately have "(CHR 0x0A # CHR ''-'' # CHR ''-'' # boundary) ! m = CHR 0x0D"
        by (simp add: delimiter_def crlf_def)
      moreover have "m < length (CHR 0x0A # CHR ''-'' # CHR ''-'' # boundary)"
        using k(2) m by (simp add: delimiter_def crlf_def)
      ultimately have "CHR 0x0D \<in> set (CHR 0x0A # CHR ''-'' # CHR ''-'' # boundary)"
        by (metis nth_mem)
      with cr show False by simp
    qed
  qed
qed

lemma delimiter_cancel:
  assumes "CHR 0x0D \<notin> set boundary" and "\<And>a c. r \<noteq> a @ delimiter boundary @ c"
    and "\<And>a c. r' \<noteq> a @ delimiter boundary @ c"
    and "r @ delimiter boundary @ z = r' @ delimiter boundary @ z'"
  shows "r = r' \<and> z = z'"
proof -
  have "length r = length r'"
    using delimiter_index [OF assms(1,2), of z] delimiter_index [OF assms(1,3), of z'] assms(4) by simp
  with assms(4) show ?thesis by simp
qed

section \<open>Parts\<close>

fun part_lines :: "multipart_field \<Rightarrow> string list" where
  "part_lines (TextPart f) = [''Content-Disposition: form-data; name='' @ quoted (escape_parameter (wh_name f))]"
| "part_lines (FilePart f) =
     [''Content-Disposition: form-data; name='' @ quoted (escape_parameter (fp_name f)) @ ''; filename='' @
        quoted (escape_parameter (at_file_name (fp_attachment f))),
      ''Content-Type: '' @ at_content_type (fp_attachment f)]"

fun part_value :: "multipart_field \<Rightarrow> string" where
  "part_value (TextPart f) = wh_value f"
| "part_value (FilePart f) = ''[attachment:'' @ at_id (fp_attachment f) @ '']''"

text \<open>What a recipient is meant to see.\<close>

fun part_view :: "multipart_field \<Rightarrow> string \<times> (string \<times> string) option \<times> string" where
  "part_view (TextPart f) = (wh_name f, None, wh_value f)"
| "part_view (FilePart f) = (fp_name f,
     Some (at_file_name (fp_attachment f), at_content_type (fp_attachment f)), at_id (fp_attachment f))"

fun attachment_ok :: "content_api \<Rightarrow> multipart_field \<Rightarrow> bool" where
  "attachment_ok api (TextPart f) = True"
| "attachment_ok api (FilePart f) = (validate_attachment api (fp_attachment f) = Inr (fp_attachment f))"

fun form_text :: "string \<Rightarrow> multipart_field list \<Rightarrow> string" where
  "form_text boundary [] = ''--'' @ crlf"
| "form_text boundary (f # fs) =
     part_text (part_lines f) (part_value f) @ delimiter boundary @ form_text boundary fs"

lemma serialize_part_text:
  "serialize_part boundary f = Inr c \<Longrightarrow>
     crlf @ c = delimiter boundary @ part_text (part_lines f) (part_value f) @ crlf"
  by (cases f) (auto simp: bindE_eq_Inr requireE_eq_Inr part_head_def delimiter_def)

lemma serialize_form:
  "mapE (serialize_part boundary) fs = Inr chunks \<Longrightarrow>
     crlf @ concat chunks @ ''--'' @ boundary @ ''--'' @ crlf = delimiter boundary @ form_text boundary fs"
proof (induction fs arbitrary: chunks)
  case Nil
  then show ?case by (simp add: delimiter_def)
next
  case (Cons f fs)
  then obtain c cs where chunks: "serialize_part boundary f = Inr c" "mapE (serialize_part boundary) fs = Inr cs"
    "chunks = c # cs" by (auto simp: bindE_eq_Inr)
  have "crlf @ concat chunks @ ''--'' @ boundary @ ''--'' @ crlf =
      (crlf @ c) @ concat cs @ ''--'' @ boundary @ ''--'' @ crlf" by (simp add: chunks)
  also have "\<dots> = delimiter boundary @ part_text (part_lines f) (part_value f) @
      (crlf @ concat cs @ ''--'' @ boundary @ ''--'' @ crlf)"
    by (simp only: serialize_part_text [OF chunks(1)] append_assoc)
  also have "\<dots> = delimiter boundary @ form_text boundary (f # fs)"
    by (simp only: Cons.IH [OF chunks(2)] form_text.simps append_assoc)
  finally show ?case .
qed

lemma includes_text_iff: "includes_text s p \<longleftrightarrow> (\<exists>a c. s = a @ p @ c)"
proof
  assume "includes_text s p"
  then obtain n where "index_of p s = Some n" by (auto simp: includes_text_def)
  from index_of_Some [OF this] obtain c where "drop n s = p @ c" by (auto simp: starts_with_iff)
  then have "s = take n s @ p @ c" by (metis append_take_drop_id)
  then show "\<exists>a c. s = a @ p @ c" by blast
next
  assume "\<exists>a c. s = a @ p @ c"
  then obtain a c where s: "s = a @ p @ c" by blast
  show "includes_text s p" unfolding includes_text_def
  proof
    assume "index_of p s = None"
    from index_of_None [OF this, of "length a"] show False by (simp add: s starts_with_iff)
  qed
qed

lemma breaks_line_cr: "\<not> breaks_line s \<Longrightarrow> CHR 0x0D \<notin> set s"
proof
  assume "\<not> breaks_line s" "CHR 0x0D \<in> set s"
  moreover have "(of_char (CHR 0x0D) :: nat) = 13" by simp
  ultimately show False unfolding breaks_line_def list_ex_iff by (metis insertI1 insertI2)
qed

lemma escape_cr: "\<not> breaks_line s \<Longrightarrow> CHR 0x0D \<notin> set (escape_parameter s)"
  using breaks_line_cr [of s] by (auto simp: escape_parameter_def split: if_splits)

text \<open>The quotation mark that ends an escaped parameter is the first unescaped one.\<close>

lemma escape_unique:
  "escape_parameter a @ CHR 0x22 # x = escape_parameter b @ CHR 0x22 # y \<Longrightarrow> a = b \<and> x = y"
proof (induction a arbitrary: b)
  case Nil
  then show ?case by (cases b) (auto simp: escape_parameter_def split: if_splits)
next
  case (Cons c a)
  show ?case
  proof (cases b)
    case Nil
    with Cons.prems show ?thesis by (auto simp: escape_parameter_def split: if_splits)
  next
    case (Cons d ds)
    have "c = d \<and> escape_parameter a @ CHR 0x22 # x = escape_parameter ds @ CHR 0x22 # y"
      using Cons.prems by (auto simp: Cons escape_parameter_def split: if_splits)
    with Cons.IH [of ds] show ?thesis by (simp add: Cons)
  qed
qed

lemma take_line: "CHR 0x0D \<notin> set h \<Longrightarrow> takeWhile (\<lambda>c. c \<noteq> CHR 0x0D) (h @ crlf @ x) = h"
  by (induction h) (auto simp: crlf_def)

lemma line_cancel:
  assumes "CHR 0x0D \<notin> set h" "CHR 0x0D \<notin> set h'" "h @ crlf @ x = h' @ crlf @ y"
  shows "h = h' \<and> x = y"
proof -
  have "h = h'" using take_line [OF assms(1), of x] take_line [OF assms(2), of y] assms(3) by simp
  with assms(3) show ?thesis by simp
qed

definition sound_part :: "content_api \<Rightarrow> string \<Rightarrow> multipart_field \<Rightarrow> bool" where
  "sound_part api boundary f \<longleftrightarrow> attachment_ok api f \<and> (\<exists>c. serialize_part boundary f = Inr c)"

lemma sound_part_text:
  assumes "sound_part api boundary f" and "\<And>i. ca_valid_id api i \<Longrightarrow> CHR 0x0D \<notin> set i"
  shows "part_text (part_lines f) (part_value f) \<noteq> a @ delimiter boundary @ c"
proof (rule delimiter_not_in_part)
  show "\<forall>h \<in> set (part_lines f). line_ok h"
  proof (cases f)
    case (TextPart t)
    with assms(1) show ?thesis
      by (auto simp: sound_part_def bindE_eq_Inr requireE_eq_Inr validate_field_name_def line_ok_def quoted_def
          escape_cr)
  next
    case (FilePart t)
    with assms(1) have "\<not> breaks_line (fp_name t)" "\<not> breaks_line (at_file_name (fp_attachment t))"
      "\<not> breaks_line (at_content_type (fp_attachment t))"
      by (auto simp: sound_part_def bindE_eq_Inr requireE_eq_Inr validate_field_name_def
          validate_attachment_def split: if_splits)
    then show ?thesis
      by (auto simp: FilePart line_ok_def quoted_def escape_cr breaks_line_cr)
  qed
  show "value_ok boundary (part_value f)"
  proof (cases f)
    case (TextPart t)
    with assms(1) have no: "\<not> includes_text (wh_value t) boundary"
      by (auto simp: sound_part_def bindE_eq_Inr requireE_eq_Inr)
    have "\<not> starts_with (wh_value t) (''--'' @ boundary)"
    proof
      assume "starts_with (wh_value t) (''--'' @ boundary)"
      then obtain r where "wh_value t = ''--'' @ boundary @ r" by (auto simp: starts_with_iff)
      with no show False unfolding includes_text_iff by blast
    qed
    moreover have "wh_value t \<noteq> a @ delimiter boundary @ c" for a c
    proof
      assume "wh_value t = a @ delimiter boundary @ c"
      then have "wh_value t = (a @ crlf @ ''--'') @ boundary @ c" by (simp add: delimiter_def)
      with no show False unfolding includes_text_iff by blast
    qed
    ultimately show ?thesis by (simp add: TextPart value_ok_def)
  next
    case (FilePart t)
    with assms(1) have "ca_valid_id api (at_id (fp_attachment t))"
      by (auto simp: sound_part_def validate_attachment_def split: if_splits)
    then have "CHR 0x0D \<notin> set (part_value f)" using assms(2) by (simp add: FilePart)
    then have "part_value f \<noteq> a @ delimiter boundary @ c" for a c
      by (auto simp: delimiter_def crlf_def)
    then show ?thesis by (simp add: FilePart value_ok_def)
  qed
qed

lemma part_text_view:
  assumes "sound_part api boundary f" "sound_part api boundary g"
    and "part_text (part_lines f) (part_value f) = part_text (part_lines g) (part_value g)"
  shows "part_view f = part_view g"
proof (cases f; cases g)
  fix t u assume f: "f = TextPart t" and g: "g = TextPart u"
  from assms(3) have "escape_parameter (wh_name t) @ CHR 0x22 # crlf @ crlf @ wh_value t =
      escape_parameter (wh_name u) @ CHR 0x22 # crlf @ crlf @ wh_value u"
    by (simp add: f g quoted_def)
  from escape_unique [OF this] show ?thesis by (simp add: f g)
next
  fix t u assume f: "f = TextPart t" and g: "g = FilePart u"
  from assms(3) have "escape_parameter (wh_name t) @ CHR 0x22 # crlf @ crlf @ wh_value t =
      escape_parameter (fp_name u) @ CHR 0x22 # ''; filename='' @
        quoted (escape_parameter (at_file_name (fp_attachment u))) @
        part_text [''Content-Type: '' @ at_content_type (fp_attachment u)] (part_value g)"
    by (simp add: f g quoted_def)
  from escape_unique [OF this] show ?thesis by (simp add: crlf_def)
next
  fix t u assume f: "f = FilePart t" and g: "g = TextPart u"
  from assms(3) [symmetric] have "escape_parameter (wh_name u) @ CHR 0x22 # crlf @ crlf @ wh_value u =
      escape_parameter (fp_name t) @ CHR 0x22 # ''; filename='' @
        quoted (escape_parameter (at_file_name (fp_attachment t))) @
        part_text [''Content-Type: '' @ at_content_type (fp_attachment t)] (part_value f)"
    by (simp add: f g quoted_def)
  from escape_unique [OF this] show ?thesis by (simp add: crlf_def)
next
  fix t u assume f: "f = FilePart t" and g: "g = FilePart u"
  let ?a = "fp_attachment t" and ?b = "fp_attachment u"
  from assms(3) have "escape_parameter (fp_name t) @ CHR 0x22 # ''; filename='' @ CHR 0x22 #
        escape_parameter (at_file_name ?a) @ CHR 0x22 #
        part_text [''Content-Type: '' @ at_content_type ?a] (part_value f) =
      escape_parameter (fp_name u) @ CHR 0x22 # ''; filename='' @ CHR 0x22 #
        escape_parameter (at_file_name ?b) @ CHR 0x22 #
        part_text [''Content-Type: '' @ at_content_type ?b] (part_value g)"
    by (simp add: f g quoted_def)
  from escape_unique [OF this] have name: "fp_name t = fp_name u"
    and rest: "escape_parameter (at_file_name ?a) @ CHR 0x22 #
        part_text [''Content-Type: '' @ at_content_type ?a] (part_value f) =
      escape_parameter (at_file_name ?b) @ CHR 0x22 #
        part_text [''Content-Type: '' @ at_content_type ?b] (part_value g)"
    by simp_all
  from escape_unique [OF rest] have names: "at_file_name ?a = at_file_name ?b"
    and rest2: "at_content_type ?a @ crlf @ crlf @ part_value f = at_content_type ?b @ crlf @ crlf @ part_value g"
    by simp_all
  have "CHR 0x0D \<notin> set (at_content_type ?a)" "CHR 0x0D \<notin> set (at_content_type ?b)"
    using assms(1,2) by (auto simp: f g sound_part_def validate_attachment_def split: if_splits
        dest!: breaks_line_cr)
  from line_cancel [OF this rest2] show ?thesis by (simp add: f g name names)
qed

lemma form_text_views:
  assumes "CHR 0x0D \<notin> set boundary" and "\<And>i. ca_valid_id api i \<Longrightarrow> CHR 0x0D \<notin> set i"
    and "\<forall>f \<in> set fs. sound_part api boundary f" "\<forall>f \<in> set gs. sound_part api boundary f"
    and "form_text boundary fs = form_text boundary gs"
  shows "map part_view fs = map part_view gs"
  using assms(3-5)
proof (induction fs arbitrary: gs)
  case Nil
  have start: "CHR ''-'' # r \<noteq> part_text hs v @ x" for hs v x r by (cases hs) (simp_all add: crlf_def)
  with Nil.prems(3) show ?case by (cases gs) simp_all
next
  case (Cons f fs)
  have start: "part_text hs v @ x \<noteq> CHR ''-'' # r" for hs v x r by (cases hs) (simp_all add: crlf_def)
  show ?case
  proof (cases gs)
    case Nil
    with Cons.prems(3) start show ?thesis by simp
  next
    case (Cons g gs')
    have sound: "sound_part api boundary f" "sound_part api boundary g"
      using Cons.prems by (simp_all add: Cons)
    from delimiter_cancel [OF assms(1) sound_part_text [OF sound(1) assms(2)]
        sound_part_text [OF sound(2) assms(2)], of "form_text boundary fs" "form_text boundary gs'"]
    have "part_text (part_lines f) (part_value f) = part_text (part_lines g) (part_value g)"
      and rest: "form_text boundary fs = form_text boundary gs'"
      using Cons.prems(3) by (simp_all add: Cons)
    from part_text_view [OF sound this(1)] Cons.IH [OF _ _ rest] Cons.prems show ?thesis
      by (simp add: Cons)
  qed
qed

lemma accepted_multipart:
  assumes "validate_request_body api b legacy = Inr (BodyMultipart t boundary fs)"
  obtains c u where "valid_boundary boundary" "\<forall>f \<in> set fs. validate_part api f = Inr f"
    "serialize_body (BodyMultipart t boundary fs) = Inr c" "validate_body c = Inr u"
proof -
  have "validate_request_body api (Some (BodyMultipart t boundary fs)) [] = Inr (BodyMultipart t boundary fs)"
    by (rule request_body_stable [OF assms])
  then obtain t' gs c u where parts: "valid_boundary boundary" "mapE (validate_part api) fs = Inr gs"
    "serialize_body (BodyMultipart t' boundary gs) = Inr c" "validate_body c = Inr u" "gs = fs" "t' = t"
    unfolding validate_request_body.simps bindE_eq_Inr requireE_eq_Inr sum.inject request_body.inject by blast
  have "\<forall>f \<in> set fs. validate_part api f = Inr f"
    using parts(2) by (auto simp: parts(5) mapE_eq_Inr list_all2_same)
  with parts show thesis using that by blast
qed

lemma accepted_parts_sound:
  assumes "validate_request_body api b legacy = Inr (BodyMultipart t boundary fs)"
  shows "\<forall>f \<in> set (filter part_enabled fs). sound_part api boundary f"
    and "\<exists>c. serialize_body (BodyMultipart t boundary fs) = Inr c \<and>
      crlf @ c = delimiter boundary @ form_text boundary (filter part_enabled fs)"
    and "CHR 0x0D \<notin> set boundary"
proof -
  obtain c u where acc: "valid_boundary boundary" "\<forall>f \<in> set fs. validate_part api f = Inr f"
    "serialize_body (BodyMultipart t boundary fs) = Inr c"
    using accepted_multipart [OF assms] by metis
  obtain chunks where chunks: "mapE (serialize_part boundary) (filter part_enabled fs) = Inr chunks"
    "c = concat chunks @ ''--'' @ boundary @ ''--'' @ crlf"
    using acc(3) by (auto simp: bindE_eq_Inr)
  then show "\<exists>c. serialize_body (BodyMultipart t boundary fs) = Inr c \<and>
      crlf @ c = delimiter boundary @ form_text boundary (filter part_enabled fs)"
    using serialize_form [OF chunks(1)] by (simp add: acc(3))
  have att: "attachment_ok api f" if "validate_part api f = Inr f" for f
    using that by (cases f) (auto simp: bindE_eq_Inr dest: arg_cong [where f = fp_attachment])
  have "\<exists>c. serialize_part boundary f = Inr c" if "f \<in> set (filter part_enabled fs)" for f
    using mapE_member [OF chunks(1) that] by blast
  with acc(2) att show "\<forall>f \<in> set (filter part_enabled fs). sound_part api boundary f"
    by (simp add: sound_part_def)
  show "CHR 0x0D \<notin> set boundary"
  proof
    assume "CHR 0x0D \<in> set boundary"
    with acc(1) have "boundary_char (CHR 0x0D)" by (auto simp: valid_boundary_def list_all_iff)
    then show False by (simp add: boundary_char_def)
  qed
qed

text \<open>
  C28. Multipart bodies are unambiguous. Two accepted multipart bodies with the same boundary that
  serialise to the same text have the same enabled parts: names, values, file names and media types
  agree one by one, so no field content can forge, split or hide a part. Identifiers never contain a
  carriage return.
\<close>

theorem multipart_unambiguous:
  assumes "\<And>i. ca_valid_id api i \<Longrightarrow> CHR 0x0D \<notin> set i"
    and "validate_request_body api b legacy = Inr (BodyMultipart t boundary fs)"
    and "validate_request_body api b' legacy' = Inr (BodyMultipart t' boundary gs)"
    and "serialize_body (BodyMultipart t boundary fs) = serialize_body (BodyMultipart t' boundary gs)"
  shows "map part_view (filter part_enabled fs) = map part_view (filter part_enabled gs)"
proof (rule form_text_views [OF accepted_parts_sound(3) [OF assms(2)] assms(1)
      accepted_parts_sound(1) [OF assms(2)] accepted_parts_sound(1) [OF assms(3)]])
  from accepted_parts_sound(2) [OF assms(2)] accepted_parts_sound(2) [OF assms(3)] assms(4)
  show "form_text boundary (filter part_enabled fs) = form_text boundary (filter part_enabled gs)"
    by auto
qed

definition demo_field :: "string \<Rightarrow> string \<Rightarrow> multipart_field" where
  "demo_field n v = TextPart \<lparr>wh_name = n, wh_value = v, wh_enabled = True, wh_mode = None, wh_description = None\<rparr>"

theorem multipart_unambiguous_witness:
  "validate_request_body demo_api (Some (BodyMultipart None ''bnd'' [demo_field ''a'' ''1'']))
     [] = Inr (BodyMultipart None ''bnd'' [demo_field ''a'' ''1'']) \<and>
   map part_view (filter part_enabled [demo_field ''a'' ''1'']) = [(''a'', None, ''1'')]"
proof -
  have acc: "validate_request_body demo_api (Some (BodyMultipart None ''bnd'' [demo_field ''a'' ''1''])) [] =
      Inr (BodyMultipart None ''bnd'' [demo_field ''a'' ''1''])"
    by code_simp
  have ids: "\<And>i. ca_valid_id demo_api i \<Longrightarrow> CHR 0x0D \<notin> set i" by (auto simp: demo_api_def)
  have "map part_view (filter part_enabled [demo_field ''a'' ''1'']) =
      map part_view (filter part_enabled [demo_field ''a'' ''1''])"
    by (rule multipart_unambiguous [OF ids acc acc refl])
  moreover have "map part_view (filter part_enabled [demo_field ''a'' ''1'']) = [(''a'', None, ''1'')]"
    by code_simp
  ultimately show ?thesis using acc by blast
qed

end
