(* ===== verification/Request_Composition.thy ===== *)
theory Request_Composition
  imports Request_Forms Variable_Resolver
begin

text \<open>
  Composing what is sent (\<open>composeWithVariables\<close>, \<open>stripExecutionDocumentation\<close> and
  \<open>#materializeAttachments\<close> in \<open>apps/backend/src/requests/request-service.ts\<close>, \<open>materialize\<close> in
  \<open>requests/request-attachment-service.ts\<close>): placeholders are replaced in the request that is
  performed, and masked in the snapshot that is stored. A buffer is the list of its bytes.
\<close>

section \<open>Snapshots\<close>

record snapshot =
  sn_workspace :: entity_id
  sn_request :: "entity_id option"
  sn_method :: http_method
  sn_target_mode :: target_mode
  sn_target :: string
  sn_components :: "string list option"
  sn_query :: "request_field list"
  sn_headers :: "request_field list"
  sn_request_body :: "request_body option"
  sn_body :: string
  sn_body_present :: bool
  sn_body_bytes :: "string option"
  sn_pre_script :: string
  sn_post_script :: string
  sn_redirect :: "redirect_override option"
  sn_cookie :: "cookie_override option"

record persisted =
  pq_method :: http_method
  pq_target :: string
  pq_query :: "request_field list"
  pq_headers :: "request_field list"
  pq_request_body :: request_body
  pq_body :: string
  pq_pre_script :: string
  pq_post_script :: string
  pq_redirect :: "redirect_override option"
  pq_cookie :: "cookie_override option"

type_synonym references = "(entity_id \<times> nat) list"

record composed_request =
  cq_request :: snapshot
  cq_persisted :: persisted
  cq_references :: references

datatype composing_error =
    Unresolved resolution_error
  | Unacceptable request_error
  | AttachmentStoreMissing
  | AttachmentUnavailable
  | AttachmentTooLarge
  | MultipartTooLarge
  | FileBoundaryCollides

definition resolving :: "resolution_error + 'a \<Rightarrow> composing_error + 'a" where
  "resolving r = (case r of Inl e \<Rightarrow> Inl (Unresolved e) | Inr x \<Rightarrow> Inr x)"

definition accepting :: "request_error + 'a \<Rightarrow> composing_error + 'a" where
  "accepting r = (case r of Inl e \<Rightarrow> Inl (Unacceptable e) | Inr x \<Rightarrow> Inr x)"

section \<open>Documentation\<close>

definition strip_field :: "request_field \<Rightarrow> request_field" where
  "strip_field f = f\<lparr>wh_description := None\<rparr>"

fun strip_part :: "multipart_field \<Rightarrow> multipart_field" where
  "strip_part (TextPart f) = TextPart (strip_field f)"
| "strip_part (FilePart f) = FilePart (f\<lparr>fp_description := None\<rparr>)"

fun strip_body :: "request_body \<Rightarrow> request_body" where
  "strip_body (BodyUrlencoded ct fs) = BodyUrlencoded ct (map strip_field fs)"
| "strip_body (BodyMultipart ct b fs) = BodyMultipart ct b (map strip_part fs)"
| "strip_body b = b"

definition strip_documentation :: "snapshot \<Rightarrow> snapshot" where
  "strip_documentation s = s\<lparr>sn_query := map strip_field (sn_query s),
     sn_headers := map strip_field (sn_headers s),
     sn_request_body := map_option strip_body (sn_request_body s)\<rparr>"

section \<open>Composition\<close>

definition SECRET_MASK :: string where
  "SECRET_MASK = ''[secret]''"

definition masked :: "interpolation \<Rightarrow> string" where
  "masked x = (if in_secret x then SECRET_MASK else in_value x)"

text \<open>A field is composed to the materialised field, the persisted one, and its references.\<close>

definition compose_field ::
  "variable_map \<Rightarrow> request_field \<Rightarrow> composing_error + (request_field \<times> request_field \<times> references)" where
  "compose_field vars f =
     (if \<not> wh_enabled f then Inr (f, f, [])
      else bindE (resolving (interpolate vars (wh_value f))) (\<lambda>x.
        Inr (f\<lparr>wh_value := in_value x\<rparr>, f\<lparr>wh_value := masked x\<rparr>, in_references x)))"

definition compose_form_field ::
  "variable_map \<Rightarrow> request_field \<Rightarrow> composing_error + (request_field \<times> request_field \<times> references)" where
  "compose_form_field vars f =
     (if \<not> wh_enabled f then Inr (f, f, [])
      else
        bindE (resolving (interpolate vars (wh_name f))) (\<lambda>n.
        bindE (resolving (interpolate vars (wh_value f))) (\<lambda>x.
        Inr (f\<lparr>wh_name := in_value n, wh_value := in_value x\<rparr>,
             f\<lparr>wh_name := masked n, wh_value := masked x\<rparr>, in_references n @ in_references x))))"

fun compose_part ::
  "variable_map \<Rightarrow> multipart_field \<Rightarrow> composing_error + (multipart_field \<times> multipart_field \<times> references)" where
  "compose_part vars (TextPart f) =
     bindE (compose_form_field vars f) (\<lambda>(m, p, r). Inr (TextPart m, TextPart p, r))"
| "compose_part vars (FilePart f) =
     (if \<not> fp_enabled f then Inr (FilePart f, FilePart f, [])
      else bindE (resolving (interpolate vars (fp_name f))) (\<lambda>n.
        Inr (FilePart (f\<lparr>fp_name := in_value n\<rparr>), FilePart (f\<lparr>fp_name := masked n\<rparr>), in_references n)))"

definition compose_body ::
  "variable_map \<Rightarrow> snapshot \<Rightarrow> composing_error + (request_body \<times> request_body \<times> references)" where
  "compose_body vars s =
     (if sn_body_bytes s \<noteq> None \<or> \<not> sn_body_present s then Inr (BodyNone, BodyNone, [])
      else case sn_request_body s of
        Some (BodyFile ct a) \<Rightarrow> Inr (BodyFile ct a, BodyFile ct a, [])
      | Some (BodyUrlencoded ct fs) \<Rightarrow>
          bindE (mapE (compose_form_field vars) fs) (\<lambda>xs.
          Inr (BodyUrlencoded ct (map fst xs), BodyUrlencoded ct (map (fst \<circ> snd) xs),
            concat (map (snd \<circ> snd) xs)))
      | Some (BodyMultipart ct b fs) \<Rightarrow>
          bindE (mapE (compose_part vars) fs) (\<lambda>xs.
          Inr (BodyMultipart ct b (map fst xs), BodyMultipart ct b (map (fst \<circ> snd) xs),
            concat (map (snd \<circ> snd) xs)))
      | other \<Rightarrow>
          let ct = (case other of Some (BodyText ct x) \<Rightarrow> ct | _ \<Rightarrow> None) in
          bindE (resolving (interpolate vars (sn_body s))) (\<lambda>x.
          bindE (accepting (validate_body (in_value x))) (\<lambda>v.
          Inr (BodyText ct v, BodyText ct (masked x), in_references x))))"

definition compose_target_value :: "content_api \<Rightarrow> snapshot \<Rightarrow> interpolation list \<Rightarrow> composing_error + string" where
  "compose_target_value api s parts =
     (if sn_target_mode s = ComposedTarget then accepting (compose_target api (map in_value parts))
      else Inr (case parts of [] \<Rightarrow> [] | p # _ \<Rightarrow> in_value p))"

text \<open>\<open>Buffer.toString("base64")\<close>\<close>

definition base64_char :: "nat \<Rightarrow> char" where
  "base64_char n = (if n < 26 then char_of (65 + n) else if n < 52 then char_of (71 + n)
     else if n < 62 then char_of (n - 4) else if n = 62 then CHR ''+'' else CHR ''/'')"

fun base64 :: "string \<Rightarrow> string" where
  "base64 (a # b # c # rest) =
     (let n = of_char a * 65536 + of_char b * 256 + (of_char c :: nat) in
      base64_char (n div 262144) # base64_char (n div 4096 mod 64) # base64_char (n div 64 mod 64) #
      base64_char (n mod 64) # base64 rest)"
| "base64 [a, b] =
     (let n = of_char a * 65536 + (of_char b :: nat) * 256 in
      [base64_char (n div 262144), base64_char (n div 4096 mod 64), base64_char (n div 64 mod 64), CHR ''=''])"
| "base64 [a] =
     (let n = (of_char a :: nat) * 65536 in
      [base64_char (n div 262144), base64_char (n div 4096 mod 64), CHR ''='', CHR ''=''])"
| "base64 [] = []"

definition retain :: "references \<Rightarrow> references \<Rightarrow> references" where
  "retain m items = foldl (\<lambda>m (i, n). AList.update i n m) m items"

definition body_text :: "snapshot \<Rightarrow> request_body \<Rightarrow> (string \<Rightarrow> string) \<Rightarrow> composing_error + string" where
  "body_text s body binary =
     (case sn_body_bytes s of None \<Rightarrow> accepting (serialize_body body) | Some bytes \<Rightarrow> Inr (binary bytes))"

definition compose_with_variables ::
  "content_api \<Rightarrow> variable_map \<Rightarrow> snapshot \<Rightarrow> composing_error + composed_request" where
  "compose_with_variables api vars s =
     bindE (mapE (\<lambda>c. resolving (interpolate vars c)) (coalesce (sn_components s) [sn_target s])) (\<lambda>parts.
     bindE (compose_target_value api s parts) (\<lambda>target.
     bindE (mapE (compose_field vars) (sn_query s)) (\<lambda>query.
     bindE (mapE (compose_field vars) (sn_headers s)) (\<lambda>headers.
     bindE (compose_body vars s) (\<lambda>(body0, shown0, body_references).
     bindE (accepting (validate_request_body api (Some body0) [])) (\<lambda>body.
     bindE (accepting (validate_request_body api (Some shown0) [])) (\<lambda>shown.
     bindE (body_text s body (\<lambda>bytes. [])) (\<lambda>sent_text.
     bindE (body_text s shown (\<lambda>bytes. ''[binary:'' @ base64 bytes @ '']'')) (\<lambda>shown_text.
     bindE (accepting (validate_target_url api target)) (\<lambda>url.
     bindE (accepting (validate_query (map fst query))) (\<lambda>sent_query.
     bindE (accepting (validate_headers (map fst headers))) (\<lambda>sent_headers.
     Inr \<lparr>cq_request = s\<lparr>sn_target_mode := AbsoluteTarget, sn_target := url, sn_query := sent_query,
            sn_headers := sent_headers, sn_body := sent_text, sn_request_body := Some body\<rparr>,
          cq_persisted = \<lparr>pq_method = sn_method s,
            pq_target = (if list_ex in_secret parts then SECRET_MASK else url),
            pq_query = map (fst \<circ> snd) query, pq_headers = map (fst \<circ> snd) headers,
            pq_request_body = shown, pq_body = shown_text, pq_pre_script = sn_pre_script s,
            pq_post_script = sn_post_script s, pq_redirect = sn_redirect s, pq_cookie = sn_cookie s\<rparr>,
          cq_references = retain [] (concat (map in_references parts) @ concat (map (snd \<circ> snd) query) @
            concat (map (snd \<circ> snd) headers) @ body_references)\<rparr>))))))))))))"

section \<open>Attachments\<close>

record stored_attachment = attachment +
  sa_available :: bool
  sa_bytes :: string

type_synonym attachment_table = "stored_attachment list"

definition materialize_attachment ::
  "attachment_table \<Rightarrow> entity_id \<Rightarrow> entity_id \<Rightarrow> composing_error + (attachment \<times> string)" where
  "materialize_attachment t w i =
     (case find (\<lambda>r. at_id r = i \<and> at_workspace r = w) t of
        None \<Rightarrow> Inl AttachmentUnavailable
      | Some r \<Rightarrow>
          if \<not> sa_available r then Inl AttachmentUnavailable
          else if at_length r > MAX_REQUEST_ATTACHMENT_BYTES then Inl AttachmentTooLarge
          else Inr (attachment.truncate r, sa_bytes r))"

text \<open>\<open>Buffer.from(s, "utf8")\<close>\<close>

definition utf8_encode :: "string \<Rightarrow> string" where
  "utf8_encode s = concat (map (\<lambda>c. let n = of_char c :: nat in
     if n < 128 then [c] else [char_of (192 + n div 64), char_of (128 + n mod 64)]) s)"

text \<open>\<open>append\<close>: the chunks so far and their length.\<close>

definition append_chunk :: "string \<Rightarrow> string \<Rightarrow> composing_error + string" where
  "append_chunk bytes sofar =
     (if int (length sofar + length bytes) > MAX_REQUEST_ATTACHMENT_BYTES then Inl MultipartTooLarge
      else Inr (sofar @ bytes))"

fun materialize_part ::
  "attachment_table \<Rightarrow> entity_id \<Rightarrow> string \<Rightarrow> string \<times> multipart_field list \<Rightarrow> multipart_field
     \<Rightarrow> composing_error + (string \<times> multipart_field list)" where
  "materialize_part t w boundary (sofar, done) (TextPart f) =
     (if \<not> wh_enabled f then Inr (sofar, done @ [TextPart f])
      else
        bindE (accepting (validate_field_name (wh_name f))) (\<lambda>_.
        bindE (requireE (\<not> includes_text (wh_name f) boundary \<and> \<not> includes_text (wh_value f) boundary)
                 (Unacceptable BoundaryCollides)) (\<lambda>_.
        bindE (append_chunk (utf8_encode (part_head boundary (wh_name f) @ crlf @ crlf @ wh_value f @ crlf)) sofar)
          (\<lambda>bytes. Inr (bytes, done @ [TextPart f])))))"
| "materialize_part t w boundary (sofar, done) (FilePart f) =
     (if \<not> fp_enabled f then Inr (sofar, done @ [FilePart f])
      else
        bindE (accepting (validate_field_name (fp_name f))) (\<lambda>_.
        bindE (materialize_attachment t w (at_id (fp_attachment f))) (\<lambda>(a, file_bytes).
        bindE (requireE (\<not> includes_text (fp_name f) boundary \<and> \<not> includes_text (at_file_name a) boundary
                  \<and> \<not> includes_text file_bytes (utf8_encode boundary)) FileBoundaryCollides) (\<lambda>_.
        bindE (append_chunk (utf8_encode (part_head boundary (fp_name f) @ ''; filename='' @
                 quoted (escape_parameter (at_file_name a)) @ crlf @ ''Content-Type: '' @ at_content_type a @
                 crlf @ crlf)) sofar) (\<lambda>b1.
        bindE (append_chunk file_bytes b1) (\<lambda>b2.
        bindE (append_chunk crlf b2) (\<lambda>b3.
        Inr (b3, done @ [FilePart \<lparr>fp_name = fp_name f, fp_enabled = True, fp_description = None,
          fp_attachment = a\<rparr>]))))))))"

text \<open>\<open>#materializeAttachments\<close>; the table is \<open>None\<close> when the service has no attachment storage.\<close>

definition materialize_attachments ::
  "attachment_table option \<Rightarrow> snapshot \<Rightarrow> composing_error + snapshot" where
  "materialize_attachments store s =
     (case sn_request_body s of
        Some (BodyFile ct a) \<Rightarrow>
          (case store of
             None \<Rightarrow> Inl AttachmentStoreMissing
           | Some t \<Rightarrow>
               bindE (materialize_attachment t (sn_workspace s) (at_id a)) (\<lambda>(b, bytes).
               Inr (s\<lparr>sn_headers := with_body_content_type (sn_headers s) (BodyFile ct b), sn_body := [],
                      sn_body_bytes := Some bytes, sn_request_body := Some (BodyFile ct b)\<rparr>)))
      | Some (BodyMultipart ct boundary fs) \<Rightarrow>
          if \<not> has_file_attachment (BodyMultipart ct boundary fs) then Inr s
          else (case store of
             None \<Rightarrow> Inl AttachmentStoreMissing
           | Some t \<Rightarrow>
               bindE (foldE (materialize_part t (sn_workspace s) boundary) ([], []) fs) (\<lambda>(bytes, fields).
               bindE (append_chunk (utf8_encode (''--'' @ boundary @ ''--'' @ crlf)) bytes) (\<lambda>all_bytes.
               Inr (s\<lparr>sn_body := [], sn_body_bytes := Some all_bytes,
                      sn_request_body := Some (BodyMultipart ct boundary fields)\<rparr>))))
      | _ \<Rightarrow> Inr s)"

definition with_request :: "composed_request \<Rightarrow> snapshot \<Rightarrow> composed_request" where
  "with_request c r = c\<lparr>cq_request := r\<rparr>"

text \<open>The eager composition of \<open>prepareExecution\<close> and its two siblings.\<close>

definition eagerly_composed ::
  "content_api \<Rightarrow> attachment_table option \<Rightarrow> variable_map \<Rightarrow> snapshot \<Rightarrow> composing_error + composed_request option" where
  "eagerly_composed api store vars s =
     (if (sn_pre_script s = [] \<and> sn_post_script s = []) \<or> has_file_attachment (coalesce (sn_request_body s) BodyNone)
      then bindE (compose_with_variables api vars s) (\<lambda>c.
           bindE (materialize_attachments store (cq_request c)) (\<lambda>r. Inr (Some (with_request c r))))
      else Inr None)"

section \<open>Secrets stay out of what is stored\<close>

lemma mapE_rel:
  assumes "mapE f xs = Inr ys" "mapE g xs = Inr zs"
    and "\<And>x y z. f x = Inr y \<Longrightarrow> g x = Inr z \<Longrightarrow> R y z"
  shows "list_all2 R ys zs"
  using assms by (induction xs arbitrary: ys zs) (auto simp: bindE_eq_Inr)

lemma list_all2_map_eq: "list_all2 R ys zs \<Longrightarrow> (\<And>y z. R y z \<Longrightarrow> f y = f z) \<Longrightarrow> map f ys = map f zs"
  by (induction rule: list_all2_induct) auto

lemma resolving_eq_Inr [simp]: "resolving r = Inr x \<longleftrightarrow> r = Inr x"
  by (cases r) (simp_all add: resolving_def)

lemma accepting_eq_Inr [simp]: "accepting r = Inr x \<longleftrightarrow> r = Inr x"
  by (cases r) (simp_all add: accepting_def)

lemma low_interpolate:
  assumes "low_equivalent vars vars'" "interpolate vars s = Inr x" "interpolate vars' s = Inr y"
  shows "low_text x y"
proof -
  have "low_text no_text no_text" by (simp add: low_text_def)
  from low_interpolate_from [OF assms(1) this, of s] assms(2,3) show ?thesis by (simp add: interpolate_def)
qed

lemma low_masked: "low_text x y \<Longrightarrow> masked x = masked y \<and> in_references x = in_references y"
  by (auto simp: low_text_def masked_def)

definition same_shown :: "'a \<times> 'b \<times> references \<Rightarrow> 'a \<times> 'b \<times> references \<Rightarrow> bool" where
  "same_shown x y \<longleftrightarrow> snd x = snd y"

lemma compose_field_low:
  assumes "low_equivalent vars vars'" "compose_field vars f = Inr x" "compose_field vars' f = Inr y"
  shows "same_shown x y"
  using assms(2,3) low_masked [OF low_interpolate [OF assms(1)]]
  by (auto simp: compose_field_def same_shown_def bindE_eq_Inr split: if_splits)

lemma compose_form_field_low:
  assumes "low_equivalent vars vars'" "compose_form_field vars f = Inr x" "compose_form_field vars' f = Inr y"
  shows "same_shown x y"
proof (cases "wh_enabled f")
  case True
  obtain n v n' v' where
    x: "interpolate vars (wh_name f) = Inr n" "interpolate vars (wh_value f) = Inr v"
      "snd x = (f\<lparr>wh_name := masked n, wh_value := masked v\<rparr>, in_references n @ in_references v)" and
    y: "interpolate vars' (wh_name f) = Inr n'" "interpolate vars' (wh_value f) = Inr v'"
      "snd y = (f\<lparr>wh_name := masked n', wh_value := masked v'\<rparr>, in_references n' @ in_references v')"
    using True assms(2,3) by (auto simp: compose_form_field_def bindE_eq_Inr)
  from low_masked [OF low_interpolate [OF assms(1) x(1) y(1)]] low_masked [OF low_interpolate [OF assms(1) x(2) y(2)]]
  show ?thesis by (simp add: same_shown_def x(3) y(3))
next
  case False
  with assms(2,3) show ?thesis by (auto simp: compose_form_field_def same_shown_def)
qed

lemma compose_part_low:
  assumes "low_equivalent vars vars'" "compose_part vars f = Inr x" "compose_part vars' f = Inr y"
  shows "same_shown x y"
proof (cases f)
  case (TextPart t)
  with assms(2,3) compose_form_field_low [OF assms(1)] show ?thesis
    by (fastforce simp: same_shown_def bindE_eq_Inr)
next
  case (FilePart t)
  with assms(2,3) low_masked [OF low_interpolate [OF assms(1)]] show ?thesis
    by (auto simp: same_shown_def bindE_eq_Inr split: if_splits)
qed

lemma same_shown_lists:
  assumes "list_all2 same_shown xs ys"
  shows "map (fst \<circ> snd) xs = map (fst \<circ> snd) ys \<and> map (snd \<circ> snd) xs = map (snd \<circ> snd) ys"
  using assms by (induction rule: list_all2_induct) (auto simp: same_shown_def)

lemma compose_body_low:
  assumes "low_equivalent vars vars'" "compose_body vars s = Inr x" "compose_body vars' s = Inr y"
  shows "same_shown x y"
proof (cases "sn_body_bytes s \<noteq> None \<or> \<not> sn_body_present s")
  case True
  with assms(2,3) show ?thesis by (auto simp: compose_body_def same_shown_def)
next
  case False
  have plain: ?thesis
    if "bindE (resolving (interpolate vars (sn_body s))) (\<lambda>x. bindE (accepting (validate_body (in_value x)))
          (\<lambda>v. Inr (BodyText ct v, BodyText ct (masked x), in_references x))) = Inr x"
      "bindE (resolving (interpolate vars' (sn_body s))) (\<lambda>x. bindE (accepting (validate_body (in_value x)))
          (\<lambda>v. Inr (BodyText ct v, BodyText ct (masked x), in_references x))) = Inr y" for ct
    using that low_masked [OF low_interpolate [OF assms(1)]]
    by (auto simp: same_shown_def bindE_eq_Inr)
  show ?thesis
  proof (cases "sn_request_body s")
    case None
    with False assms(2,3) show ?thesis by (intro plain [of None]) (simp_all add: compose_body_def)
  next
    case (Some b)
    show ?thesis
    proof (cases b)
      case BodyNone
      with Some False assms(2,3) show ?thesis by (intro plain [of None]) (simp_all add: compose_body_def)
    next
      case (BodyText ct t)
      with Some False assms(2,3) show ?thesis by (intro plain [of ct]) (simp_all add: compose_body_def)
    next
      case (BodyFile ct a)
      with Some False assms(2,3) show ?thesis by (auto simp: compose_body_def same_shown_def)
    next
      case (BodyUrlencoded ct fs)
      obtain xs ys where xs: "mapE (compose_form_field vars) fs = Inr xs" "mapE (compose_form_field vars') fs = Inr ys"
        "snd x = (BodyUrlencoded ct (map (fst \<circ> snd) xs), concat (map (snd \<circ> snd) xs))"
        "snd y = (BodyUrlencoded ct (map (fst \<circ> snd) ys), concat (map (snd \<circ> snd) ys))"
        using BodyUrlencoded Some False assms(2,3) by (auto simp: compose_body_def bindE_eq_Inr)
      from same_shown_lists [OF mapE_rel [OF xs(1,2) compose_form_field_low [OF assms(1)]]]
      show ?thesis by (simp add: same_shown_def xs(3,4))
    next
      case (BodyMultipart ct bd fs)
      obtain xs ys where xs: "mapE (compose_part vars) fs = Inr xs" "mapE (compose_part vars') fs = Inr ys"
        "snd x = (BodyMultipart ct bd (map (fst \<circ> snd) xs), concat (map (snd \<circ> snd) xs))"
        "snd y = (BodyMultipart ct bd (map (fst \<circ> snd) ys), concat (map (snd \<circ> snd) ys))"
        using BodyMultipart Some False assms(2,3) by (auto simp: compose_body_def bindE_eq_Inr)
      from same_shown_lists [OF mapE_rel [OF xs(1,2) compose_part_low [OF assms(1)]]]
      show ?thesis by (simp add: same_shown_def xs(3,4))
    qed
  qed
qed

lemma compose_elim:
  assumes "compose_with_variables api vars s = Inr c"
  obtains parts target query headers body0 shown0 brefs body shown sent_text shown_text url sq sh where
    "mapE (\<lambda>c. resolving (interpolate vars c)) (coalesce (sn_components s) [sn_target s]) = Inr parts"
    "compose_target_value api s parts = Inr target"
    "mapE (compose_field vars) (sn_query s) = Inr query"
    "mapE (compose_field vars) (sn_headers s) = Inr headers"
    "compose_body vars s = Inr (body0, shown0, brefs)"
    "validate_request_body api (Some body0) [] = Inr body"
    "validate_request_body api (Some shown0) [] = Inr shown"
    "body_text s body (\<lambda>bytes. []) = Inr sent_text"
    "body_text s shown (\<lambda>bytes. ''[binary:'' @ base64 bytes @ '']'') = Inr shown_text"
    "validate_target_url api target = Inr url"
    "validate_query (map fst query) = Inr sq"
    "validate_headers (map fst headers) = Inr sh"
    "cq_request c = s\<lparr>sn_target_mode := AbsoluteTarget, sn_target := url, sn_query := sq,
       sn_headers := sh, sn_body := sent_text, sn_request_body := Some body\<rparr>"
    "cq_persisted c = \<lparr>pq_method = sn_method s,
       pq_target = (if list_ex in_secret parts then SECRET_MASK else url),
       pq_query = map (fst \<circ> snd) query, pq_headers = map (fst \<circ> snd) headers,
       pq_request_body = shown, pq_body = shown_text, pq_pre_script = sn_pre_script s,
       pq_post_script = sn_post_script s, pq_redirect = sn_redirect s, pq_cookie = sn_cookie s\<rparr>"
    "cq_references c = retain [] (concat (map in_references parts) @ concat (map (snd \<circ> snd) query) @
       concat (map (snd \<circ> snd) headers) @ brefs)"
proof -
  from assms obtain parts target query headers bd body shown sent_text shown_text url sq sh where
    *: "mapE (\<lambda>c. resolving (interpolate vars c)) (coalesce (sn_components s) [sn_target s]) = Inr parts"
    "compose_target_value api s parts = Inr target"
    "mapE (compose_field vars) (sn_query s) = Inr query"
    "mapE (compose_field vars) (sn_headers s) = Inr headers"
    "compose_body vars s = Inr bd"
    "accepting (validate_request_body api (Some (fst bd)) []) = Inr body"
    "accepting (validate_request_body api (Some (fst (snd bd))) []) = Inr shown"
    "body_text s body (\<lambda>bytes. []) = Inr sent_text"
    "body_text s shown (\<lambda>bytes. ''[binary:'' @ base64 bytes @ '']'') = Inr shown_text"
    "accepting (validate_target_url api target) = Inr url"
    "accepting (validate_query (map fst query)) = Inr sq"
    "accepting (validate_headers (map fst headers)) = Inr sh"
    "c = \<lparr>cq_request = s\<lparr>sn_target_mode := AbsoluteTarget, sn_target := url, sn_query := sq,
            sn_headers := sh, sn_body := sent_text, sn_request_body := Some body\<rparr>,
          cq_persisted = \<lparr>pq_method = sn_method s,
            pq_target = (if list_ex in_secret parts then SECRET_MASK else url),
            pq_query = map (fst \<circ> snd) query, pq_headers = map (fst \<circ> snd) headers,
            pq_request_body = shown, pq_body = shown_text, pq_pre_script = sn_pre_script s,
            pq_post_script = sn_post_script s, pq_redirect = sn_redirect s, pq_cookie = sn_cookie s\<rparr>,
          cq_references = retain [] (concat (map in_references parts) @ concat (map (snd \<circ> snd) query) @
            concat (map (snd \<circ> snd) headers) @ snd (snd bd))\<rparr>"
    unfolding compose_with_variables_def bindE_eq_Inr case_prod_beta' sum.inject by blast
  have bd: "compose_body vars s = Inr (fst bd, fst (snd bd), snd (snd bd))" using *(5) by simp
  show thesis
    by (rule that [OF *(1-4) bd *(6,7) [unfolded accepting_eq_Inr] *(8,9) *(10-12) [unfolded accepting_eq_Inr]])
       (simp_all add: *(13))
qed

lemma low_components:
  assumes "list_all2 low_text parts parts'"
  shows "map in_references parts = map in_references parts' \<and> list_ex in_secret parts = list_ex in_secret parts' \<and>
    (\<not> list_ex in_secret parts \<longrightarrow> map in_value parts = map in_value parts')"
  using assms by (induction rule: list_all2_induct) (auto simp: low_text_def)

lemma low_target:
  assumes "list_all2 low_text parts parts'" "\<not> list_ex in_secret parts"
  shows "compose_target_value api s parts = compose_target_value api s parts'"
proof -
  have "map in_value parts = map in_value parts'" using low_components [OF assms(1)] assms(2) by blast
  moreover from this have "(case parts of [] \<Rightarrow> [] | p # _ \<Rightarrow> in_value p) = (case parts' of [] \<Rightarrow> [] | p # _ \<Rightarrow> in_value p)"
    by (cases parts; cases parts') auto
  ultimately show ?thesis by (simp add: compose_target_value_def)
qed

text \<open>
  C9. The stored snapshot hides secrets. When a request is composed with two variable profiles that
  differ only in the plaintext of configured secrets, the persisted snapshot and the recorded secret
  references are the same: what the database keeps about the request does not depend on a secret.
\<close>

theorem persisted_hides_secrets:
  assumes "low_equivalent vars vars'"
    and "compose_with_variables api vars s = Inr c" and "compose_with_variables api vars' s = Inr c'"
  shows "cq_persisted c' = cq_persisted c \<and> cq_references c' = cq_references c"
  using assms(2)
proof (rule compose_elim)
  fix parts target query headers body0 shown0 brefs body shown sent_text shown_text url sq sh
  assume a: "mapE (\<lambda>c. resolving (interpolate vars c)) (coalesce (sn_components s) [sn_target s]) = Inr parts"
    "compose_target_value api s parts = Inr target"
    "mapE (compose_field vars) (sn_query s) = Inr query"
    "mapE (compose_field vars) (sn_headers s) = Inr headers"
    "compose_body vars s = Inr (body0, shown0, brefs)"
    "validate_request_body api (Some shown0) [] = Inr shown"
    "body_text s shown (\<lambda>bytes. ''[binary:'' @ base64 bytes @ '']'') = Inr shown_text"
    "validate_target_url api target = Inr url"
    "cq_persisted c = \<lparr>pq_method = sn_method s,
       pq_target = (if list_ex in_secret parts then SECRET_MASK else url),
       pq_query = map (fst \<circ> snd) query, pq_headers = map (fst \<circ> snd) headers,
       pq_request_body = shown, pq_body = shown_text, pq_pre_script = sn_pre_script s,
       pq_post_script = sn_post_script s, pq_redirect = sn_redirect s, pq_cookie = sn_cookie s\<rparr>"
    "cq_references c = retain [] (concat (map in_references parts) @ concat (map (snd \<circ> snd) query) @
       concat (map (snd \<circ> snd) headers) @ brefs)"
  show ?thesis
    using assms(3)
  proof (rule compose_elim)
    fix parts' target' query' headers' body0' shown0' brefs' body' shown' sent_text' shown_text' url' sq' sh'
    assume b: "mapE (\<lambda>c. resolving (interpolate vars' c)) (coalesce (sn_components s) [sn_target s]) = Inr parts'"
      "compose_target_value api s parts' = Inr target'"
      "mapE (compose_field vars') (sn_query s) = Inr query'"
      "mapE (compose_field vars') (sn_headers s) = Inr headers'"
      "compose_body vars' s = Inr (body0', shown0', brefs')"
      "validate_request_body api (Some shown0') [] = Inr shown'"
      "body_text s shown' (\<lambda>bytes. ''[binary:'' @ base64 bytes @ '']'') = Inr shown_text'"
      "validate_target_url api target' = Inr url'"
      "cq_persisted c' = \<lparr>pq_method = sn_method s,
         pq_target = (if list_ex in_secret parts' then SECRET_MASK else url'),
         pq_query = map (fst \<circ> snd) query', pq_headers = map (fst \<circ> snd) headers',
         pq_request_body = shown', pq_body = shown_text', pq_pre_script = sn_pre_script s,
         pq_post_script = sn_post_script s, pq_redirect = sn_redirect s, pq_cookie = sn_cookie s\<rparr>"
      "cq_references c' = retain [] (concat (map in_references parts') @ concat (map (snd \<circ> snd) query') @
         concat (map (snd \<circ> snd) headers') @ brefs')"
    have "list_all2 low_text parts parts'"
      by (rule mapE_rel [OF a(1) b(1)]) (simp add: low_interpolate [OF assms(1)])
    note parts = low_components [OF this] low_target [OF this]
    have url: "url' = url" if "\<not> list_ex in_secret parts"
      using parts(2) [OF that, of api s] a(2,8) b(2,8) by simp
    from compose_body_low [OF assms(1) a(5) b(5)] have shown: "shown0' = shown0" "brefs' = brefs"
      by (simp_all add: same_shown_def)
    with a(6,7) b(6,7) have "shown' = shown" "shown_text' = shown_text" by simp_all
    moreover note same_shown_lists [OF mapE_rel [OF a(3) b(3) compose_field_low [OF assms(1)]]]
      same_shown_lists [OF mapE_rel [OF a(4) b(4) compose_field_low [OF assms(1)]]]
    ultimately show ?thesis using parts(1) url shown(2) by (simp add: a(9,10) b(9,10))
  qed
qed

definition demo_snapshot :: snapshot where
  "demo_snapshot = \<lparr>sn_workspace = ''w'', sn_request = None, sn_method = POST, sn_target_mode = AbsoluteTarget,
     sn_target = ''http://h/'', sn_components = None, sn_query = [],
     sn_headers = [\<lparr>wh_name = ''Authorization'', wh_value = ''Bearer <<key>>'', wh_enabled = True,
       wh_mode = None, wh_description = None\<rparr>],
     sn_request_body = Some (BodyText None ''k=<<a>>''), sn_body = ''k=<<a>>'', sn_body_present = True,
     sn_body_bytes = None, sn_pre_script = [], sn_post_script = [], sn_redirect = None, sn_cookie = None\<rparr>"

definition demo_composed :: "string \<Rightarrow> composing_error + composed_request" where
  "demo_composed secret = compose_with_variables demo_api (demo_variables secret) demo_snapshot"

lemma demo_composed_ok: "case demo_composed ''s'' of Inl e \<Rightarrow> False | Inr c \<Rightarrow>
    pq_body (cq_persisted c) = SECRET_MASK \<and> sn_body (cq_request c) = ''k=s'' \<and>
    map wh_value (sn_headers (cq_request c)) = [''Bearer s'']"
  by code_simp

lemma demo_composed_ok2: "case demo_composed ''t'' of Inl e \<Rightarrow> False | Inr c \<Rightarrow> sn_body (cq_request c) = ''k=t''"
  by code_simp

theorem persisted_hides_secrets_witness:
  "\<exists>c c'. demo_composed ''s'' = Inr c \<and> demo_composed ''t'' = Inr c' \<and>
     sn_body (cq_request c) = ''k=s'' \<and> sn_body (cq_request c') = ''k=t'' \<and>
     cq_persisted c' = cq_persisted c \<and> pq_body (cq_persisted c) = SECRET_MASK"
proof -
  obtain c where c: "demo_composed ''s'' = Inr c" "pq_body (cq_persisted c) = SECRET_MASK"
    "sn_body (cq_request c) = ''k=s''"
    using demo_composed_ok by (auto split: sum.splits)
  obtain c' where c': "demo_composed ''t'' = Inr c'" "sn_body (cq_request c') = ''k=t''"
    using demo_composed_ok2 by (auto split: sum.splits)
  have low: "low_equivalent (demo_variables ''s'') (demo_variables ''t'')"
    by (auto simp: low_equivalent_def demo_variables_def variable_map_def low_variable_def)
  from persisted_hides_secrets [OF low c(1) [unfolded demo_composed_def] c'(1) [unfolded demo_composed_def]] c c'
  show ?thesis by blast
qed

lemma validate_query_names:
  "validate_query fs = Inr gs \<Longrightarrow> map wh_name gs = map wh_name fs \<and> map wh_enabled gs = map wh_enabled fs"
  unfolding validate_query_def
  by (induction fs arbitrary: gs) (auto simp: bindE_eq_Inr validate_query_field_def split: if_splits)

lemma validate_headers_names:
  "validate_headers fs = Inr gs \<Longrightarrow>
     map wh_name gs = map wh_name fs \<and> map wh_enabled gs = map wh_enabled fs \<and> (\<forall>g \<in> set gs. header_allowed g)"
  unfolding validate_headers_def
  by (induction fs arbitrary: gs)
     (auto simp: bindE_eq_Inr requireE_eq_Inr validate_request_header_def header_allowed_def split: if_splits)

lemma compose_field_names:
  "mapE (compose_field vars) fs = Inr xs \<Longrightarrow>
     map wh_name (map fst xs) = map wh_name fs \<and> map wh_enabled (map fst xs) = map wh_enabled fs"
  by (induction fs arbitrary: xs) (auto simp: bindE_eq_Inr compose_field_def split: if_splits)

text \<open>
  C23. Variable values cannot reshape a request. Whatever the values substituted, an accepted
  composition has an absolute HTTP or HTTPS target without credentials, query or fragment, headers and
  query fields with the names and order of the request, and no enabled header whose name is not a token,
  whose name the transport owns, or whose value holds a control character.
\<close>

theorem composed_request_safe:
  assumes "compose_with_variables api vars s = Inr c"
  shows "(\<exists>text u. ca_parse api text = Some u \<and> sn_target (cq_request c) = tu_href u \<and>
      pu_protocol u \<in> {''http:'', ''https:''} \<and> pu_username u = [] \<and> pu_password u = [] \<and>
      tu_search u = [] \<and> tu_hash u = []) \<and>
    map wh_name (sn_headers (cq_request c)) = map wh_name (sn_headers s) \<and>
    map wh_name (sn_query (cq_request c)) = map wh_name (sn_query s) \<and>
    (\<forall>h \<in> set (sn_headers (cq_request c)). wh_enabled h \<longrightarrow>
       wh_name h \<noteq> [] \<and> list_all token_char (wh_name h) \<and> js_lower (wh_name h) \<notin> set FORBIDDEN_HEADERS \<and>
       \<not> invalid_header_value (wh_value h)) \<and>
    sn_method (cq_request c) = sn_method s"
  using assms
proof (rule compose_elim)
  fix parts target query headers body0 shown0 brefs body shown sent_text shown_text url sq sh
  assume a: "mapE (compose_field vars) (sn_query s) = Inr query"
    "mapE (compose_field vars) (sn_headers s) = Inr headers"
    "validate_target_url api target = Inr url"
    "validate_query (map fst query) = Inr sq" "validate_headers (map fst headers) = Inr sh"
    "cq_request c = s\<lparr>sn_target_mode := AbsoluteTarget, sn_target := url, sn_query := sq,
       sn_headers := sh, sn_body := sent_text, sn_request_body := Some body\<rparr>"
  from a(3) have "\<exists>text u. ca_parse api text = Some u \<and> url = tu_href u \<and>
      pu_protocol u \<in> {''http:'', ''https:''} \<and> pu_username u = [] \<and> pu_password u = [] \<and>
      tu_search u = [] \<and> tu_hash u = []"
    by (intro exI [of _ target]) (auto simp: validate_target_url_def split: option.splits if_splits)
  moreover have "map wh_name sh = map wh_name (sn_headers s)" "map wh_name sq = map wh_name (sn_query s)"
    using validate_headers_names [OF a(5)] compose_field_names [OF a(2)]
      validate_query_names [OF a(4)] compose_field_names [OF a(1)] by metis+
  moreover have "\<forall>g \<in> set sh. header_allowed g" using validate_headers_names [OF a(5)] by blast
  ultimately show ?thesis by (simp add: a(6) header_allowed_def)
qed

theorem composed_request_safe_witness:
  "\<exists>c. demo_composed ''s'' = Inr c \<and> map wh_name (sn_headers (cq_request c)) = [''Authorization'']"
proof -
  obtain c where c: "demo_composed ''s'' = Inr c" using demo_composed_ok by (auto split: sum.splits)
  from composed_request_safe [OF c [unfolded demo_composed_def]] c show ?thesis
    by (auto simp: demo_snapshot_def)
qed

end
