(* ===== verification/Script_Views.thy ===== *)
theory Script_Views
  imports Request_Composition Variable_Service
begin

text \<open>
  What request scripts see of an execution and how their output becomes a request again
  (\<open>apps/backend/src/executions/script-execution-adapter.ts\<close>, with the shapes of
  \<open>scripting/script-types.ts\<close>). A text or a buffer the view withholds is \<open>None\<close>. Of the URL and
  \<open>URLSearchParams\<close> interfaces, reference resolution and query parsing are the two functions of a
  \<open>url_api\<close>; appending a parameter is written out on the serialised URL.
\<close>

section \<open>Data\<close>

record url_api =
  ua_resolve :: "string \<Rightarrow> string \<Rightarrow> target_url option"
  ua_params :: "string \<Rightarrow> (string \<times> string) list"

record script_text =
  st_value :: "string option"
  st_readable :: bool
  st_sensitive :: bool

record script_header =
  sh_name :: string
  sh_value :: "string option"
  sh_readable :: bool
  sh_sensitive :: bool

datatype script_body =
    ScriptNone
  | ScriptText "string option" bool bool
  | ScriptBinary "string option" bool bool

record script_request =
  sr_method :: string
  sr_url :: script_text
  sr_headers :: "script_header list"
  sr_body :: script_body

datatype script_error =
    UrlUnreadable
  | MethodNotSupported
  | UrlHasFragment
  | HeaderUnreadable string

fun body_sensitive :: "script_body \<Rightarrow> bool" where
  "body_sensitive ScriptNone = False"
| "body_sensitive (ScriptText v r s) = s"
| "body_sensitive (ScriptBinary v r s) = s"

fun body_readable :: "script_body \<Rightarrow> bool" where
  "body_readable ScriptNone = True"
| "body_readable (ScriptText v r s) = r"
| "body_readable (ScriptBinary v r s) = r"

section \<open>URLs\<close>

definition without_hash :: "string \<Rightarrow> string" where
  "without_hash href = takeWhile (\<lambda>c. c \<noteq> CHR ''#'') href"

text \<open>\<open>url.searchParams.append\<close> for a list of parameters, read back with \<open>toString\<close>: with none, the
  query is left as it was.\<close>

definition with_params :: "url_api \<Rightarrow> target_url \<Rightarrow> (string \<times> string) list \<Rightarrow> string" where
  "with_params ua u params =
     (if params = [] then tu_href u
      else takeWhile (\<lambda>c. c \<noteq> CHR ''?'' \<and> c \<noteq> CHR ''#'') (tu_href u) @ ''?'' @
        form_encode (ua_params ua (drop 1 (tu_search u)) @ params) @ tu_hash u)"

definition enabled_params :: "request_field list \<Rightarrow> (string \<times> string) list" where
  "enabled_params query = map (\<lambda>f. (wh_name f, wh_value f)) (filter wh_enabled query)"

definition materialize_target_url ::
  "content_api \<Rightarrow> url_api \<Rightarrow> string \<Rightarrow> request_field list \<Rightarrow> request_error + string" where
  "materialize_target_url api ua target query =
     (case ca_parse api target of
        None \<Rightarrow> Inl TargetUrlInvalid
      | Some u \<Rightarrow> Inr (with_params ua u (enabled_params query)))"

section \<open>Sensitivity\<close>

definition is_sensitive_template :: "variable_map \<Rightarrow> string \<Rightarrow> bool" where
  "is_sensitive_template vars s =
     (case interpolate vars s of Inl e \<Rightarrow> False | Inr x \<Rightarrow> in_secret x)"

definition sensitive_field :: "variable_map \<Rightarrow> request_field \<Rightarrow> bool" where
  "sensitive_field vars f \<longleftrightarrow> wh_enabled f \<and>
     (is_sensitive_template vars (wh_name f) \<or> is_sensitive_template vars (wh_value f))"

fun sensitive_part :: "variable_map \<Rightarrow> multipart_field \<Rightarrow> bool" where
  "sensitive_part vars (TextPart f) = sensitive_field vars f"
| "sensitive_part vars (FilePart f) = (fp_enabled f \<and> is_sensitive_template vars (fp_name f))"

definition is_sensitive_body :: "variable_map \<Rightarrow> snapshot \<Rightarrow> bool" where
  "is_sensitive_body vars s =
     (case sn_request_body s of
        Some (BodyUrlencoded ct fs) \<Rightarrow> list_ex (sensitive_field vars) fs
      | Some (BodyMultipart ct b fs) \<Rightarrow> list_ex (sensitive_part vars) fs
      | _ \<Rightarrow> is_sensitive_template vars (sn_body s))"

definition target_template :: "snapshot \<Rightarrow> string" where
  "target_template s =
     (if sn_target_mode s = ComposedTarget
      then join_target_components (coalesce (sn_components s) [sn_target s]) else sn_target s)"

section \<open>Views\<close>

definition pre_request_view :: "variable_map \<Rightarrow> snapshot \<Rightarrow> snapshot \<Rightarrow> script_request" where
  "pre_request_view vars request template =
     \<lparr>sr_method = method_name (sn_method request),
      sr_url = \<lparr>st_value = Some (target_template request), st_readable = True,
        st_sensitive = is_sensitive_template vars (target_template request)\<rparr>,
      sr_headers = map (\<lambda>h. \<lparr>sh_name = wh_name h, sh_value = Some (wh_value h), sh_readable = True,
        sh_sensitive = is_sensitive_template vars (wh_value h)\<rparr>) (sn_headers request),
      sr_body = (case sn_body_bytes request of
          None \<Rightarrow> if \<not> sn_body_present request then ScriptNone
                   else ScriptText (Some (sn_body request)) True (is_sensitive_body vars template)
        | Some bytes \<Rightarrow> ScriptBinary (Some bytes) True (is_sensitive_body vars template))\<rparr>"

definition post_header :: "variable_map \<Rightarrow> request_field list \<Rightarrow> nat \<times> request_field \<Rightarrow> script_header" where
  "post_header vars templates ih =
     (let sensitive = is_sensitive_template vars
            (if fst ih < length templates then wh_value (templates ! fst ih) else []) in
      \<lparr>sh_name = wh_name (snd ih), sh_value = (if sensitive then None else Some (wh_value (snd ih))),
       sh_readable = (\<not> sensitive), sh_sensitive = sensitive\<rparr>)"

definition post_response_view ::
  "content_api \<Rightarrow> url_api \<Rightarrow> variable_map \<Rightarrow> snapshot \<Rightarrow> snapshot \<Rightarrow> request_error + script_request" where
  "post_response_view api ua vars template materialized =
     (let url_sensitive = (is_sensitive_template vars (target_template template) \<or>
            list_ex (\<lambda>f. wh_enabled f \<and> is_sensitive_template vars (wh_value f)) (sn_query template));
          body_secret = is_sensitive_body vars template in
      bindE (materialize_target_url api ua (sn_target materialized) (sn_query materialized)) (\<lambda>final_url.
      Inr \<lparr>sr_method = method_name (sn_method materialized),
        sr_url = \<lparr>st_value = (if url_sensitive then None else Some final_url),
          st_readable = (\<not> url_sensitive), st_sensitive = url_sensitive\<rparr>,
        sr_headers = map (post_header vars (sn_headers template))
          (enumerate 0 (sn_headers materialized)),
        sr_body = (case sn_body_bytes materialized of
            None \<Rightarrow> ScriptText (if body_secret then None else Some (sn_body materialized))
                      (\<not> body_secret) body_secret
          | Some bytes \<Rightarrow> ScriptBinary (if body_secret then None else Some bytes)
                      (\<not> body_secret) body_secret)\<rparr>))"

section \<open>Requests rebuilt from script output\<close>

definition plain_field :: "string \<Rightarrow> string \<Rightarrow> request_field" where
  "plain_field n v = \<lparr>wh_name = n, wh_value = v, wh_enabled = True, wh_mode = None, wh_description = None\<rparr>"

definition scripted_header :: "script_header \<Rightarrow> script_error + request_field" where
  "scripted_header h =
     (case (sh_readable h, sh_value h) of
        (True, Some v) \<Rightarrow> Inr (plain_field (sh_name h) v)
      | _ \<Rightarrow> Inl (HeaderUnreadable (sh_name h)))"

definition scripted_url :: "script_request \<Rightarrow> script_error + string" where
  "scripted_url scripted =
     (case (st_readable (sr_url scripted), st_value (sr_url scripted)) of
        (True, Some v) \<Rightarrow> Inr v | _ \<Rightarrow> Inl UrlUnreadable)"

definition scripted_method :: "string \<Rightarrow> script_error + http_method" where
  "scripted_method m = (case validate_method m of Inl e \<Rightarrow> Inl MethodNotSupported | Inr x \<Rightarrow> Inr x)"

definition scripted_query :: "url_api \<Rightarrow> request_field list \<Rightarrow> string \<Rightarrow> string \<times> request_field list" where
  "scripted_query ua original url =
     (case index_of ''?'' url of
        None \<Rightarrow> (url, original)
      | Some n \<Rightarrow> (take n url, map (\<lambda>(k, v). plain_field k v) (ua_params ua (drop (n + 1) url))))"

definition is_form :: "request_body option \<Rightarrow> bool" where
  "is_form b = (case b of Some (BodyUrlencoded ct fs) \<Rightarrow> True | Some (BodyMultipart ct x fs) \<Rightarrow> True | _ \<Rightarrow> False)"

definition is_content_type :: "request_field \<Rightarrow> bool" where
  "is_content_type h \<longleftrightarrow> wh_enabled h \<and> js_lower (wh_name h) = ''content-type''"

definition scripted_body :: "snapshot \<Rightarrow> script_body \<Rightarrow> request_body option" where
  "scripted_body original body =
     (case body of
        ScriptText t r s \<Rightarrow>
          let content = coalesce t [] in
          if is_form (sn_request_body original) \<and> content = sn_body original then sn_request_body original
          else Some (BodyText (map_option wh_value (find is_content_type (sn_headers original))) content)
      | _ \<Rightarrow> Some BodyNone)"

definition execution_request_from_script ::
  "url_api \<Rightarrow> snapshot \<Rightarrow> script_request \<Rightarrow> script_error + snapshot" where
  "execution_request_from_script ua original scripted =
     bindE (scripted_url scripted) (\<lambda>url.
     bindE (scripted_method (sr_method scripted)) (\<lambda>m.
     bindE (requireE (\<not> includes_text url ''#'') UrlHasFragment) (\<lambda>_.
     bindE (mapE scripted_header (sr_headers scripted)) (\<lambda>headers.
     let (target, query) = scripted_query ua (sn_query original) url in
     Inr (original\<lparr>sn_method := m, sn_target_mode := AbsoluteTarget, sn_target := target,
       sn_components := Some [target], sn_query := query, sn_headers := headers,
       sn_body := (case sr_body scripted of ScriptText t r s \<Rightarrow> coalesce t [] | _ \<Rightarrow> []),
       sn_body_present := (sr_body scripted \<noteq> ScriptNone),
       sn_request_body := scripted_body original (sr_body scripted),
       sn_body_bytes := (case sr_body scripted of ScriptBinary b r s \<Rightarrow> b | _ \<Rightarrow> None)\<rparr>)))))"

section \<open>Variables\<close>

datatype variable_status = StatusResolved | StatusMissing | StatusUnset | StatusError

record script_variable =
  sv_name :: string
  sv_status :: variable_status
  sv_declared :: variable_kind
  sv_effective_secret :: "bool option"
  sv_sensitive :: bool
  sv_scope :: "scope_kind option"
  sv_value :: "string option"

definition script_variable_of ::
  "(string \<times> profile_source) list \<Rightarrow> variable_map \<Rightarrow> resolved_variable \<Rightarrow> script_variable" where
  "script_variable_of sources vars v =
     (let scope = map_option ps_scope (map_of sources (rv_name v)) in
      if rv_kind v = KindUnset then
        \<lparr>sv_name = rv_name v, sv_status = StatusUnset, sv_declared = rv_kind v,
         sv_effective_secret = None, sv_sensitive = False, sv_scope = scope, sv_value = None\<rparr>
      else (case resolve vars (rv_name v) of
          Inr r \<Rightarrow> \<lparr>sv_name = rv_name v, sv_status = StatusResolved, sv_declared = rv_kind v,
            sv_effective_secret = Some (rs_secret r), sv_sensitive = rs_secret r, sv_scope = scope,
            sv_value = (if rs_secret r then None else Some (rs_value r))\<rparr>
        | Inl e \<Rightarrow> \<lparr>sv_name = rv_name v, sv_status = StatusError, sv_declared = rv_kind v,
            sv_effective_secret = None, sv_sensitive = (rv_kind v = KindSecret), sv_scope = scope,
            sv_value = None\<rparr>))"

definition script_variables ::
  "(string \<times> profile_source) list \<Rightarrow> resolved_variable list \<Rightarrow> variable_map \<Rightarrow> script_variable list" where
  "script_variables sources variables vars = map (script_variable_of sources vars) variables"

section \<open>Views hide secrets\<close>

lemma sensitive_low: "low_equivalent vars vars' \<Longrightarrow> is_sensitive_template vars' s = is_sensitive_template vars s"
  using low_interpolate_from [of vars vars' no_text no_text s]
  by (auto simp: is_sensitive_template_def interpolate_def low_text_def elim!: rel_sum.cases)

lemma insensitive_value:
  assumes "low_equivalent vars vars'" "\<not> is_sensitive_template vars s"
    and "interpolate vars s = Inr x" "interpolate vars' s = Inr y"
  shows "in_value y = in_value x"
  using assms(2) low_interpolate [OF assms(1,3,4)] by (auto simp: is_sensitive_template_def assms(3) low_text_def)

lemma sensitive_body_low:
  assumes "low_equivalent vars vars'"
  shows "is_sensitive_body vars' s = is_sensitive_body vars s"
proof -
  note low = sensitive_low [OF assms]
  have "sensitive_field vars' = sensitive_field vars" by (rule ext) (simp add: sensitive_field_def low)
  moreover from this have "sensitive_part vars' f = sensitive_part vars f" for f by (cases f) (simp_all add: low)
  then have "sensitive_part vars' = sensitive_part vars" by (rule ext)
  ultimately show ?thesis
    by (simp add: is_sensitive_body_def low split: option.split request_body.split)
qed

lemma insensitive_field:
  assumes "low_equivalent vars vars'" "\<not> (wh_enabled f \<and> is_sensitive_template vars (wh_value f))"
    and "compose_field vars f = Inr x" "compose_field vars' f = Inr y"
  shows "fst y = fst x"
proof (cases "wh_enabled f")
  case True
  obtain v v' where v: "interpolate vars (wh_value f) = Inr v" "interpolate vars' (wh_value f) = Inr v'"
    "fst x = f\<lparr>wh_value := in_value v\<rparr>" "fst y = f\<lparr>wh_value := in_value v'\<rparr>"
    using True assms(3,4) by (auto simp: compose_field_def bindE_eq_Inr)
  have "in_value v' = in_value v" using insensitive_value [OF assms(1) _ v(1,2)] True assms(2) by blast
  then show ?thesis by (simp add: v(3,4))
next
  case False
  with assms(3,4) show ?thesis by (auto simp: compose_field_def)
qed

lemma insensitive_form_field:
  assumes "low_equivalent vars vars'" "\<not> sensitive_field vars f"
    and "compose_form_field vars f = Inr x" "compose_form_field vars' f = Inr y"
  shows "fst y = fst x"
proof (cases "wh_enabled f")
  case True
  obtain n v n' v' where
    v: "interpolate vars (wh_name f) = Inr n" "interpolate vars' (wh_name f) = Inr n'"
      "interpolate vars (wh_value f) = Inr v" "interpolate vars' (wh_value f) = Inr v'"
      "fst x = f\<lparr>wh_name := in_value n, wh_value := in_value v\<rparr>"
      "fst y = f\<lparr>wh_name := in_value n', wh_value := in_value v'\<rparr>"
    using True assms(3,4) by (auto simp: compose_form_field_def bindE_eq_Inr)
  have "\<not> is_sensitive_template vars (wh_name f)" "\<not> is_sensitive_template vars (wh_value f)"
    using True assms(2) by (auto simp: sensitive_field_def)
  then have "in_value n' = in_value n" "in_value v' = in_value v"
    using insensitive_value [OF assms(1) _ v(1,2)] insensitive_value [OF assms(1) _ v(3,4)] by blast+
  then show ?thesis by (simp add: v(5,6))
next
  case False
  with assms(3,4) show ?thesis by (auto simp: compose_form_field_def)
qed

lemma insensitive_part:
  assumes "low_equivalent vars vars'" "\<not> sensitive_part vars f"
    and "compose_part vars f = Inr x" "compose_part vars' f = Inr y"
  shows "fst y = fst x"
proof (cases f)
  case (TextPart t)
  obtain x' y' where "compose_form_field vars t = Inr x'" "compose_form_field vars' t = Inr y'"
    "fst x = TextPart (fst x')" "fst y = TextPart (fst y')"
    using assms(3,4) TextPart by (auto simp: bindE_eq_Inr)
  moreover have "\<not> sensitive_field vars t" using assms(2) TextPart by simp
  ultimately show ?thesis using insensitive_form_field [OF assms(1)] by fastforce
next
  case (FilePart t)
  show ?thesis
  proof (cases "fp_enabled t")
    case True
    obtain v v' where v: "interpolate vars (fp_name t) = Inr v" "interpolate vars' (fp_name t) = Inr v'"
      "fst x = FilePart (t\<lparr>fp_name := in_value v\<rparr>)" "fst y = FilePart (t\<lparr>fp_name := in_value v'\<rparr>)"
      using True FilePart assms(3,4) by (auto simp: bindE_eq_Inr)
    have "in_value v' = in_value v"
      using insensitive_value [OF assms(1) _ v(1,2)] True FilePart assms(2) by simp
    then show ?thesis by (simp add: v(3,4))
  next
    case False
    with FilePart assms(3,4) show ?thesis by auto
  qed
qed

lemma insensitive_list:
  assumes "mapE f xs = Inr ys" "mapE g xs = Inr zs" "\<not> list_ex P xs"
    and "\<And>x y z. \<not> P x \<Longrightarrow> f x = Inr y \<Longrightarrow> g x = Inr z \<Longrightarrow> fst z = fst y"
  shows "map fst zs = map fst ys"
  using assms(1-3)
proof (induction xs arbitrary: ys zs)
  case (Cons x xs)
  then show ?case using assms(4) by (auto simp: bindE_eq_Inr)
qed simp

lemma insensitive_body:
  assumes "low_equivalent vars vars'" "\<not> is_sensitive_body vars s"
    and "compose_body vars s = Inr x" "compose_body vars' s = Inr y"
  shows "fst y = fst x"
proof (cases "sn_body_bytes s \<noteq> None \<or> \<not> sn_body_present s")
  case True
  with assms(3,4) show ?thesis by (auto simp: compose_body_def)
next
  case False
  have plain: ?thesis
    if "bindE (resolving (interpolate vars (sn_body s))) (\<lambda>x. bindE (accepting (validate_body (in_value x)))
          (\<lambda>v. Inr (BodyText ct v, BodyText ct (masked x), in_references x))) = Inr x"
      "bindE (resolving (interpolate vars' (sn_body s))) (\<lambda>x. bindE (accepting (validate_body (in_value x)))
          (\<lambda>v. Inr (BodyText ct v, BodyText ct (masked x), in_references x))) = Inr y"
      "\<not> is_sensitive_template vars (sn_body s)" for ct
  proof -
    from that(1,2) obtain v v' t t' where v: "interpolate vars (sn_body s) = Inr v" "interpolate vars' (sn_body s) = Inr v'"
      "validate_body (in_value v) = Inr t" "validate_body (in_value v') = Inr t'"
      "fst x = BodyText ct t" "fst y = BodyText ct t'"
      by (auto simp: bindE_eq_Inr)
    have "in_value v' = in_value v" by (rule insensitive_value [OF assms(1) that(3) v(1,2)])
    with v(3,4) show ?thesis by (simp add: v(5,6))
  qed
  show ?thesis
  proof (cases "sn_request_body s")
    case None
    with False assms(2-4) show ?thesis
      by (intro plain [of None]) (simp_all add: compose_body_def is_sensitive_body_def)
  next
    case (Some b)
    show ?thesis
    proof (cases b)
      case BodyNone
      with Some False assms(2-4) show ?thesis
        by (intro plain [of None]) (simp_all add: compose_body_def is_sensitive_body_def)
    next
      case (BodyText ct t)
      with Some False assms(2-4) show ?thesis
        by (intro plain [of ct]) (simp_all add: compose_body_def is_sensitive_body_def)
    next
      case (BodyFile ct a)
      with Some False assms(3,4) show ?thesis by (auto simp: compose_body_def)
    next
      case (BodyUrlencoded ct fs)
      obtain xs ys where xs: "mapE (compose_form_field vars) fs = Inr xs" "mapE (compose_form_field vars') fs = Inr ys"
        "fst x = BodyUrlencoded ct (map fst xs)" "fst y = BodyUrlencoded ct (map fst ys)"
        using BodyUrlencoded Some False assms(3,4) by (auto simp: compose_body_def bindE_eq_Inr)
      have "\<not> list_ex (sensitive_field vars) fs"
        using BodyUrlencoded Some assms(2) by (simp add: is_sensitive_body_def)
      from insensitive_list [OF xs(1,2) this insensitive_form_field [OF assms(1)]]
      show ?thesis by (simp add: xs(3,4))
    next
      case (BodyMultipart ct bd fs)
      obtain xs ys where xs: "mapE (compose_part vars) fs = Inr xs" "mapE (compose_part vars') fs = Inr ys"
        "fst x = BodyMultipart ct bd (map fst xs)" "fst y = BodyMultipart ct bd (map fst ys)"
        using BodyMultipart Some False assms(3,4) by (auto simp: compose_body_def bindE_eq_Inr)
      have "\<not> list_ex (sensitive_part vars) fs"
        using BodyMultipart Some assms(2) by (simp add: is_sensitive_body_def)
      from insensitive_list [OF xs(1,2) this insensitive_part [OF assms(1)]]
      show ?thesis by (simp add: xs(3,4))
    qed
  qed
qed

lemma validate_query_values:
  "validate_query fs = Inr gs \<Longrightarrow> enabled_params gs = enabled_params fs"
  unfolding validate_query_def enabled_params_def
  by (induction fs arbitrary: gs) (auto simp: bindE_eq_Inr validate_query_field_def split: if_splits)

lemma validate_headers_values:
  "validate_headers fs = Inr gs \<Longrightarrow> map wh_value gs = map wh_value fs"
  unfolding validate_headers_def
  by (induction fs arbitrary: gs)
     (auto simp: bindE_eq_Inr requireE_eq_Inr validate_request_header_def split: if_splits)

lemma post_headers_agree:
  assumes "low_equivalent vars vars'"
    and c: "mapE (compose_field vars) hs = Inr xs" "validate_headers (map fst xs) = Inr gs"
    and c': "mapE (compose_field vars') hs = Inr ys" "validate_headers (map fst ys) = Inr gs'"
  shows "map (post_header vars' hs) (enumerate 0 gs') = map (post_header vars hs) (enumerate 0 gs)"
proof (rule nth_equalityI)
  have names: "map wh_name gs' = map wh_name gs"
    using validate_headers_names [OF c(2)] validate_headers_names [OF c'(2)]
      compose_field_names [OF c(1)] compose_field_names [OF c'(1)] by simp
  then have len: "length gs' = length gs" by (metis length_map)
  have "map fst xs \<in> {map fst xs}" by simp
  have lens: "length xs = length hs" "length ys = length hs" "length gs = length hs"
    using mapE_length [OF c(1)] mapE_length [OF c'(1)] validate_headers_values [OF c(2)] by (auto dest: map_eq_imp_length_eq)
  show "length (map (post_header vars' hs) (enumerate 0 gs')) = length (map (post_header vars hs) (enumerate 0 gs))"
    by (simp add: len)
  fix i
  assume "i < length (map (post_header vars' hs) (enumerate 0 gs'))"
  then have i: "i < length gs" "i < length gs'" "i < length hs" by (simp_all add: len lens)
  have steps: "compose_field vars (hs ! i) = Inr (xs ! i)" "compose_field vars' (hs ! i) = Inr (ys ! i)"
    using c(1) c'(1) i(3) lens by (auto simp: mapE_eq_Inr list_all2_conv_all_nth)
  have vals: "wh_value (gs ! i) = wh_value (fst (xs ! i))" "wh_value (gs' ! i) = wh_value (fst (ys ! i))"
    using validate_headers_values [OF c(2)] validate_headers_values [OF c'(2)] i lens
    by (metis (no_types, lifting) length_map nth_map)+
  have "wh_value (gs' ! i) = wh_value (gs ! i)" if "\<not> is_sensitive_template vars (wh_value (hs ! i))"
    using insensitive_field [OF assms(1) _ steps] that by (simp add: vals)
  moreover have "wh_name (gs' ! i) = wh_name (gs ! i)" using names i by (metis nth_map)
  ultimately show "map (post_header vars' hs) (enumerate 0 gs') ! i = map (post_header vars hs) (enumerate 0 gs) ! i"
    using i by (simp add: post_header_def nth_enumerate_eq sensitive_low [OF assms(1)] Let_def)
qed

definition target_recognised :: "variable_map \<Rightarrow> snapshot \<Rightarrow> bool" where
  "target_recognised vars s \<longleftrightarrow>
     (list_ex (is_sensitive_template vars) (coalesce (sn_components s) [sn_target s]) \<longrightarrow>
      is_sensitive_template vars (target_template s))"

lemma insensitive_components:
  assumes "low_equivalent vars vars'" "\<not> list_ex (is_sensitive_template vars) cs"
    and "mapE (\<lambda>c. resolving (interpolate vars c)) cs = Inr parts"
    and "mapE (\<lambda>c. resolving (interpolate vars' c)) cs = Inr parts'"
  shows "list_all2 low_text parts parts' \<and> \<not> list_ex in_secret parts"
proof
  show "list_all2 low_text parts parts'"
    by (rule mapE_rel [OF assms(3,4)]) (simp add: low_interpolate [OF assms(1)])
  show "\<not> list_ex in_secret parts"
    using assms(2,3) by (induction cs arbitrary: parts) (auto simp: bindE_eq_Inr is_sensitive_template_def)
qed

lemma composed_url:
  assumes "parser_stable api" "validate_target_url api target = Inr url"
  obtains u where "ca_parse api target = Some u" "url = tu_href u" "ca_parse api url = Some u"
  using assms by (auto simp: validate_target_url_def parser_stable_def split: option.splits if_splits)


definition plain_urls :: url_api where
  "plain_urls = \<lparr>ua_resolve = (\<lambda>reference base. None), ua_params = (\<lambda>q. [])\<rparr>"


section \<open>A placeholder split over two components\<close>

definition split_api :: content_api where
  "split_api = \<lparr>ca_parse = (\<lambda>s. Some \<lparr>pu_protocol = ''https:'', pu_username = [], pu_password = [], tu_host = ''h'',
       tu_search = [], tu_hash = [],
       tu_href = concat (map (\<lambda>c. if c = CHR ''<'' then ''%3C'' else [c]) s)\<rparr>),
     ca_valid_id = (\<lambda>i. True)\<rparr>"

definition split_snapshot :: snapshot where
  "split_snapshot = demo_snapshot\<lparr>sn_target_mode := ComposedTarget, sn_target := ''b/<<key>>'',
     sn_components := Some [''https://h/a<<'', ''b/<<key>>''], sn_headers := []\<rparr>"


section \<open>Untouched requests\<close>

lemma mapE_scripted_headers:
  "mapE scripted_header (map (\<lambda>h. \<lparr>sh_name = wh_name h, sh_value = Some (wh_value h), sh_readable = True,
     sh_sensitive = p h\<rparr>) hs) = Inr (map (\<lambda>h. plain_field (wh_name h) (wh_value h)) hs)"
  by (induction hs) (simp_all add: scripted_header_def)

lemma index_of_absent:
  assumes "c \<notin> set s"
  shows "index_of [c] s = None"
proof (cases "index_of [c] s")
  case (Some n)
  from index_of_Some [OF this] obtain r where "drop n s = c # r" by (auto simp: starts_with_iff)
  then have "c \<in> set (drop n s)" by simp
  with assms show ?thesis by (meson in_set_dropD)
qed

lemma method_accepted: "scripted_method (method_name m) = Inr m"
  by (cases m) (simp_all add: scripted_method_def validate_method_def method_name_def)

text \<open>
  A script that leaves its request alone changes nothing that is sent. Rebuilding a request from
  its own view keeps the method, the query, the names and values of the headers, a binary body and a text
  body, and a form body stays the structured form.
\<close>

theorem untouched_script_request:
  assumes "CHR ''?'' \<notin> set (target_template r)" and "CHR ''#'' \<notin> set (target_template r)"
  shows "\<exists>q. execution_request_from_script ua r (pre_request_view vars r t) = Inr q \<and>
    sn_target q = target_template r \<and> sn_components q = Some [target_template r] \<and>
    sn_method q = sn_method r \<and> sn_query q = sn_query r \<and>
    map (\<lambda>h. (wh_name h, wh_value h)) (sn_headers q) = map (\<lambda>h. (wh_name h, wh_value h)) (sn_headers r) \<and>
    sn_body_bytes q = sn_body_bytes r \<and>
    sn_body_present q = (sn_body_present r \<or> sn_body_bytes r \<noteq> None) \<and>
    (sn_body_bytes r = None \<and> sn_body_present r \<longrightarrow> sn_body q = sn_body r \<and>
       (is_form (sn_request_body r) \<longrightarrow> sn_request_body q = sn_request_body r)) \<and>
    sn_pre_script q = sn_pre_script r \<and> sn_post_script q = sn_post_script r"
  using index_of_absent [OF assms(1)] index_of_absent [OF assms(2)]
  by (auto simp: execution_request_from_script_def pre_request_view_def scripted_url_def method_accepted
      mapE_scripted_headers scripted_query_def scripted_body_def includes_text_def plain_field_def
      coalesce_def comp_def split: option.split)

theorem untouched_script_request_witness:
  "\<exists>q. execution_request_from_script plain_urls demo_snapshot
      (pre_request_view [] demo_snapshot demo_snapshot) = Inr q \<and> sn_body q = ''k=<<a>>''"
  using untouched_script_request [of demo_snapshot plain_urls "[]" demo_snapshot]
  by (auto simp: demo_snapshot_def target_template_def)

end
