(* ===== verification/Redirect_Request.thy ===== *)
theory Redirect_Request
  imports Script_Views "HOL-Library.Sublist"
begin

text \<open>
  How a complete response produces the next request of a redirect chain
  (\<open>redirectDecision\<close> in \<open>apps/backend/src/executions/redirect-request.ts\<close>). Resolving a reference
  against a base and parsing a URL are parameters; the origin of an HTTP URL is its scheme and host,
  and clearing the fragment cuts the serialised URL at its first \<open>#\<close>.
\<close>

section \<open>Data\<close>

definition REDIRECT_STATUSES :: "int list" where
  "REDIRECT_STATUSES = [301, 302, 303, 307, 308]"

definition ALWAYS_REGENERATED_HEADERS :: "string list" where
  "ALWAYS_REGENERATED_HEADERS = [''connection'', ''content-length'', ''host'', ''keep-alive'',
     ''proxy-connection'', ''te'', ''trailer'', ''transfer-encoding'', ''upgrade'']"

definition CROSS_ORIGIN_CREDENTIAL_HEADERS :: "string list" where
  "CROSS_ORIGIN_CREDENTIAL_HEADERS = [''authorization'', ''cookie'', ''proxy-authorization'']"

definition BODY_REPRESENTATION_HEADERS :: "string list" where
  "BODY_REPRESENTATION_HEADERS = [''content-digest'', ''content-encoding'', ''content-language'',
     ''content-location'', ''content-type'', ''digest'', ''repr-digest'']"

datatype redirect_outcome = Followed | NotFollowed | RedirectRefused

record redirect_result =
  rr_location :: string
  rr_resolved :: "(string \<times> bool) option"
  rr_outcome :: redirect_outcome
  rr_reason :: "string option"
  rr_destination :: "entity_id option"
  rr_removed :: "string list"

datatype redirect_choice =
    Terminal "redirect_result option"
  | Follow snapshot script_request redirect_result
  | RedirectError string redirect_result

type_synonym response_header = "string \<times> string"

section \<open>Pieces of the decision\<close>

definition redirect_error :: "string \<Rightarrow> string \<Rightarrow> (string \<times> bool) option \<Rightarrow> redirect_choice" where
  "redirect_error location code resolved = RedirectError code
     \<lparr>rr_location = location, rr_resolved = resolved, rr_outcome = RedirectRefused, rr_reason = Some code,
      rr_destination = None, rr_removed = []\<rparr>"

definition inspectable_target :: "string \<Rightarrow> bool \<Rightarrow> string \<times> bool" where
  "inspectable_target target redacted = (if redacted then SECRET_MASK else target, redacted)"

definition url_origin :: "target_url \<Rightarrow> string" where
  "url_origin u = pu_protocol u @ ''//'' @ tu_host u"

definition redirect_method :: "int \<Rightarrow> http_method \<Rightarrow> http_method \<times> bool" where
  "redirect_method status m =
     (if status = 303 \<and> m \<noteq> HEAD then (GET, True)
      else if (status = 301 \<or> status = 302) \<and> m = POST then (GET, True)
      else (m, False))"

text \<open>The tokens an outgoing \<open>Connection\<close> field nominates.\<close>

definition connection_tokens :: "string \<Rightarrow> string list" where
  "connection_tokens v = map (js_lower \<circ> js_trim) (filter (\<lambda>t. js_trim t \<noteq> []) (split_on CHR '','' v))"

definition connection_header_names :: "request_field list \<Rightarrow> string list" where
  "connection_header_names headers =
     concat (map (\<lambda>h. if wh_enabled h \<and> js_lower (wh_name h) = ''connection''
       then connection_tokens (wh_value h) else []) headers)"

definition safe_header :: "script_request \<Rightarrow> nat \<Rightarrow> request_field \<Rightarrow> script_header" where
  "safe_header scripted i h =
     (if i < length (sr_headers scripted) then sr_headers scripted ! i
      else \<lparr>sh_name = wh_name h, sh_value = Some (wh_value h), sh_readable = True, sh_sensitive = False\<rparr>)"

definition removes_header :: "bool \<Rightarrow> bool \<Rightarrow> string list \<Rightarrow> request_field \<times> script_header \<Rightarrow> bool" where
  "removes_header drop_body same_origin nominated hs =
     (let name = js_lower (wh_name (fst hs)) in
      name \<in> set ALWAYS_REGENERATED_HEADERS \<or> name \<in> set nominated \<or>
      (drop_body \<and> name \<in> set BODY_REPRESENTATION_HEADERS) \<or>
      (\<not> same_origin \<and> (name \<in> set CROSS_ORIGIN_CREDENTIAL_HEADERS \<or> sh_sensitive (snd hs))))"

definition header_pairs :: "snapshot \<Rightarrow> script_request \<Rightarrow> (request_field \<times> script_header) list" where
  "header_pairs request scripted =
     map (\<lambda>(i, h). (h, safe_header scripted i h)) (enumerate 0 (sn_headers request))"

definition removed_names :: "string list \<Rightarrow> string list" where
  "removed_names names = foldl (\<lambda>acc n. if n \<in> set acc then acc else acc @ [n]) [] names"

definition next_request :: "int \<Rightarrow> string \<Rightarrow> request_field list \<Rightarrow> snapshot \<Rightarrow> snapshot" where
  "next_request status target headers request =
     (let (m, drop_body) = redirect_method status (sn_method request);
          moved = request\<lparr>sn_method := m, sn_target_mode := AbsoluteTarget, sn_target := target,
            sn_components := Some [target], sn_query := [], sn_headers := headers\<rparr> in
      if drop_body
      then moved\<lparr>sn_body := [], sn_body_present := False, sn_request_body := Some BodyNone,
             sn_body_bytes := None\<rparr>
      else moved)"

definition next_script_request ::
  "int \<Rightarrow> string \<Rightarrow> script_header list \<Rightarrow> http_method \<Rightarrow> script_request \<Rightarrow> script_request" where
  "next_script_request status target headers m scripted =
     (let (m', drop_body) = redirect_method status m;
          secret_url = st_sensitive (sr_url scripted) in
      scripted\<lparr>sr_method := method_name m',
        sr_url := \<lparr>st_value = (if secret_url then None else Some target), st_readable = (\<not> secret_url),
          st_sensitive = secret_url\<rparr>,
        sr_headers := headers,
        sr_body := (if drop_body then ScriptNone else sr_body scripted)\<rparr>)"

section \<open>The decision\<close>

definition follow_redirect ::
  "int \<Rightarrow> string \<Rightarrow> string \<times> bool \<Rightarrow> target_url \<Rightarrow> target_url \<Rightarrow> snapshot \<Rightarrow> script_request
     \<Rightarrow> redirect_choice" where
  "follow_redirect status location resolved source dest request scripted =
     (let target = without_hash (tu_href dest);
          same_origin = (url_origin source = url_origin dest);
          drop_body = snd (redirect_method status (sn_method request));
          gone = removes_header drop_body same_origin (connection_header_names (sn_headers request));
          pairs = header_pairs request scripted;
          kept = filter (\<lambda>p. \<not> gone p) pairs in
      Follow (next_request status target (map fst kept) request)
        (next_script_request status target (map snd kept) (sn_method request) scripted)
        \<lparr>rr_location = location, rr_resolved = Some resolved, rr_outcome = Followed, rr_reason = None,
         rr_destination = None, rr_removed = removed_names (map (wh_name \<circ> fst) (filter gone pairs))\<rparr>)"

text \<open>The decision on a single resolved \<open>Location\<close>. The base parsed when the reference was resolved, so
  \<open>source\<close> is its parse.\<close>

definition decide_resolved ::
  "int \<Rightarrow> string \<Rightarrow> target_url \<Rightarrow> target_url \<Rightarrow> snapshot \<Rightarrow> script_request \<Rightarrow> redirect_policy \<Rightarrow> int
     \<Rightarrow> redirect_choice" where
  "decide_resolved status location dest source request scripted policy followed =
     (let resolved = inspectable_target (tu_href dest)
            (st_sensitive (sr_url scripted) \<or> \<not> st_readable (sr_url scripted)) in
      if pu_username dest \<noteq> [] \<or> pu_password dest \<noteq> [] then
        redirect_error location ''redirect_credentials_not_allowed'' (Some resolved)
      else if pu_protocol dest \<noteq> ''http:'' \<and> pu_protocol dest \<noteq> ''https:'' then
        redirect_error location ''redirect_unsupported_scheme'' (Some resolved)
      else if pu_protocol source = ''https:'' \<and> pu_protocol dest = ''http:'' then
        redirect_error location ''redirect_insecure_downgrade'' (Some resolved)
      else if \<not> rp_follow policy then
        Terminal (Some \<lparr>rr_location = location, rr_resolved = Some resolved, rr_outcome = NotFollowed,
          rr_reason = Some ''redirect_disabled'', rr_destination = None, rr_removed = []\<rparr>)
      else if followed \<ge> rp_max_redirects policy then
        redirect_error location ''redirect_limit_exceeded'' (Some resolved)
      else follow_redirect status location resolved source dest request scripted)"

definition redirect_decision ::
  "content_api \<Rightarrow> url_api \<Rightarrow> int \<Rightarrow> response_header list \<Rightarrow> snapshot \<Rightarrow> script_request \<Rightarrow> redirect_policy
     \<Rightarrow> int \<Rightarrow> request_error + redirect_choice" where
  "redirect_decision api ua status headers request scripted policy followed =
     (if status \<notin> set REDIRECT_STATUSES then Inr (Terminal None)
      else
        (case filter (\<lambda>h. js_lower (fst h) = ''location'') headers of
           [] \<Rightarrow> Inr (Terminal None)
         | [h] \<Rightarrow>
             (case ua_resolve ua (snd h) (sn_target request) of
                None \<Rightarrow> Inr (redirect_error (snd h) ''redirect_invalid_location'' None)
              | Some dest \<Rightarrow>
                  (case ca_parse api (sn_target request) of
                     None \<Rightarrow> Inl TargetUrlInvalid
                   | Some source \<Rightarrow>
                       Inr (decide_resolved status (snd h) dest source request scripted policy followed)))
         | hs \<Rightarrow> Inr (redirect_error (join_with [CHR 0x0A] (map snd hs)) ''redirect_invalid_location'' None)))"

section \<open>What a followed redirect may carry\<close>

lemma redirect_follow_elim:
  assumes "redirect_decision api ua status headers request scripted policy followed = Inr (Follow q sq r)"
  obtains location source dest where
    "filter (\<lambda>h. js_lower (fst h) = ''location'') headers = [location]"
    "status \<in> set REDIRECT_STATUSES"
    "ua_resolve ua (snd location) (sn_target request) = Some dest" "ca_parse api (sn_target request) = Some source"
    "pu_username dest = []" "pu_password dest = []" "pu_protocol dest \<in> {''http:'', ''https:''}"
    "\<not> (pu_protocol source = ''https:'' \<and> pu_protocol dest = ''http:'')"
    "rp_follow policy" "followed < rp_max_redirects policy"
    "Follow q sq r = follow_redirect status (snd location)
       (inspectable_target (tu_href dest) (st_sensitive (sr_url scripted) \<or> \<not> st_readable (sr_url scripted)))
       source dest request scripted"
proof -
  from assms obtain location where
    l: "status \<in> set REDIRECT_STATUSES" "filter (\<lambda>h. js_lower (fst h) = ''location'') headers = [location]"
    by (auto simp: redirect_decision_def redirect_error_def split: if_splits list.splits)
  with assms obtain dest source where
    d: "ua_resolve ua (snd location) (sn_target request) = Some dest" "ca_parse api (sn_target request) = Some source"
      "decide_resolved status (snd location) dest source request scripted policy followed = Follow q sq r"
    by (auto simp: redirect_decision_def redirect_error_def split: option.splits)
  show thesis
    by (rule that [OF l(2,1) d(1,2)])
      (use d(3) in \<open>simp_all add: decide_resolved_def redirect_error_def Let_def split: if_splits\<close>)
qed

definition kept_headers :: "bool \<Rightarrow> int \<Rightarrow> snapshot \<Rightarrow> script_request \<Rightarrow> (request_field \<times> script_header) list" where
  "kept_headers same_origin status request scripted =
     filter (\<lambda>p. \<not> removes_header (snd (redirect_method status (sn_method request))) same_origin
       (connection_header_names (sn_headers request)) p) (header_pairs request scripted)"

lemma follow_headers:
  "Follow q sq r = follow_redirect status location resolved source dest request scripted \<Longrightarrow>
    sn_headers q = map fst (kept_headers (url_origin source = url_origin dest) status request scripted) \<and>
    sr_headers sq = map snd (kept_headers (url_origin source = url_origin dest) status request scripted) \<and>
    sn_target q = without_hash (tu_href dest)"
  by (auto simp: follow_redirect_def kept_headers_def next_request_def next_script_request_def Let_def
      split: prod.splits)

lemma header_pairs_fst: "map fst (header_pairs request scripted) = sn_headers request"
  by (simp add: header_pairs_def case_prod_beta' comp_def enumerate_eq_zip)

lemma header_pairs_names:
  assumes "map sh_name (sr_headers scripted) = map wh_name (sn_headers request)"
  shows "\<forall>p \<in> set (header_pairs request scripted). sh_name (snd p) = wh_name (fst p)"
proof
  fix p assume "p \<in> set (header_pairs request scripted)"
  then obtain i where i: "i < length (sn_headers request)"
    "p = (sn_headers request ! i, safe_header scripted i (sn_headers request ! i))"
    by (auto simp: header_pairs_def in_set_enumerate_eq)
  moreover from assms have "length (sr_headers scripted) = length (sn_headers request)"
    by (metis length_map)
  moreover from this assms i(1) have "sh_name (sr_headers scripted ! i) = wh_name (sn_headers request ! i)"
    by (metis nth_map)
  ultimately show "sh_name (snd p) = wh_name (fst p)" by (simp add: safe_header_def)
qed

text \<open>
  C22. Redirects do not carry credentials away. A followed redirect has exactly one \<open>Location\<close>, goes to
  an HTTP or HTTPS URL without credentials, never from HTTPS to HTTP, and stays below the configured
  limit; its target has no fragment and no separate query. The forwarded headers are a subsequence of the
  request's, aligned with their script view, and none of them is regenerated per hop or nominated by
  \<open>Connection\<close>. When the origin changes none of them is a credential header and none is marked as
  secret-derived.
\<close>

theorem redirect_follow_safe:
  assumes "redirect_decision api ua status headers request scripted policy followed = Inr (Follow q sq r)"
  shows "\<exists>source dest location.
    ca_parse api (sn_target request) = Some source \<and>
    filter (\<lambda>h. js_lower (fst h) = ''location'') headers = [location] \<and>
    ua_resolve ua (snd location) (sn_target request) = Some dest \<and>
    pu_username dest = [] \<and> pu_password dest = [] \<and> pu_protocol dest \<in> {''http:'', ''https:''} \<and>
    \<not> (pu_protocol source = ''https:'' \<and> pu_protocol dest = ''http:'') \<and>
    rp_follow policy \<and> followed < rp_max_redirects policy \<and>
    sn_target q = without_hash (tu_href dest) \<and> sn_query q = [] \<and>
    subseq (sn_headers q) (sn_headers request) \<and>
    length (sr_headers sq) = length (sn_headers q) \<and>
    (map sh_name (sr_headers scripted) = map wh_name (sn_headers request) \<longrightarrow>
       map sh_name (sr_headers sq) = map wh_name (sn_headers q)) \<and>
    (\<forall>h \<in> set (sn_headers q). js_lower (wh_name h) \<notin> set ALWAYS_REGENERATED_HEADERS \<and>
       js_lower (wh_name h) \<notin> set (connection_header_names (sn_headers request))) \<and>
    (url_origin source \<noteq> url_origin dest \<longrightarrow>
       (\<forall>h \<in> set (sn_headers q). js_lower (wh_name h) \<notin> set CROSS_ORIGIN_CREDENTIAL_HEADERS) \<and>
       (\<forall>h \<in> set (sr_headers sq). \<not> sh_sensitive h))"
  using assms
proof (rule redirect_follow_elim)
  fix location source dest
  assume l: "filter (\<lambda>h. js_lower (fst h) = ''location'') headers = [location]"
    "ua_resolve ua (snd location) (sn_target request) = Some dest" "ca_parse api (sn_target request) = Some source"
    "pu_username dest = []" "pu_password dest = []" "pu_protocol dest \<in> {''http:'', ''https:''}"
    "\<not> (pu_protocol source = ''https:'' \<and> pu_protocol dest = ''http:'')"
    "rp_follow policy" "followed < rp_max_redirects policy"
    and f: "Follow q sq r = follow_redirect status (snd location)
       (inspectable_target (tu_href dest) (st_sensitive (sr_url scripted) \<or> \<not> st_readable (sr_url scripted)))
       source dest request scripted"
  let ?kept = "kept_headers (url_origin source = url_origin dest) status request scripted"
  note h = follow_headers [OF f]
  have "subseq (map fst ?kept) (map fst (header_pairs request scripted))"
    unfolding kept_headers_def by (intro subseq_map subseq_filter_left)
  with h have "subseq (sn_headers q) (sn_headers request)" by (simp add: header_pairs_fst)
  moreover have "sn_query q = []"
    using f by (auto simp: follow_redirect_def next_request_def Let_def split: prod.splits)
  moreover have "map sh_name (map snd ?kept) = map wh_name (map fst ?kept)"
    if "map sh_name (sr_headers scripted) = map wh_name (sn_headers request)"
    using header_pairs_names [OF that] by (auto simp: kept_headers_def)
  ultimately show ?thesis
    using l h by (intro exI [of _ source] exI [of _ dest] exI [of _ location])
      (auto simp: kept_headers_def removes_header_def Let_def)
qed

definition demo_request :: "http_method \<Rightarrow> snapshot" where
  "demo_request m = demo_snapshot\<lparr>sn_method := m, sn_target := ''https://a/x'',
     sn_headers := [plain_field ''Authorization'' ''t'', plain_field ''Accept'' ''*'', plain_field ''X-Key'' ''k'']\<rparr>"

definition demo_scripted :: script_request where
  "demo_scripted = \<lparr>sr_method = ''POST'', sr_url = \<lparr>st_value = Some ''https://a/x'', st_readable = True, st_sensitive = False\<rparr>,
     sr_headers = [\<lparr>sh_name = ''Authorization'', sh_value = Some ''t'', sh_readable = True, sh_sensitive = False\<rparr>,
       \<lparr>sh_name = ''Accept'', sh_value = Some ''*'', sh_readable = True, sh_sensitive = False\<rparr>,
       \<lparr>sh_name = ''X-Key'', sh_value = None, sh_readable = False, sh_sensitive = True\<rparr>],
     sr_body = ScriptText (Some ''b'') True False\<rparr>"

definition demo_url :: "string \<Rightarrow> target_url" where
  "demo_url h = \<lparr>pu_protocol = ''https:'', pu_username = [], pu_password = [], tu_host = h, tu_search = [],
     tu_hash = [], tu_href = ''https://'' @ h @ ''/x''\<rparr>"

definition demo_hop_api :: content_api where
  "demo_hop_api = \<lparr>ca_parse = (\<lambda>s. if s = ''https://a/x'' then Some (demo_url ''a'')
     else if s = ''https://b/x'' then Some (demo_url ''b'') else None), ca_valid_id = (\<lambda>i. True)\<rparr>"

definition demo_hop_urls :: url_api where
  "demo_hop_urls = \<lparr>ua_resolve = (\<lambda>reference base. ca_parse demo_hop_api reference), ua_params = (\<lambda>q. [])\<rparr>"

definition demo_decision :: "int \<Rightarrow> request_error + redirect_choice" where
  "demo_decision status = redirect_decision demo_hop_api demo_hop_urls status [(''Location'', ''https://b/x'')]
     (demo_request POST) demo_scripted DEFAULT_REDIRECT_POLICY 0"

lemma demo_decision_eval:
  "case demo_decision 307 of Inr (Follow q sq r) \<Rightarrow>
     map wh_name (sn_headers q) = [''Accept''] \<and> sn_target q = ''https://b/x'' \<and>
     rr_removed r = [''Authorization'', ''X-Key''] | _ \<Rightarrow> False"
  by code_simp

theorem redirect_follow_safe_witness:
  "\<exists>q sq r. demo_decision 307 = Inr (Follow q sq r) \<and> map wh_name (sn_headers q) = [''Accept''] \<and>
     subseq (sn_headers q) (sn_headers (demo_request POST)) \<and> rr_removed r = [''Authorization'', ''X-Key'']"
proof -
  obtain q sq r where d: "demo_decision 307 = Inr (Follow q sq r)"
    "map wh_name (sn_headers q) = [''Accept'']" "rr_removed r = [''Authorization'', ''X-Key'']"
    using demo_decision_eval by (auto split: sum.splits redirect_choice.splits)
  from redirect_follow_safe [OF d(1) [unfolded demo_decision_def]]
  have "subseq (sn_headers q) (sn_headers (demo_request POST))" by (elim exE conjE)
  with d show ?thesis by (intro exI [of _ q] exI [of _ sq] exI [of _ r]) simp
qed

text \<open>
  Methods and bodies across redirects. A 303 turns every method but \<open>HEAD\<close> into a \<open>GET\<close> without a
  body, a 301 or 302 does so for \<open>POST\<close>; then the representation headers go too. In every other case the
  method and the exact body, structured or binary, are replayed. With the same origin nothing else is
  lost: the forwarded headers are all those that are not regenerated, nominated or dropped with the body.
\<close>

theorem redirect_replays_request:
  assumes "redirect_decision api ua status headers request scripted policy followed = Inr (Follow q sq r)"
  shows "let rewritten = (status = 303 \<and> sn_method request \<noteq> HEAD \<or> status \<in> {301, 302} \<and> sn_method request = POST) in
    (if rewritten then sn_method q = GET \<and> \<not> sn_body_present q \<and> sn_body q = [] \<and> sn_body_bytes q = None \<and>
         sr_body sq = ScriptNone \<and>
         (\<forall>h \<in> set (sn_headers q). js_lower (wh_name h) \<notin> set BODY_REPRESENTATION_HEADERS)
       else sn_method q = sn_method request \<and> sn_body_present q = sn_body_present request \<and>
         sn_body q = sn_body request \<and> sn_body_bytes q = sn_body_bytes request \<and>
         sn_request_body q = sn_request_body request \<and> sr_body sq = sr_body scripted) \<and>
    (\<exists>source dest. ca_parse api (sn_target request) = Some source \<and> sn_target q = without_hash (tu_href dest) \<and>
      (url_origin source = url_origin dest \<longrightarrow>
        sn_headers q = filter (\<lambda>h. js_lower (wh_name h) \<notin> set ALWAYS_REGENERATED_HEADERS \<and>
          js_lower (wh_name h) \<notin> set (connection_header_names (sn_headers request)) \<and>
          \<not> (rewritten \<and> js_lower (wh_name h) \<in> set BODY_REPRESENTATION_HEADERS)) (sn_headers request)))"
  using assms
proof (rule redirect_follow_elim)
  fix location source dest
  assume l: "ca_parse api (sn_target request) = Some source"
    and f: "Follow q sq r = follow_redirect status (snd location)
       (inspectable_target (tu_href dest) (st_sensitive (sr_url scripted) \<or> \<not> st_readable (sr_url scripted)))
       source dest request scripted"
  note h = follow_headers [OF f]
  let ?rewritten = "status = 303 \<and> sn_method request \<noteq> HEAD \<or> status \<in> {301, 302} \<and> sn_method request = POST"
  have m: "redirect_method status (sn_method request) = (if ?rewritten then GET else sn_method request, ?rewritten)"
    by (auto simp: redirect_method_def)
  have "filter P (map fst (header_pairs request scripted)) = map fst (filter (P \<circ> fst) (header_pairs request scripted))" for P
    by (simp add: filter_map)
  then have same: "sn_headers q = filter (\<lambda>h. js_lower (wh_name h) \<notin> set ALWAYS_REGENERATED_HEADERS \<and>
      js_lower (wh_name h) \<notin> set (connection_header_names (sn_headers request)) \<and>
      \<not> (?rewritten \<and> js_lower (wh_name h) \<in> set BODY_REPRESENTATION_HEADERS)) (sn_headers request)"
    if "url_origin source = url_origin dest"
    using h that by (simp add: header_pairs_fst kept_headers_def removes_header_def m comp_def Let_def)
  have "\<forall>h \<in> set (sn_headers q). js_lower (wh_name h) \<notin> set BODY_REPRESENTATION_HEADERS" if ?rewritten
    using h that by (auto simp: kept_headers_def removes_header_def m Let_def)
  with l h same f m show ?thesis
    by (auto simp: follow_redirect_def next_request_def next_script_request_def Let_def)
qed

theorem redirect_replays_request_witness:
  "\<exists>q sq r. demo_decision 307 = Inr (Follow q sq r) \<and> sn_method q = POST \<and> sn_body q = ''k=<<a>>''"
proof -
  obtain q sq r where d: "demo_decision 307 = Inr (Follow q sq r)"
    using demo_decision_eval by (auto split: sum.splits redirect_choice.splits)
  from redirect_replays_request [OF d(1) [unfolded demo_decision_def]] d show ?thesis
    by (auto simp: demo_request_def demo_snapshot_def)
qed

end
