(* ===== verification/Execution_Chain.thy ===== *)
theory Execution_Chain
  imports Redirect_Request
begin

text \<open>
  One execution from its preparation to its terminal state (\<open>#run\<close>, \<open>#complete\<close>, \<open>#fail\<close>,
  \<open>#persistTerminal\<close>, \<open>#createRedirectExchange\<close> in
  \<open>apps/backend/src/executions/execution-service.ts\<close>). What the script worker, the cookie jar, the
  proxy, the blob store and the clock answer is the argument of the definitions: a \<open>hop\<close> holds the
  answers of one iteration of the redirect loop. Database statements succeed; transport observations
  and progress events are left out.
\<close>

section \<open>Data\<close>

record prepared_execution =
  px_id :: entity_id
  px_root :: entity_id
  px_sequence :: nat
  px_revision :: "entity_id option"
  px_template :: snapshot
  px_request :: snapshot
  px_variables :: "resolved_variable list"
  px_sources :: "(string \<times> profile_source) list"
  px_evidence :: "profile_evidence list"
  px_targets :: write_targets
  px_post_request :: "script_request option"
  px_materialized :: bool
  px_created :: int
  px_redirect :: redirect_policy
  px_cookie :: bool
  px_cookie_mode :: cookie_mode
  px_cookie_environment :: "entity_id option"

record outgoing_header =
  oh_name :: string
  oh_value :: string
  oh_redacted :: bool
  oh_derived :: bool

record outgoing_body =
  ob_value :: string
  ob_base64 :: bool
  ob_length :: nat
  ob_redacted :: bool
  ob_truncated :: bool

record outgoing_view =
  ov_method :: http_method
  ov_url :: "string \<times> bool"
  ov_headers :: "outgoing_header list"
  ov_body :: outgoing_body

datatype chain_error =
    CookieLockTimeout
  | CookieLeaseLost
  | ProxyFailed string
  | ScriptFailed string
  | RedirectFailed string
  | OtherFailure

datatype script_phase = PreRequest | PostResponse

record script_summary =
  sm_logs :: "(script_phase \<times> nat \<times> string) list"
  sm_tests :: "(nat \<times> string \<times> bool) list"
  sm_writes :: "(string \<times> write_scope \<times> bool) list"
  sm_error :: "(script_phase \<times> string) option"

datatype execution_state = ExecutionCreated | ExecutionRunning | ExecutionCompleted | ExecutionFailed

record execution_row =
  xr_id :: entity_id
  xr_workspace :: entity_id
  xr_request :: "entity_id option"
  xr_revision :: "entity_id option"
  xr_root :: entity_id
  xr_sequence :: nat
  xr_state :: execution_state
  xr_snapshot :: "persisted option"
  xr_status :: "int option"
  xr_headers :: "response_header list option"
  xr_body_complete :: bool
  xr_body_bytes :: "int option"
  xr_error :: "string option"
  xr_scripts :: "script_summary option"
  xr_redirect :: "redirect_result option"
  xr_outgoing :: "outgoing_view option"
  xr_completed_at :: "int option"

datatype chain_event =
    HeadPublished entity_id entity_id nat int
  | CompletedPublished entity_id
  | FailedPublished entity_id "string option"

datatype chain_audit =
    AuditRedirectFollowed entity_id entity_id entity_id nat
  | AuditExecutionCompleted entity_id int
  | AuditExecutionFailed entity_id bool int "string option"

record sent_request =
  se_key :: string
  se_method :: http_method
  se_url :: string
  se_headers :: "(string \<times> string) list"
  se_body :: string
  se_body_present :: bool
  se_timeout :: int
  se_max_body :: int

record chain_state =
  cs_rows :: "execution_row list"
  cs_sent :: "sent_request list"
  cs_events :: "chain_event list"
  cs_audit :: "chain_audit list"
  cs_env :: environment_db

definition OUTGOING_BODY_PREVIEW_CHARACTERS :: int where
  "OUTGOING_BODY_PREVIEW_CHARACTERS = 262144"

definition MAX_EXECUTION_RESPONSE_BODY_BYTES :: int where
  "MAX_EXECUTION_RESPONSE_BODY_BYTES = 1073741824"

definition EXECUTION_OUTBOUND_TIMEOUT_MS :: int where
  "EXECUTION_OUTBOUND_TIMEOUT_MS = 300000"

fun error_code :: "chain_error \<Rightarrow> string" where
  "error_code CookieLockTimeout = ''cookie_jar_lock_timeout''"
| "error_code CookieLeaseLost = ''cookie_jar_lease_lost''"
| "error_code (ProxyFailed c) = c"
| "error_code (ScriptFailed c) = ''script_'' @ c"
| "error_code (RedirectFailed c) = c"
| "error_code OtherFailure = ''execution_failed''"

section \<open>Outgoing requests\<close>

definition has_enabled_header :: "string \<Rightarrow> snapshot \<Rightarrow> bool" where
  "has_enabled_header name s = list_ex (\<lambda>h. wh_enabled h \<and> js_lower (wh_name h) = name) (sn_headers s)"

definition with_managed_cookie :: "string option \<Rightarrow> snapshot \<Rightarrow> snapshot" where
  "with_managed_cookie v s =
     (case v of
        None \<Rightarrow> s
      | Some c \<Rightarrow> if c = [] then s else s\<lparr>sn_headers := sn_headers s @ [plain_field ''Cookie'' c]\<rparr>)"

definition with_default_user_agent :: "string \<Rightarrow> snapshot \<Rightarrow> snapshot" where
  "with_default_user_agent agent s =
     (if has_enabled_header ''user-agent'' s then s
      else s\<lparr>sn_headers := sn_headers s @ [plain_field ''User-Agent'' agent]\<rparr>)"

definition body_octets :: "snapshot \<Rightarrow> string" where
  "body_octets s = (case sn_body_bytes s of None \<Rightarrow> utf8_encode (sn_body s) | Some b \<Rightarrow> b)"

text \<open>\<open>bodyValue.slice(0, OUTGOING_BODY_PREVIEW_CHARACTERS)\<close>\<close>

definition preview :: "string \<Rightarrow> string" where
  "preview v = (if int (length v) > OUTGOING_BODY_PREVIEW_CHARACTERS
     then take (nat OUTGOING_BODY_PREVIEW_CHARACTERS) v else v)"

definition outgoing_body_of :: "script_body \<Rightarrow> snapshot \<Rightarrow> outgoing_body" where
  "outgoing_body_of body s =
     (let redacted = (body_sensitive body \<or> \<not> body_readable body);
          shown = (case sn_body_bytes s of None \<Rightarrow> sn_body s | Some b \<Rightarrow> base64 b) in
      \<lparr>ob_value = (if redacted then SECRET_MASK else preview shown),
       ob_base64 = (sn_body_bytes s \<noteq> None), ob_length = length (body_octets s), ob_redacted = redacted,
       ob_truncated = (\<not> redacted \<and> int (length shown) > OUTGOING_BODY_PREVIEW_CHARACTERS)\<rparr>)"

definition shown_header :: "script_header \<Rightarrow> outgoing_header" where
  "shown_header h = \<lparr>oh_name = sh_name h,
     oh_value = (case (sh_readable h, sh_value h) of (True, Some v) \<Rightarrow> v | _ \<Rightarrow> SECRET_MASK),
     oh_redacted = (sh_sensitive h \<or> \<not> sh_readable h), oh_derived = False\<rparr>"

definition shown_headers :: "snapshot \<Rightarrow> script_header list \<Rightarrow> outgoing_header list" where
  "shown_headers s hs = concat (map (\<lambda>(i, h).
     if i < length (sn_headers s) \<and> wh_enabled (sn_headers s ! i) then [shown_header h] else []) (enumerate 0 hs))"

definition outgoing_request_view ::
  "content_api \<Rightarrow> script_request \<Rightarrow> snapshot \<Rightarrow> string option \<Rightarrow> request_error + outgoing_view" where
  "outgoing_request_view api scripted s cookie =
     (let secret_url = st_sensitive (sr_url scripted) in
      bindE (if secret_url then Inr SECRET_MASK
             else (case ca_parse api (sn_target s) of None \<Rightarrow> Inl TargetUrlInvalid | Some u \<Rightarrow> Inr (tu_host u)))
        (\<lambda>host.
      Inr \<lparr>ov_method = sn_method s,
        ov_url = (case (st_readable (sr_url scripted), st_value (sr_url scripted)) of
            (True, Some v) \<Rightarrow> v | _ \<Rightarrow> SECRET_MASK,
          secret_url \<or> \<not> st_readable (sr_url scripted)),
        ov_headers = \<lparr>oh_name = ''Host'', oh_value = host, oh_redacted = secret_url, oh_derived = True\<rparr>
          # shown_headers s (sr_headers scripted) @
          (case cookie of None \<Rightarrow> [] | Some c \<Rightarrow> if c = [] then []
             else [\<lparr>oh_name = ''Cookie'', oh_value = c, oh_redacted = False, oh_derived = True\<rparr>]),
        ov_body = outgoing_body_of (sr_body scripted) s\<rparr>))"

section \<open>Terminal persistence\<close>

record chain_config =
  cc_variables :: bool
  cc_policy :: write_policy
  cc_nodes :: "tree_node list"
  cc_profile_ids :: "nat \<Rightarrow> entity_id"
  cc_variable_ids :: "nat \<Rightarrow> nat \<Rightarrow> entity_id"
  cc_user :: entity_id
  cc_cookies :: bool
  cc_agent :: string

fun write_failure :: "variable_error \<Rightarrow> chain_error" where
  "write_failure WriteDenied = ScriptFailed ''variable_write_denied''"
| "write_failure EditDenied = ScriptFailed ''variable_write_denied''"
| "write_failure TargetUnavailable = ScriptFailed ''variable_write_denied''"
| "write_failure TargetGone = ScriptFailed ''variable_write_denied''"
| "write_failure TargetOutside = ScriptFailed ''variable_write_denied''"
| "write_failure WriteConflict = ScriptFailed ''variable_write_conflict''"
| "write_failure _ = OtherFailure"

definition apply_variable_writes ::
  "chain_config \<Rightarrow> prepared_execution \<Rightarrow> script_write list \<Rightarrow> environment_db \<Rightarrow> chain_error + environment_db" where
  "apply_variable_writes cfg p writes db =
     (if writes = [] then Inr db
      else if \<not> cc_variables cfg then Inl (ScriptFailed ''variable_write_denied'')
      else (case apply_script_writes (cc_profile_ids cfg) (cc_variable_ids cfg) (cc_user cfg) (px_id p)
                   (px_targets p) writes (cc_policy cfg) (cc_nodes cfg) db of
          Inl e \<Rightarrow> Inl (write_failure e) | Inr db' \<Rightarrow> Inr db'))"

definition effective_write_policy :: "chain_config \<Rightarrow> prepared_execution \<Rightarrow> write_policy" where
  "effective_write_policy cfg p =
     (if \<not> cc_variables cfg then \<lparr>wy_scopes = [], wy_secrets = False\<rparr>
      else \<lparr>wy_scopes = filter (\<lambda>s. script_write_target (px_targets p) s \<noteq> None) (wy_scopes (cc_policy cfg)),
            wy_secrets = wy_secrets (cc_policy cfg)\<rparr>)"

definition write_result :: "script_write \<Rightarrow> string \<times> write_scope \<times> bool" where
  "write_result w = (sw_name w, sw_scope w, sw_secret w)"

definition update_execution :: "entity_id \<Rightarrow> (execution_row \<Rightarrow> execution_row) \<Rightarrow> chain_state \<Rightarrow> chain_state" where
  "update_execution i f st = st\<lparr>cs_rows := map (\<lambda>r. if xr_id r = i then f r else r) (cs_rows st)\<rparr>"

definition publish :: "chain_event \<Rightarrow> chain_state \<Rightarrow> chain_state" where
  "publish e st = st\<lparr>cs_events := cs_events st @ [e]\<rparr>"

type_synonym response = "int \<times> response_header list"

definition terminal_row ::
  "int option \<Rightarrow> response option \<Rightarrow> bool \<Rightarrow> string option \<Rightarrow> script_summary \<Rightarrow> outgoing_view option
     \<Rightarrow> redirect_result option \<Rightarrow> int \<Rightarrow> execution_row \<Rightarrow> execution_row" where
  "terminal_row blob head body_complete error scripts outgoing redirect now r =
     r\<lparr>xr_state := (if \<not> body_complete \<or> error \<noteq> None then ExecutionFailed else ExecutionCompleted),
       xr_status := map_option fst head, xr_headers := map_option snd head, xr_body_complete := body_complete,
       xr_body_bytes := Some (coalesce blob 0), xr_error := error, xr_scripts := Some scripts,
       xr_redirect := redirect, xr_outgoing := outgoing, xr_completed_at := Some now\<rparr>"

definition persist_terminal ::
  "chain_config \<Rightarrow> prepared_execution \<Rightarrow> int option \<Rightarrow> response option \<Rightarrow> bool \<Rightarrow> string option \<Rightarrow> script_summary
     \<Rightarrow> outgoing_view option \<Rightarrow> script_write list \<Rightarrow> redirect_result option \<Rightarrow> int \<Rightarrow> chain_state
     \<Rightarrow> chain_error + chain_state" where
  "persist_terminal cfg p blob head body_complete error scripts outgoing writes redirect now st =
     bindE (apply_variable_writes cfg p writes (cs_env st)) (\<lambda>db.
     let persisted = (if writes = [] then scripts else scripts\<lparr>sm_writes := map write_result writes\<rparr>);
         st1 = update_execution (px_id p)
           (terminal_row blob head body_complete error persisted outgoing redirect now) (st\<lparr>cs_env := db\<rparr>);
         failed = (\<not> body_complete \<or> error \<noteq> None) in
     Inr (st1\<lparr>cs_audit := cs_audit st1 @
       [if failed then AuditExecutionFailed (px_id p) body_complete (coalesce blob 0) error
        else AuditExecutionCompleted (px_id p) (coalesce blob 0)]\<rparr>))"

section \<open>Completing and failing\<close>

record pre_result =
  pr_local :: "(string \<times> string) list"
  pr_logs :: "(nat \<times> string) list"
  pr_request :: script_request

record post_result =
  po_logs :: "(nat \<times> string) list"
  po_tests :: "(nat \<times> string \<times> bool) list"
  po_writes :: "script_write list"

record hop =
  hp_cookie :: "chain_error + string option"
  hp_now :: int
  hp_head :: "response option"
  hp_apply :: "chain_error option"
  hp_error :: "chain_error option"
  hp_complete :: "int option"
  hp_blob :: int
  hp_digest_ok :: bool
  hp_partial :: "int option"
  hp_read_ok :: bool
  hp_next_id :: entity_id
  hp_next_now :: int
  hp_finished :: int

record run_world =
  rw_lease :: "chain_error option"
  rw_pre :: "string \<Rightarrow> script_request \<Rightarrow> script_variable list \<Rightarrow> chain_error + pre_result"
  rw_post :: "string \<Rightarrow> script_request \<Rightarrow> response \<Rightarrow> int \<Rightarrow> script_variable list \<Rightarrow> (string \<times> string) list
     \<Rightarrow> write_policy \<Rightarrow> chain_error + post_result"
  rw_hops :: "nat \<Rightarrow> hop"
  rw_empty_blob :: "int option"
  rw_finished :: int

fun phase_code :: "chain_error \<Rightarrow> string" where
  "phase_code (ScriptFailed c) = c"
| "phase_code _ = ''runtime_error''"

definition no_scripts :: script_summary where
  "no_scripts = \<lparr>sm_logs = [], sm_tests = [], sm_writes = [], sm_error = None\<rparr>"

definition commit_response :: "hop \<Rightarrow> int \<Rightarrow> chain_error + int" where
  "commit_response h claimed =
     (if hp_blob h \<noteq> claimed \<or> \<not> hp_digest_ok h then Inl OtherFailure else Inr (hp_blob h))"

definition sequence_offset :: "script_summary \<Rightarrow> nat" where
  "sequence_offset s = foldl (\<lambda>latest (ph, n, m). max latest n) 0 (sm_logs s)"

definition add_post_result :: "post_result \<Rightarrow> script_summary \<Rightarrow> script_summary" where
  "add_post_result r s =
     (let k = sequence_offset s in
      s\<lparr>sm_logs := sm_logs s @ map (\<lambda>(n, m). (PostResponse, n + k, m)) (po_logs r),
        sm_tests := map (\<lambda>(n, m, ok). (n + k, m, ok)) (po_tests r)\<rparr>)"

definition post_script_request ::
  "content_api \<Rightarrow> url_api \<Rightarrow> prepared_execution \<Rightarrow> chain_error + script_request" where
  "post_script_request api ua p =
     (case px_post_request p of
        Some v \<Rightarrow> Inr v
      | None \<Rightarrow>
          (case post_response_view api ua (variable_map (px_variables p)) (px_request p) (px_request p) of
             Inl e \<Rightarrow> Inl (ScriptFailed ''runtime_error'') | Inr v \<Rightarrow> Inr v))"

definition run_post_script ::
  "content_api \<Rightarrow> url_api \<Rightarrow> chain_config \<Rightarrow> run_world \<Rightarrow> hop \<Rightarrow> prepared_execution \<Rightarrow> (string \<times> string) list
     \<Rightarrow> response \<Rightarrow> chain_error + post_result" where
  "run_post_script api ua cfg w h p locals head =
     bindE (requireE (hp_read_ok h) (ScriptFailed ''response_body_unavailable'')) (\<lambda>_.
     bindE (post_script_request api ua p) (\<lambda>v.
     rw_post w (sn_post_script (px_request p)) v head (hp_blob h)
       (script_variables (px_sources p) (px_variables p) (variable_map (px_variables p))) locals
       (effective_write_policy cfg p)))"

definition script_error_summary :: "script_phase \<Rightarrow> chain_error \<Rightarrow> script_summary \<Rightarrow> script_summary" where
  "script_error_summary ph e s = s\<lparr>sm_error := Some (ph, phase_code e)\<rparr>"

definition ended_event :: "entity_id \<Rightarrow> string option \<Rightarrow> chain_event" where
  "ended_event root error = (case error of None \<Rightarrow> CompletedPublished root | Some e \<Rightarrow> FailedPublished root (Some e))"

definition complete_execution ::
  "content_api \<Rightarrow> url_api \<Rightarrow> chain_config \<Rightarrow> run_world \<Rightarrow> hop \<Rightarrow> prepared_execution \<Rightarrow> (string \<times> string) list
     \<Rightarrow> script_summary \<Rightarrow> response \<Rightarrow> int \<Rightarrow> outgoing_view \<Rightarrow> redirect_result option \<Rightarrow> string option \<Rightarrow> chain_state
     \<Rightarrow> chain_error + chain_state" where
  "complete_execution api ua cfg w h p locals scripts head claimed outgoing redirect error st =
     bindE (commit_response h claimed) (\<lambda>blob.
     let finish = (\<lambda>s writes. bindE
           (persist_terminal cfg p (Some blob) (Some head) True error s (Some outgoing) writes redirect
              (hp_finished h) st)
           (\<lambda>st'. Inr (publish (ended_event (px_root p) error) st'))) in
     if js_trim (sn_post_script (px_request p)) = [] then finish scripts []
     else
       let (scripts', writes) = (case run_post_script api ua cfg w h p locals head of
             Inl e \<Rightarrow> (script_error_summary PostResponse e scripts, [])
           | Inr r \<Rightarrow> (add_post_result r scripts, po_writes r)) in
       (case finish scripts' writes of
          Inr st' \<Rightarrow> Inr st'
        | Inl (ScriptFailed c) \<Rightarrow> finish (script_error_summary PostResponse (ScriptFailed c) scripts') []
        | Inl e \<Rightarrow> Inl e))"

definition fail_execution ::
  "chain_config \<Rightarrow> prepared_execution \<Rightarrow> int option \<Rightarrow> response option \<Rightarrow> chain_error \<Rightarrow> script_summary
     \<Rightarrow> outgoing_view option \<Rightarrow> int \<Rightarrow> chain_state \<Rightarrow> chain_state" where
  "fail_execution cfg p blob head cause scripts outgoing now st =
     (case persist_terminal cfg p blob head False (Some (error_code cause)) scripts outgoing [] None now st of
        Inl e \<Rightarrow> st
      | Inr st' \<Rightarrow> publish (FailedPublished (px_root p) (Some (error_code cause))) st')"

definition create_redirect_exchange ::
  "content_api \<Rightarrow> prepared_execution \<Rightarrow> entity_id \<Rightarrow> snapshot \<Rightarrow> script_request \<Rightarrow> chain_state
     \<Rightarrow> chain_error + chain_state" where
  "create_redirect_exchange api source i q scripted st =
     (case outgoing_request_view api scripted q None of
        Inl e \<Rightarrow> Inl OtherFailure
      | Inr out \<Rightarrow> Inr (st\<lparr>cs_rows := cs_rows st @
            [\<lparr>xr_id = i, xr_workspace = sn_workspace q, xr_request = sn_request q, xr_revision = px_revision source,
              xr_root = px_root source, xr_sequence = px_sequence source + 1, xr_state = ExecutionRunning,
              xr_snapshot = None, xr_status = None, xr_headers = None, xr_body_complete = False,
              xr_body_bytes = None, xr_error = None, xr_scripts = None, xr_redirect = None,
              xr_outgoing = Some out, xr_completed_at = None\<rparr>],
            cs_audit := cs_audit st @
              [AuditRedirectFollowed (px_root source) (px_id source) i (px_sequence source + 1)]\<rparr>))"

section \<open>One hop\<close>

fun decimal_text :: "nat \<Rightarrow> string" where
  "decimal_text n = (if n < 10 then [char_of (48 + n)] else decimal_text (n div 10) @ [char_of (48 + n mod 10)])"

declare decimal_text.simps [simp del]

definition execution_key :: "prepared_execution \<Rightarrow> string" where
  "execution_key p = (if px_sequence p = 0 then px_root p else px_root p @ '':'' @ decimal_text (px_sequence p))"

definition url_failure :: "request_error + 'a \<Rightarrow> chain_error + 'a" where
  "url_failure r = (case r of Inl e \<Rightarrow> Inl OtherFailure | Inr x \<Rightarrow> Inr x)"

definition hop_request ::
  "content_api \<Rightarrow> url_api \<Rightarrow> bool \<Rightarrow> hop \<Rightarrow> prepared_execution \<Rightarrow> script_request
     \<Rightarrow> chain_error + (string \<times> snapshot \<times> outgoing_view)" where
  "hop_request api ua lease h p scripted =
     bindE (url_failure (materialize_target_url api ua (sn_target (px_request p)) (sn_query (px_request p)))) (\<lambda>url.
     bindE (if \<not> lease \<or> has_enabled_header ''cookie'' (px_request p) then Inr None else hp_cookie h) (\<lambda>cookie.
     let q = with_managed_cookie cookie (px_request p) in
     bindE (url_failure (outgoing_request_view api scripted q cookie)) (\<lambda>out. Inr (url, q, out))))"

definition hop_budget :: "hop \<Rightarrow> int \<Rightarrow> int \<Rightarrow> chain_error + (int \<times> int)" where
  "hop_budget h deadline aggregate =
     (if deadline - hp_now h \<le> 0 then Inl (RedirectFailed ''execution_timeout'')
      else if MAX_EXECUTION_RESPONSE_BODY_BYTES - aggregate \<le> 0 then Inl (RedirectFailed ''response_size_limit'')
      else Inr (deadline - hp_now h, MAX_EXECUTION_RESPONSE_BODY_BYTES - aggregate))"

definition sent_of ::
  "prepared_execution \<Rightarrow> string \<Rightarrow> snapshot \<Rightarrow> int \<times> int \<Rightarrow> sent_request" where
  "sent_of p url q budget =
     \<lparr>se_key = execution_key p, se_method = sn_method q, se_url = url,
      se_headers = map (\<lambda>f. (wh_name f, wh_value f)) (filter wh_enabled (sn_headers q)),
      se_body = body_octets (px_request p), se_body_present = sn_body_present (px_request p),
      se_timeout = fst budget, se_max_body = snd budget\<rparr>"

text \<open>The sink of one proxy call: the head is recorded and published unless applying its cookies fails.\<close>

definition receive_head ::
  "bool \<Rightarrow> hop \<Rightarrow> prepared_execution \<Rightarrow> outgoing_view \<Rightarrow> chain_state \<Rightarrow> chain_error option \<times> chain_state" where
  "receive_head lease h p outgoing st =
     (case hp_head h of
        None \<Rightarrow> (None, st)
      | Some head \<Rightarrow>
          if lease \<and> hp_apply h \<noteq> None then (hp_apply h, st)
          else (None, publish (HeadPublished (px_root p) (px_id p) (px_sequence p) (fst head))
            (update_execution (px_id p) (\<lambda>r. r\<lparr>xr_status := Some (fst head), xr_headers := Some (snd head),
               xr_outgoing := Some outgoing\<rparr>) st)))"

definition exchange ::
  "bool \<Rightarrow> hop \<Rightarrow> prepared_execution \<Rightarrow> sent_request \<Rightarrow> outgoing_view \<Rightarrow> chain_state
     \<Rightarrow> (chain_error + (response \<times> int)) \<times> chain_state" where
  "exchange lease h p sent outgoing st =
     (let (refused, st1) = receive_head lease h p outgoing (st\<lparr>cs_sent := cs_sent st @ [sent]\<rparr>) in
      (case (refused, hp_error h, hp_head h, hp_complete h) of
         (Some e, _, _, _) \<Rightarrow> Inl e
       | (None, Some e, _, _) \<Rightarrow> Inl e
       | (None, None, Some head, Some claimed) \<Rightarrow> Inr (head, claimed)
       | _ \<Rightarrow> Inl OtherFailure, st1))"

definition chain_decision ::
  "content_api \<Rightarrow> url_api \<Rightarrow> prepared_execution \<Rightarrow> string \<Rightarrow> script_request \<Rightarrow> int \<Rightarrow> int \<Rightarrow> response \<Rightarrow> int
     \<Rightarrow> chain_error + redirect_choice" where
  "chain_decision api ua p url scripted aggregate followed head claimed =
     bindE (url_failure (redirect_decision api ua (fst head) (snd head)
       ((px_request p)\<lparr>sn_target := url, sn_components := Some [url], sn_query := []\<rparr>) scripted
       (px_redirect p) followed)) (\<lambda>d.
     Inr (case d of
        Follow q s r \<Rightarrow>
          if aggregate + claimed \<ge> MAX_EXECUTION_RESPONSE_BODY_BYTES then
            RedirectError ''response_size_limit''
              (r\<lparr>rr_outcome := RedirectRefused, rr_reason := Some ''response_size_limit''\<rparr>)
          else d
      | _ \<Rightarrow> d))"

definition redirected ::
  "prepared_execution \<Rightarrow> hop \<Rightarrow> snapshot \<Rightarrow> script_request \<Rightarrow> prepared_execution" where
  "redirected p h q s = p\<lparr>px_id := hp_next_id h, px_sequence := px_sequence p + 1, px_template := q,
     px_request := q, px_post_request := Some s, px_materialized := True, px_created := hp_next_now h\<rparr>"

text \<open>The tail of an iteration: the chain ends (\<open>Inl\<close>) or goes on from a new execution.\<close>

definition conclude_hop ::
  "content_api \<Rightarrow> url_api \<Rightarrow> chain_config \<Rightarrow> run_world \<Rightarrow> hop \<Rightarrow> prepared_execution \<Rightarrow> (string \<times> string) list
     \<Rightarrow> script_summary \<Rightarrow> outgoing_view \<Rightarrow> int \<Rightarrow> response \<Rightarrow> int \<Rightarrow> redirect_choice \<Rightarrow> chain_state
     \<Rightarrow> (chain_error + (chain_state + prepared_execution \<times> script_request \<times> int \<times> chain_state)) \<times> chain_state" where
  "conclude_hop api ua cfg w h p locals scripts outgoing aggregate head claimed d st =
     (let finish = (\<lambda>redirect error.
          (case complete_execution api ua cfg w h p locals scripts head claimed outgoing redirect error st of
             Inl e \<Rightarrow> (Inl e, st) | Inr st' \<Rightarrow> (Inr (Inl st'), st'))) in
      (case d of
         Terminal redirect \<Rightarrow> finish redirect None
       | RedirectError code redirect \<Rightarrow> finish (Some redirect) (Some code)
       | Follow q s redirect \<Rightarrow>
           (case commit_response h claimed of
              Inl e \<Rightarrow> (Inl e, st)
            | Inr blob \<Rightarrow>
                (case persist_terminal cfg p (Some blob) (Some head) True None no_scripts (Some outgoing) []
                        (Some (redirect\<lparr>rr_destination := Some (hp_next_id h)\<rparr>)) (hp_finished h) st of
                   Inl e \<Rightarrow> (Inl e, st)
                 | Inr st1 \<Rightarrow>
                     (case create_redirect_exchange api p (hp_next_id h) q s st1 of
                        Inl e \<Rightarrow> (Inl e, st1)
                      | Inr st2 \<Rightarrow> (Inr (Inr (redirected p h q s, s, aggregate + blob, st2)), st2))))))"

text \<open>One iteration; a failure is handled by the inner or the outer \<open>catch\<close>.\<close>

definition hop_step ::
  "content_api \<Rightarrow> url_api \<Rightarrow> chain_config \<Rightarrow> run_world \<Rightarrow> bool \<Rightarrow> int \<Rightarrow> (string \<times> string) list \<Rightarrow> script_summary
     \<Rightarrow> prepared_execution \<Rightarrow> script_request \<Rightarrow> int \<Rightarrow> int \<Rightarrow> chain_state
     \<Rightarrow> chain_state + prepared_execution \<times> script_request \<times> int \<times> chain_state" where
  "hop_step api ua cfg w lease deadline locals scripts p scripted aggregate followed st =
     (let h = rw_hops w (px_sequence p);
          inner_fail = (\<lambda>e outgoing st'. Inl (fail_execution cfg p (hp_partial h) (hp_head h) e scripts
            (Some outgoing) (hp_finished h) st')) in
      (case hop_request api ua lease h p scripted of
         Inl e \<Rightarrow> Inl (fail_execution cfg p (rw_empty_blob w) None e scripts None (rw_finished w) st)
       | Inr (url, q, outgoing) \<Rightarrow>
           (case hop_budget h deadline aggregate of
              Inl e \<Rightarrow> Inl (fail_execution cfg p (hp_partial h) None e scripts (Some outgoing) (hp_finished h) st)
            | Inr budget \<Rightarrow>
                (case exchange lease h p (sent_of p url q budget) outgoing st of
                   (Inl e, st1) \<Rightarrow> inner_fail e outgoing st1
                 | (Inr (head, claimed), st1) \<Rightarrow>
                     (case chain_decision api ua p url scripted aggregate followed head claimed of
                        Inl e \<Rightarrow> inner_fail e outgoing st1
                      | Inr d \<Rightarrow>
                          (case conclude_hop api ua cfg w h p locals scripts outgoing aggregate head claimed d st1 of
                             (Inl e, st2) \<Rightarrow> inner_fail e outgoing st2
                           | (Inr next_step, st2) \<Rightarrow> next_step))))))"

lemma chain_decision_follow:
  assumes "chain_decision api ua p url scripted aggregate followed head claimed = Inr (Follow q s r)"
  shows "redirect_decision api ua (fst head) (snd head)
       ((px_request p)\<lparr>sn_target := url, sn_components := Some [url], sn_query := []\<rparr>) scripted
       (px_redirect p) followed = Inr (Follow q s r)
    \<and> aggregate + claimed < MAX_EXECUTION_RESPONSE_BODY_BYTES"
proof -
  from assms obtain d where d: "redirect_decision api ua (fst head) (snd head)
       ((px_request p)\<lparr>sn_target := url, sn_components := Some [url], sn_query := []\<rparr>) scripted
       (px_redirect p) followed = Inr d"
    "(case d of Follow q s r \<Rightarrow>
          if aggregate + claimed \<ge> MAX_EXECUTION_RESPONSE_BODY_BYTES then
            RedirectError ''response_size_limit''
              (r\<lparr>rr_outcome := RedirectRefused, rr_reason := Some ''response_size_limit''\<rparr>)
          else d
      | _ \<Rightarrow> d) = Follow q s r"
    by (auto simp: chain_decision_def bindE_eq_Inr url_failure_def split: sum.splits)
  from d(2) show ?thesis using d(1) by (cases d) (auto split: if_splits)
qed

lemma conclude_next:
  assumes "conclude_hop api ua cfg w h p locals scripts outgoing aggregate head claimed d st =
      (Inr (Inr (p', s', agg', st')), st2)"
  obtains q r st1 where "d = Follow q s' r" "p' = redirected p h q s'" "agg' = aggregate + claimed"
    "hp_blob h = claimed" "hp_digest_ok h"
    "persist_terminal cfg p (Some claimed) (Some head) True None no_scripts (Some outgoing) []
       (Some (r\<lparr>rr_destination := Some (hp_next_id h)\<rparr>)) (hp_finished h) st = Inr st1"
    "create_redirect_exchange api p (hp_next_id h) q s' st1 = Inr st'" "st2 = st'"
  using assms
  by (auto simp: conclude_hop_def Let_def commit_response_def
      split: redirect_choice.splits sum.splits if_splits)

lemma hop_step_next:
  assumes "hop_step api ua cfg w lease deadline locals scripts p scripted aggregate followed st =
      Inr (p', s', agg', st')"
  obtains url q outgoing budget head claimed st1 q' r st2 where
    "hop_request api ua lease (rw_hops w (px_sequence p)) p scripted = Inr (url, q, outgoing)"
    "hop_budget (rw_hops w (px_sequence p)) deadline aggregate = Inr budget"
    "exchange lease (rw_hops w (px_sequence p)) p (sent_of p url q budget) outgoing st = (Inr (head, claimed), st1)"
    "redirect_decision api ua (fst head) (snd head)
       ((px_request p)\<lparr>sn_target := url, sn_components := Some [url], sn_query := []\<rparr>) scripted
       (px_redirect p) followed = Inr (Follow q' s' r)"
    "aggregate + claimed < MAX_EXECUTION_RESPONSE_BODY_BYTES" "agg' = aggregate + claimed"
    "p' = redirected p (rw_hops w (px_sequence p)) q' s'"
    "persist_terminal cfg p (Some claimed) (Some head) True None no_scripts (Some outgoing) []
       (Some (r\<lparr>rr_destination := Some (hp_next_id (rw_hops w (px_sequence p)))\<rparr>))
       (hp_finished (rw_hops w (px_sequence p))) st1 = Inr st2"
    "create_redirect_exchange api p (hp_next_id (rw_hops w (px_sequence p))) q' s' st2 = Inr st'"
proof -
  let ?h = "rw_hops w (px_sequence p)"
  from assms obtain url q outgoing budget head claimed st1 d st3 where
    h: "hop_request api ua lease ?h p scripted = Inr (url, q, outgoing)"
      "hop_budget ?h deadline aggregate = Inr budget"
      "exchange lease ?h p (sent_of p url q budget) outgoing st = (Inr (head, claimed), st1)"
      "chain_decision api ua p url scripted aggregate followed head claimed = Inr d"
      "conclude_hop api ua cfg w ?h p locals scripts outgoing aggregate head claimed d st1 =
        (Inr (Inr (p', s', agg', st')), st3)"
    by (auto simp: hop_step_def Let_def split: sum.splits prod.splits)
  from h(5) show thesis
  proof (rule conclude_next)
    fix q' r st2
    assume d: "d = Follow q' s' r" "p' = redirected p ?h q' s'" "agg' = aggregate + claimed"
      "persist_terminal cfg p (Some claimed) (Some head) True None no_scripts (Some outgoing) []
         (Some (r\<lparr>rr_destination := Some (hp_next_id ?h)\<rparr>)) (hp_finished ?h) st1 = Inr st2"
      "create_redirect_exchange api p (hp_next_id ?h) q' s' st2 = Inr st'"
    from chain_decision_follow [OF h(4) [unfolded d(1)]] show thesis
      using that [OF h(1-3)] d by blast
  qed
qed

lemma hop_step_followed:
  assumes "hop_step api ua cfg w lease deadline locals scripts p scripted aggregate followed st =
      Inr (p', s', agg', st')"
  shows "followed < rp_max_redirects (px_redirect p) \<and> px_redirect p' = px_redirect p"
  using assms
proof (rule hop_step_next)
  fix url q' r and head :: response
  assume "redirect_decision api ua (fst head) (snd head)
       ((px_request p)\<lparr>sn_target := url, sn_components := Some [url], sn_query := []\<rparr>) scripted
       (px_redirect p) followed = Inr (Follow q' s' r)"
    and p': "p' = redirected p (rw_hops w (px_sequence p)) q' s'"
  from redirect_follow_elim [OF this(1)] have "followed < rp_max_redirects (px_redirect p)" by blast
  with p' show ?thesis by (simp add: redirected_def)
qed

section \<open>The whole run\<close>

function run_hops ::
  "content_api \<Rightarrow> url_api \<Rightarrow> chain_config \<Rightarrow> run_world \<Rightarrow> bool \<Rightarrow> int \<Rightarrow> (string \<times> string) list \<Rightarrow> script_summary
     \<Rightarrow> prepared_execution \<Rightarrow> script_request \<Rightarrow> int \<Rightarrow> int \<Rightarrow> chain_state \<Rightarrow> chain_state" where
  "run_hops api ua cfg w lease deadline locals scripts p scripted aggregate followed st =
     (case hop_step api ua cfg w lease deadline locals scripts p scripted aggregate followed st of
        Inl st' \<Rightarrow> st'
      | Inr (p', s', agg', st') \<Rightarrow>
          run_hops api ua cfg w lease deadline locals scripts p' s' agg' (followed + 1) st')"
  by pat_completeness auto
termination
  by (relation "measure (\<lambda>(api, ua, cfg, w, lease, deadline, locals, scripts, p, scripted, aggregate, followed, st).
        nat (rp_max_redirects (px_redirect p) - followed))")
    (auto dest: hop_step_followed)

declare run_hops.simps [simp del]

definition start_execution :: "prepared_execution \<Rightarrow> chain_state \<Rightarrow> chain_state" where
  "start_execution p st = update_execution (px_id p) (\<lambda>r. r\<lparr>xr_state := ExecutionRunning\<rparr>) st"

text \<open>
  The pre-request script: what it leaves for the rest of the run, or the failure with the script results
  so far, which keep the logs of a script whose request was refused.
\<close>

definition run_pre_script ::
  "content_api \<Rightarrow> url_api \<Rightarrow> run_world \<Rightarrow> prepared_execution
     \<Rightarrow> (chain_error \<times> script_summary) + (prepared_execution \<times> (string \<times> string) list \<times> script_summary)" where
  "run_pre_script api ua w p =
     (let vars = variable_map (px_variables p); r = px_request p in
      if js_trim (sn_pre_script r) = [] then Inr (p, [], no_scripts)
      else
        (case rw_pre w (sn_pre_script r) (pre_request_view vars r (px_template p))
                (script_variables (px_sources p) (px_variables p) vars) of
           Inl e \<Rightarrow> Inl (e, script_error_summary PreRequest e no_scripts)
         | Inr result \<Rightarrow>
             let scripts = no_scripts\<lparr>sm_logs := map (\<lambda>(n, m). (PreRequest, n, m)) (pr_logs result)\<rparr> in
             (case execution_request_from_script ua r (pr_request result) of
                Inl e \<Rightarrow> Inl (ScriptFailed ''sdk_invalid_argument'',
                  script_error_summary PreRequest (ScriptFailed ''sdk_invalid_argument'') scripts)
              | Inr q \<Rightarrow> Inr (p\<lparr>px_template := q, px_request := q,
                    px_post_request := (if px_materialized p then Some (pr_request result) else px_post_request p)\<rparr>,
                  pr_local result, scripts))))"

definition with_agents :: "string \<Rightarrow> prepared_execution \<Rightarrow> prepared_execution" where
  "with_agents agent p = p\<lparr>px_template := with_default_user_agent agent (px_template p),
     px_request := with_default_user_agent agent (px_request p)\<rparr>"

text \<open>Composition of a request that was not materialised when it was prepared.\<close>

definition materialize_run ::
  "content_api \<Rightarrow> url_api \<Rightarrow> script_summary \<Rightarrow> prepared_execution \<Rightarrow> chain_state
     \<Rightarrow> chain_error + (prepared_execution \<times> chain_state)" where
  "materialize_run api ua scripts p st =
     (if px_materialized p then Inr (p, st)
      else
        let vars = variable_map (px_variables p) in
        (case compose_with_variables api vars (px_request p) of
           Inl e \<Rightarrow> Inl OtherFailure
         | Inr c \<Rightarrow>
             bindE (url_failure (post_response_view api ua vars (px_request p) (cq_request c))) (\<lambda>v.
             Inr (p\<lparr>px_template := px_request p, px_request := cq_request c, px_post_request := Some v,
                    px_materialized := True\<rparr>,
                  update_execution (px_id p) (\<lambda>r. r\<lparr>xr_snapshot := Some (cq_persisted c),
                    xr_scripts := Some scripts\<rparr>) st))))"

definition first_view ::
  "content_api \<Rightarrow> url_api \<Rightarrow> prepared_execution \<Rightarrow> chain_error + script_request" where
  "first_view api ua p =
     (case px_post_request p of
        Some v \<Rightarrow> Inr v
      | None \<Rightarrow> url_failure (post_response_view api ua (variable_map (px_variables p)) (px_template p) (px_request p)))"

text \<open>Everything before the first hop; a failure comes with the script results so far.\<close>

definition run_prelude ::
  "content_api \<Rightarrow> url_api \<Rightarrow> chain_config \<Rightarrow> run_world \<Rightarrow> prepared_execution \<Rightarrow> chain_state
     \<Rightarrow> (chain_error \<times> script_summary \<times> chain_state)
       + (prepared_execution \<times> script_request \<times> (string \<times> string) list \<times> script_summary \<times> chain_state)" where
  "run_prelude api ua cfg w p st =
     (if px_cookie p \<and> cc_cookies cfg \<and> rw_lease w \<noteq> None then Inl (the (rw_lease w), no_scripts, st)
      else (case run_pre_script api ua w p of
          Inl (e, scripts) \<Rightarrow> Inl (e, scripts, st)
        | Inr (p1, locals, scripts) \<Rightarrow>
            (case materialize_run api ua scripts (with_agents (cc_agent cfg) p1) st of
               Inl e \<Rightarrow> Inl (e, scripts, st)
             | Inr (p2, st1) \<Rightarrow>
                 (case first_view api ua p2 of
                    Inl e \<Rightarrow> Inl (e, scripts, st1)
                  | Inr v \<Rightarrow> Inr (p2, v, locals, scripts, st1)))))"

definition run_prepared ::
  "content_api \<Rightarrow> url_api \<Rightarrow> chain_config \<Rightarrow> run_world \<Rightarrow> prepared_execution \<Rightarrow> chain_state \<Rightarrow> chain_state" where
  "run_prepared api ua cfg w p st =
     (case run_prelude api ua cfg w p st of
        Inl (e, scripts, st1) \<Rightarrow> fail_execution cfg p (rw_empty_blob w) None e scripts None (rw_finished w) st1
      | Inr (p1, v, locals, scripts, st1) \<Rightarrow>
          run_hops api ua cfg w (px_cookie p \<and> cc_cookies cfg) (px_created p + EXECUTION_OUTBOUND_TIMEOUT_MS)
            locals scripts p1 v 0 0 st1)"

end
