(* ===== verification/Execution_Chain_Properties.thy ===== *)
theory Execution_Chain_Properties
  imports Execution_Chain
begin

text \<open>
  Properties of a run and of its redirect chain (\<open>run_prepared\<close> and \<open>run_hops\<close>): what is published, how
  the stored exchanges are linked, which limits every sent request keeps, and which headers may leave the
  first origin.
\<close>

section \<open>What one iteration changes\<close>

definition terminal_event :: "chain_event \<Rightarrow> bool" where
  "terminal_event e \<longleftrightarrow> (case e of HeadPublished r i n s \<Rightarrow> False | _ \<Rightarrow> True)"

definition ended_for :: "entity_id \<Rightarrow> chain_event \<Rightarrow> bool" where
  "ended_for root e \<longleftrightarrow> e = CompletedPublished root \<or> (\<exists>c. e = FailedPublished root c)"

lemma ended_for_terminal: "ended_for root e \<Longrightarrow> terminal_event e"
  by (auto simp: ended_for_def terminal_event_def)

definition terminal_events :: "chain_state \<Rightarrow> chain_event list" where
  "terminal_events st = filter terminal_event (cs_events st)"

definition row_map :: "entity_id \<Rightarrow> (execution_row \<Rightarrow> execution_row) \<Rightarrow> execution_row list \<Rightarrow> execution_row list" where
  "row_map i f rows = map (\<lambda>r. if xr_id r = i then f r else r) rows"

definition keeps_identity :: "(execution_row \<Rightarrow> execution_row) \<Rightarrow> bool" where
  "keeps_identity f \<longleftrightarrow> (\<forall>r. xr_id (f r) = xr_id r \<and> xr_root (f r) = xr_root r \<and> xr_sequence (f r) = xr_sequence r)"

definition ended_row :: "execution_row \<Rightarrow> bool" where
  "ended_row r \<longleftrightarrow> xr_state r \<in> {ExecutionCompleted, ExecutionFailed} \<and> xr_completed_at r \<noteq> None"

lemma row_map_id [simp]: "row_map i id rows = rows"
  by (simp add: row_map_def map_idI)

lemma row_map_other: "i \<notin> xr_id ` set rows \<Longrightarrow> row_map i f rows = rows"
  by (auto simp: row_map_def intro!: map_idI)

lemma row_map_append: "row_map i f (xs @ ys) = row_map i f xs @ row_map i f ys"
  by (simp add: row_map_def)

lemma row_map_twice: "keeps_identity f \<Longrightarrow> row_map i g (row_map i f rows) = row_map i (g \<circ> f) rows"
  by (simp add: row_map_def keeps_identity_def)

lemma row_map_ids: "keeps_identity f \<Longrightarrow> map xr_id (row_map i f rows) = map xr_id rows"
  by (simp add: row_map_def keeps_identity_def)

lemma keeps_identity_id [simp]: "keeps_identity id"
  by (simp add: keeps_identity_def)

lemma keeps_identity_comp: "keeps_identity f \<Longrightarrow> keeps_identity g \<Longrightarrow> keeps_identity (g \<circ> f)"
  by (simp add: keeps_identity_def)

lemma terminal_row_keeps [simp]: "keeps_identity (terminal_row blob head done error s out redirect now)"
  by (simp add: keeps_identity_def terminal_row_def)

lemma terminal_row_ended [simp]: "ended_row (terminal_row blob head done error s out redirect now r)"
  by (simp add: ended_row_def terminal_row_def)

lemma update_execution_fields [simp]:
  "cs_sent (update_execution i f st) = cs_sent st" "cs_events (update_execution i f st) = cs_events st"
  "cs_rows (update_execution i f st) = row_map i f (cs_rows st)"
  by (simp_all add: update_execution_def row_map_def)

lemma publish_fields [simp]:
  "cs_sent (publish e st) = cs_sent st" "cs_rows (publish e st) = cs_rows st"
  "cs_events (publish e st) = cs_events st @ [e]"
  by (simp_all add: publish_def)

lemma persist_fields:
  assumes "persist_terminal cfg p blob head done error scripts outgoing writes redirect now st = Inr st'"
  obtains s where "cs_sent st' = cs_sent st" "cs_events st' = cs_events st"
    "cs_rows st' = row_map (px_id p) (terminal_row blob head done error s outgoing redirect now) (cs_rows st)"
  using assms by (auto simp: persist_terminal_def bindE_eq_Inr Let_def)

lemma persist_no_writes: "\<exists>st'. persist_terminal cfg p blob head done error scripts outgoing [] redirect now st = Inr st'"
  by (simp add: persist_terminal_def apply_variable_writes_def Let_def)

text \<open>An operation that stays in the middle of a hop: nothing sent, no terminal event, only the current
  row is touched.\<close>

definition within_hop :: "prepared_execution \<Rightarrow> chain_state \<Rightarrow> chain_state \<Rightarrow> bool" where
  "within_hop p st st' \<longleftrightarrow> cs_sent st' = cs_sent st \<and> terminal_events st' = terminal_events st \<and>
     (\<exists>f. keeps_identity f \<and> cs_rows st' = row_map (px_id p) f (cs_rows st))"

text \<open>The end of a chain: the current row becomes terminal and one terminal event is published.\<close>

definition ends_chain :: "prepared_execution \<Rightarrow> chain_state \<Rightarrow> chain_state \<Rightarrow> bool" where
  "ends_chain p st st' \<longleftrightarrow> cs_sent st' = cs_sent st \<and>
     (\<exists>e. ended_for (px_root p) e \<and> terminal_events st' = terminal_events st @ [e]) \<and>
     (\<exists>f. keeps_identity f \<and> (\<forall>r. ended_row (f r)) \<and> cs_rows st' = row_map (px_id p) f (cs_rows st))"

lemma within_hop_refl [simp]: "within_hop p st st"
  by (auto simp: within_hop_def intro!: exI [of _ id])

lemma within_hop_trans: "within_hop p a b \<Longrightarrow> within_hop p b c \<Longrightarrow> within_hop p a c"
  unfolding within_hop_def using row_map_twice keeps_identity_comp by metis

lemma within_ends_trans: "within_hop p a b \<Longrightarrow> ends_chain p b c \<Longrightarrow> ends_chain p a c"
proof -
  assume "within_hop p a b" "ends_chain p b c"
  then obtain f g where f: "keeps_identity f" "cs_rows b = row_map (px_id p) f (cs_rows a)"
    and g: "keeps_identity g" "\<forall>r. ended_row (g r)" "cs_rows c = row_map (px_id p) g (cs_rows b)"
    by (auto simp: within_hop_def ends_chain_def)
  then have "cs_rows c = row_map (px_id p) (g \<circ> f) (cs_rows a)" by (simp add: row_map_twice)
  moreover have "keeps_identity (g \<circ> f)" "\<forall>r. ended_row ((g \<circ> f) r)" using f g by (auto intro: keeps_identity_comp)
  ultimately show ?thesis using \<open>within_hop p a b\<close> \<open>ends_chain p b c\<close>
    unfolding within_hop_def ends_chain_def by metis
qed

lemma persist_publish_ends:
  assumes "persist_terminal cfg p blob head done error scripts outgoing writes redirect now st = Inr st'"
    and "ended_for (px_root p) e"
  shows "ends_chain p st (publish e st')"
  using assms(1)
proof (rule persist_fields)
  fix s
  assume "cs_sent st' = cs_sent st" "cs_events st' = cs_events st"
    "cs_rows st' = row_map (px_id p) (terminal_row blob head done error s outgoing redirect now) (cs_rows st)"
  with assms(2) ended_for_terminal [OF assms(2)] show ?thesis
    unfolding ends_chain_def terminal_events_def publish_fields
    by (intro conjI exI [of _ e] exI [of _ "terminal_row blob head done error s outgoing redirect now"]) simp_all
qed

lemma persist_within:
  assumes "persist_terminal cfg p blob head done error scripts outgoing writes redirect now st = Inr st'"
  shows "within_hop p st st'"
  using assms
proof (rule persist_fields)
  fix s
  assume "cs_sent st' = cs_sent st" "cs_events st' = cs_events st"
    "cs_rows st' = row_map (px_id p) (terminal_row blob head done error s outgoing redirect now) (cs_rows st)"
  then show ?thesis
    unfolding within_hop_def terminal_events_def
    by (intro conjI exI [of _ "terminal_row blob head done error s outgoing redirect now"]) simp_all
qed

lemma fail_ends_chain: "ends_chain p st (fail_execution cfg p blob head cause scripts outgoing now st)"
proof -
  obtain st' where "persist_terminal cfg p blob head False (Some (error_code cause)) scripts outgoing [] None now st = Inr st'"
    using persist_no_writes by blast
  from this persist_publish_ends [OF this, of "FailedPublished (px_root p) (Some (error_code cause))"]
  show ?thesis by (simp add: fail_execution_def ended_for_def)
qed

lemma complete_ends_chain:
  assumes "complete_execution api ua cfg w h p locals scripts head claimed outgoing redirect error st = Inr st'"
  shows "ends_chain p st st'"
proof -
  have ended: "ended_for (px_root p) (ended_event (px_root p) error)"
    by (simp add: ended_event_def ended_for_def split: option.split)
  from assms obtain blob s writes st1 where
    "persist_terminal cfg p (Some blob) (Some head) True error s (Some outgoing) writes redirect (hp_finished h) st = Inr st1"
    "st' = publish (ended_event (px_root p) error) st1"
    by (fastforce simp: complete_execution_def bindE_eq_Inr bindE_eq_Inl Let_def
        split: if_splits sum.splits prod.splits chain_error.splits)
  with persist_publish_ends [OF _ ended] show ?thesis by blast
qed

lemma conclude_end:
  assumes "conclude_hop api ua cfg w h p locals scripts outgoing aggregate head claimed d st = (Inr (Inl st'), st2)"
  shows "ends_chain p st st'"
  using assms complete_ends_chain
  by (auto simp: conclude_hop_def Let_def split: redirect_choice.splits sum.splits)

lemma conclude_error:
  assumes "conclude_hop api ua cfg w h p locals scripts outgoing aggregate head claimed d st = (Inl e, st2)"
  shows "within_hop p st st2"
  using assms persist_within
  by (auto simp: conclude_hop_def Let_def split: redirect_choice.splits sum.splits)

lemma receive_head_within:
  assumes "receive_head lease h p outgoing st = (e, st')"
  shows "within_hop p st st'"
proof (cases "st' = st")
  case False
  with assms obtain head where st': "st' = publish (HeadPublished (px_root p) (px_id p) (px_sequence p) (fst head))
      (update_execution (px_id p) (\<lambda>r. r\<lparr>xr_status := Some (fst head), xr_headers := Some (snd head),
         xr_outgoing := Some outgoing\<rparr>) st)"
    by (auto simp: receive_head_def split: option.splits if_splits)
  show ?thesis unfolding st' within_hop_def
    by (intro conjI exI [of _ "\<lambda>r. r\<lparr>xr_status := Some (fst head), xr_headers := Some (snd head),
         xr_outgoing := Some outgoing\<rparr>"]) (simp_all add: terminal_events_def terminal_event_def keeps_identity_def)
qed simp

text \<open>Sending puts one request on the list; everything else of a hop is within it.\<close>

definition with_sent :: "sent_request list \<Rightarrow> chain_state \<Rightarrow> chain_state" where
  "with_sent xs st = st\<lparr>cs_sent := cs_sent st @ xs\<rparr>"

lemma exchange_within:
  assumes "exchange lease h p sent outgoing st = (r, st')"
  shows "within_hop p (with_sent [sent] st) st'"
proof -
  from assms have "\<exists>e. receive_head lease h p outgoing (with_sent [sent] st) = (e, st')"
    by (auto simp: exchange_def with_sent_def Let_def split: prod.splits)
  then show ?thesis using receive_head_within by blast
qed

lemma hop_step_ends:
  assumes "hop_step api ua cfg w lease deadline locals scripts p scripted aggregate followed st = Inl st'"
  obtains xs where "ends_chain p (with_sent xs st) st'"
    "xs = [] \<or> (\<exists>url q outgoing budget. xs = [sent_of p url q budget] \<and>
       hop_request api ua lease (rw_hops w (px_sequence p)) p scripted = Inr (url, q, outgoing) \<and>
       hop_budget (rw_hops w (px_sequence p)) deadline aggregate = Inr budget)"
proof -
  let ?h = "rw_hops w (px_sequence p)"
  have none: "with_sent [] st = st" by (simp add: with_sent_def)
  show thesis
  proof (cases "hop_request api ua lease ?h p scripted")
    case (Inl e)
    with assms show thesis using that [of "[]"] fail_ends_chain by (auto simp: hop_step_def Let_def none)
  next
    case request: (Inr req)
    obtain url q outgoing where req: "req = (url, q, outgoing)" by (cases req)
    show thesis
    proof (cases "hop_budget ?h deadline aggregate")
      case (Inl e)
      with assms request req show thesis
        using that [of "[]"] fail_ends_chain by (auto simp: hop_step_def Let_def none)
    next
      case budget: (Inr b)
      obtain res st1 where ex: "exchange lease ?h p (sent_of p url q b) outgoing st = (res, st1)" by fastforce
      note within = exchange_within [OF ex]
      have "ends_chain p st1 st'"
      proof (cases res)
        case (Inl e)
        with assms request req budget ex show ?thesis
          using fail_ends_chain by (auto simp: hop_step_def Let_def)
      next
        case (Inr hc)
        obtain head claimed where hc: "hc = (head, claimed)" by (cases hc)
        show ?thesis
        proof (cases "chain_decision api ua p url scripted aggregate followed head claimed")
          case (Inl e)
          with assms request req budget ex Inr hc show ?thesis
            using fail_ends_chain by (auto simp: hop_step_def Let_def)
        next
          case d: (Inr d)
          obtain cres st2 where c: "conclude_hop api ua cfg w ?h p locals scripts outgoing aggregate head claimed d st1 = (cres, st2)"
            by fastforce
          show ?thesis
          proof (cases cres)
            case (Inl e)
            with assms request req budget ex \<open>res = Inr hc\<close> hc d c have
              "st' = fail_execution cfg p (hp_partial ?h) (hp_head ?h) e scripts (Some outgoing) (hp_finished ?h) st2"
              by (simp add: hop_step_def Let_def)
            with conclude_error [of api ua cfg w ?h p locals scripts outgoing aggregate head claimed d st1 e st2] c Inl
              fail_ends_chain within_ends_trans show ?thesis by blast
          next
            case (Inr nx)
            with assms request req budget ex \<open>res = Inr hc\<close> hc d c have "cres = Inr (Inl st')"
              by (simp add: hop_step_def Let_def)
            with c conclude_end show ?thesis by blast
          qed
        qed
      qed
      with within have "ends_chain p (with_sent [sent_of p url q b] st) st'" by (rule within_ends_trans)
      then show thesis using that [of "[sent_of p url q b]"] request req budget by blast
    qed
  qed
qed

section \<open>The stored chain\<close>

definition linked :: "execution_row \<Rightarrow> execution_row \<Rightarrow> bool" where
  "linked r s \<longleftrightarrow> xr_state r = ExecutionCompleted \<and> xr_completed_at r \<noteq> None \<and>
     (\<exists>x. xr_redirect r = Some x \<and> rr_outcome x = Followed \<and> rr_destination x = Some (xr_id s)) \<and>
     xr_root s = xr_root r \<and> xr_sequence s = xr_sequence r + 1"

lemma redirect_decision_followed:
  "redirect_decision api ua status hs request scripted policy followed = Inr (Follow q s r) \<Longrightarrow> rr_outcome r = Followed"
  by (erule redirect_follow_elim) (auto simp: follow_redirect_def Let_def)

text \<open>An iteration that goes on: its row is completed, points to the next one, and the next one is
  appended.\<close>

lemma hop_step_goes_on:
  assumes "hop_step api ua cfg w lease deadline locals scripts p scripted aggregate followed st =
      Inr (p', s', agg', st')"
  obtains url q outgoing budget f r where
    "hop_request api ua lease (rw_hops w (px_sequence p)) p scripted = Inr (url, q, outgoing)"
    "hop_budget (rw_hops w (px_sequence p)) deadline aggregate = Inr budget"
    "cs_sent st' = cs_sent st @ [sent_of p url q budget]" "terminal_events st' = terminal_events st"
    "keeps_identity f" "cs_rows st' = row_map (px_id p) f (cs_rows st) @ [r]"
    "xr_id r = hp_next_id (rw_hops w (px_sequence p))" "xr_root r = px_root p" "xr_sequence r = px_sequence p + 1"
    "\<forall>x. xr_root x = px_root p \<and> xr_sequence x = px_sequence p \<longrightarrow> linked (f x) r"
    "px_id p' = xr_id r" "px_root p' = px_root p" "px_sequence p' = px_sequence p + 1" "px_redirect p' = px_redirect p"
  using assms
proof (rule hop_step_next)
  let ?h = "rw_hops w (px_sequence p)"
  fix url q outgoing budget head claimed st1 q' r st2
  assume h: "hop_request api ua lease ?h p scripted = Inr (url, q, outgoing)"
    "hop_budget ?h deadline aggregate = Inr budget"
    "exchange lease ?h p (sent_of p url q budget) outgoing st = (Inr (head, claimed), st1)"
    "redirect_decision api ua (fst head) (snd head)
       ((px_request p)\<lparr>sn_target := url, sn_components := Some [url], sn_query := []\<rparr>) scripted
       (px_redirect p) followed = Inr (Follow q' s' r)"
    "p' = redirected p ?h q' s'"
    "persist_terminal cfg p (Some claimed) (Some head) True None no_scripts (Some outgoing) []
       (Some (r\<lparr>rr_destination := Some (hp_next_id ?h)\<rparr>)) (hp_finished ?h) st1 = Inr st2"
    "create_redirect_exchange api p (hp_next_id ?h) q' s' st2 = Inr st'"
  obtain s where s: "cs_sent st2 = cs_sent st1" "cs_events st2 = cs_events st1"
    "cs_rows st2 = row_map (px_id p) (terminal_row (Some claimed) (Some head) True None s (Some outgoing)
       (Some (r\<lparr>rr_destination := Some (hp_next_id ?h)\<rparr>)) (hp_finished ?h)) (cs_rows st1)"
    using persist_fields [OF h(6)] by metis
  obtain out x where x: "x = \<lparr>xr_id = hp_next_id ?h, xr_workspace = sn_workspace q', xr_request = sn_request q',
        xr_revision = px_revision p, xr_root = px_root p, xr_sequence = px_sequence p + 1,
        xr_state = ExecutionRunning, xr_snapshot = None, xr_status = None, xr_headers = None,
        xr_body_complete = False, xr_body_bytes = None, xr_error = None, xr_scripts = None, xr_redirect = None,
        xr_outgoing = Some out, xr_completed_at = None\<rparr>"
    and st': "cs_sent st' = cs_sent st2" "cs_events st' = cs_events st2" "cs_rows st' = cs_rows st2 @ [x]"
    using h(7) by (auto simp: create_redirect_exchange_def split: sum.splits)
  obtain g where g: "keeps_identity g" "cs_rows st1 = row_map (px_id p) g (cs_rows st)"
    "cs_sent st1 = cs_sent st @ [sent_of p url q budget]" "terminal_events st1 = terminal_events st"
    using exchange_within [OF h(3)] by (auto simp: within_hop_def with_sent_def terminal_events_def)
  let ?t = "terminal_row (Some claimed) (Some head) True None s (Some outgoing)
       (Some (r\<lparr>rr_destination := Some (hp_next_id ?h)\<rparr>)) (hp_finished ?h)"
  have "rr_outcome r = Followed" by (rule redirect_decision_followed [OF h(4)])
  then show thesis
    by (intro that [OF h(1,2), where f = "?t \<circ> g" and r = x])
      (use g s st' h(5) in \<open>simp_all add: x terminal_events_def row_map_twice keeps_identity_comp redirected_def
        linked_def keeps_identity_def terminal_row_def\<close>)
qed

definition fresh_hops :: "run_world \<Rightarrow> nat \<Rightarrow> entity_id set \<Rightarrow> bool" where
  "fresh_hops w n ids \<longleftrightarrow>
     (\<forall>k \<ge> n. hp_next_id (rw_hops w k) \<notin> ids) \<and>
     (\<forall>j k. n \<le> j \<and> j < k \<longrightarrow> hp_next_id (rw_hops w j) \<noteq> hp_next_id (rw_hops w k))"

lemma fresh_hops_step: "fresh_hops w n ids \<Longrightarrow> fresh_hops w (n + 1) (insert (hp_next_id (rw_hops w n)) ids)"
  unfolding fresh_hops_def by (metis Suc_eq_plus1 Suc_leD Suc_le_lessD insert_iff order_refl)

definition chain_rows :: "prepared_execution \<Rightarrow> execution_row list \<Rightarrow> execution_row list \<Rightarrow> bool" where
  "chain_rows p others chain \<longleftrightarrow> chain \<noteq> [] \<and> successively linked chain \<and> xr_id (last chain) = px_id p \<and>
     (\<forall>r \<in> set chain. xr_root r = px_root p) \<and> xr_sequence (last chain) = px_sequence p \<and>
     distinct (map xr_id (others @ chain))"

lemma chain_rows_current:
  assumes "chain_rows p others chain"
  shows "row_map (px_id p) f (others @ chain) = others @ butlast chain @ [f (last chain)]"
proof -
  let ?ids = "xr_id ` (set others \<union> set (butlast chain))"
  have split: "others @ chain = (others @ butlast chain) @ [last chain]" "xr_id (last chain) = px_id p"
    using assms by (auto simp: chain_rows_def)
  have "distinct (map xr_id (others @ chain))" using assms by (simp only: chain_rows_def)
  then have "distinct (map xr_id ((others @ butlast chain) @ [last chain]))" by (simp only: split(1))
  then have "px_id p \<notin> xr_id ` set (others @ butlast chain)" using split(2) by (auto simp: image_Un)
  then have "row_map (px_id p) f (others @ butlast chain) = others @ butlast chain" by (rule row_map_other)
  moreover have "row_map (px_id p) f (others @ chain) =
      row_map (px_id p) f (others @ butlast chain) @ row_map (px_id p) f [last chain]"
    unfolding split(1) by (rule row_map_append)
  ultimately show ?thesis by (simp add: row_map_def split(2))
qed

lemma linked_last: "keeps_identity f \<Longrightarrow> linked r s \<Longrightarrow> linked r (f s)"
  by (simp add: linked_def keeps_identity_def)

lemma successively_last:
  assumes "chain \<noteq> []" "successively linked chain" "keeps_identity f"
  shows "successively linked (butlast chain @ [f (last chain)])"
proof -
  have "successively linked (butlast chain @ [last chain])" using assms by simp
  then show ?thesis using assms(3) by (auto simp: successively_append_iff intro: linked_last)
qed

lemma run_hops_chain:
  assumes "cs_rows st = others @ chain" "chain_rows p others chain"
    and "fresh_hops w (px_sequence p) (xr_id ` set (others @ chain))"
  shows "\<exists>more. cs_rows (run_hops api ua cfg w lease deadline locals scripts p scripted aggregate followed st) =
      others @ butlast chain @ more \<and> more \<noteq> [] \<and> successively linked (butlast chain @ more) \<and>
      (\<forall>r \<in> set more. xr_root r = px_root p) \<and> xr_id (hd more) = px_id p \<and> xr_sequence (hd more) = px_sequence p \<and>
      ended_row (last more) \<and> length more \<le> 1 + nat (rp_max_redirects (px_redirect p) - followed)"
  using assms
proof (induction api ua cfg w lease deadline locals scripts p scripted aggregate followed st
    arbitrary: chain rule: run_hops.induct)
  case (1 api ua cfg w lease deadline locals scripts p scripted aggregate followed st)
  note current = chain_rows_current [OF 1(3)]
  have chain: "chain \<noteq> []" "successively linked chain" "xr_id (last chain) = px_id p"
    "xr_root (last chain) = px_root p" "xr_sequence (last chain) = px_sequence p"
    using 1(3) by (auto simp: chain_rows_def)
  show ?case
  proof (cases "hop_step api ua cfg w lease deadline locals scripts p scripted aggregate followed st")
    case (Inl st')
    from Inl obtain xs where "ends_chain p (with_sent xs st) st'" by (rule hop_step_ends)
    then obtain f where f: "keeps_identity f" "\<forall>r. ended_row (f r)" "cs_rows st' = row_map (px_id p) f (cs_rows st)"
      by (auto simp: ends_chain_def with_sent_def)
    with chain successively_last [OF chain(1,2) f(1)] show ?thesis
      by (intro exI [of _ "[f (last chain)]"])
        (simp add: run_hops.simps [of api ua cfg w lease deadline locals scripts p scripted aggregate followed st]
          Inl 1(2) current keeps_identity_def)
  next
    case (Inr nx)
    obtain p' s' agg' st' where nx: "nx = (p', s', agg', st')" by (cases nx)
    note step = Inr [unfolded nx]
    from step show ?thesis
    proof (rule hop_step_goes_on)
      fix url q outgoing budget f r
      assume f: "keeps_identity f" "cs_rows st' = row_map (px_id p) f (cs_rows st) @ [r]"
        and r: "xr_id r = hp_next_id (rw_hops w (px_sequence p))" "xr_root r = px_root p" "xr_sequence r = px_sequence p + 1"
          "\<forall>x. xr_root x = px_root p \<and> xr_sequence x = px_sequence p \<longrightarrow> linked (f x) r"
        and p': "px_id p' = xr_id r" "px_root p' = px_root p" "px_sequence p' = px_sequence p + 1"
          "px_redirect p' = px_redirect p"
      let ?chain = "butlast chain @ [f (last chain), r]"
      have rows: "cs_rows st' = others @ ?chain" using f(2) 1(2) current by simp
      have link: "linked (f (last chain)) r" using r(4) chain by simp
      have ids: "map xr_id (others @ ?chain) = map xr_id (others @ chain) @ [xr_id r]"
      proof -
        have "map xr_id (butlast chain @ [f (last chain)]) = map xr_id (butlast chain @ [last chain])"
          using f(1) by (simp add: keeps_identity_def)
        then show ?thesis using chain(1) by simp
      qed
      have "xr_id r \<notin> xr_id ` set (others @ chain)" using 1(4) r(1) by (auto simp: fresh_hops_def)
      moreover have "distinct (map xr_id (others @ chain))" using 1(3) by (simp only: chain_rows_def)
      ultimately have "distinct (map xr_id (others @ ?chain))" unfolding ids by auto
      moreover have "successively linked ?chain"
        using successively_last [OF chain(1,2) f(1)] link
        by (simp add: successively_append_iff split: if_splits)
      moreover have "\<forall>x \<in> set ?chain. xr_root x = px_root p'"
        using 1(3) f(1) r(2) p'(2) chain(4) by (auto simp: chain_rows_def keeps_identity_def dest: in_set_butlastD)
      ultimately have "chain_rows p' others ?chain" using p' r by (simp add: chain_rows_def)
      moreover have "xr_id ` set (others @ ?chain) = insert (xr_id r) (xr_id ` set (others @ chain))"
      proof -
        have "set (map xr_id (others @ ?chain)) = set (map xr_id (others @ chain) @ [xr_id r])" by (simp only: ids)
        then show ?thesis by auto
      qed
      then have "fresh_hops w (px_sequence p') (xr_id ` set (others @ ?chain))"
        using fresh_hops_step [OF 1(4)] r(1) p'(3) by simp
      ultimately obtain more where more:
        "cs_rows (run_hops api ua cfg w lease deadline locals scripts p' s' agg' (followed + 1) st') =
          others @ butlast ?chain @ more" "more \<noteq> []" "successively linked (butlast ?chain @ more)"
        "\<forall>r \<in> set more. xr_root r = px_root p'" "ended_row (last more)"
        "length more \<le> 1 + nat (rp_max_redirects (px_redirect p') - (followed + 1))"
        using 1(1) [OF step refl refl refl rows] by blast
      have "followed < rp_max_redirects (px_redirect p)" using hop_step_followed [OF step] by blast
      with more p' f(1) chain(3-5) show ?thesis
        by (intro exI [of _ "f (last chain) # more"])
          (simp add: run_hops.simps [of api ua cfg w lease deadline locals scripts p scripted aggregate followed st]
            step butlast_append keeps_identity_def)
    qed
  qed
qed

section \<open>The run around the chain\<close>

lemma run_hops_events:
  "\<exists>e. ended_for (px_root p) e \<and> terminal_events (run_hops api ua cfg w lease deadline locals scripts p scripted
     aggregate followed st) = terminal_events st @ [e]"
proof (induction api ua cfg w lease deadline locals scripts p scripted aggregate followed st rule: run_hops.induct)
  case (1 api ua cfg w lease deadline locals scripts p scripted aggregate followed st)
  note unfold = run_hops.simps [of api ua cfg w lease deadline locals scripts p scripted aggregate followed st]
  show ?case
  proof (cases "hop_step api ua cfg w lease deadline locals scripts p scripted aggregate followed st")
    case (Inl st')
    from Inl obtain xs where "ends_chain p (with_sent xs st) st'" by (rule hop_step_ends)
    with Inl show ?thesis by (auto simp: unfold ends_chain_def terminal_events_def with_sent_def)
  next
    case (Inr nx)
    obtain p' s' agg' st' where nx: "nx = (p', s', agg', st')" by (cases nx)
    note step = Inr [unfolded nx]
    from step obtain "terminal_events st' = terminal_events st" "px_root p' = px_root p"
      by (rule hop_step_goes_on)
    with 1 [OF step refl refl refl] step show ?thesis by (simp add: unfold)
  qed
qed

definition same_identity :: "prepared_execution \<Rightarrow> prepared_execution \<Rightarrow> bool" where
  "same_identity p q \<longleftrightarrow> px_id q = px_id p \<and> px_root q = px_root p \<and> px_sequence q = px_sequence p \<and>
     px_redirect q = px_redirect p \<and> px_created q = px_created p"

lemma same_identity_cong:
  "same_identity p q \<Longrightarrow> within_hop q = within_hop p \<and> ends_chain q = ends_chain p"
  by (auto simp: same_identity_def within_hop_def ends_chain_def fun_eq_iff)

lemma run_pre_script_identity:
  assumes "run_pre_script api ua w p = Inr (q, locals, scripts)"
  shows "same_identity p q"
proof (cases "js_trim (sn_pre_script (px_request p)) = []")
  case True
  with assms have "q = p" by (simp add: run_pre_script_def Let_def)
  then show ?thesis by (simp add: same_identity_def)
next
  case False
  with assms obtain r v where "q = p\<lparr>px_template := r, px_request := r, px_post_request := v\<rparr>"
    by (auto simp: run_pre_script_def Let_def split: sum.splits)
  then show ?thesis by (simp add: same_identity_def)
qed

lemma update_within: "keeps_identity f \<Longrightarrow> within_hop p st (update_execution (px_id p) f st)"
  by (auto simp: within_hop_def terminal_events_def)

lemma materialize_run_identity:
  "materialize_run api ua scripts p st = Inr (q, st') \<Longrightarrow> same_identity p q \<and> within_hop p st st'"
  using update_within [of _ p st]
  by (auto simp: materialize_run_def Let_def bindE_eq_Inr same_identity_def keeps_identity_def
      split: if_splits sum.splits)

lemma run_prelude_identity:
  shows "run_prelude api ua cfg w p st = Inl (e, scripts, st1) \<Longrightarrow> within_hop p st st1"
    and "run_prelude api ua cfg w p st = Inr (p1, v, locals, scripts, st1) \<Longrightarrow> same_identity p p1 \<and> within_hop p st st1"
proof -
  have agents: "same_identity p (with_agents agent q)" if "same_identity p q" for q agent
    using that by (simp add: same_identity_def with_agents_def)
  have mat: "same_identity p q2 \<and> within_hop p st st'"
    if "run_pre_script api ua w p = Inr (q1, locals, scripts)"
      "materialize_run api ua scripts (with_agents (cc_agent cfg) q1) st = Inr (q2, st')" for q1 q2 st' locals scripts
  proof -
    have id: "same_identity p (with_agents (cc_agent cfg) q1)" by (rule agents [OF run_pre_script_identity [OF that(1)]])
    with materialize_run_identity [OF that(2)] same_identity_cong [OF id] show ?thesis
      by (simp add: same_identity_def)
  qed
  show "run_prelude api ua cfg w p st = Inl (e, scripts, st1) \<Longrightarrow> within_hop p st st1"
    using mat by (auto simp: run_prelude_def split: if_splits sum.splits)
  show "run_prelude api ua cfg w p st = Inr (p1, v, locals, scripts, st1) \<Longrightarrow> same_identity p p1 \<and> within_hop p st st1"
    using mat by (auto simp: run_prelude_def split: if_splits sum.splits)
qed

text \<open>A run either fails before its first hop or is the loop from a request with the same identity.\<close>

lemma run_prepared_cases:
  obtains (early) st1 where "ends_chain p st1 (run_prepared api ua cfg w p st)" "within_hop p st st1"
  | (loop) p2 v st1 locals scripts where "same_identity p p2" "within_hop p st st1"
      "run_prelude api ua cfg w p st = Inr (p2, v, locals, scripts, st1)"
      "run_prepared api ua cfg w p st = run_hops api ua cfg w (px_cookie p \<and> cc_cookies cfg)
         (px_created p + EXECUTION_OUTBOUND_TIMEOUT_MS) locals scripts p2 v 0 0 st1"
proof (cases "run_prelude api ua cfg w p st")
  case (Inl a)
  obtain e scripts st1 where a: "a = (e, scripts, st1)" by (cases a)
  with Inl run_prelude_identity(1) [OF Inl [unfolded a]] fail_ends_chain show thesis
    by (intro early) (auto simp: run_prepared_def)
next
  case (Inr a)
  obtain p2 v locals scripts st1 where a: "a = (p2, v, locals, scripts, st1)" by (cases a)
  with Inr run_prelude_identity(2) [OF Inr [unfolded a]] show thesis
    by (intro loop [of p2 st1 v locals scripts]) (simp_all add: run_prepared_def)
qed

text \<open>
  C6. Every run ends, once. Whatever the script worker, the cookie jar and the proxy answer, a run returns
  and publishes exactly one terminal event, for its root execution.
\<close>

theorem run_publishes_one_end:
  "\<exists>e. ended_for (px_root p) e \<and>
     terminal_events (run_prepared api ua cfg w p st) = terminal_events st @ [e]"
proof (rule run_prepared_cases [of p api ua cfg w st])
  fix st1
  assume "ends_chain p st1 (run_prepared api ua cfg w p st)" "within_hop p st st1"
  then show ?thesis by (auto simp: ends_chain_def within_hop_def)
next
  fix p2 v st1 locals scripts
  assume "same_identity p p2" "within_hop p st st1"
    "run_prepared api ua cfg w p st = run_hops api ua cfg w (px_cookie p \<and> cc_cookies cfg)
         (px_created p + EXECUTION_OUTBOUND_TIMEOUT_MS) locals scripts p2 v 0 0 st1"
  then show ?thesis
    using run_hops_events [of p2 api ua cfg w "px_cookie p \<and> cc_cookies cfg"
        "px_created p + EXECUTION_OUTBOUND_TIMEOUT_MS" locals scripts v 0 0 st1]
    by (simp add: same_identity_def within_hop_def)
qed

text \<open>
  C11. The stored redirect chain. A run extends the row of its execution to a chain of exchanges with
  consecutive sequence numbers under one root: every exchange but the last is completed and names the next
  one as the destination of a followed redirect, the last one is completed or failed, and the chain is
  not longer than the redirect limit allows. No other row changes.
\<close>

theorem redirect_chain_linked:
  assumes "cs_rows st = others @ [row]" and "xr_id row = px_id p" and "xr_root row = px_root p"
    and "xr_sequence row = px_sequence p" and "distinct (map xr_id (others @ [row]))"
    and "fresh_hops w (px_sequence p) (xr_id ` set (others @ [row]))"
  shows "\<exists>chain. cs_rows (run_prepared api ua cfg w p st) = others @ chain \<and> chain \<noteq> [] \<and>
    xr_id (hd chain) = px_id p \<and> successively linked chain \<and> ended_row (last chain) \<and>
    (\<forall>r \<in> set chain. xr_root r = px_root p) \<and>
    length chain \<le> 1 + nat (rp_max_redirects (px_redirect p))"
proof -
  have touch: "row_map (px_id p) f (cs_rows st) = others @ [f row]" for f
  proof -
    have "chain_rows p others [row]" using assms(2-5) by (simp add: chain_rows_def)
    from chain_rows_current [OF this] assms(1) show ?thesis by simp
  qed
  show ?thesis
  proof (rule run_prepared_cases [of p api ua cfg w st])
    fix st1
    assume "ends_chain p st1 (run_prepared api ua cfg w p st)" "within_hop p st st1"
    then have "ends_chain p st (run_prepared api ua cfg w p st)" by (rule within_ends_trans [rotated])
    then obtain f where "keeps_identity f" "\<forall>r. ended_row (f r)"
      "cs_rows (run_prepared api ua cfg w p st) = row_map (px_id p) f (cs_rows st)"
      by (auto simp: ends_chain_def)
    then show ?thesis using assms(2,3) by (intro exI [of _ "[f row]"]) (simp add: touch keeps_identity_def)
  next
    fix p2 v st1 locals scripts
    assume id: "same_identity p p2" and st1: "within_hop p st st1" and
      run: "run_prepared api ua cfg w p st = run_hops api ua cfg w (px_cookie p \<and> cc_cookies cfg)
         (px_created p + EXECUTION_OUTBOUND_TIMEOUT_MS) locals scripts p2 v 0 0 st1"
    obtain f where f: "keeps_identity f" "cs_rows st1 = others @ [f row]"
      using st1 touch by (auto simp: within_hop_def)
    have ids: "xr_id (f row) = xr_id row" using f(1) by (simp add: keeps_identity_def)
    have "chain_rows p2 others [f row]"
      using assms(2-5) f(1) id by (simp add: chain_rows_def same_identity_def keeps_identity_def)
    moreover have "fresh_hops w (px_sequence p2) (xr_id ` set (others @ [f row]))"
      using assms(6) id ids by (simp add: same_identity_def)
    ultimately show ?thesis
      using run_hops_chain [OF f(2), of p2 w api ua cfg "px_cookie p \<and> cc_cookies cfg"
          "px_created p + EXECUTION_OUTBOUND_TIMEOUT_MS" locals scripts v 0 0] id run
      by (auto simp: same_identity_def)
  qed
qed

section \<open>What is sent\<close>

definition origin_of :: "content_api \<Rightarrow> string \<Rightarrow> string option" where
  "origin_of api url = map_option url_origin (ca_parse api url)"

definition protocol_of :: "content_api \<Rightarrow> string \<Rightarrow> string option" where
  "protocol_of api url = map_option pu_protocol (ca_parse api url)"

text \<open>Serialising a resolved reference without its fragment and parsing it again keeps scheme and host, and
  a serialised URL parses to itself.\<close>

definition urls_coherent :: "content_api \<Rightarrow> url_api \<Rightarrow> bool" where
  "urls_coherent api ua \<longleftrightarrow> (\<forall>l b d u. ua_resolve ua l b = Some d \<and> ca_parse api (without_hash (tu_href d)) = Some u \<longrightarrow>
     url_origin u = url_origin d \<and> pu_protocol u = pu_protocol d \<and> ca_parse api (tu_href u) = Some u)"

type_synonym header_pair = "request_field \<times> script_header"

definition clean_pair :: "header_pair \<Rightarrow> bool" where
  "clean_pair p \<longleftrightarrow> \<not> sh_sensitive (snd p) \<and> js_lower (wh_name (fst p)) \<notin> set CROSS_ORIGIN_CREDENTIAL_HEADERS"

definition pair_headers :: "header_pair list \<Rightarrow> (string \<times> string) set" where
  "pair_headers ps = (\<lambda>p. (wh_name (fst p), wh_value (fst p))) ` set ps"

text \<open>The \<open>Cookie\<close> fields the jar derives for the hops.\<close>

definition managed_cookies :: "run_world \<Rightarrow> (string \<times> string) set" where
  "managed_cookies w = {(''Cookie'', c) | c k. hp_cookie (rw_hops w k) = Inr (Some c)}"

lemma url_failure_eq_Inr [simp]: "url_failure r = Inr x \<longleftrightarrow> r = Inr x"
  by (cases r) (simp_all add: url_failure_def)

lemma sent_headers:
  assumes "hop_request api ua lease (rw_hops w (px_sequence p)) p scripted = Inr (url, q, outgoing)"
  shows "set (se_headers (sent_of p url q budget)) \<subseteq> pair_headers (header_pairs (px_request p) scripted) \<union> managed_cookies w"
    and "materialize_target_url api ua (sn_target (px_request p)) (sn_query (px_request p)) = Inr url"
proof -
  let ?h = "rw_hops w (px_sequence p)"
  from assms obtain cookie where c: "q = with_managed_cookie cookie (px_request p)"
    "cookie = None \<or> hp_cookie ?h = Inr cookie"
    "materialize_target_url api ua (sn_target (px_request p)) (sn_query (px_request p)) = Inr url"
    by (auto simp: hop_request_def bindE_eq_Inr Let_def split: if_splits)
  from c(3) show "materialize_target_url api ua (sn_target (px_request p)) (sn_query (px_request p)) = Inr url" .
  have "pair_headers (header_pairs (px_request p) scripted) = (\<lambda>h. (wh_name h, wh_value h)) ` set (sn_headers (px_request p))"
    unfolding pair_headers_def header_pairs_fst [of "px_request p" scripted, symmetric] by (simp add: image_image)
  then show "set (se_headers (sent_of p url q budget)) \<subseteq> pair_headers (header_pairs (px_request p) scripted) \<union> managed_cookies w"
    using c(1,2) by (auto simp: sent_of_def with_managed_cookie_def managed_cookies_def plain_field_def split: option.splits if_splits)
qed

lemma header_pairs_cong: "sn_headers r = sn_headers q \<Longrightarrow> header_pairs r s = header_pairs q s"
  by (simp add: header_pairs_def)

lemma header_pairs_kept:
  assumes "sn_headers q = map fst kept" "sr_headers s = map snd kept"
  shows "header_pairs q s = kept"
  by (rule nth_equalityI) (use assms in \<open>auto simp: header_pairs_def safe_header_def nth_enumerate_eq\<close>)

text \<open>The headers of the next hop are among those of this one; after a change of origin they are clean, and
  the next URL keeps the destination's scheme and host.\<close>

lemma hop_step_headers:
  assumes "hop_step api ua cfg w lease deadline locals scripts p scripted aggregate followed st = Inr (p', s', agg', st')"
    and "urls_coherent api ua"
    and "hop_request api ua lease (rw_hops w (px_sequence p)) p scripted = Inr (url, q, outgoing)"
    and "materialize_target_url api ua (sn_target (px_request p')) (sn_query (px_request p')) = Inr url'"
  shows "set (header_pairs (px_request p') s') \<subseteq> set (header_pairs (px_request p) scripted) \<and>
    (origin_of api url \<noteq> origin_of api url' \<longrightarrow> (\<forall>x \<in> set (header_pairs (px_request p') s'). clean_pair x)) \<and>
    \<not> (protocol_of api url = Some ''https:'' \<and> protocol_of api url' = Some ''http:'') \<and>
    protocol_of api url' \<in> {Some ''http:'', Some ''https:''}"
  using assms(1)
proof (rule hop_step_next)
  fix url1 q1 outgoing1 budget head claimed st1 q' r st2
  let ?req = "(px_request p)\<lparr>sn_target := url, sn_components := Some [url], sn_query := []\<rparr>"
  assume "hop_request api ua lease (rw_hops w (px_sequence p)) p scripted = Inr (url1, q1, outgoing1)"
    and "redirect_decision api ua (fst head) (snd head)
       ((px_request p)\<lparr>sn_target := url1, sn_components := Some [url1], sn_query := []\<rparr>) scripted
       (px_redirect p) followed = Inr (Follow q' s' r)"
    and p': "p' = redirected p (rw_hops w (px_sequence p)) q' s'"
  then have "redirect_decision api ua (fst head) (snd head) ?req scripted (px_redirect p) followed = Inr (Follow q' s' r)"
    using assms(3) by simp
  then show ?thesis
  proof (rule redirect_follow_elim)
    fix location source dest
    assume l: "ua_resolve ua (snd location) (sn_target ?req) = Some dest" "ca_parse api (sn_target ?req) = Some source"
        "pu_protocol dest \<in> {''http:'', ''https:''}"
        "\<not> (pu_protocol source = ''https:'' \<and> pu_protocol dest = ''http:'')"
      and f: "Follow q' s' r = follow_redirect (fst head) (snd location)
         (inspectable_target (tu_href dest) (st_sensitive (sr_url scripted) \<or> \<not> st_readable (sr_url scripted)))
         source dest ?req scripted"
    let ?kept = "kept_headers (url_origin source = url_origin dest) (fst head) ?req scripted"
    note h = follow_headers [OF f]
    have "sn_query q' = []"
      using f by (auto simp: follow_redirect_def next_request_def Let_def split: prod.splits)
    with h assms(4) p' obtain u where u: "ca_parse api (without_hash (tu_href dest)) = Some u" "url' = tu_href u"
      by (auto simp: redirected_def materialize_target_url_def with_params_def enabled_params_def split: option.splits)
    with assms(2) l(1) have u': "url_origin u = url_origin dest" "pu_protocol u = pu_protocol dest" "ca_parse api url' = Some u"
      unfolding urls_coherent_def by blast+
    have pairs: "header_pairs (px_request p') s' = ?kept"
      using header_pairs_kept h p' by (simp add: redirected_def)
    have "header_pairs ?req scripted = header_pairs (px_request p) scripted" by (rule header_pairs_cong) simp
    then have "set ?kept \<subseteq> set (header_pairs (px_request p) scripted)" by (auto simp: kept_headers_def)
    moreover have "\<forall>x \<in> set ?kept. clean_pair x" if "url_origin source \<noteq> url_origin dest"
      using that by (auto simp: kept_headers_def removes_header_def clean_pair_def Let_def)
    ultimately show ?thesis using l u' by (auto simp: pairs origin_of_def protocol_of_def)
  qed
qed

lemma hop_budget_positive: "hop_budget h deadline aggregate = Inr b \<Longrightarrow> 0 < fst b \<and> 0 < snd b"
  by (auto simp: hop_budget_def split: if_splits)

text \<open>What holds of the requests one loop sends, given the header pairs it starts from.\<close>

definition confined :: "content_api \<Rightarrow> run_world \<Rightarrow> header_pair list \<Rightarrow> sent_request list \<Rightarrow> bool" where
  "confined api w ps new \<longleftrightarrow>
     (\<forall>x \<in> set new. set (se_headers x) \<subseteq> pair_headers ps \<union> managed_cookies w \<and> 0 < se_timeout x \<and> 0 < se_max_body x) \<and>
     (\<forall>i j. i < j \<and> j < length new \<and> origin_of api (se_url (new ! i)) \<noteq> origin_of api (se_url (new ! Suc i)) \<longrightarrow>
        set (se_headers (new ! j)) \<subseteq> pair_headers (filter clean_pair ps) \<union> managed_cookies w) \<and>
     (\<forall>i. Suc i < length new \<longrightarrow>
        \<not> (protocol_of api (se_url (new ! i)) = Some ''https:'' \<and> protocol_of api (se_url (new ! Suc i)) = Some ''http:''))"

lemma confined_one:
  assumes "set (se_headers x) \<subseteq> pair_headers ps \<union> managed_cookies w" "0 < se_timeout x" "0 < se_max_body x"
  shows "confined api w ps [x]"
  using assms by (simp add: confined_def)

lemma pair_headers_mono: "set ps \<subseteq> set qs \<Longrightarrow> pair_headers ps \<subseteq> pair_headers qs"
  by (auto simp: pair_headers_def)

lemma confined_cons:
  assumes "confined api w ps new" "set ps \<subseteq> set qs" "new \<noteq> []"
    and x: "set (se_headers x) \<subseteq> pair_headers qs \<union> managed_cookies w" "0 < se_timeout x" "0 < se_max_body x"
    and cross: "origin_of api (se_url x) \<noteq> origin_of api (se_url (hd new)) \<Longrightarrow> \<forall>y \<in> set ps. clean_pair y"
    and down: "\<not> (protocol_of api (se_url x) = Some ''https:'' \<and> protocol_of api (se_url (hd new)) = Some ''http:'')"
  shows "confined api w qs (x # new)"
proof -
  note c = assms(1) [unfolded confined_def]
  have mono: "pair_headers ps \<subseteq> pair_headers qs" "pair_headers (filter clean_pair ps) \<subseteq> pair_headers (filter clean_pair qs)"
    using assms(2) by (auto intro!: pair_headers_mono)
  have first: "(x # new) ! Suc 0 = hd new" using assms(3) by (simp add: hd_conv_nth)
  have "set (se_headers ((x # new) ! j)) \<subseteq> pair_headers (filter clean_pair qs) \<union> managed_cookies w"
    if ij: "i < j" "j < length (x # new)" "origin_of api (se_url ((x # new) ! i)) \<noteq> origin_of api (se_url ((x # new) ! Suc i))" for i j
  proof (cases i)
    case 0
    with ij first cross have "filter clean_pair ps = ps" by simp
    moreover have "(x # new) ! j \<in> set new" using ij by (cases j) auto
    ultimately have "set (se_headers ((x # new) ! j)) \<subseteq> pair_headers (filter clean_pair ps) \<union> managed_cookies w" using c by simp
    with mono(2) show ?thesis by blast
  next
    case (Suc i')
    then obtain j' where "j = Suc j'" "i' < j'" "j' < length new" using ij by (cases j) auto
    with ij c Suc have "set (se_headers ((x # new) ! j)) \<subseteq> pair_headers (filter clean_pair ps) \<union> managed_cookies w" by simp
    with mono(2) show ?thesis by blast
  qed
  moreover have "\<not> (protocol_of api (se_url ((x # new) ! i)) = Some ''https:'' \<and>
      protocol_of api (se_url ((x # new) ! Suc i)) = Some ''http:'')" if "Suc i < length (x # new)" for i
    using that c down first by (cases i) auto
  moreover have "\<forall>y \<in> set (x # new). set (se_headers y) \<subseteq> pair_headers qs \<union> managed_cookies w \<and> 0 < se_timeout y \<and> 0 < se_max_body y"
    using c x mono(1) by auto
  ultimately show ?thesis unfolding confined_def by blast
qed

lemma run_hops_confined:
  assumes "urls_coherent api ua"
  shows "\<exists>new. cs_sent (run_hops api ua cfg w lease deadline locals scripts p scripted aggregate followed st) =
      cs_sent st @ new \<and> confined api w (header_pairs (px_request p) scripted) new \<and>
      length new \<le> 1 + nat (rp_max_redirects (px_redirect p) - followed) \<and>
      (new \<noteq> [] \<longrightarrow> materialize_target_url api ua (sn_target (px_request p)) (sn_query (px_request p)) =
        Inr (se_url (hd new)))"
  using assms
proof (induction api ua cfg w lease deadline locals scripts p scripted aggregate followed st rule: run_hops.induct)
  case (1 api ua cfg w lease deadline locals scripts p scripted aggregate followed st)
  note unfold = run_hops.simps [of api ua cfg w lease deadline locals scripts p scripted aggregate followed st]
  have one: "confined api w (header_pairs (px_request p) scripted) [sent_of p url q budget]"
    "materialize_target_url api ua (sn_target (px_request p)) (sn_query (px_request p)) = Inr (se_url (sent_of p url q budget))"
    if "hop_request api ua lease (rw_hops w (px_sequence p)) p scripted = Inr (url, q, outgoing)"
      "hop_budget (rw_hops w (px_sequence p)) deadline aggregate = Inr budget" for url q outgoing budget
  proof -
    have "0 < se_timeout (sent_of p url q budget)" "0 < se_max_body (sent_of p url q budget)"
      using hop_budget_positive [OF that(2)] by (simp_all add: sent_of_def)
    with sent_headers(1) [OF that(1)]
    show "confined api w (header_pairs (px_request p) scripted) [sent_of p url q budget]" by (rule confined_one)
    show "materialize_target_url api ua (sn_target (px_request p)) (sn_query (px_request p)) =
        Inr (se_url (sent_of p url q budget))"
      using sent_headers(2) [OF that(1)] by (simp add: sent_of_def)
  qed
  show ?case
  proof (cases "hop_step api ua cfg w lease deadline locals scripts p scripted aggregate followed st")
    case (Inl st')
    from Inl show ?thesis
    proof (rule hop_step_ends)
      fix xs
      assume "ends_chain p (with_sent xs st) st'" and xs: "xs = [] \<or> (\<exists>url q outgoing budget. xs = [sent_of p url q budget] \<and>
         hop_request api ua lease (rw_hops w (px_sequence p)) p scripted = Inr (url, q, outgoing) \<and>
         hop_budget (rw_hops w (px_sequence p)) deadline aggregate = Inr budget)"
      then have "cs_sent st' = cs_sent st @ xs" by (simp add: ends_chain_def with_sent_def)
      with Inl xs one show ?thesis
        by (intro exI [of _ xs]) (auto simp: unfold confined_def [of _ _ _ "[]"])
    qed
  next
    case (Inr nx)
    obtain p' s' agg' st' where nx: "nx = (p', s', agg', st')" by (cases nx)
    note step = Inr [unfolded nx]
    from step show ?thesis
    proof (rule hop_step_goes_on)
      fix url q outgoing budget
      assume req: "hop_request api ua lease (rw_hops w (px_sequence p)) p scripted = Inr (url, q, outgoing)"
          "hop_budget (rw_hops w (px_sequence p)) deadline aggregate = Inr budget"
        and sent: "cs_sent st' = cs_sent st @ [sent_of p url q budget]" and pol: "px_redirect p' = px_redirect p"
      obtain new where new:
        "cs_sent (run_hops api ua cfg w lease deadline locals scripts p' s' agg' (followed + 1) st') = cs_sent st' @ new"
        "confined api w (header_pairs (px_request p') s') new"
        "length new \<le> 1 + nat (rp_max_redirects (px_redirect p') - (followed + 1))"
        "new \<noteq> [] \<longrightarrow> materialize_target_url api ua (sn_target (px_request p')) (sn_query (px_request p')) = Inr (se_url (hd new))"
        using 1(1) [OF step refl refl refl 1(2)] by blast
      let ?x = "sent_of p url q budget"
      have url: "se_url ?x = url" by (simp add: sent_of_def)
      have "confined api w (header_pairs (px_request p) scripted) (?x # new)"
      proof (cases "new = []")
        case True
        with one(1) [OF req] show ?thesis by simp
      next
        case False
        with new(4) have next_url: "materialize_target_url api ua (sn_target (px_request p')) (sn_query (px_request p')) = Inr (se_url (hd new))"
          by blast
        note h = hop_step_headers [OF step 1(2) req(1) next_url]
        show ?thesis
          by (rule confined_cons [OF new(2) _ False]) (use h one(1) [OF req] url in \<open>auto simp: confined_def [of _ _ _ "[_]"]\<close>)
      qed
      moreover have "followed < rp_max_redirects (px_redirect p)" using hop_step_followed [OF step] by blast
      ultimately show ?thesis
        using new(1,3) sent step one(2) [OF req] pol
        by (intro exI [of _ "?x # new"]) (simp add: unfold)
    qed
  qed
qed


section \<open>A chain over two origins\<close>

definition demo_env :: environment_db where
  "demo_env = \<lparr>ed_workspaces = \<lparr>wd_workspaces = [], wd_memberships = [], wd_cookie_jars = [], wd_audit = []\<rparr>,
     ed_sessions = [], ed_environments = [], ed_includes = [], ed_selections = [], ed_profiles = [], ed_audit = []\<rparr>"

definition demo_prepared :: "snapshot \<Rightarrow> snapshot \<Rightarrow> script_request option \<Rightarrow> resolved_variable list \<Rightarrow> prepared_execution" where
  "demo_prepared template request view variables = \<lparr>px_id = ''e'', px_root = ''e'', px_sequence = 0, px_revision = None,
     px_template = template, px_request = request, px_variables = variables, px_sources = [],
     px_evidence = [], px_targets = \<lparr>tt_workspace = \<lparr>wt_kind = ScopeWorkspace, wt_id = ''w'', wt_revision = 0\<rparr>,
       tt_parent = None, tt_request = None, tt_environment = None\<rparr>,
     px_post_request = view, px_materialized = True, px_created = 0,
     px_redirect = DEFAULT_REDIRECT_POLICY, px_cookie = False, px_cookie_mode = Optimistic, px_cookie_environment = None\<rparr>"

definition demo_chain_prepared :: prepared_execution where
  "demo_chain_prepared = demo_prepared (demo_request POST) (demo_request POST) (Some demo_scripted) []"

definition demo_row :: execution_row where
  "demo_row = \<lparr>xr_id = ''e'', xr_workspace = ''w'', xr_request = None, xr_revision = None, xr_root = ''e'', xr_sequence = 0,
     xr_state = ExecutionRunning, xr_snapshot = None, xr_status = None, xr_headers = None, xr_body_complete = False,
     xr_body_bytes = None, xr_error = None, xr_scripts = None, xr_redirect = None, xr_outgoing = None,
     xr_completed_at = None\<rparr>"

definition demo_state :: chain_state where
  "demo_state = \<lparr>cs_rows = [demo_row], cs_sent = [], cs_events = [], cs_audit = [], cs_env = demo_env\<rparr>"

definition demo_config :: chain_config where
  "demo_config = \<lparr>cc_variables = False, cc_policy = \<lparr>wy_scopes = [], wy_secrets = False\<rparr>, cc_nodes = [],
     cc_profile_ids = (\<lambda>k. ''p''), cc_variable_ids = (\<lambda>k j. ''v''), cc_user = ''u'', cc_cookies = False,
     cc_agent = ''A''\<rparr>"

definition demo_hop :: "nat \<Rightarrow> hop" where
  "demo_hop k = \<lparr>hp_cookie = Inr None, hp_now = 1,
     hp_head = Some (if k = 0 then (307, [(''Location'', ''https://b/x'')]) else (200, [])), hp_apply = None,
     hp_error = None, hp_complete = Some 2, hp_blob = 2, hp_digest_ok = True, hp_partial = None, hp_read_ok = True,
     hp_next_id = ''n'' @ replicate k CHR ''x'', hp_next_now = 2, hp_finished = 3\<rparr>"

definition demo_world :: run_world where
  "demo_world = \<lparr>rw_lease = None, rw_pre = (\<lambda>source view vars. Inl OtherFailure),
     rw_post = (\<lambda>source view head size vars locals policy. Inl OtherFailure), rw_hops = demo_hop, rw_empty_blob = None,
     rw_finished = 3\<rparr>"

definition demo_run :: chain_state where
  "demo_run = run_prepared demo_hop_api demo_hop_urls demo_config demo_world demo_chain_prepared demo_state"

lemma demo_run_sent: "map (\<lambda>x. (se_url x, map fst (se_headers x))) (cs_sent demo_run) =
    [(''https://a/x'', [''Authorization'', ''Accept'', ''X-Key'', ''User-Agent'']),
     (''https://b/x'', [''Accept'', ''User-Agent''])]"
  by code_simp

lemma demo_run_prelude:
  "case run_prelude demo_hop_api demo_hop_urls demo_config demo_world demo_chain_prepared demo_state of
     Inl e \<Rightarrow> False | Inr r \<Rightarrow> True"
  by code_simp


theorem redirect_chain_linked_witness:
  "\<exists>r s. cs_rows demo_run = [r, s] \<and> linked r s \<and> ended_row s"
proof -
  have fresh: "fresh_hops demo_world (px_sequence demo_chain_prepared) (xr_id ` set ([] @ [demo_row]))"
    by (auto simp: fresh_hops_def demo_world_def demo_hop_def demo_row_def)
  have len: "length (cs_rows demo_run) = 2" by code_simp
  have "\<exists>chain. cs_rows demo_run = [] @ chain \<and> chain \<noteq> [] \<and>
    xr_id (hd chain) = px_id demo_chain_prepared \<and> successively linked chain \<and> ended_row (last chain) \<and>
    (\<forall>r \<in> set chain. xr_root r = px_root demo_chain_prepared) \<and>
    length chain \<le> 1 + nat (rp_max_redirects (px_redirect demo_chain_prepared))"
    unfolding demo_run_def
    by (rule redirect_chain_linked [OF _ _ _ _ _ fresh])
      (simp_all add: demo_state_def demo_row_def demo_chain_prepared_def demo_prepared_def)
  then obtain chain where "cs_rows demo_run = chain" "successively linked chain" "ended_row (last chain)" by auto
  with len show ?thesis
    by (auto simp: length_Suc_conv numeral_2_eq_2)
qed

section \<open>Secrets that reach scripts\<close>

definition leak_attachment :: stored_attachment where
  "leak_attachment = \<lparr>at_id = ''id'', at_workspace = ''id'', at_file_name = ''f'', at_content_type = ''t'', at_length = 1,
     at_sha256 = replicate 64 CHR ''0'', sa_available = True, sa_bytes = ''x''\<rparr>"

definition leak_template :: snapshot where
  "leak_template = demo_snapshot\<lparr>sn_workspace := ''id'', sn_body := [],
     sn_request_body := Some (BodyFile None (attachment.truncate leak_attachment)),
     sn_pre_script := ''s'', sn_post_script := ''s''\<rparr>"

definition leak_variables :: "resolved_variable list" where
  "leak_variables = [\<lparr>rv_id = ''2'', rv_name = ''key'', rv_kind = KindSecret, rv_value = Some ''pw'',
     rv_alias_target = None, rv_secret_version = Some 4\<rparr>]"

lemma sum_case_iff: "(case r of Inl e \<Rightarrow> False | Inr v \<Rightarrow> P v) \<longleftrightarrow> (\<exists>v. r = Inr v \<and> P v)"
  by (cases r) auto


end
