(* ===== verification/Request_Tree.thy ===== *)
theory Request_Tree
  imports Variable_Service
begin

text \<open>
  The ordered tree of collections and requests (the tree operations of \<open>RequestService\<close> in
  \<open>apps/backend/src/requests/request-service.ts\<close>) on the rows of \<open>workspace_tree_nodes\<close>. Every
  statement is checked against the constraints of the table, so that a sequence of statements that
  would break one is an error of the operation.
\<close>

section \<open>Data\<close>

record ordered_node = tree_node +
  on_position :: nat
  on_revision :: nat

datatype tree_error =
    NodeMissing
  | TreeParentMissing
  | OrderConflict
  | MoveInvalid
  | ConstraintFailed

datatype placement = Before | Inside | After

section \<open>Sibling lists\<close>

definition node_row :: "ordered_node list \<Rightarrow> entity_id \<Rightarrow> ordered_node option" where
  "node_row nodes i = find (\<lambda>n. tn_id n = i) nodes"

definition siblings :: "ordered_node list \<Rightarrow> entity_id \<Rightarrow> entity_id option \<Rightarrow> ordered_node list" where
  "siblings nodes w p = filter (\<lambda>n. tn_workspace n = w \<and> tn_parent n = p) nodes"

definition sibling_order :: "ordered_node list \<Rightarrow> entity_id \<Rightarrow> entity_id option \<Rightarrow> ordered_node list" where
  "sibling_order nodes w p = sort_key on_position (siblings nodes w p)"

definition highest_revision :: "nat \<Rightarrow> ordered_node list \<Rightarrow> nat" where
  "highest_revision start rows = foldl (\<lambda>r n. max r (on_revision n)) start rows"

definition next_position :: "ordered_node list \<Rightarrow> entity_id \<Rightarrow> entity_id option \<Rightarrow> nat" where
  "next_position nodes w p =
     (case siblings nodes w p of [] \<Rightarrow> 0 | ns \<Rightarrow> Max (on_position ` set ns) + 1)"

definition current_order_revision :: "ordered_node list \<Rightarrow> entity_id \<Rightarrow> entity_id option \<Rightarrow> nat" where
  "current_order_revision nodes w p = highest_revision 0 (siblings nodes w p)"

section \<open>Statements\<close>

text \<open>
  The constraints of the table: its primary key, the reference of a node to its parent, and the unique
  index on workspace, parent and position, which does not cover rows without a parent.
\<close>

definition sibling_slot :: "ordered_node \<Rightarrow> entity_id \<times> entity_id option \<times> nat" where
  "sibling_slot n = (tn_workspace n, tn_parent n, on_position n)"

definition slots_unique :: "ordered_node list \<Rightarrow> bool" where
  "slots_unique nodes \<longleftrightarrow> (\<forall>a \<in> set nodes. \<forall>b \<in> set nodes.
     tn_id a \<noteq> tn_id b \<longrightarrow> tn_parent a \<noteq> None \<longrightarrow> sibling_slot a \<noteq> sibling_slot b)"

definition parents_present :: "ordered_node list \<Rightarrow> bool" where
  "parents_present nodes \<longleftrightarrow> (\<forall>n \<in> set nodes. case tn_parent n of None \<Rightarrow> True | Some p \<Rightarrow> p \<in> tn_id ` set nodes)"

definition table_ok :: "ordered_node list \<Rightarrow> bool" where
  "table_ok nodes \<longleftrightarrow> distinct (map tn_id nodes) \<and> parents_present nodes \<and> slots_unique nodes"

definition checked :: "ordered_node list \<Rightarrow> tree_error + ordered_node list" where
  "checked nodes = (if table_ok nodes then Inr nodes else Inl ConstraintFailed)"

definition update_node ::
  "entity_id \<Rightarrow> (ordered_node \<Rightarrow> ordered_node) \<Rightarrow> ordered_node list \<Rightarrow> tree_error + ordered_node list" where
  "update_node i f nodes = checked (map (\<lambda>n. if tn_id n = i then f n else n) nodes)"

definition insert_node :: "ordered_node \<Rightarrow> ordered_node list \<Rightarrow> tree_error + ordered_node list" where
  "insert_node n nodes = checked (nodes @ [n])"

definition delete_node :: "entity_id \<Rightarrow> ordered_node list \<Rightarrow> tree_error + ordered_node list" where
  "delete_node i nodes = checked (filter (\<lambda>n. tn_id n \<noteq> i) nodes)"

text \<open>The offset is one statement; SQLite checks the unique index after each of its rows.\<close>

definition offset_siblings ::
  "entity_id \<Rightarrow> entity_id option \<Rightarrow> ordered_node list \<Rightarrow> tree_error + ordered_node list" where
  "offset_siblings w p nodes =
     (let k = next_position nodes w p in
      foldE (\<lambda>ns i. update_node i (\<lambda>n. n\<lparr>on_position := on_position n + k\<rparr>) ns) nodes
        (map tn_id (siblings nodes w p)))"

text \<open>The loops that write a sibling order row by row; a moved row gets its new parent with its position.\<close>

definition place ::
  "entity_id option \<Rightarrow> entity_id option \<Rightarrow> nat \<Rightarrow> entity_id list \<Rightarrow> ordered_node list
     \<Rightarrow> tree_error + ordered_node list" where
  "place p moved revision ids nodes =
     foldE (\<lambda>ns (k, i). update_node i (\<lambda>n. n\<lparr>on_position := k, on_revision := revision,
         tn_parent := (if moved = Some i then p else tn_parent n)\<rparr>) ns) nodes (enumerate 0 ids)"

section \<open>Operations\<close>

definition validate_parent ::
  "ordered_node list \<Rightarrow> entity_id \<Rightarrow> entity_id option \<Rightarrow> tree_error + unit" where
  "validate_parent nodes w p =
     (case p of
        None \<Rightarrow> Inr ()
      | Some i \<Rightarrow>
          (case node_row nodes i of
             None \<Rightarrow> Inl TreeParentMissing
           | Some n \<Rightarrow> if tn_workspace n \<noteq> w \<or> tn_kind n \<noteq> CollectionNode then Inl TreeParentMissing else Inr ()))"

definition append_node ::
  "entity_id \<Rightarrow> entity_id \<Rightarrow> entity_id option \<Rightarrow> node_kind \<Rightarrow> string \<Rightarrow> ordered_node list
     \<Rightarrow> tree_error + (ordered_node \<times> ordered_node list)" where
  "append_node i w p kind name nodes =
     (let n = \<lparr>tn_id = i, tn_workspace = w, tn_parent = p, tn_kind = kind, tn_name = name,
            on_position = next_position nodes w p, on_revision = current_order_revision nodes w p\<rparr> in
      bindE (insert_node n nodes) (\<lambda>nodes'. Inr (n, nodes')))"

text \<open>\<open>reorderChildren\<close> after its access check: the revision, whether rows were written, and the rows.\<close>

definition reorder_siblings ::
  "entity_id \<Rightarrow> entity_id option \<Rightarrow> nat \<Rightarrow> entity_id list \<Rightarrow> ordered_node list
     \<Rightarrow> tree_error + (nat \<times> bool \<times> ordered_node list)" where
  "reorder_siblings w p expected ordered nodes =
     bindE (validate_parent nodes w p) (\<lambda>_.
     let rows = sibling_order nodes w p; current = highest_revision 0 rows; ids = map tn_id rows in
     if current \<noteq> expected \<or> \<not> distinct ordered \<or> length ordered \<noteq> length ids
       \<or> list_ex (\<lambda>i. i \<notin> set ids) ordered then Inl OrderConflict
     else if ordered = ids then Inr (current, False, nodes)
     else
       bindE (offset_siblings w p nodes) (\<lambda>nodes1.
       bindE (place p None (current + 1) ordered nodes1) (\<lambda>nodes2. Inr (current + 1, True, nodes2))))"

text \<open>The ancestors of a destination; at most 64 are visited.\<close>

function climb ::
  "ordered_node list \<Rightarrow> entity_id \<Rightarrow> entity_id \<Rightarrow> entity_id list \<Rightarrow> entity_id option \<Rightarrow> tree_error + unit" where
  "climb nodes w i visited None = Inr ()"
| "climb nodes w i visited (Some a) =
     (if a = i then Inl MoveInvalid
      else if a \<in> set visited \<or> length visited \<ge> 64 then Inl MoveInvalid
      else (case node_row nodes a of
          None \<Rightarrow> Inl TreeParentMissing
        | Some n \<Rightarrow>
            if tn_workspace n \<noteq> w \<or> tn_kind n \<noteq> CollectionNode then Inl TreeParentMissing
            else climb nodes w i (visited @ [a]) (tn_parent n)))"
  by pat_completeness auto
termination
  by (relation "measure (\<lambda>(nodes, w, i, visited, a). 64 - length visited)") auto

definition validate_move_hierarchy ::
  "ordered_node list \<Rightarrow> entity_id \<Rightarrow> entity_id \<Rightarrow> node_kind \<Rightarrow> entity_id option \<Rightarrow> tree_error + unit" where
  "validate_move_hierarchy nodes w i kind target =
     bindE (validate_parent nodes w target) (\<lambda>_.
     if kind \<noteq> CollectionNode then Inr () else climb nodes w i [] target)"

definition insert_at :: "nat \<Rightarrow> 'a \<Rightarrow> 'a list \<Rightarrow> 'a list" where
  "insert_at k x xs = take k xs @ x # drop k xs"

definition position_in :: "entity_id \<Rightarrow> entity_id list \<Rightarrow> nat" where
  "position_in i ids = length (takeWhile (\<lambda>j. j \<noteq> i) ids)"

record move_result =
  mr_source :: "entity_id option"
  mr_target :: "entity_id option"
  mr_source_revision :: nat
  mr_target_revision :: nat
  mr_nodes :: "ordered_node list"

definition relocate ::
  "entity_id \<Rightarrow> entity_id \<Rightarrow> entity_id option \<Rightarrow> entity_id option \<Rightarrow> nat \<Rightarrow> ordered_node list
     \<Rightarrow> tree_error + move_result" where
  "relocate w i source target index nodes =
     (let srows = sibling_order nodes w source; trows = sibling_order nodes w target;
          sr = highest_revision 0 srows + 1; tr = highest_revision 0 trows + 1 in
      bindE (offset_siblings w source nodes) (\<lambda>nodes1.
      bindE (offset_siblings w target nodes1) (\<lambda>nodes2.
      bindE (place source None sr (filter (\<lambda>j. j \<noteq> i) (map tn_id srows)) nodes2) (\<lambda>nodes3.
      bindE (place target (Some i) tr (insert_at index i (map tn_id trows)) nodes3) (\<lambda>nodes4.
      Inr \<lparr>mr_source = source, mr_target = target, mr_source_revision = sr, mr_target_revision = tr,
           mr_nodes = nodes4\<rparr>)))))"

definition move_tree_node ::
  "entity_id \<Rightarrow> entity_id \<Rightarrow> entity_id \<Rightarrow> placement \<Rightarrow> nat \<Rightarrow> ordered_node list \<Rightarrow> tree_error + move_result" where
  "move_tree_node w i t placing expected nodes =
     (case (node_row nodes i, node_row nodes t) of
        (Some m, Some g) \<Rightarrow>
          if tn_workspace m \<noteq> w \<or> tn_workspace g \<noteq> w then Inl NodeMissing
          else if i = t then Inl MoveInvalid
          else if placing = Inside \<and> tn_kind g \<noteq> CollectionNode then Inl MoveInvalid
          else
            let source = tn_parent m; target = (if placing = Inside then Some t else tn_parent g) in
            if source = target then Inl MoveInvalid
            else
              bindE (validate_move_hierarchy nodes w i (tn_kind m) target) (\<lambda>_.
              let srows = sibling_order nodes w source; tids = map tn_id (sibling_order nodes w target) in
              if highest_revision 0 srows \<noteq> expected \<or> i \<notin> tn_id ` set srows then Inl OrderConflict
              else if placing \<noteq> Inside \<and> t \<notin> set tids then Inl OrderConflict
              else relocate w i source target
                (if placing = Inside then length tids
                 else position_in t tids + (if placing = After then 1 else 0)) nodes)
      | _ \<Rightarrow> Inl NodeMissing)"

section \<open>Subtrees\<close>

definition children :: "ordered_node list \<Rightarrow> entity_id \<Rightarrow> entity_id list" where
  "children nodes i = map tn_id (filter (\<lambda>n. tn_parent n = Some i) nodes)"

text \<open>The work list of \<open>#collectionDescendants\<close>, its end first.\<close>

function walk_tree ::
  "ordered_node list \<Rightarrow> (entity_id \<times> nat) list \<Rightarrow> entity_id list \<Rightarrow> (entity_id \<times> node_kind \<times> nat) list
     \<Rightarrow> tree_error + (entity_id \<times> node_kind \<times> nat) list" where
  "walk_tree nodes [] visited out = Inr out"
| "walk_tree nodes ((i, d) # pending) visited out =
     (if i \<in> set visited then walk_tree nodes pending visited out
      else (case node_row nodes i of
          None \<Rightarrow> Inl NodeMissing
        | Some n \<Rightarrow> walk_tree nodes (rev (map (\<lambda>c. (c, d + 1)) (children nodes i)) @ pending) (visited @ [i])
            (out @ [(i, tn_kind n, d)])))"
  by pat_completeness auto
termination
proof (relation "measures [\<lambda>(nodes, pending, visited, out). card (tn_id ` set nodes - set visited),
      \<lambda>(nodes, pending, visited, out). length pending]", goal_cases)
  case (3 nodes i d pending visited out n)
  then have "i \<in> tn_id ` set nodes" by (auto simp: node_row_def dest: find_SomeD)
  with 3 have "tn_id ` set nodes - set (visited @ [i]) \<subset> tn_id ` set nodes - set visited" by auto
  from psubset_card_mono [OF _ this] show ?case by simp
qed auto

definition collection_descendants ::
  "ordered_node list \<Rightarrow> entity_id \<Rightarrow> entity_id \<Rightarrow> tree_error + (entity_id \<times> node_kind \<times> nat) list" where
  "collection_descendants nodes w i = walk_tree (filter (\<lambda>n. tn_workspace n = w) nodes) [(i, 0)] [] []"

definition delete_nodes ::
  "(entity_id \<times> node_kind \<times> nat) list \<Rightarrow> ordered_node list \<Rightarrow> tree_error + ordered_node list" where
  "delete_nodes ds nodes =
     foldE (\<lambda>ns (i, k, d). delete_node i ns) nodes (sort_key (\<lambda>(i, k, d). - int d) ds)"

definition compact_siblings ::
  "entity_id \<Rightarrow> entity_id option \<Rightarrow> nat \<Rightarrow> ordered_node list \<Rightarrow> tree_error + (nat \<times> ordered_node list)" where
  "compact_siblings w p deleted nodes =
     (let rows = sibling_order nodes w p; revision = highest_revision deleted rows + 1 in
      bindE (place p None revision (map tn_id rows) nodes) (\<lambda>nodes'. Inr (revision, nodes')))"

definition insert_after ::
  "entity_id \<Rightarrow> entity_id \<Rightarrow> entity_id \<Rightarrow> entity_id option \<Rightarrow> string \<Rightarrow> ordered_node list
     \<Rightarrow> tree_error + (nat \<times> ordered_node list)" where
  "insert_after source i w p name nodes =
     (let rows = sibling_order nodes w p; ids = map tn_id rows; revision = highest_revision 0 rows + 1 in
      if source \<notin> set ids then Inl NodeMissing
      else
        bindE (offset_siblings w p nodes) (\<lambda>nodes1.
        bindE (insert_node \<lparr>tn_id = i, tn_workspace = w, tn_parent = p, tn_kind = RequestNode, tn_name = name,
            on_position = next_position nodes1 w p, on_revision = revision\<rparr> nodes1) (\<lambda>nodes2.
        bindE (place p None revision (insert_at (position_in source ids + 1) i ids) nodes2) (\<lambda>nodes3.
        Inr (revision, nodes3)))))"

end
