(* ===== verification/Request_Store.thy ===== *)
theory Request_Store
  imports Request_Tree Execution_Chain
begin

text \<open>
  The tables behind \<open>RequestService\<close> (\<open>apps/backend/src/requests/request-service.ts\<close>) and what it reads
  from them: rows joined with the tree, views with their inherited headers and targets, and the content
  of immutable revisions. A JSON column is the value it holds; times are epoch milliseconds, also where
  a view prints them as ISO strings. Rows removed by a cascading foreign key are removed by the
  statement, and every statement is checked against the references of the tables.
\<close>

section \<open>Data\<close>

record collection_profile =
  cp_id :: entity_id
  cp_revision :: nat
  cp_description :: string
  cp_notes :: string
  cp_headers :: "request_field list"
  cp_prefix :: string

record request_draft =
  dr_id :: entity_id
  dr_revision :: nat
  dr_description :: string
  dr_notes :: string
  dr_method :: http_method
  dr_target_mode :: target_mode
  dr_target :: string
  dr_query :: "request_field list"
  dr_headers :: "request_field list"
  dr_body_text :: string
  dr_body :: request_body
  dr_pre_script :: string
  dr_post_script :: string
  dr_redirect :: json
  dr_cookie :: json

text \<open>The JSON of a revision; every member may be missing in an older one.\<close>

record stored_content = execution_input +
  sc_name :: "string option"
  sc_description :: "string option"
  sc_notes :: "string option"
  sc_components :: "string list option"
  sc_local :: "request_field list option"
  sc_inherited :: "request_field list option"

record revision_content = request_content +
  vc_name :: "string option"
  vc_description :: string
  vc_notes :: string
  vc_components :: "string list option"
  vc_local :: "request_field list option"
  vc_inherited :: "request_field list option"

datatype creation_reason = ManualSave | ForExecution

record request_revision =
  rn_id :: entity_id
  rn_request :: entity_id
  rn_parent :: "entity_id option"
  rn_reason :: creation_reason
  rn_by :: entity_id
  rn_at :: int
  rn_content :: stored_content
  rn_fingerprint :: string

record request_version =
  vn_id :: entity_id
  vn_request :: entity_id
  vn_revision :: entity_id
  vn_name :: string
  vn_key :: string

datatype body_encoding = TextBody | Base64Body

record captured_exchange =
  ce_source :: string
  ce_label :: "string option"
  ce_status :: int
  ce_status_text :: string
  ce_headers :: "(string \<times> string) list"
  ce_content_type :: "string option"
  ce_body :: string
  ce_encoding :: body_encoding
  ce_complete :: bool
  ce_bytes :: int

record imported_capture = captured_exchange +
  ic_recorded :: "string option"

record capture_row = captured_exchange +
  ce_recorded :: "int option"
  ce_id :: entity_id
  ce_workspace :: entity_id
  ce_request :: entity_id
  ce_revision :: entity_id
  ce_imported :: int

datatype request_event =
    TreeReordered "entity_id option" "entity_id list" nat
  | TreeMoved entity_id entity_id placement "entity_id option" "entity_id option" nat nat
  | CollectionCreated entity_id "entity_id option" "string option"
  | CollectionUpdated entity_id nat "(string \<times> bool) list"
  | CollectionDeleted entity_id "entity_id option" nat nat nat
  | RequestCreated entity_id "entity_id option" "(string \<times> string) option"
  | ImportApplied string entity_id "entity_id option" nat
  | RevisionNamed entity_id entity_id bool
  | RequestDuplicated entity_id entity_id "entity_id option" nat
  | DraftUpdated entity_id nat
  | RequestDeleted entity_id "entity_id option" nat
  | SecretVariableDeleted scope_kind entity_id entity_id nat
  | ExecutionCreatedEvent entity_id "entity_id option" "entity_id option" "bool option"

text \<open>A row of \<open>executions\<close> with the members of its snapshot that \<open>Execution_Chain\<close> does not read.\<close>

record stored_execution = execution_row +
  xe_by :: entity_id
  xe_template :: "snapshot option"
  xe_redirect :: redirect_policy
  xe_cookie :: bool
  xe_cookie_mode :: cookie_mode
  xe_evidence :: "profile_evidence list"
  xe_references :: references
  xe_created :: int

record request_db =
  rq_env :: environment_db
  rq_nodes :: "ordered_node list"
  rq_profiles :: "collection_profile list"
  rq_drafts :: "request_draft list"
  rq_revisions :: "request_revision list"
  rq_versions :: "request_version list"
  rq_captures :: "capture_row list"
  rq_executions :: "stored_execution list"
  rq_users :: "(entity_id \<times> string) list"
  rq_preferences :: preferences_table
  rq_attachments :: attachment_table
  rq_audit :: "(request_event \<times> entity_id \<times> entity_id) list"

datatype service_error =
    RequestMissing
  | CollectionMissing
  | RevisionMissing
  | WorkspaceMissing
  | ParentMissing
  | HierarchyTooDeep
  | DraftChanged
  | CollectionChanged
  | StoredBodyInvalid
  | ImportSizeInvalid
  | ImportHierarchyInvalid
  | ImportCollectionMissing
  | CaptureInvalid
  | TableConstraint
  | TreeRefused tree_error
  | AccessRefused workspace_error
  | ContentRefused request_error
  | VariableRefused variable_error
  | PolicyRefused policy_error
  | CompositionRefused composing_error

definition failing :: "('e \<Rightarrow> 'f) \<Rightarrow> 'e + 'a \<Rightarrow> 'f + 'a" where
  "failing f r = (case r of Inl e \<Rightarrow> Inl (f e) | Inr x \<Rightarrow> Inr x)"

lemma failing_simps [simp]: "failing f (Inl e) = Inl (f e)" "failing f (Inr x) = Inr x"
  by (simp_all add: failing_def)

lemma failing_eq_Inr [result_simps]: "failing f r = Inr x \<longleftrightarrow> r = Inr x"
  by (cases r) auto

lemma failing_eq_Inl [result_simps]: "failing f r = Inl e \<longleftrightarrow> (\<exists>e'. r = Inl e' \<and> e = f e')"
  by (cases r) auto

text \<open>What the operations draw and call: identifiers, the clock, the URL parser, \<open>Date.parse\<close> and the
  digest of the serialised content of a revision.\<close>

record service_api =
  sv_content :: content_api
  sv_date :: "string \<Rightarrow> int option"
  sv_digest :: "stored_content \<Rightarrow> string"
  sv_ids :: "nat \<Rightarrow> entity_id"
  sv_profile_ids :: "nat \<Rightarrow> entity_id"
  sv_variable_ids :: "nat \<Rightarrow> nat \<Rightarrow> entity_id"
  sv_now :: int

section \<open>References between the tables\<close>

definition draft_ids :: "request_db \<Rightarrow> entity_id set" where
  "draft_ids db = dr_id ` set (rq_drafts db)"

definition revision_ids :: "request_db \<Rightarrow> entity_id set" where
  "revision_ids db = rn_id ` set (rq_revisions db)"

definition references_ok :: "request_db \<Rightarrow> bool" where
  "references_ok db \<longleftrightarrow>
     distinct (map dr_id (rq_drafts db)) \<and> draft_ids db \<subseteq> tn_id ` set (rq_nodes db) \<and>
     distinct (map cp_id (rq_profiles db)) \<and> cp_id ` set (rq_profiles db) \<subseteq> tn_id ` set (rq_nodes db) \<and>
     distinct (map rn_id (rq_revisions db)) \<and>
     (\<forall>v \<in> set (rq_revisions db). rn_request v \<in> draft_ids db \<and>
       (case rn_parent v of None \<Rightarrow> True | Some p \<Rightarrow> p \<in> revision_ids db)) \<and>
     distinct (map vn_revision (rq_versions db)) \<and>
     distinct (map (\<lambda>v. (vn_request v, vn_key v)) (rq_versions db)) \<and>
     (\<forall>v \<in> set (rq_versions db). vn_request v \<in> draft_ids db \<and> vn_revision v \<in> revision_ids db) \<and>
     distinct (map ce_id (rq_captures db)) \<and>
     (\<forall>c \<in> set (rq_captures db). ce_request c \<in> draft_ids db \<and> ce_revision c \<in> revision_ids db) \<and>
     distinct (map xr_id (rq_executions db)) \<and>
     (\<forall>x \<in> set (rq_executions db). (case xr_request x of None \<Rightarrow> True | Some r \<Rightarrow> r \<in> draft_ids db) \<and>
       (case xr_revision x of None \<Rightarrow> True | Some v \<Rightarrow> v \<in> revision_ids db))"

definition settled :: "request_db \<Rightarrow> service_error + request_db" where
  "settled db = (if references_ok db then Inr db else Inl TableConstraint)"

lemma settled_simps [simp]: "references_ok db \<Longrightarrow> settled db = Inr db"
  by (simp add: settled_def)

lemma settled_eq_Inr [result_simps]: "settled db = Inr db' \<longleftrightarrow> references_ok db \<and> db' = db"
  by (auto simp: settled_def)

section \<open>Rows\<close>

definition draft_of :: "request_db \<Rightarrow> entity_id \<Rightarrow> request_draft option" where
  "draft_of db i = find (\<lambda>d. dr_id d = i) (rq_drafts db)"

definition profile_of :: "request_db \<Rightarrow> entity_id \<Rightarrow> collection_profile option" where
  "profile_of db i = find (\<lambda>p. cp_id p = i) (rq_profiles db)"

definition collection_node :: "request_db \<Rightarrow> entity_id \<Rightarrow> ordered_node option" where
  "collection_node db i = find (\<lambda>n. tn_id n = i \<and> tn_kind n = CollectionNode) (rq_nodes db)"

type_synonym request_row = "request_draft \<times> ordered_node"

definition request_row_of :: "request_db \<Rightarrow> entity_id \<Rightarrow> service_error + request_row" where
  "request_row_of db i =
     (case (draft_of db i, node_row (rq_nodes db) i) of
        (Some d, Some n) \<Rightarrow> Inr (d, n) | _ \<Rightarrow> Inl RequestMissing)"

type_synonym collection_row = "ordered_node \<times> collection_profile option"

definition collection_row_of :: "request_db \<Rightarrow> entity_id \<Rightarrow> service_error + collection_row" where
  "collection_row_of db i =
     (case collection_node db i of None \<Rightarrow> Inl CollectionMissing | Some n \<Rightarrow> Inr (n, profile_of db i))"

definition revision_row_of :: "request_db \<Rightarrow> entity_id \<Rightarrow> entity_id \<Rightarrow> service_error + request_revision" where
  "revision_row_of db request i =
     (case find (\<lambda>v. rn_id v = i \<and> rn_request v = request) (rq_revisions db) of
        None \<Rightarrow> Inl RevisionMissing | Some v \<Rightarrow> Inr v)"

section \<open>Inheritance\<close>

definition prefix_of :: "collection_profile option \<Rightarrow> string" where
  "prefix_of p = (case p of None \<Rightarrow> [] | Some x \<Rightarrow> cp_prefix x)"

definition headers_of :: "collection_profile option \<Rightarrow> request_field list" where
  "headers_of p = (case p of None \<Rightarrow> [] | Some x \<Rightarrow> cp_headers x)"

text \<open>The loop from a collection to the root; it visits at most 64 collections and collects root first.\<close>

function climb_collections ::
  "(collection_profile option \<Rightarrow> service_error + 'a) \<Rightarrow> request_db \<Rightarrow> entity_id list \<Rightarrow> 'a list
     \<Rightarrow> entity_id option \<Rightarrow> service_error + 'a list" where
  "climb_collections f db visited out None = Inr out"
| "climb_collections f db visited out (Some c) =
     (if c \<in> set visited \<or> length visited \<ge> 64 then Inl HierarchyTooDeep
      else (case collection_node db c of
          None \<Rightarrow> Inl ParentMissing
        | Some n \<Rightarrow>
            bindE (f (profile_of db c)) (\<lambda>x. climb_collections f db (visited @ [c]) (x # out) (tn_parent n))))"
  by pat_completeness auto
termination
  by (relation "measure (\<lambda>(f, db, visited, out, c). 64 - length visited)") auto

definition collection_path_parts :: "request_db \<Rightarrow> entity_id option \<Rightarrow> service_error + string list" where
  "collection_path_parts db c = climb_collections (\<lambda>p. Inr (prefix_of p)) db [] [] c"

definition target_components ::
  "request_db \<Rightarrow> entity_id \<Rightarrow> entity_id option \<Rightarrow> target_mode \<Rightarrow> string \<Rightarrow> service_error + string list" where
  "target_components db w parent mode target =
     (if mode = AbsoluteTarget then Inr [target]
      else (case workspace_row (rq_env db) w of
          None \<Rightarrow> Inl WorkspaceMissing
        | Some row \<Rightarrow>
            bindE (collection_path_parts db parent) (\<lambda>parts. Inr (ws_base_url row # parts @ [target]))))"

definition resolve_collection_path :: "request_db \<Rightarrow> entity_id option \<Rightarrow> string \<Rightarrow> service_error + string" where
  "resolve_collection_path db parent path =
     bindE (collection_path_parts db parent) (\<lambda>parts. Inr (join_target_components (parts @ [path])))"

definition resolve_inherited_target :: "request_db \<Rightarrow> entity_id \<Rightarrow> entity_id option \<Rightarrow> service_error + string" where
  "resolve_inherited_target db w parent =
     bindE (target_components db w parent ComposedTarget []) (\<lambda>cs. Inr (join_target_components (butlast cs)))"

definition resolve_headers ::
  "request_db \<Rightarrow> entity_id \<Rightarrow> entity_id option \<Rightarrow> request_field list \<Rightarrow> service_error + request_field list" where
  "resolve_headers db w parent own =
     (case workspace_row (rq_env db) w of
        None \<Rightarrow> Inl WorkspaceMissing
      | Some row \<Rightarrow>
          bindE (failing ContentRefused (validate_headers (ws_headers row))) (\<lambda>top.
          bindE (climb_collections (\<lambda>p. failing ContentRefused (validate_headers (headers_of p))) db [] [] parent)
            (\<lambda>layers.
          bindE (failing ContentRefused (validate_headers own)) (\<lambda>own'.
          Inr (resolve_header_layers (top # layers @ [own']))))))"

section \<open>Views\<close>

record collection_view =
  cv_id :: entity_id
  cv_workspace :: entity_id
  cv_parent :: "entity_id option"
  cv_name :: string
  cv_description :: string
  cv_notes :: string
  cv_prefix :: string
  cv_inherited_target :: string
  cv_effective_path :: string
  cv_headers :: "request_field list"
  cv_inherited_headers :: "request_field list"
  cv_effective_headers :: "request_field list"
  cv_revision :: nat

definition map_collection :: "collection_row \<Rightarrow> collection_view" where
  "map_collection row =
     (case row of (n, p) \<Rightarrow>
        \<lparr>cv_id = tn_id n, cv_workspace = tn_workspace n, cv_parent = tn_parent n, cv_name = tn_name n,
         cv_description = (case p of None \<Rightarrow> [] | Some x \<Rightarrow> cp_description x),
         cv_notes = (case p of None \<Rightarrow> [] | Some x \<Rightarrow> cp_notes x), cv_prefix = prefix_of p,
         cv_inherited_target = [], cv_effective_path = [], cv_headers = headers_of p,
         cv_inherited_headers = [], cv_effective_headers = [],
         cv_revision = (case p of None \<Rightarrow> 0 | Some x \<Rightarrow> cp_revision x)\<rparr>)"

definition collection_view_of :: "request_db \<Rightarrow> collection_row \<Rightarrow> service_error + collection_view" where
  "collection_view_of db row =
     (let v = map_collection row; w = cv_workspace v; parent = cv_parent v in
      bindE (resolve_headers db w parent []) (\<lambda>inherited.
      bindE (resolve_inherited_target db w parent) (\<lambda>target.
      bindE (resolve_collection_path db parent (cv_prefix v)) (\<lambda>path.
      Inr (v\<lparr>cv_inherited_target := target, cv_effective_path := path, cv_inherited_headers := inherited,
            cv_effective_headers := resolve_header_layers [inherited, cv_headers v]\<rparr>)))))"

record request_view = request_content +
  vw_id :: entity_id
  vw_workspace :: entity_id
  vw_parent :: "entity_id option"
  vw_name :: string
  vw_description :: string
  vw_notes :: string
  vw_inherited_target :: string
  vw_inherited_headers :: "request_field list"
  vw_revision :: nat
  vw_capture :: "capture_row option"

definition parse_request_body :: "content_api \<Rightarrow> request_body \<Rightarrow> string \<Rightarrow> service_error + request_body" where
  "parse_request_body api body legacy = failing (\<lambda>_. StoredBodyInvalid) (validate_request_body api (Some body) legacy)"

definition map_request :: "content_api \<Rightarrow> request_row \<Rightarrow> service_error + request_view" where
  "map_request api row =
     (case row of (d, n) \<Rightarrow>
        bindE (parse_request_body api (dr_body d) (dr_body_text d)) (\<lambda>body.
        bindE (failing PolicyRefused (parse_redirect_override (dr_redirect d))) (\<lambda>redirect.
        bindE (failing PolicyRefused (parse_cookie_override (dr_cookie d))) (\<lambda>cookie.
        Inr \<lparr>rc_method = dr_method d, rc_target_mode = dr_target_mode d, rc_target = dr_target d,
          rc_query = dr_query d, rc_headers = dr_headers d, rc_request_body = body, rc_body = dr_body_text d,
          rc_pre_script = dr_pre_script d, rc_post_script = dr_post_script d, rc_redirect = redirect,
          rc_cookie = cookie, vw_id = dr_id d, vw_workspace = tn_workspace n, vw_parent = tn_parent n,
          vw_name = tn_name n, vw_description = dr_description d, vw_notes = dr_notes d,
          vw_inherited_target = [], vw_inherited_headers = [], vw_revision = dr_revision d,
          vw_capture = None\<rparr>))))"

definition latest_capture :: "request_db \<Rightarrow> entity_id \<Rightarrow> capture_row option" where
  "latest_capture db request =
     (case rev (sort_key (\<lambda>c. (ce_imported c, ce_id c)) (filter (\<lambda>c. ce_request c = request) (rq_captures db))) of
        [] \<Rightarrow> None | c # _ \<Rightarrow> Some c)"

definition request_view_of :: "content_api \<Rightarrow> request_db \<Rightarrow> request_row \<Rightarrow> service_error + request_view" where
  "request_view_of api db row =
     bindE (map_request api row) (\<lambda>v.
     bindE (if rc_target_mode v = ComposedTarget then resolve_inherited_target db (vw_workspace v) (vw_parent v)
            else Inr []) (\<lambda>target.
     bindE (resolve_headers db (vw_workspace v) (vw_parent v) []) (\<lambda>inherited.
     Inr (v\<lparr>vw_inherited_target := target, vw_inherited_headers := inherited,
           vw_capture := latest_capture db (vw_id v)\<rparr>))))"

section \<open>Revisions\<close>

text \<open>\<open>revisionContent\<close>\<close>

definition revision_content_of ::
  "content_api \<Rightarrow> request_row \<Rightarrow> request_field list \<Rightarrow> request_field list \<Rightarrow> string list
     \<Rightarrow> service_error + stored_content" where
  "revision_content_of api row effective inherited components =
     bindE (map_request api row) (\<lambda>v.
     Inr \<lparr>xi_method = method_name (rc_method v), xi_target_mode = Some (rc_target_mode v), xi_target = rc_target v,
       xi_query = rc_query v, xi_headers = effective, xi_request_body = Some (rc_request_body v),
       xi_body = rc_body v, xi_pre_script = Some (rc_pre_script v), xi_post_script = Some (rc_post_script v),
       xi_redirect = Some (redirect_override_json (rc_redirect v)),
       xi_cookie = Some (cookie_override_json (rc_cookie v)),
       sc_name = Some (vw_name v), sc_description = Some (vw_description v), sc_notes = Some (vw_notes v),
       sc_components = Some components, sc_local = Some (rc_headers v), sc_inherited = Some inherited\<rparr>)"

definition optionally :: "('a \<Rightarrow> 'e + 'b) \<Rightarrow> 'a option \<Rightarrow> 'e + 'b option" where
  "optionally f x = (case x of None \<Rightarrow> Inr None | Some y \<Rightarrow> bindE (f y) (\<lambda>z. Inr (Some z)))"

definition parse_revision_content :: "content_api \<Rightarrow> stored_content \<Rightarrow> service_error + revision_content" where
  "parse_revision_content api s =
     bindE (failing ContentRefused (validate_method (xi_method s))) (\<lambda>meth.
     bindE (failing ContentRefused (normalize_input api (execution_input.truncate s))) (\<lambda>c.
     bindE (failing AccessRefused (optionally normalize_name (sc_name s))) (\<lambda>name.
     bindE (failing AccessRefused (validate_resource_description (coalesce (sc_description s) []))) (\<lambda>description.
     bindE (failing AccessRefused (validate_resource_notes (coalesce (sc_notes s) []))) (\<lambda>notes.
     bindE (failing ContentRefused (optionally (mapE validate_target_component) (sc_components s))) (\<lambda>components.
     bindE (failing ContentRefused (optionally validate_headers (sc_local s))) (\<lambda>own.
     bindE (failing ContentRefused (optionally validate_headers (sc_inherited s))) (\<lambda>inherited.
     Inr (request_content.extend c \<lparr>vc_name = name, vc_description = description, vc_notes = notes,
       vc_components = components, vc_local = own, vc_inherited = inherited\<rparr>)))))))))"

definition revision_request_view ::
  "content_api \<Rightarrow> request_row \<Rightarrow> revision_content \<Rightarrow> service_error + request_view" where
  "revision_request_view api row c =
     bindE (map_request api row) (\<lambda>current.
     let own = coalesce (vc_local c) (rc_headers current);
         names = map (\<lambda>h. js_lower (wh_name h)) (filter wh_enabled own) in
     Inr (request_content.extend ((request_content.truncate c)\<lparr>rc_headers := own\<rparr>)
       (request_view.fields (vw_id current) (vw_workspace current) (vw_parent current)
         (coalesce (vc_name c) (vw_name current)) (vc_description c) (vc_notes c)
         (if rc_target_mode c = ComposedTarget
          then join_target_components (butlast (coalesce (vc_components c) [])) else [])
         (case (vc_inherited c, vc_local c) of
            (Some hs, _) \<Rightarrow> hs
          | (None, None) \<Rightarrow> []
          | (None, Some _) \<Rightarrow> filter (\<lambda>h. js_lower (wh_name h) \<notin> set names) (rc_headers c))
         (vw_revision current) None)))"

definition newest_first :: "request_revision list \<Rightarrow> request_revision list" where
  "newest_first rows = rev (sort_key (\<lambda>v. (rn_at v, rn_id v)) rows)"

definition latest_revision :: "request_db \<Rightarrow> entity_id \<Rightarrow> request_revision option" where
  "latest_revision db request =
     (case newest_first (filter (\<lambda>v. rn_request v = request) (rq_revisions db)) of
        [] \<Rightarrow> None | v # _ \<Rightarrow> Some v)"

text \<open>\<open>#ensureRevision\<close>; the identifier is drawn only when a revision is appended.\<close>

definition ensure_revision ::
  "service_api \<Rightarrow> entity_id \<Rightarrow> request_row \<Rightarrow> entity_id \<Rightarrow> creation_reason \<Rightarrow> request_field list option
     \<Rightarrow> string list option \<Rightarrow> request_db \<Rightarrow> service_error + (entity_id \<times> request_db)" where
  "ensure_revision sv fresh row user reason effective components db =
     (case row of (d, n) \<Rightarrow>
        bindE (failing ContentRefused (validate_headers (dr_headers d))) (\<lambda>own.
        bindE (resolve_headers db (tn_workspace n) (tn_parent n) []) (\<lambda>inherited.
        bindE (case components of
                 Some cs \<Rightarrow> Inr cs
               | None \<Rightarrow> target_components db (tn_workspace n) (tn_parent n) (dr_target_mode d) (dr_target d)) (\<lambda>cs.
        bindE (revision_content_of (sv_content sv) row
                 (coalesce effective (resolve_header_layers [inherited, own])) inherited cs) (\<lambda>content.
        let latest = latest_revision db (dr_id d); fingerprint = sv_digest sv content in
        case latest of
          Some v \<Rightarrow>
            if rn_fingerprint v = fingerprint then Inr (rn_id v, db)
            else bindE (settled (db\<lparr>rq_revisions := rq_revisions db @ [\<lparr>rn_id = fresh, rn_request = dr_id d,
                   rn_parent = Some (rn_id v), rn_reason = reason, rn_by = user, rn_at = sv_now sv,
                   rn_content = content, rn_fingerprint = fingerprint\<rparr>]\<rparr>)) (\<lambda>db'. Inr (fresh, db'))
        | None \<Rightarrow>
            bindE (settled (db\<lparr>rq_revisions := rq_revisions db @ [\<lparr>rn_id = fresh, rn_request = dr_id d,
                   rn_parent = None, rn_reason = reason, rn_by = user, rn_at = sv_now sv,
                   rn_content = content, rn_fingerprint = fingerprint\<rparr>]\<rparr>)) (\<lambda>db'. Inr (fresh, db')))))))"

record revision_summary =
  rs_revision :: entity_id
  rs_request :: entity_id
  rs_name :: "string option"
  rs_reason :: creation_reason
  rs_by :: entity_id
  rs_username :: string
  rs_at :: int

definition summary_of :: "request_db \<Rightarrow> request_revision \<Rightarrow> revision_summary option" where
  "summary_of db v =
     (case map_of (rq_users db) (rn_by v) of
        None \<Rightarrow> None
      | Some username \<Rightarrow> Some \<lparr>rs_revision = rn_id v, rs_request = rn_request v,
          rs_name = map_option vn_name (find (\<lambda>x. vn_revision x = rn_id v) (rq_versions db)),
          rs_reason = rn_reason v, rs_by = rn_by v, rs_username = username, rs_at = rn_at v\<rparr>)"

definition revision_summary_of :: "request_db \<Rightarrow> entity_id \<Rightarrow> entity_id \<Rightarrow> service_error + revision_summary" where
  "revision_summary_of db request i =
     (case find (\<lambda>v. rn_request v = request \<and> rn_id v = i) (rq_revisions db) of
        None \<Rightarrow> Inl RevisionMissing
      | Some v \<Rightarrow> (case summary_of db v of None \<Rightarrow> Inl RevisionMissing | Some s \<Rightarrow> Inr s))"

end
