(* ===== verification/Request_Service.thy ===== *)
theory Request_Service
  imports Request_Store
begin

text \<open>
  The operations of \<open>RequestService\<close> on collections, requests and revisions
  (\<open>apps/backend/src/requests/request-service.ts\<close>). Each is one transaction: \<open>Inl\<close> rolls it back. The
  clock is read once per operation, and the \<open>k\<close>-th identifier an operation draws is \<open>sv_ids sv k\<close>.
\<close>

section \<open>Parts of the operations\<close>

definition tree_nodes :: "request_db \<Rightarrow> tree_node list" where
  "tree_nodes db = map tree_node.truncate (rq_nodes db)"

definition can_read :: "request_db \<Rightarrow> entity_id \<Rightarrow> entity_id \<Rightarrow> service_error + unit" where
  "can_read db user w = failing AccessRefused (require_can_read (ed_workspaces (rq_env db)) user w)"

definition can_edit :: "request_db \<Rightarrow> entity_id \<Rightarrow> entity_id \<Rightarrow> service_error + unit" where
  "can_edit db user w = failing AccessRefused (require_can_edit (ed_workspaces (rq_env db)) user w)"

definition log_event :: "request_event \<Rightarrow> entity_id \<Rightarrow> entity_id \<Rightarrow> request_db \<Rightarrow> request_db" where
  "log_event e user w db = db\<lparr>rq_audit := rq_audit db @ [(e, user, w)]\<rparr>"

definition accepted_name :: "string \<Rightarrow> service_error + string" where
  "accepted_name s = failing AccessRefused (normalize_name s)"

definition accepted_description :: "string \<Rightarrow> service_error + string" where
  "accepted_description s = failing AccessRefused (validate_resource_description s)"

definition accepted_notes :: "string \<Rightarrow> service_error + string" where
  "accepted_notes s = failing AccessRefused (validate_resource_notes s)"

definition valid_parent :: "request_db \<Rightarrow> entity_id \<Rightarrow> entity_id option \<Rightarrow> service_error + unit" where
  "valid_parent db w parent = failing TreeRefused (validate_parent (rq_nodes db) w parent)"

definition add_node ::
  "entity_id \<Rightarrow> entity_id \<Rightarrow> entity_id option \<Rightarrow> node_kind \<Rightarrow> string \<Rightarrow> request_db
     \<Rightarrow> service_error + (ordered_node \<times> request_db)" where
  "add_node i w parent kind name db =
     bindE (failing TreeRefused (append_node i w parent kind name (rq_nodes db))) (\<lambda>(n, nodes).
     Inr (n, db\<lparr>rq_nodes := nodes\<rparr>))"

definition add_profile :: "collection_profile \<Rightarrow> request_db \<Rightarrow> service_error + request_db" where
  "add_profile p db = settled (db\<lparr>rq_profiles := rq_profiles db @ [p]\<rparr>)"

definition draft_of_content :: "entity_id \<Rightarrow> nat \<Rightarrow> request_content \<Rightarrow> string \<Rightarrow> string \<Rightarrow> request_draft" where
  "draft_of_content i revision c description notes =
     \<lparr>dr_id = i, dr_revision = revision, dr_description = description, dr_notes = notes,
      dr_method = rc_method c, dr_target_mode = rc_target_mode c, dr_target = rc_target c,
      dr_query = rc_query c, dr_headers = rc_headers c, dr_body_text = rc_body c,
      dr_body = rc_request_body c, dr_pre_script = rc_pre_script c, dr_post_script = rc_post_script c,
      dr_redirect = redirect_override_json (rc_redirect c), dr_cookie = cookie_override_json (rc_cookie c)\<rparr>"

definition add_draft :: "request_draft \<Rightarrow> request_db \<Rightarrow> service_error + request_db" where
  "add_draft d db = settled (db\<lparr>rq_drafts := rq_drafts db @ [d]\<rparr>)"

text \<open>A variable profile written inside the transaction.\<close>

definition write_variables ::
  "service_api \<Rightarrow> nat \<Rightarrow> bool \<Rightarrow> entity_id \<Rightarrow> scope_kind \<Rightarrow> entity_id \<Rightarrow> nat \<Rightarrow> variable_write list
     \<Rightarrow> request_db \<Rightarrow> service_error + request_db" where
  "write_variables sv k allow user kind i expected writes db =
     bindE (failing VariableRefused (update_profile_in (sv_profile_ids sv k) (sv_variable_ids sv k) allow None
              user kind i expected writes (tree_nodes db) (rq_env db))) (\<lambda>(view, env).
     Inr (db\<lparr>rq_env := env\<rparr>))"

section \<open>Order and moves\<close>

definition list_children ::
  "entity_id \<Rightarrow> entity_id \<Rightarrow> entity_id option \<Rightarrow> request_db
     \<Rightarrow> service_error + (ordered_node \<times> http_method option) list" where
  "list_children user w parent db =
     bindE (can_read db user w) (\<lambda>_.
     Inr (map (\<lambda>n. (n, map_option dr_method (draft_of db (tn_id n)))) (sibling_order (rq_nodes db) w parent)))"

definition reorder_children ::
  "entity_id \<Rightarrow> entity_id \<Rightarrow> entity_id option \<Rightarrow> nat \<Rightarrow> entity_id list \<Rightarrow> request_db
     \<Rightarrow> service_error + (nat \<times> request_db)" where
  "reorder_children user w parent expected ordered db =
     bindE (can_edit db user w) (\<lambda>_.
     bindE (failing TreeRefused (reorder_siblings w parent expected ordered (rq_nodes db)))
       (\<lambda>(revision, written, nodes).
     Inr (revision, if written
       then log_event (TreeReordered parent ordered revision) user w (db\<lparr>rq_nodes := nodes\<rparr>) else db)))"

definition move_node ::
  "entity_id \<Rightarrow> entity_id \<Rightarrow> entity_id \<Rightarrow> entity_id \<Rightarrow> placement \<Rightarrow> nat \<Rightarrow> request_db
     \<Rightarrow> service_error + ((entity_id option \<times> entity_id option) \<times> request_db)" where
  "move_node user w i t placing expected db =
     bindE (can_edit db user w) (\<lambda>_.
     bindE (failing TreeRefused (move_tree_node w i t placing expected (rq_nodes db))) (\<lambda>r.
     Inr ((mr_source r, mr_target r),
       log_event (TreeMoved i t placing (mr_source r) (mr_target r) (mr_source_revision r) (mr_target_revision r))
         user w (db\<lparr>rq_nodes := mr_nodes r\<rparr>))))"

section \<open>Collections\<close>

definition create_collection ::
  "service_api \<Rightarrow> entity_id \<Rightarrow> entity_id \<Rightarrow> entity_id option \<Rightarrow> string \<Rightarrow> string \<Rightarrow> string \<Rightarrow> request_db
     \<Rightarrow> service_error + (ordered_node \<times> request_db)" where
  "create_collection sv user w parent name description notes db =
     bindE (accepted_description description) (\<lambda>description.
     bindE (accepted_notes notes) (\<lambda>notes.
     bindE (can_edit db user w) (\<lambda>_.
     bindE (valid_parent db w parent) (\<lambda>_.
     bindE (accepted_name name) (\<lambda>name.
     bindE (add_node (sv_ids sv 0) w parent CollectionNode name db) (\<lambda>(n, db1).
     bindE (if description \<noteq> [] \<or> notes \<noteq> []
            then add_profile \<lparr>cp_id = sv_ids sv 0, cp_revision = 1, cp_description = description,
                   cp_notes = notes, cp_headers = [], cp_prefix = []\<rparr> db1
            else Inr db1) (\<lambda>db2.
     Inr (n, log_event (CollectionCreated (sv_ids sv 0) parent None) user w db2))))))))"

definition get_collection :: "entity_id \<Rightarrow> entity_id \<Rightarrow> request_db \<Rightarrow> service_error + collection_view" where
  "get_collection user i db =
     bindE (collection_row_of db i) (\<lambda>row.
     bindE (can_read db user (tn_workspace (fst row))) (\<lambda>_. collection_view_of db row))"

definition set_collection_profile :: "collection_profile \<Rightarrow> request_db \<Rightarrow> request_db" where
  "set_collection_profile p db =
     db\<lparr>rq_profiles := map (\<lambda>x. if cp_id x = cp_id p then p else x) (rq_profiles db)\<rparr>"

definition rename_node :: "entity_id \<Rightarrow> string \<Rightarrow> request_db \<Rightarrow> request_db" where
  "rename_node i name db =
     db\<lparr>rq_nodes := map (\<lambda>n. if tn_id n = i then n\<lparr>tn_name := name\<rparr> else n) (rq_nodes db)\<rparr>"

definition profile_changes ::
  "collection_view \<Rightarrow> string \<Rightarrow> request_field list \<Rightarrow> string \<Rightarrow> string \<Rightarrow> string \<Rightarrow> (string \<times> bool) list" where
  "profile_changes old name headers path_prefix description notes =
     [(''nameChanged'', cv_name old \<noteq> name), (''headersChanged'', cv_headers old \<noteq> headers),
      (''pathChanged'', cv_prefix old \<noteq> path_prefix), (''descriptionChanged'', cv_description old \<noteq> description),
      (''notesChanged'', cv_notes old \<noteq> notes)]"

definition write_collection_profile ::
  "collection_profile option \<Rightarrow> collection_profile \<Rightarrow> request_db \<Rightarrow> service_error + request_db" where
  "write_collection_profile stored p db =
     (if stored = None then add_profile p db else Inr (set_collection_profile p db))"

definition update_collection ::
  "service_api \<Rightarrow> entity_id \<Rightarrow> entity_id \<Rightarrow> nat \<Rightarrow> string \<Rightarrow> request_field list \<Rightarrow> string \<Rightarrow> string \<Rightarrow> string
     \<Rightarrow> request_db \<Rightarrow> service_error + (collection_view \<times> request_db)" where
  "update_collection sv user i expected name headers path_prefix description notes db =
     bindE (accepted_name name) (\<lambda>name.
     bindE (failing ContentRefused (validate_headers headers)) (\<lambda>headers.
     bindE (failing ContentRefused (validate_collection_target (sv_content sv) path_prefix)) (\<lambda>path_prefix.
     bindE (accepted_description description) (\<lambda>description.
     bindE (accepted_notes notes) (\<lambda>notes.
     bindE (collection_row_of db i) (\<lambda>row.
     let old = map_collection row; w = cv_workspace old in
     bindE (can_edit db user w) (\<lambda>_.
     if cv_revision old \<noteq> expected then Inl CollectionChanged
     else
       let changes = profile_changes old name headers path_prefix description notes in
       if list_all (\<lambda>(k, changed). \<not> changed) changes
       then bindE (collection_view_of db row) (\<lambda>v. Inr (v, db))
       else
         let revision = expected + 1;
             p = \<lparr>cp_id = i, cp_revision = revision, cp_description = description, cp_notes = notes,
                  cp_headers = headers, cp_prefix = path_prefix\<rparr> in
         bindE (write_collection_profile (snd row) p db) (\<lambda>db1.
         let db2 = (if cv_name old \<noteq> name then rename_node i name db1 else db1);
             db3 = log_event (CollectionUpdated i revision changes) user w db2 in
         bindE (resolve_headers db3 w (cv_parent old) []) (\<lambda>inherited.
         bindE (resolve_inherited_target db3 w (cv_parent old)) (\<lambda>target.
         bindE (resolve_collection_path db3 (cv_parent old) path_prefix) (\<lambda>path.
         Inr (old\<lparr>cv_name := name, cv_description := description, cv_notes := notes, cv_prefix := path_prefix,
                cv_inherited_target := target, cv_effective_path := path, cv_headers := headers,
                cv_inherited_headers := inherited,
                cv_effective_headers := resolve_header_layers [inherited, headers],
                cv_revision := revision\<rparr>, db3))))))))))))"

definition update_collection_headers ::
  "service_api \<Rightarrow> entity_id \<Rightarrow> entity_id \<Rightarrow> nat \<Rightarrow> request_field list \<Rightarrow> request_db
     \<Rightarrow> service_error + (collection_view \<times> request_db)" where
  "update_collection_headers sv user i expected headers db =
     bindE (collection_row_of db i) (\<lambda>row.
     let old = map_collection row in
     update_collection sv user i expected (cv_name old) headers (cv_prefix old) (cv_description old) (cv_notes old) db)"

section \<open>Deletion\<close>

text \<open>\<open>#detachAndDeleteRequestHistory\<close>\<close>

definition detach_executions :: "entity_id set \<Rightarrow> request_db \<Rightarrow> request_db" where
  "detach_executions requests db =
     db\<lparr>rq_executions := map (\<lambda>x. case xr_request x of
          None \<Rightarrow> x
        | Some r \<Rightarrow> if r \<in> requests then x\<lparr>xr_request := None, xr_revision := None\<rparr> else x) (rq_executions db)\<rparr>"

definition detach_parents :: "entity_id set \<Rightarrow> request_db \<Rightarrow> request_db" where
  "detach_parents requests db =
     db\<lparr>rq_revisions := map (\<lambda>v. if rn_request v \<in> requests then v\<lparr>rn_parent := None\<rparr> else v) (rq_revisions db)\<rparr>"

definition delete_revisions :: "entity_id set \<Rightarrow> request_db \<Rightarrow> service_error + request_db" where
  "delete_revisions requests db =
     (let removed = rn_id ` set (filter (\<lambda>v. rn_request v \<in> requests) (rq_revisions db)) in
      settled (db\<lparr>rq_revisions := filter (\<lambda>v. rn_request v \<notin> requests) (rq_revisions db),
        rq_versions := filter (\<lambda>v. vn_revision v \<notin> removed) (rq_versions db),
        rq_captures := filter (\<lambda>c. ce_revision c \<notin> removed) (rq_captures db)\<rparr>))"

definition delete_request_history :: "entity_id list \<Rightarrow> request_db \<Rightarrow> service_error + request_db" where
  "delete_request_history requests db =
     (if requests = [] then Inr db
      else delete_revisions (set requests) (detach_parents (set requests) (detach_executions (set requests) db)))"

text \<open>\<open>#deleteVariableProfiles\<close>\<close>

definition node_profile :: "entity_id set \<Rightarrow> profile \<Rightarrow> bool" where
  "node_profile ids p \<longleftrightarrow> (vp_scope_kind p = ScopeCollection \<or> vp_scope_kind p = ScopeRequest) \<and> vp_scope_id p \<in> ids"

definition profile_secrets :: "profile \<Rightarrow> request_event list" where
  "profile_secrets p =
     concat (map (\<lambda>v. case va_content v of
         Secret n payload \<Rightarrow> [SecretVariableDeleted (vp_scope_kind p) (vp_scope_id p) (va_id v) n] | _ \<Rightarrow> [])
       (vp_variables p))"

definition delete_variable_profiles :: "entity_id \<Rightarrow> entity_id \<Rightarrow> entity_id list \<Rightarrow> request_db \<Rightarrow> request_db" where
  "delete_variable_profiles user w ids db =
     (if ids = [] then db
      else
        let profiles = ed_profiles (rq_env db);
            secrets = concat (map profile_secrets (filter (node_profile (set ids)) profiles));
            env = (rq_env db)\<lparr>ed_profiles := filter (\<lambda>p. \<not> node_profile (set ids) p) profiles\<rparr> in
        db\<lparr>rq_env := env, rq_audit := rq_audit db @ map (\<lambda>e. (e, user, w)) secrets\<rparr>)"

text \<open>The statement that deletes a tree row, with the rows that follow it.\<close>

definition remove_node :: "entity_id \<Rightarrow> request_db \<Rightarrow> service_error + request_db" where
  "remove_node i db =
     bindE (failing TreeRefused (delete_node i (rq_nodes db))) (\<lambda>nodes.
     settled (db\<lparr>rq_nodes := nodes, rq_profiles := filter (\<lambda>p. cp_id p \<noteq> i) (rq_profiles db),
       rq_drafts := filter (\<lambda>d. dr_id d \<noteq> i) (rq_drafts db),
       rq_versions := filter (\<lambda>v. vn_request v \<noteq> i) (rq_versions db),
       rq_captures := filter (\<lambda>c. ce_request c \<noteq> i) (rq_captures db)\<rparr>))"

definition compact_order ::
  "entity_id \<Rightarrow> entity_id option \<Rightarrow> nat \<Rightarrow> request_db \<Rightarrow> service_error + (nat \<times> request_db)" where
  "compact_order w parent deleted db =
     bindE (failing TreeRefused (compact_siblings w parent deleted (rq_nodes db))) (\<lambda>(revision, nodes).
     Inr (revision, db\<lparr>rq_nodes := nodes\<rparr>))"

record deletion_result =
  dl_parent :: "entity_id option"
  dl_collections :: "entity_id list"
  dl_requests :: "entity_id list"

definition delete_collection ::
  "entity_id \<Rightarrow> entity_id \<Rightarrow> nat \<Rightarrow> request_db \<Rightarrow> service_error + (deletion_result \<times> request_db)" where
  "delete_collection user i expected db =
     bindE (collection_row_of db i) (\<lambda>row.
     let w = tn_workspace (fst row); parent = tn_parent (fst row) in
     bindE (can_edit db user w) (\<lambda>_.
     if (case snd row of None \<Rightarrow> 0 | Some p \<Rightarrow> cp_revision p) \<noteq> expected then Inl CollectionChanged
     else
       bindE (failing TreeRefused (collection_descendants (rq_nodes db) w i)) (\<lambda>ds.
       let requests = map fst (filter (\<lambda>(j, k, d). k = RequestNode) ds);
           collections = map fst (filter (\<lambda>(j, k, d). k = CollectionNode) ds) in
       bindE (delete_request_history requests db) (\<lambda>db1.
       let db2 = delete_variable_profiles user w (map fst ds) db1 in
       bindE (foldE (\<lambda>x (j, k, d). remove_node j x) db2 (sort_key (\<lambda>(j, k, d). - int d) ds)) (\<lambda>db3.
       bindE (compact_order w parent (on_revision (fst row)) db3) (\<lambda>(revision, db4).
       Inr (\<lparr>dl_parent = parent, dl_collections = collections, dl_requests = requests\<rparr>,
         log_event (CollectionDeleted i parent (length collections) (length requests) revision) user w db4)))))))"

definition delete_request :: "entity_id \<Rightarrow> entity_id \<Rightarrow> nat \<Rightarrow> request_db \<Rightarrow> service_error + request_db" where
  "delete_request user i expected db =
     bindE (request_row_of db i) (\<lambda>(d, n).
     bindE (can_edit db user (tn_workspace n)) (\<lambda>_.
     if dr_revision d \<noteq> expected then Inl DraftChanged
     else
       bindE (delete_request_history [i] db) (\<lambda>db1.
       bindE (remove_node i (delete_variable_profiles user (tn_workspace n) [i] db1)) (\<lambda>db2.
       bindE (compact_order (tn_workspace n) (tn_parent n) (on_revision n) db2) (\<lambda>(revision, db3).
       Inr (log_event (RequestDeleted i (tn_parent n) revision) user (tn_workspace n) db3))))))"

section \<open>Requests\<close>

text \<open>The view \<open>createRequest\<close> and \<open>update\<close> assemble from the content they stored.\<close>

definition assembled_target ::
  "request_db \<Rightarrow> entity_id \<Rightarrow> entity_id option \<Rightarrow> request_content \<Rightarrow> service_error + string" where
  "assembled_target db w parent c =
     (if rc_target_mode c = ComposedTarget
      then bindE (target_components db w parent (rc_target_mode c) (rc_target c)) (\<lambda>cs.
        Inr (join_target_components (butlast cs)))
      else Inr [])"

record request_input = execution_input +
  ri_name :: string
  ri_description :: string
  ri_notes :: string

definition create_request ::
  "service_api \<Rightarrow> entity_id \<Rightarrow> entity_id \<Rightarrow> entity_id option \<Rightarrow> request_input \<Rightarrow> variable_write list
     \<Rightarrow> request_db \<Rightarrow> service_error + (request_view \<times> request_db)" where
  "create_request sv user w parent input variables db =
     bindE (failing ContentRefused (normalize_input (sv_content sv) (execution_input.truncate input))) (\<lambda>c.
     bindE (accepted_name (ri_name input)) (\<lambda>name.
     bindE (accepted_description (ri_description input)) (\<lambda>description.
     bindE (accepted_notes (ri_notes input)) (\<lambda>notes.
     bindE (can_edit db user w) (\<lambda>_.
     bindE (valid_parent db w parent) (\<lambda>_.
     let i = sv_ids sv 0 in
     bindE (add_node i w parent RequestNode name db) (\<lambda>(n, db1).
     bindE (add_draft (draft_of_content i 0 c description notes) db1) (\<lambda>db2.
     bindE (if variables = [] then Inr db2
            else write_variables sv 0 False user ScopeRequest i 0 variables db2) (\<lambda>db3.
     let db4 = log_event (RequestCreated i parent None) user w db3 in
     bindE (request_row_of db4 i) (\<lambda>row.
     bindE (ensure_revision sv (sv_ids sv 1) row user ManualSave None None db4) (\<lambda>(revision, db5).
     bindE (resolve_headers db5 w parent []) (\<lambda>inherited.
     bindE (assembled_target db5 w parent c) (\<lambda>target.
     Inr (request_content.extend c (request_view.fields i w parent name description notes target inherited 0 None),
       db5))))))))))))))"

definition get_request :: "content_api \<Rightarrow> entity_id \<Rightarrow> entity_id \<Rightarrow> request_db \<Rightarrow> service_error + request_view" where
  "get_request api user i db =
     bindE (request_row_of db i) (\<lambda>row.
     bindE (can_read db user (tn_workspace (snd row))) (\<lambda>_. request_view_of api db row))"

text \<open>Whether a draft already holds what an update would store.\<close>

definition same_draft :: "request_row \<Rightarrow> string \<Rightarrow> request_draft \<Rightarrow> bool" where
  "same_draft row name new =
     (case row of (d, n) \<Rightarrow>
        tn_name n = name \<and> dr_description d = dr_description new \<and> dr_notes d = dr_notes new \<and>
        dr_method d = dr_method new \<and> dr_target_mode d = dr_target_mode new \<and> dr_target d = dr_target new \<and>
        dr_query d = dr_query new \<and> dr_headers d = dr_headers new \<and> dr_body d = dr_body new \<and>
        dr_pre_script d = dr_pre_script new \<and> dr_post_script d = dr_post_script new \<and>
        dr_redirect d = dr_redirect new \<and> dr_cookie d = dr_cookie new)"

definition set_draft :: "request_draft \<Rightarrow> request_db \<Rightarrow> request_db" where
  "set_draft d db = db\<lparr>rq_drafts := map (\<lambda>x. if dr_id x = dr_id d then d else x) (rq_drafts db)\<rparr>"

definition update_request ::
  "service_api \<Rightarrow> entity_id \<Rightarrow> entity_id \<Rightarrow> nat \<Rightarrow> request_input \<Rightarrow> (nat \<times> variable_write list) option
     \<Rightarrow> request_db \<Rightarrow> service_error + (request_view \<times> request_db)" where
  "update_request sv user i expected input variables db =
     bindE (accepted_name (ri_name input)) (\<lambda>name.
     bindE (accepted_description (ri_description input)) (\<lambda>description.
     bindE (accepted_notes (ri_notes input)) (\<lambda>notes.
     bindE (failing ContentRefused (normalize_input (sv_content sv) (execution_input.truncate input))) (\<lambda>c.
     bindE (request_row_of db i) (\<lambda>row.
     let w = tn_workspace (snd row); parent = tn_parent (snd row) in
     bindE (can_edit db user w) (\<lambda>_.
     if dr_revision (fst row) \<noteq> expected then Inl DraftChanged
     else
       bindE (case variables of
                None \<Rightarrow> Inr db
              | Some (revision, writes) \<Rightarrow> write_variables sv 0 False user ScopeRequest i revision writes db) (\<lambda>db1.
       let new = draft_of_content i (expected + 1) c description notes in
       if same_draft row name new
       then
         bindE (ensure_revision sv (sv_ids sv 0) row user ManualSave None None db1) (\<lambda>(revision, db2).
         bindE (request_view_of (sv_content sv) db2 row) (\<lambda>v. Inr (v, db2)))
       else
         let db2 = log_event (DraftUpdated i (expected + 1)) user w (set_draft new (rename_node i name db1)) in
         bindE (request_view_of (sv_content sv) db2 row) (\<lambda>old.
         bindE (assembled_target db2 w parent c) (\<lambda>target.
         bindE (ensure_revision sv (sv_ids sv 0) (new, (snd row)\<lparr>tn_name := name\<rparr>) user ManualSave None None db2)
           (\<lambda>(revision, db3).
         Inr (request_content.extend c (request_view.fields (vw_id old) (vw_workspace old) (vw_parent old) name
                description notes target (vw_inherited_headers old) (expected + 1) (vw_capture old)), db3)))))))))))"

definition duplicate_request ::
  "service_api \<Rightarrow> entity_id \<Rightarrow> entity_id \<Rightarrow> string \<Rightarrow> request_db \<Rightarrow> service_error + (request_view \<times> request_db)" where
  "duplicate_request sv user i name db =
     bindE (accepted_name name) (\<lambda>name.
     bindE (request_row_of db i) (\<lambda>(d, n).
     let w = tn_workspace n; parent = tn_parent n; j = sv_ids sv 0 in
     bindE (can_edit db user w) (\<lambda>_.
     bindE (failing TreeRefused (insert_after i j w parent name (rq_nodes db))) (\<lambda>(revision, nodes).
     bindE (add_draft (d\<lparr>dr_id := j, dr_revision := 0\<rparr>) (db\<lparr>rq_nodes := nodes\<rparr>)) (\<lambda>db1.
     bindE (failing VariableRefused (clone_request_profile (sv_profile_ids sv 0) (sv_variable_ids sv 0) user w i j
              (rq_env db1))) (\<lambda>env.
     let db2 = log_event (RequestDuplicated j i parent revision) user w (db1\<lparr>rq_env := env\<rparr>) in
     bindE (request_row_of db2 j) (\<lambda>row.
     bindE (request_view_of (sv_content sv) db2 row) (\<lambda>v. Inr (v, db2)))))))))"

section \<open>Revisions\<close>

definition list_revisions :: "entity_id \<Rightarrow> entity_id \<Rightarrow> request_db \<Rightarrow> service_error + revision_summary list" where
  "list_revisions user i db =
     bindE (request_row_of db i) (\<lambda>row.
     bindE (can_read db user (tn_workspace (snd row))) (\<lambda>_.
     Inr (concat (map (\<lambda>v. case summary_of db v of None \<Rightarrow> [] | Some s \<Rightarrow> [s])
       (newest_first (filter (\<lambda>v. rn_request v = i) (rq_revisions db)))))))"

definition get_revision ::
  "content_api \<Rightarrow> entity_id \<Rightarrow> entity_id \<Rightarrow> entity_id \<Rightarrow> request_db
     \<Rightarrow> service_error + (revision_summary \<times> request_view)" where
  "get_revision api user i r db =
     bindE (request_row_of db i) (\<lambda>row.
     bindE (can_read db user (tn_workspace (snd row))) (\<lambda>_.
     bindE (revision_row_of db i r) (\<lambda>v.
     bindE (parse_revision_content api (rn_content v)) (\<lambda>c.
     bindE (revision_summary_of db i r) (\<lambda>s.
     bindE (revision_request_view api row c) (\<lambda>view. Inr (s, view)))))))"

definition set_version_name ::
  "service_api \<Rightarrow> entity_id \<Rightarrow> entity_id \<Rightarrow> string \<Rightarrow> request_db \<Rightarrow> service_error + request_db" where
  "set_version_name sv i r name db =
     (if list_ex (\<lambda>x. vn_revision x = r) (rq_versions db)
      then settled (db\<lparr>rq_versions := map (\<lambda>x. if vn_revision x = r
             then x\<lparr>vn_name := name, vn_key := js_lower name\<rparr> else x) (rq_versions db)\<rparr>)
      else settled (db\<lparr>rq_versions := rq_versions db @ [\<lparr>vn_id = sv_ids sv 0, vn_request = i, vn_revision = r,
             vn_name = name, vn_key = js_lower name\<rparr>]\<rparr>))"

definition name_revision ::
  "service_api \<Rightarrow> entity_id \<Rightarrow> entity_id \<Rightarrow> entity_id \<Rightarrow> string option \<Rightarrow> request_db
     \<Rightarrow> service_error + (revision_summary \<times> request_db)" where
  "name_revision sv user i r name db =
     bindE (request_row_of db i) (\<lambda>row.
     let w = tn_workspace (snd row) in
     bindE (can_edit db user w) (\<lambda>_.
     bindE (revision_row_of db i r) (\<lambda>v.
     bindE (case name of
              None \<Rightarrow> Inr (db\<lparr>rq_versions := filter (\<lambda>x. vn_revision x \<noteq> r) (rq_versions db)\<rparr>)
            | Some s \<Rightarrow> bindE (accepted_name s) (\<lambda>s'. set_version_name sv i r s' db)) (\<lambda>db1.
     let db2 = log_event (RevisionNamed i r (name \<noteq> None)) user w db1 in
     bindE (revision_summary_of db2 i r) (\<lambda>s. Inr (s, db2))))))"

text \<open>The input a restored revision is saved with.\<close>

definition restored_input :: "revision_content \<Rightarrow> request_view \<Rightarrow> request_input" where
  "restored_input c current =
     execution_input.extend
       \<lparr>xi_method = method_name (rc_method c), xi_target_mode = Some (rc_target_mode c), xi_target = rc_target c,
        xi_query = rc_query c, xi_headers = coalesce (vc_local c) (rc_headers current),
        xi_request_body = Some (rc_request_body c), xi_body = rc_body c,
        xi_pre_script = Some (rc_pre_script c), xi_post_script = Some (rc_post_script c),
        xi_redirect = Some (redirect_override_json (rc_redirect c)),
        xi_cookie = Some (cookie_override_json (rc_cookie c))\<rparr>
       \<lparr>ri_name = coalesce (vc_name c) (vw_name current), ri_description = vc_description c,
        ri_notes = vc_notes c\<rparr>"

definition restore_revision ::
  "service_api \<Rightarrow> entity_id \<Rightarrow> entity_id \<Rightarrow> entity_id \<Rightarrow> nat \<Rightarrow> request_db
     \<Rightarrow> service_error + (request_view \<times> request_db)" where
  "restore_revision sv user i r expected db =
     bindE (revision_row_of db i r) (\<lambda>v.
     bindE (parse_revision_content (sv_content sv) (rn_content v)) (\<lambda>c.
     bindE (get_request (sv_content sv) user i db) (\<lambda>current.
     update_request sv user i expected (restored_input c current) None db)))"

end
