(* ===== verification/Request_Imports.thy ===== *)
theory Request_Imports
  imports Request_Service
begin

text \<open>
  Applying an import plan (\<open>importRequests\<close> and \<open>validateCapturedExchange\<close> in
  \<open>apps/backend/src/requests/request-service.ts\<close>): one collection, its nested collections in an order in
  which parents come first, and the requests with their first revision and recorded responses.
\<close>

section \<open>Plans\<close>

record imported_collection =
  ik_key :: string
  ik_parent :: "string option"
  ik_name :: string
  ik_description :: string
  ik_notes :: string
  ik_prefix :: string
  ik_variables :: "variable_write list"

record imported_request = request_input +
  im_item :: string
  im_collection :: "string option"
  im_variables :: "variable_write list"
  im_capture :: "imported_capture option"
  im_captures :: "imported_capture list option"

record import_options =
  io_provider :: string
  io_name :: string
  io_description :: string
  io_notes :: string
  io_prefix :: string
  io_variables :: "variable_write list"
  io_collections :: "imported_collection list"
  io_requests :: "imported_request list"

record import_item =
  it_request :: imported_request
  it_name :: string
  it_description :: string
  it_notes :: string
  it_content :: request_content
  it_captures :: "imported_capture list"

record import_result =
  ir_collection :: entity_id
  ir_collections :: "(entity_id \<times> entity_id option) list"
  ir_requests :: "request_view list"

section \<open>Validation\<close>

definition source_char :: "char \<Rightarrow> bool" where
  "source_char c \<longleftrightarrow> (let n = of_char c :: nat in (48 \<le> n \<and> n \<le> 57) \<or> (97 \<le> n \<and> n \<le> 122))"

text \<open>\<open>/^[a-z0-9]+(?:[.-][a-z0-9]+)*$/\<close>: nonempty segments between dots and hyphens.\<close>

definition valid_source :: "string \<Rightarrow> bool" where
  "valid_source s \<longleftrightarrow> list_all (\<lambda>seg. seg \<noteq> [] \<and> list_all source_char seg)
     (split_on CHR ''.'' (map (\<lambda>c. if c = CHR ''-'' then CHR ''.'' else c) s))"

definition MAX_SAFE_INTEGER :: int where
  "MAX_SAFE_INTEGER = 9007199254740991"

definition validate_capture :: "(string \<Rightarrow> int option) \<Rightarrow> imported_capture \<Rightarrow> service_error + imported_capture" where
  "validate_capture date c =
     (if \<not> valid_source (ce_source c) \<or> int (length (ce_source c)) > 100
        \<or> ce_status c < 100 \<or> ce_status c > 599 \<or> int (length (ce_status_text c)) > 1024
        \<or> (case ce_label c of None \<Rightarrow> False | Some s \<Rightarrow> js_trim s = [] \<or> int (length s) > 200)
        \<or> int (length (ce_body c)) > 262144 \<or> \<bar>ce_bytes c\<bar> > MAX_SAFE_INTEGER \<or> ce_bytes c < 0
        \<or> (case ce_content_type c of None \<Rightarrow> False | Some s \<Rightarrow> int (length s) > 512)
        \<or> (case ic_recorded c of None \<Rightarrow> False | Some s \<Rightarrow> date s = None)
        \<or> int (length (ce_headers c)) > 2000
        \<or> list_ex (\<lambda>(n, v). int (length n) > 8192 \<or> int (length v) > 65536) (ce_headers c)
      then Inl CaptureInvalid else Inr c)"

definition validate_imported_collection ::
  "content_api \<Rightarrow> imported_collection \<Rightarrow> service_error + imported_collection" where
  "validate_imported_collection api c =
     bindE (accepted_name (ik_name c)) (\<lambda>name.
     bindE (accepted_description (ik_description c)) (\<lambda>description.
     bindE (accepted_notes (ik_notes c)) (\<lambda>notes.
     bindE (failing ContentRefused (validate_collection_target api (ik_prefix c))) (\<lambda>path_prefix.
     Inr (c\<lparr>ik_name := name, ik_description := description, ik_notes := notes, ik_prefix := path_prefix\<rparr>)))))"

definition validate_imported_request :: "service_api \<Rightarrow> imported_request \<Rightarrow> service_error + import_item" where
  "validate_imported_request sv x =
     bindE (accepted_name (ri_name x)) (\<lambda>name.
     bindE (accepted_description (ri_description x)) (\<lambda>description.
     bindE (accepted_notes (ri_notes x)) (\<lambda>notes.
     bindE (failing ContentRefused (normalize_input (sv_content sv) (execution_input.truncate x))) (\<lambda>c.
     bindE (mapE (validate_capture (sv_date sv))
              (coalesce (im_captures x) (case im_capture x of None \<Rightarrow> [] | Some e \<Rightarrow> [e]))) (\<lambda>captures.
     Inr \<lparr>it_request = x, it_name = name, it_description = description, it_notes = notes, it_content = c,
       it_captures = captures\<rparr>)))))"

section \<open>Rows\<close>

definition import_collection_rows ::
  "service_api \<Rightarrow> nat \<Rightarrow> entity_id \<Rightarrow> entity_id \<Rightarrow> entity_id option \<Rightarrow> string \<Rightarrow> imported_collection
     \<Rightarrow> request_db \<Rightarrow> service_error + request_db" where
  "import_collection_rows sv k user w parent provider c db =
     (let i = sv_ids sv k in
      bindE (add_node i w parent CollectionNode (ik_name c) db) (\<lambda>(n, db1).
      bindE (if ik_prefix c \<noteq> [] \<or> ik_description c \<noteq> [] \<or> ik_notes c \<noteq> []
             then add_profile \<lparr>cp_id = i, cp_revision = 1, cp_description = ik_description c, cp_notes = ik_notes c,
                    cp_headers = [], cp_prefix = ik_prefix c\<rparr> db1
             else Inr db1) (\<lambda>db2.
      bindE (if ik_variables c = [] then Inr db2
             else write_variables sv k True user ScopeCollection i 0 (ik_variables c) db2) (\<lambda>db3.
      Inr (log_event (CollectionCreated i parent (Some provider)) user w db3)))))"

definition creatable :: "(string \<times> entity_id) list \<Rightarrow> imported_collection \<Rightarrow> bool" where
  "creatable keys c \<longleftrightarrow> (case ik_parent c of None \<Rightarrow> True | Some p \<Rightarrow> map_of keys p \<noteq> None)"

text \<open>The loop over the pending collections: the first one whose parent exists is created next.\<close>

function import_collections ::
  "service_api \<Rightarrow> entity_id \<Rightarrow> entity_id \<Rightarrow> string \<Rightarrow> entity_id \<Rightarrow> imported_collection list
     \<Rightarrow> nat \<times> (string \<times> entity_id) list \<times> (entity_id \<times> entity_id option) list \<times> request_db
     \<Rightarrow> service_error + (nat \<times> (string \<times> entity_id) list \<times> (entity_id \<times> entity_id option) list \<times> request_db)" where
  "import_collections sv user w provider root pending (k, keys, created, db) =
     (if pending = [] then Inr (k, keys, created, db)
      else (case dropWhile (\<lambda>c. \<not> creatable keys c) pending of
          [] \<Rightarrow> Inl ImportHierarchyInvalid
        | c # rest \<Rightarrow>
            let parent = (case ik_parent c of None \<Rightarrow> root | Some p \<Rightarrow> the (map_of keys p)) in
            bindE (import_collection_rows sv k user w (Some parent) provider c db) (\<lambda>db'.
            import_collections sv user w provider root (takeWhile (\<lambda>c. \<not> creatable keys c) pending @ rest)
              (k + 1, AList.update (ik_key c) (sv_ids sv k) keys, created @ [(sv_ids sv k, Some parent)], db'))))"
  by pat_completeness auto
termination
proof (relation "measure (\<lambda>(sv, user, w, provider, root, pending, st). length pending)", goal_cases)
  case (2 sv user w provider root pending k keys created db c rest parent db')
  have "length pending = length (takeWhile (\<lambda>c. \<not> creatable keys c) pending) +
      length (dropWhile (\<lambda>c. \<not> creatable keys c) pending)"
    by (metis length_append takeWhile_dropWhile_id)
  with 2 show ?case by simp
qed simp

definition import_capture_row ::
  "service_api \<Rightarrow> nat \<Rightarrow> entity_id \<Rightarrow> entity_id \<Rightarrow> entity_id \<Rightarrow> imported_capture \<Rightarrow> capture_row" where
  "import_capture_row sv k w request revision c =
     captured_exchange.extend (captured_exchange.truncate c)
       \<lparr>ce_recorded = (case ic_recorded c of None \<Rightarrow> None | Some s \<Rightarrow> sv_date sv s), ce_id = sv_ids sv k,
        ce_workspace = w, ce_request = request, ce_revision = revision, ce_imported = sv_now sv\<rparr>"

definition import_capture ::
  "service_api \<Rightarrow> entity_id \<Rightarrow> entity_id \<Rightarrow> entity_id \<Rightarrow> nat \<times> request_db \<Rightarrow> imported_capture
     \<Rightarrow> service_error + (nat \<times> request_db)" where
  "import_capture sv w request revision st c =
     (case st of (k, db) \<Rightarrow>
        bindE (settled (db\<lparr>rq_captures := rq_captures db @ [import_capture_row sv k w request revision c]\<rparr>)) (\<lambda>db'.
        Inr (k + 1, db')))"

definition import_request ::
  "service_api \<Rightarrow> entity_id \<Rightarrow> entity_id \<Rightarrow> string \<Rightarrow> entity_id \<Rightarrow> (string \<times> entity_id) list
     \<Rightarrow> nat \<times> request_view list \<times> request_db \<Rightarrow> import_item
     \<Rightarrow> service_error + (nat \<times> request_view list \<times> request_db)" where
  "import_request sv user w provider root keys st x =
     (case st of (k, created, db) \<Rightarrow>
        bindE (case im_collection (it_request x) of
                 None \<Rightarrow> Inr root
               | Some key \<Rightarrow> (case map_of keys key of None \<Rightarrow> Inl ImportCollectionMissing | Some p \<Rightarrow> Inr p)) (\<lambda>parent.
        let i = sv_ids sv k in
        bindE (add_node i w (Some parent) RequestNode (it_name x) db) (\<lambda>(n, db1).
        bindE (add_draft (draft_of_content i 0 (it_content x) (it_description x) (it_notes x)) db1) (\<lambda>db2.
        bindE (if im_variables (it_request x) = [] then Inr db2
               else write_variables sv k True user ScopeRequest i 0 (im_variables (it_request x)) db2) (\<lambda>db3.
        let db4 = log_event (RequestCreated i (Some parent) (Some (provider, im_item (it_request x)))) user w db3 in
        bindE (request_row_of db4 i) (\<lambda>row.
        bindE (ensure_revision sv (sv_ids sv (k + 1)) row user ManualSave None None db4) (\<lambda>(revision, db5).
        bindE (foldE (import_capture sv w i revision) (k + 2, db5) (it_captures x)) (\<lambda>(k', db6).
        bindE (request_view_of (sv_content sv) db6 row) (\<lambda>v. Inr (k', created @ [v], db6))))))))))"

definition import_requests ::
  "service_api \<Rightarrow> entity_id \<Rightarrow> entity_id \<Rightarrow> entity_id option \<Rightarrow> import_options \<Rightarrow> request_db
     \<Rightarrow> service_error + (import_result \<times> request_db)" where
  "import_requests sv user w parent options db =
     bindE (requireE (io_requests options \<noteq> [] \<and> length (io_requests options) \<le> 200) ImportSizeInvalid) (\<lambda>_.
     bindE (validate_imported_collection (sv_content sv) \<lparr>ik_key = [], ik_parent = None, ik_name = io_name options,
              ik_description = io_description options, ik_notes = io_notes options, ik_prefix = io_prefix options,
              ik_variables = io_variables options\<rparr>) (\<lambda>top.
     bindE (mapE (validate_imported_collection (sv_content sv)) (io_collections options)) (\<lambda>collections.
     bindE (mapE (validate_imported_request sv) (io_requests options)) (\<lambda>requests.
     bindE (can_edit db user w) (\<lambda>_.
     bindE (valid_parent db w parent) (\<lambda>_.
     let root = sv_ids sv 0; provider = io_provider options in
     bindE (import_collection_rows sv 0 user w parent provider top db) (\<lambda>db1.
     bindE (import_collections sv user w provider root collections (1, [], [(root, parent)], db1))
       (\<lambda>(k, keys, created, db2).
     bindE (foldE (import_request sv user w provider root keys) (k, [], db2) requests) (\<lambda>(k', views, db3).
     Inr (\<lparr>ir_collection = root, ir_collections = created, ir_requests = views\<rparr>,
       log_event (ImportApplied provider root parent (length views)) user w db3))))))))))"

end
