(* ===== verification/Request_Preparation.thy ===== *)
theory Request_Preparation
  imports Request_Service
begin

text \<open>
  Preparing an execution from a saved request, one of its revisions or an unsaved request
  (\<open>prepareExecution\<close>, \<open>prepareRevisionExecution\<close>, \<open>prepareTemporaryExecution\<close> in
  \<open>apps/backend/src/requests/request-service.ts\<close>): the row of \<open>executions\<close> and the prepared execution
  that \<open>Execution_Chain\<close> runs. A member of the JSON snapshot is a column of the row.
\<close>

section \<open>Parts\<close>

definition evidence_revision :: "effective_profile \<Rightarrow> scope_kind \<Rightarrow> entity_id \<Rightarrow> nat" where
  "evidence_revision p kind i =
     (case find (\<lambda>(s, j, n). s = kind \<and> j = i) (ep_evidence p) of None \<Rightarrow> 0 | Some (s, j, n) \<Rightarrow> n)"

definition script_variable_write_targets ::
  "entity_id \<Rightarrow> entity_id option \<Rightarrow> entity_id option \<Rightarrow> effective_profile \<Rightarrow> write_targets" where
  "script_variable_write_targets w parent request p =
     (let target = (\<lambda>kind i. \<lparr>wt_kind = kind, wt_id = i, wt_revision = evidence_revision p kind i\<rparr>) in
      \<lparr>tt_workspace = target ScopeWorkspace w, tt_parent = map_option (target ScopeCollection) parent,
       tt_request = map_option (target ScopeRequest) request,
       tt_environment = map_option (target ScopeEnvironment) (ep_environment p)\<rparr>)"

record run_policies =
  rpl_redirect :: redirect_policy
  rpl_cookie :: bool
  rpl_mode :: cookie_mode

definition run_policies_of ::
  "request_db \<Rightarrow> entity_id \<Rightarrow> entity_id \<Rightarrow> redirect_override \<Rightarrow> cookie_override \<Rightarrow> service_error + run_policies" where
  "run_policies_of db user w redirect cookie =
     (let row = workspace_row (rq_env db) w; prefs = map_of (rq_preferences db) user in
      bindE (failing PolicyRefused (resolve_redirect_policy (map_option ws_redirect row) (map_option pr_redirect prefs)
               redirect)) (\<lambda>r.
      bindE (failing PolicyRefused (resolve_cookie_policy (map_option ws_cookie row) (map_option pr_cookie prefs)
               cookie)) (\<lambda>c.
      Inr \<lparr>rpl_redirect = r, rpl_cookie = c, rpl_mode = resolve_cookie_mode (rq_preferences db) user\<rparr>)))"

definition run_variables :: "effective_profile \<Rightarrow> resolved_variable list" where
  "run_variables p = map snd (ep_variables p)"

definition compose_run ::
  "service_api \<Rightarrow> request_db \<Rightarrow> effective_profile \<Rightarrow> snapshot \<Rightarrow> service_error + composed_request option" where
  "compose_run sv db p s =
     failing CompositionRefused (eagerly_composed (sv_content sv) (Some (rq_attachments db))
       (variable_map (run_variables p)) s)"

text \<open>The row, its audit event and the returned execution, common to the three operations.\<close>

record run_identity =
  ru_id :: entity_id
  ru_user :: entity_id
  ru_parent :: "entity_id option"
  ru_revision :: "entity_id option"
  ru_secret :: "bool option"

definition execution_row_of ::
  "service_api \<Rightarrow> run_identity \<Rightarrow> run_policies \<Rightarrow> effective_profile \<Rightarrow> snapshot \<Rightarrow> composed_request option
     \<Rightarrow> stored_execution" where
  "execution_row_of sv ru policies p s eager =
     execution_row.extend
       \<lparr>xr_id = ru_id ru, xr_workspace = sn_workspace s, xr_request = sn_request s, xr_revision = ru_revision ru,
        xr_root = ru_id ru, xr_sequence = 0, xr_state = ExecutionCreated,
        xr_snapshot = map_option cq_persisted eager, xr_status = None, xr_headers = None,
        xr_body_complete = False, xr_body_bytes = None, xr_error = None, xr_scripts = None, xr_redirect = None,
        xr_outgoing = None, xr_completed_at = None\<rparr>
       \<lparr>xe_by = ru_user ru, xe_template = (if eager = None then Some s else None),
        xe_redirect = rpl_redirect policies, xe_cookie = rpl_cookie policies, xe_cookie_mode = rpl_mode policies,
        xe_evidence = ep_evidence p,
        xe_references = (case eager of None \<Rightarrow> [] | Some c \<Rightarrow> cq_references c), xe_created = sv_now sv\<rparr>"

definition prepared_of ::
  "service_api \<Rightarrow> run_identity \<Rightarrow> run_policies \<Rightarrow> effective_profile \<Rightarrow> snapshot \<Rightarrow> composed_request option
     \<Rightarrow> prepared_execution" where
  "prepared_of sv ru policies p s eager =
     \<lparr>px_id = ru_id ru, px_root = ru_id ru, px_sequence = 0, px_revision = ru_revision ru, px_template = s,
      px_request = (case eager of None \<Rightarrow> s | Some c \<Rightarrow> cq_request c), px_variables = run_variables p,
      px_sources = ep_sources p, px_evidence = ep_evidence p,
      px_targets = script_variable_write_targets (sn_workspace s) (ru_parent ru) (sn_request s) p,
      px_post_request = None, px_materialized = (eager \<noteq> None), px_created = sv_now sv,
      px_redirect = rpl_redirect policies, px_cookie = rpl_cookie policies, px_cookie_mode = rpl_mode policies,
      px_cookie_environment = ep_cookie_environment p\<rparr>"

definition record_execution ::
  "service_api \<Rightarrow> run_identity \<Rightarrow> run_policies \<Rightarrow> effective_profile \<Rightarrow> snapshot \<Rightarrow> composed_request option
     \<Rightarrow> request_db \<Rightarrow> service_error + (prepared_execution \<times> request_db)" where
  "record_execution sv ru policies p s eager db =
     bindE (settled (db\<lparr>rq_executions := rq_executions db @ [execution_row_of sv ru policies p s eager]\<rparr>)) (\<lambda>db'.
     Inr (prepared_of sv ru policies p s eager,
       log_event (ExecutionCreatedEvent (ru_id ru) (sn_request s) (ru_revision ru) (ru_secret ru)) (ru_user ru)
         (sn_workspace s) db'))"

definition secret_bearing :: "effective_profile \<Rightarrow> bool" where
  "secret_bearing p = list_ex (\<lambda>v. rv_kind v = KindSecret) (run_variables p)"

definition profile_for_run ::
  "request_db \<Rightarrow> entity_id \<Rightarrow> entity_id \<Rightarrow> entity_id option \<Rightarrow> entity_id option
     \<Rightarrow> service_error + effective_profile" where
  "profile_for_run db session w parent request =
     failing VariableRefused (effective_profile_of (rq_env db) (tree_nodes db) session w parent request)"

section \<open>The operations\<close>

definition run_snapshot ::
  "entity_id \<Rightarrow> entity_id option \<Rightarrow> request_content \<Rightarrow> request_field list \<Rightarrow> string list \<Rightarrow> snapshot" where
  "run_snapshot w request c headers components =
     strip_documentation
       \<lparr>sn_workspace = w, sn_request = request, sn_method = rc_method c, sn_target_mode = rc_target_mode c,
        sn_target = rc_target c, sn_components = Some components, sn_query = rc_query c, sn_headers = headers,
        sn_request_body = Some (rc_request_body c), sn_body = rc_body c,
        sn_body_present = (rc_request_body c \<noteq> BodyNone), sn_body_bytes = None,
        sn_pre_script = rc_pre_script c, sn_post_script = rc_post_script c, sn_redirect = None, sn_cookie = None\<rparr>"

definition prepare_execution ::
  "service_api \<Rightarrow> entity_id \<Rightarrow> entity_id \<Rightarrow> entity_id \<Rightarrow> request_db
     \<Rightarrow> service_error + (prepared_execution \<times> request_db)" where
  "prepare_execution sv user session i db =
     bindE (request_row_of db i) (\<lambda>row.
     bindE (map_request (sv_content sv) row) (\<lambda>v.
     let w = vw_workspace v; parent = vw_parent v in
     bindE (can_read db user w) (\<lambda>_.
     bindE (can_edit db user w) (\<lambda>_.
     bindE (resolve_headers db w parent (rc_headers v)) (\<lambda>resolved.
     bindE (profile_for_run db session w parent (Some i)) (\<lambda>p.
     bindE (target_components db w parent (rc_target_mode v) (rc_target v)) (\<lambda>components.
     let effective = with_body_content_type resolved (rc_request_body v) in
     bindE (run_policies_of db user w (rc_redirect v) (rc_cookie v)) (\<lambda>policies.
     let s = run_snapshot w (Some (vw_id v)) (request_content.truncate v) effective components in
     bindE (compose_run sv db p s) (\<lambda>eager.
     bindE (ensure_revision sv (sv_ids sv 0) row user ForExecution (Some effective) (Some components) db)
       (\<lambda>(revision, db1).
     record_execution sv \<lparr>ru_id = sv_ids sv 1, ru_user = user, ru_parent = parent, ru_revision = Some revision,
       ru_secret = Some (secret_bearing p)\<rparr> policies p s eager db1))))))))))"

definition prepare_revision_execution ::
  "service_api \<Rightarrow> entity_id \<Rightarrow> entity_id \<Rightarrow> entity_id \<Rightarrow> entity_id \<Rightarrow> request_db
     \<Rightarrow> service_error + (prepared_execution \<times> request_db)" where
  "prepare_revision_execution sv user session i r db =
     bindE (request_row_of db i) (\<lambda>row.
     let w = tn_workspace (snd row); parent = tn_parent (snd row) in
     bindE (can_read db user w) (\<lambda>_.
     bindE (can_edit db user w) (\<lambda>_.
     bindE (revision_row_of db i r) (\<lambda>v.
     bindE (parse_revision_content (sv_content sv) (rn_content v)) (\<lambda>c.
     bindE (run_policies_of db user w (rc_redirect c) (rc_cookie c)) (\<lambda>policies.
     let s = run_snapshot w (Some i) (request_content.truncate c)
           (with_body_content_type (rc_headers c) (rc_request_body c)) (coalesce (vc_components c) [rc_target c]) in
     bindE (profile_for_run db session w parent (Some i)) (\<lambda>p.
     bindE (compose_run sv db p s) (\<lambda>eager.
     record_execution sv \<lparr>ru_id = sv_ids sv 0, ru_user = user, ru_parent = parent, ru_revision = Some r,
       ru_secret = None\<rparr> policies p s eager db))))))))"

definition prepare_temporary_execution ::
  "service_api \<Rightarrow> entity_id \<Rightarrow> entity_id \<Rightarrow> entity_id \<Rightarrow> entity_id option \<Rightarrow> execution_input
     \<Rightarrow> temporary_request option \<Rightarrow> request_db \<Rightarrow> service_error + (prepared_execution \<times> request_db)" where
  "prepare_temporary_execution sv user session w parent input temporary db =
     bindE (failing ContentRefused (normalize_input (sv_content sv) input)) (\<lambda>c.
     bindE (can_read db user w) (\<lambda>_.
     bindE (can_edit db user w) (\<lambda>_.
     bindE (valid_parent db w parent) (\<lambda>_.
     bindE (resolve_headers db w parent (rc_headers c)) (\<lambda>resolved.
     bindE (target_components db w parent (rc_target_mode c) (rc_target c)) (\<lambda>components.
     bindE (case temporary of
              None \<Rightarrow> profile_for_run db session w parent None
            | Some t \<Rightarrow> failing VariableRefused (effective_temporary_profile (sv_variable_ids sv 0) (rq_env db)
                (tree_nodes db) session w parent (tr_scope t) (tr_name t) (tr_writes t))) (\<lambda>p.
     bindE (run_policies_of db user w (rc_redirect c) (rc_cookie c)) (\<lambda>policies.
     let s = (run_snapshot w None c (with_body_content_type resolved (rc_request_body c)) components)
           \<lparr>sn_redirect := Some (rc_redirect c), sn_cookie := Some (rc_cookie c)\<rparr> in
     bindE (compose_run sv db p s) (\<lambda>eager.
     record_execution sv \<lparr>ru_id = sv_ids sv 0, ru_user = user, ru_parent = parent, ru_revision = None,
       ru_secret = Some (secret_bearing p)\<rparr> policies p s eager db)))))))))"

end
