(* ===== verification/Tree_Invariant.thy ===== *)
theory Tree_Invariant
  imports Request_Tree
begin

text \<open>
  The invariant of the tree of collections and requests and that each operation of \<open>Request_Tree\<close> keeps
  it without ever breaking a constraint of the table: identifiers are unique, a parent is a collection
  of the same workspace, the positions of siblings are contiguous from zero, and no collection is its
  own ancestor.
\<close>

section \<open>The invariant\<close>

definition parents_ok :: "ordered_node list \<Rightarrow> bool" where
  "parents_ok nodes \<longleftrightarrow> (\<forall>n \<in> set nodes. \<forall>p. tn_parent n = Some p \<longrightarrow>
     (\<exists>m \<in> set nodes. tn_id m = p \<and> tn_kind m = CollectionNode \<and> tn_workspace m = tn_workspace n))"

definition group_ok :: "ordered_node list \<Rightarrow> entity_id \<Rightarrow> entity_id option \<Rightarrow> bool" where
  "group_ok nodes w p \<longleftrightarrow>
     bij_betw on_position (set (siblings nodes w p)) {..<card (set (siblings nodes w p))}"

definition parent_edges :: "ordered_node list \<Rightarrow> (entity_id \<times> entity_id) set" where
  "parent_edges nodes = (\<Union>n \<in> set nodes. {(tn_id n, p) | p. tn_parent n = Some p})"

definition forest_ok :: "ordered_node list \<Rightarrow> bool" where
  "forest_ok nodes \<longleftrightarrow> distinct (map tn_id nodes) \<and> parents_ok nodes \<and> acyclic (parent_edges nodes)"

definition tree_ok :: "ordered_node list \<Rightarrow> bool" where
  "tree_ok nodes \<longleftrightarrow> forest_ok nodes \<and> (\<forall>w p. group_ok nodes w p)"

lemma tree_okD: "tree_ok nodes \<Longrightarrow> forest_ok nodes" "tree_ok nodes \<Longrightarrow> distinct (map tn_id nodes)"
    "tree_ok nodes \<Longrightarrow> parents_ok nodes" "tree_ok nodes \<Longrightarrow> group_ok nodes w p"
    "tree_ok nodes \<Longrightarrow> acyclic (parent_edges nodes)"
  by (simp_all add: tree_ok_def forest_ok_def)

lemma siblings_iff [simp]: "n \<in> set (siblings nodes w p) \<longleftrightarrow> n \<in> set nodes \<and> tn_workspace n = w \<and> tn_parent n = p"
  by (auto simp: siblings_def)

lemma node_row_iff:
  "distinct (map tn_id nodes) \<Longrightarrow> node_row nodes i = Some n \<longleftrightarrow> n \<in> set nodes \<and> tn_id n = i"
  unfolding node_row_def by (induction nodes) (auto simp: image_iff)

lemma node_row_None: "node_row nodes i = None \<longleftrightarrow> i \<notin> tn_id ` set nodes"
  by (auto simp: node_row_def find_None_iff)

lemma same_id: "distinct (map tn_id nodes) \<Longrightarrow> a \<in> set nodes \<Longrightarrow> b \<in> set nodes \<Longrightarrow> tn_id a = tn_id b \<Longrightarrow> a = b"
  by (auto simp: distinct_map inj_on_def)

lemma tree_table: "tree_ok nodes \<Longrightarrow> table_ok nodes"
proof -
  assume ok: "tree_ok nodes"
  have "slots_unique nodes"
    unfolding slots_unique_def sibling_slot_def
  proof clarsimp
    fix a b p
    assume a: "a \<in> set nodes" "b \<in> set nodes" "tn_id a \<noteq> tn_id b" "tn_parent a = Some p"
      "tn_workspace a = tn_workspace b" "tn_parent b = Some p" "on_position a = on_position b"
    then have "a \<in> set (siblings nodes (tn_workspace a) (Some p))" "b \<in> set (siblings nodes (tn_workspace a) (Some p))"
      by simp_all
    with tree_okD(4) [OF ok] a(7) have "a = b"
      unfolding group_ok_def bij_betw_def by (metis inj_onD)
    with a(3) show False by simp
  qed
  with ok show ?thesis
    by (fastforce simp: tree_ok_def forest_ok_def table_ok_def parents_ok_def parents_present_def split: option.splits)
qed

lemma checked_eq [simp]: "checked nodes = Inr nodes' \<longleftrightarrow> table_ok nodes \<and> nodes' = nodes"
  by (auto simp: checked_def)

lemma checked_ok [simp]: "table_ok nodes \<Longrightarrow> checked nodes = Inr nodes"
  by simp

section \<open>Positions in a list\<close>

lemma position_in_absent: "i \<notin> set ids \<Longrightarrow> position_in i ids = length ids"
  unfolding position_in_def by (induction ids) auto

lemma position_in_nth: "distinct ids \<Longrightarrow> k < length ids \<Longrightarrow> position_in (ids ! k) ids = k"
proof (induction ids arbitrary: k)
  case (Cons x xs)
  then show ?case by (cases k) (auto simp: position_in_def)
qed simp

lemma position_in_less: "i \<in> set ids \<Longrightarrow> position_in i ids < length ids \<and> ids ! position_in i ids = i"
  unfolding position_in_def by (induction ids) auto

lemma position_in_snoc: "position_in i (ids @ [j]) =
  (if i \<in> set ids then position_in i ids else if i = j then length ids else length ids + 1)"
  unfolding position_in_def by (induction ids) auto

lemma position_in_grows: "position_in i ids \<le> position_in i (ids @ [j])"
  unfolding position_in_def by (induction ids) auto

lemma position_in_bij: "distinct ids \<Longrightarrow> bij_betw (\<lambda>i. position_in i ids) (set ids) {..<length ids}"
  by (rule bij_betw_byWitness [where f' = "\<lambda>k. ids ! k"])
    (auto simp: position_in_less position_in_nth)

lemma set_insert_at [simp]: "set (insert_at k x xs) = insert x (set xs)"
  unfolding insert_at_def by (metis append_take_drop_id list.simps(15) set_append Un_insert_right)

lemma distinct_insert_at: "distinct (insert_at k x xs) \<longleftrightarrow> x \<notin> set xs \<and> distinct xs"
  unfolding insert_at_def
  by (subst (3 4) append_take_drop_id [of k xs, symmetric])
    (simp del: append_take_drop_id, blast)

lemma length_insert_at [simp]: "length (insert_at k x xs) = Suc (length xs)"
  by (simp add: insert_at_def)

text \<open>A group whose positions are those of a list of its identifiers.\<close>

definition in_order :: "ordered_node list \<Rightarrow> entity_id \<Rightarrow> entity_id option \<Rightarrow> entity_id list \<Rightarrow> bool" where
  "in_order nodes w p ids \<longleftrightarrow> distinct (map tn_id nodes) \<and> distinct ids \<and>
     tn_id ` set (siblings nodes w p) = set ids \<and>
     (\<forall>n \<in> set (siblings nodes w p). on_position n = position_in (tn_id n) ids)"

lemma in_order_group:
  assumes "in_order nodes w p ids"
  shows "group_ok nodes w p"
proof -
  note o = assms [unfolded in_order_def]
  let ?g = "set (siblings nodes w p)"
  have inj: "inj_on tn_id ?g" using o by (auto simp: inj_on_def intro: same_id)
  then have b: "bij_betw tn_id ?g (set ids)" using o by (simp add: bij_betw_def)
  have "card ?g = length ids" using card_image [OF inj] o distinct_card by metis
  with bij_betw_trans [OF b position_in_bij [OF conjunct1 [OF conjunct2 [OF o]]]] have
    "bij_betw ((\<lambda>i. position_in i ids) \<circ> tn_id) ?g {..<card ?g}" by simp
  then show ?thesis unfolding group_ok_def
    by (subst bij_betw_cong [of ?g on_position "(\<lambda>i. position_in i ids) \<circ> tn_id"])
      (use o in simp_all)
qed

lemma card_siblings: "distinct (map tn_id nodes) \<Longrightarrow> card (set (siblings nodes w p)) = length (siblings nodes w p)"
  by (rule distinct_card) (simp add: siblings_def distinct_map)

lemma below_next: "n \<in> set (siblings nodes w p) \<Longrightarrow> on_position n < next_position nodes w p"
  by (cases "siblings nodes w p") (auto simp: next_position_def less_Suc_eq_le simp del: siblings_iff)

text \<open>With contiguous positions the next position is the number of siblings.\<close>

lemma next_position_card:
  assumes "group_ok nodes w p"
  shows "next_position nodes w p = card (set (siblings nodes w p))"
proof (cases "siblings nodes w p")
  case (Cons a ns)
  let ?g = "set (siblings nodes w p)"
  have image: "on_position ` ?g = {..<card ?g}" using assms by (simp add: group_ok_def bij_betw_def)
  have "card ?g > 0" using Cons by (simp add: card_gt_0_iff)
  then have "Max {..<card ?g} = card ?g - 1" by (intro Max_eqI) auto
  then show ?thesis using Cons image \<open>card ?g > 0\<close> by (simp add: next_position_def)
qed (simp add: next_position_def)

section \<open>Writing a sibling order\<close>

definition placed ::
  "entity_id option \<Rightarrow> entity_id option \<Rightarrow> nat \<Rightarrow> entity_id list \<Rightarrow> ordered_node \<Rightarrow> ordered_node" where
  "placed p moved revision ids n =
     (if tn_id n \<in> set ids
      then n\<lparr>on_position := position_in (tn_id n) ids, on_revision := revision,
             tn_parent := (if moved = Some (tn_id n) then p else tn_parent n)\<rparr>
      else n)"

lemma placed_fields [simp]:
  "tn_id (placed p moved r ids n) = tn_id n" "tn_workspace (placed p moved r ids n) = tn_workspace n"
  "tn_kind (placed p moved r ids n) = tn_kind n" "tn_name (placed p moved r ids n) = tn_name n"
  by (simp_all add: placed_def)

lemma placed_truncate [simp]: "tree_node.truncate (placed p None r ids n) = tree_node.truncate n"
  by (simp add: placed_def tree_node.truncate_def)

text \<open>When rows can be written in this order: each sibling lies at or behind the place it gets.\<close>

definition placeable ::
  "entity_id \<Rightarrow> entity_id option \<Rightarrow> entity_id option \<Rightarrow> entity_id list \<Rightarrow> ordered_node list \<Rightarrow> bool" where
  "placeable w p moved ids nodes \<longleftrightarrow> distinct ids \<and> (\<forall>a. p = Some a \<longrightarrow> a \<in> tn_id ` set nodes) \<and>
     (\<forall>n \<in> set nodes. tn_workspace n = w \<and> tn_parent n = p \<longrightarrow> position_in (tn_id n) ids \<le> on_position n) \<and>
     (\<forall>n \<in> set nodes. tn_id n \<in> set ids \<longrightarrow>
        tn_workspace n = w \<and> (tn_parent n = p \<or> moved = Some (tn_id n)))"

lemma placed_table:
  assumes "table_ok nodes" and "placeable w p moved ids nodes"
  shows "table_ok (map (placed p moved r ids) nodes)"
proof -
  have ids: "map tn_id (map (placed p moved r ids) nodes) = map tn_id nodes" by (simp add: comp_def)
  have img: "tn_id ` placed p moved r ids ` set nodes = tn_id ` set nodes" by (auto simp: image_image)
  have "parents_present (map (placed p moved r ids) nodes)"
    unfolding parents_present_def set_map img
  proof (clarsimp split: option.split)
    fix n q
    assume n: "n \<in> set nodes" "tn_parent (placed p moved r ids n) = Some q"
    then have "tn_parent n = Some q \<or> p = Some q" by (auto simp: placed_def split: if_splits)
    with n(1) assms show "q \<in> tn_id ` set nodes"
      by (auto simp: table_ok_def parents_present_def placeable_def split: option.splits)
  qed
  moreover have "slots_unique (map (placed p moved r ids) nodes)"
    unfolding slots_unique_def sibling_slot_def
  proof (clarsimp, goal_cases)
    case (1 a b q)
    note g = this
    have slot: "tn_workspace n = w \<and> tn_parent (placed p moved r ids n) = p \<and>
        on_position (placed p moved r ids n) = position_in (tn_id n) ids \<and>
        position_in (tn_id n) ids < length ids \<and> ids ! position_in (tn_id n) ids = tn_id n"
      if "n \<in> set nodes" "tn_id n \<in> set ids" for n
      using that assms(2) position_in_less [OF that(2)] by (auto simp: placed_def placeable_def)
    have behind: "position_in (tn_id n) ids \<noteq> on_position m"
      if "n \<in> set nodes" "tn_id n \<in> set ids" "m \<in> set nodes" "tn_id m \<notin> set ids" "tn_workspace m = w" "tn_parent m = p" for n m
      using that assms(2) slot [OF that(1,2)] position_in_absent [OF that(4)] by (fastforce simp: placeable_def)
    show ?case
    proof (cases "tn_id a \<in> set ids"; cases "tn_id b \<in> set ids")
      assume "tn_id a \<in> set ids" "tn_id b \<in> set ids"
      with slot [OF g(1)] slot [OF g(2)] g show False by metis
    next
      assume "tn_id a \<in> set ids" "tn_id b \<notin> set ids"
      with slot [OF g(1)] behind [OF g(1) _ g(2)] g show False by (auto simp: placed_def)
    next
      assume "tn_id a \<notin> set ids" "tn_id b \<in> set ids"
      with slot [OF g(2)] behind [OF g(2) _ g(1)] g show False by (auto simp: placed_def)
    next
      assume "tn_id a \<notin> set ids" "tn_id b \<notin> set ids"
      with g assms(1) show False
        by (auto simp: placed_def table_ok_def slots_unique_def sibling_slot_def)
    qed
  qed
  ultimately show ?thesis using assms(1) by (simp add: table_ok_def ids del: map_map)
qed

lemma place_eq:
  assumes "table_ok nodes" and "placeable w p moved ids nodes"
  shows "place p moved r ids nodes = Inr (map (placed p moved r ids) nodes)"
  using assms
proof (induction ids rule: rev_induct)
  case Nil
  then show ?case by (simp add: place_def placed_def)
next
  case (snoc i ids)
  have "placeable w p moved ids nodes"
    using snoc.prems(2) order_trans [OF position_in_grows] unfolding placeable_def by fastforce
  note step = snoc.IH [OF snoc.prems(1) this]
  have i: "i \<notin> set ids" using snoc.prems(2) by (simp add: placeable_def)
  have "(if tn_id (placed p moved r ids n) = i then (placed p moved r ids n)\<lparr>on_position := length ids, on_revision := r,
      tn_parent := (if moved = Some i then p else tn_parent (placed p moved r ids n))\<rparr> else placed p moved r ids n)
    = placed p moved r (ids @ [i]) n" for n
    using i by (simp add: placed_def position_in_snoc)
  then show ?case
    using placed_table [OF snoc.prems] step
    by (simp add: place_def foldE_append enumerate_append_eq update_node_def comp_def)
qed

section \<open>Offsetting a sibling list\<close>

definition shifted :: "nat \<Rightarrow> entity_id set \<Rightarrow> ordered_node \<Rightarrow> ordered_node" where
  "shifted k is n = (if tn_id n \<in> is then n\<lparr>on_position := on_position n + k\<rparr> else n)"

lemma shifted_fields [simp]:
  "tn_id (shifted k is n) = tn_id n" "tn_workspace (shifted k is n) = tn_workspace n"
  "tn_parent (shifted k is n) = tn_parent n" "tn_kind (shifted k is n) = tn_kind n"
  "on_revision (shifted k is n) = on_revision n"
  by (simp_all add: shifted_def)

lemma shifted_table:
  assumes "table_ok nodes" and "\<And>n. n \<in> set nodes \<Longrightarrow> tn_id n \<in> is \<Longrightarrow> tn_workspace n = w \<and> tn_parent n = p"
  shows "table_ok (map (shifted (next_position nodes w p) is) nodes)"
proof -
  let ?k = "next_position nodes w p"
  have "slots_unique (map (shifted ?k is) nodes)"
    unfolding slots_unique_def sibling_slot_def
  proof (clarsimp, goal_cases)
    case (1 a b q)
    note g = this
    have far: "on_position m < on_position n + ?k"
      if "m \<in> set nodes" "n \<in> set nodes" "tn_id n \<in> is" "tn_workspace m = tn_workspace n" "tn_parent m = tn_parent n" for m n
      using that assms(2) [OF that(2,3)] below_next [of m nodes w p] by auto
    from g assms(1) have apart: "on_position a \<noteq> on_position b"
      unfolding table_ok_def slots_unique_def sibling_slot_def by (metis option.distinct(1) prod.inject)
    show False
      using g apart far [OF g(1,2)] far [OF g(2,1)] by (auto simp: shifted_def split: if_splits)
  qed
  then show ?thesis using assms(1)
    by (auto simp: table_ok_def parents_present_def comp_def image_image split: option.splits)
qed

lemma offset_eq:
  assumes "table_ok nodes"
  shows "offset_siblings w p nodes =
    Inr (map (shifted (next_position nodes w p) (tn_id ` set (siblings nodes w p))) nodes)"
proof -
  let ?k = "next_position nodes w p"
  have dist: "distinct (map tn_id (siblings nodes w p))"
    using assms by (auto simp: table_ok_def siblings_def distinct_map inj_on_def)
  have member: "tn_workspace n = w \<and> tn_parent n = p" if "n \<in> set nodes" "tn_id n \<in> tn_id ` set (siblings nodes w p)" for n
    using that assms by (auto simp: table_ok_def dest: same_id)
  have "foldE (\<lambda>ns i. update_node i (\<lambda>n. n\<lparr>on_position := on_position n + ?k\<rparr>) ns) nodes is =
      Inr (map (shifted ?k (set is)) nodes)"
    if "distinct is" "set is \<subseteq> tn_id ` set (siblings nodes w p)" for "is"
    using that
  proof (induction "is" rule: rev_induct)
    case Nil
    then show ?case by (simp add: shifted_def)
  next
    case (snoc i js)
    have "(if tn_id (shifted ?k (set js) n) = i then (shifted ?k (set js) n)\<lparr>on_position := on_position (shifted ?k (set js) n) + ?k\<rparr>
        else shifted ?k (set js) n) = shifted ?k (set (js @ [i])) n" for n
      using snoc.prems(1) by (simp add: shifted_def)
    moreover have "table_ok (map (shifted ?k (set (js @ [i]))) nodes)"
      by (rule shifted_table [OF assms]) (use snoc.prems(2) member in blast)
    ultimately show ?case
      using snoc by (simp add: foldE_append update_node_def comp_def)
  qed
  from this [of "map tn_id (siblings nodes w p)"] dist show ?thesis
    by (simp add: offset_siblings_def Let_def del: siblings_iff)
qed

section \<open>Groups under updates\<close>

lemma member_of_group:
  assumes "distinct (map tn_id nodes)" and "n \<in> set nodes" and "tn_id n \<in> tn_id ` set (siblings nodes w p)"
  shows "tn_workspace n = w \<and> tn_parent n = p"
  using assms by (auto dest: same_id)

lemma in_group:
  assumes "distinct (map tn_id nodes)" and "n \<in> set nodes"
  shows "tn_id n \<in> tn_id ` set (siblings nodes w p) \<longleftrightarrow> tn_workspace n = w \<and> tn_parent n = p"
proof
  assume "tn_workspace n = w \<and> tn_parent n = p"
  with assms(2) have "n \<in> set (siblings nodes w p)" by simp
  then show "tn_id n \<in> tn_id ` set (siblings nodes w p)" by (rule imageI)
qed (rule member_of_group [OF assms])

lemma other_group:
  assumes "distinct (map tn_id nodes)" and "n \<in> set (siblings nodes w' p')" and "(w', p') \<noteq> (w, p)"
  shows "tn_id n \<notin> tn_id ` set (siblings nodes w p)"
  using assms by (metis member_of_group siblings_iff)

lemma set_sibling_order [simp]: "set (sibling_order nodes w p) = set (siblings nodes w p)"
  by (simp add: sibling_order_def)

lemma distinct_sibling_ids: "distinct (map tn_id nodes) \<Longrightarrow> distinct (map tn_id (sibling_order nodes w p))"
  by (auto simp: sibling_order_def siblings_def distinct_map inj_on_def)

lemma in_order_ids:
  assumes "in_order nodes w p ids"
  shows "map tn_id (sibling_order nodes w p) = ids"
proof -
  note o = assms [unfolded in_order_def]
  let ?js = "map tn_id (sibling_order nodes w p)"
  have "map on_position (sibling_order nodes w p) = map (\<lambda>i. position_in i ids) ?js"
    using o by simp
  moreover have "sorted (map on_position (sibling_order nodes w p))" by (simp add: sibling_order_def)
  ultimately have "sorted (map (\<lambda>i. position_in i ids) ?js)" by metis
  moreover have "sorted (map (\<lambda>i. position_in i ids) ids)"
    using position_in_nth o by (simp add: sorted_iff_nth_mono)
  moreover have "inj_on (\<lambda>i. position_in i ids) (set ids)"
    using position_in_bij [of ids] o by (simp add: bij_betw_def)
  moreover have "distinct ?js" "set ?js = set ids"
    using distinct_sibling_ids [of nodes w p] o by simp_all
  ultimately show ?thesis
    using o by (intro map_sorted_distinct_set_unique [of "\<lambda>i. position_in i ids"]) (simp_all only: distinct_map Un_absorb)
qed

lemma siblings_of_map:
  "set (siblings (map f nodes) w p) = f ` {n \<in> set nodes. tn_workspace (f n) = w \<and> tn_parent (f n) = p}"
  by (auto simp: siblings_def)

lemma siblings_map:
  assumes "\<And>n. n \<in> set nodes \<Longrightarrow> tn_workspace (f n) = tn_workspace n \<and> tn_parent (f n) = tn_parent n"
  shows "set (siblings (map f nodes) w p) = f ` set (siblings nodes w p)"
  using assms by (fastforce simp: image_iff)

lemma siblings_fixed:
  assumes "\<And>n. n \<in> set nodes \<Longrightarrow> tn_workspace (f n) = tn_workspace n \<and> tn_parent (f n) = tn_parent n"
    and "\<And>n. n \<in> set (siblings nodes w p) \<Longrightarrow> f n = n"
  shows "set (siblings (map f nodes) w p) = set (siblings nodes w p)"
proof -
  have "f ` set (siblings nodes w p) = (\<lambda>n. n) ` set (siblings nodes w p)"
    by (rule image_cong [OF refl]) (rule assms(2))
  with siblings_map [of nodes f w p, OF assms(1)] show ?thesis by (simp only: image_ident)
qed

lemma group_same:
  assumes "set (siblings nodes' w p) = set (siblings nodes w p)"
  shows "group_ok nodes' w p = group_ok nodes w p"
  using assms by (simp only: group_ok_def)

lemma tree_ok_map:
  assumes "forest_ok nodes" and "\<And>w p. group_ok (map f nodes) w p"
    and "\<And>n. n \<in> set nodes \<Longrightarrow> tn_id (f n) = tn_id n \<and> tn_workspace (f n) = tn_workspace n \<and>
      tn_parent (f n) = tn_parent n \<and> tn_kind (f n) = tn_kind n"
  shows "tree_ok (map f nodes)"
proof -
  have ids: "map tn_id (map f nodes) = map tn_id nodes" using assms(3) by simp
  have "parent_edges (map f nodes) = parent_edges nodes"
    using assms(3) by (simp add: parent_edges_def cong: SUP_cong)
  moreover have "parents_ok (map f nodes)"
    unfolding parents_ok_def
  proof clarsimp
    fix n p assume n: "n \<in> set nodes" "tn_parent (f n) = Some p"
    with assms(1,3) obtain m where "m \<in> set nodes" "tn_id m = p" "tn_kind m = CollectionNode" "tn_workspace m = tn_workspace n"
      unfolding forest_ok_def parents_ok_def by metis
    with assms(3) n show "\<exists>m \<in> set nodes. tn_id (f m) = p \<and> tn_kind (f m) = CollectionNode \<and> tn_workspace (f m) = tn_workspace (f n)"
      by metis
  qed
  ultimately show ?thesis using assms(1,2) ids by (simp add: tree_ok_def forest_ok_def del: map_map)
qed

text \<open>Writing a group that keeps its members: the invariant holds if every other group was sound.\<close>

lemma placed_in_order:
  assumes "distinct (map tn_id nodes)" and "distinct ids" and "set ids = tn_id ` set (siblings nodes w p)"
  shows "in_order (map (placed q None r ids) nodes) w p ids"
  unfolding in_order_def
proof (intro conjI ballI)
  have img: "set (siblings (map (placed q None r ids) nodes) w p) = placed q None r ids ` set (siblings nodes w p)"
    by (rule siblings_map) (simp add: placed_def)
  show "distinct (map tn_id (map (placed q None r ids) nodes))" using assms(1) by (simp add: comp_def)
  show "tn_id ` set (siblings (map (placed q None r ids) nodes) w p) = set ids"
    using assms(3) by (simp add: img image_image del: siblings_iff)
  fix n assume "n \<in> set (siblings (map (placed q None r ids) nodes) w p)"
  then obtain a where a: "a \<in> set (siblings nodes w p)" "n = placed q None r ids a" unfolding img by blast
  then have "tn_id a \<in> set ids" unfolding assms(3) by blast
  with a(2) show "on_position n = position_in (tn_id n) ids" by (simp add: placed_def)
qed (rule assms(2))

lemma placed_group:
  assumes "distinct (map tn_id nodes)" and "distinct ids" and "set ids = tn_id ` set (siblings nodes w p)"
    and "\<And>w' p'. (w', p') \<noteq> (w, p) \<Longrightarrow> group_ok nodes w' p'"
  shows "group_ok (map (placed q None r ids) nodes) w' p'"
proof (cases "(w', p') = (w, p)")
  case True
  with in_order_group [OF placed_in_order [OF assms(1-3)]] show ?thesis by simp
next
  case False
  let ?f = "placed q None r ids"
  have "?f n = n" if n: "n \<in> set (siblings nodes w' p')" for n
  proof -
    from n False have "tn_id n \<notin> set ids"
      unfolding assms(3) by (rule other_group [OF assms(1)])
    then show ?thesis by (simp only: placed_def if_False)
  qed
  moreover have "tn_workspace (?f n) = tn_workspace n \<and> tn_parent (?f n) = tn_parent n" for n
    by (simp add: placed_def)
  ultimately have "set (siblings (map ?f nodes) w' p') = set (siblings nodes w' p')"
    by (intro siblings_fixed)
  from group_same [OF this] assms(4) [OF False] show ?thesis by simp
qed

lemma shifted_outside:
  assumes "distinct (map tn_id nodes)" and "(w', p') \<noteq> (w, p)"
  shows "set (siblings (map (shifted k (tn_id ` set (siblings nodes w p))) nodes) w' p') = set (siblings nodes w' p')"
proof (rule siblings_fixed)
  fix n assume n: "n \<in> set (siblings nodes w' p')"
  from other_group [OF assms(1) n assms(2)]
  show "shifted k (tn_id ` set (siblings nodes w p)) n = n" by (simp only: shifted_def if_False)
qed simp

section \<open>Reordering and compacting\<close>

lemma placed_shifted:
  "map (placed q None r ids) (map (shifted k (set ids)) nodes) = map (placed q None r ids) nodes"
  by (simp add: placed_def shifted_def)

text \<open>After the offset every sibling order can be written.\<close>

lemma rewrite_group:
  assumes "tree_ok nodes" and "distinct ids" and "set ids = tn_id ` set (siblings nodes w p)"
    and "\<forall>a. p = Some a \<longrightarrow> a \<in> tn_id ` set nodes"
  shows "bindE (offset_siblings w p nodes) (place p None r ids) = Inr (map (placed p None r ids) nodes)"
    and "tree_ok (map (placed p None r ids) nodes)"
proof -
  let ?k = "next_position nodes w p" and ?g = "tn_id ` set (siblings nodes w p)"
  let ?s = "shifted ?k ?g"
  have dist: "distinct (map tn_id nodes)" by (rule tree_okD(2) [OF assms(1)])
  have table: "table_ok (map ?s nodes)"
    by (rule shifted_table [OF tree_table [OF assms(1)]]) (use member_of_group [OF dist] in blast)
  have "length ids = card ?g" using assms(2,3) distinct_card by metis
  also have "\<dots> \<le> card (set (siblings nodes w p))" by (simp add: card_image_le)
  also have "\<dots> = ?k" by (rule next_position_card [symmetric]) (rule tree_okD(4) [OF assms(1)])
  finally have fits: "length ids \<le> ?k" .
  have "placeable w p None ids (map ?s nodes)"
    unfolding placeable_def
  proof (intro conjI ballI allI impI)
    fix n assume "n \<in> set (map ?s nodes)" "tn_workspace n = w \<and> tn_parent n = p"
    then obtain m where m: "n = ?s m" "m \<in> set (siblings nodes w p)" by auto
    have "position_in (tn_id m) ids < length ids" using position_in_less m(2) assms(3) by blast
    moreover have "?k \<le> on_position n" using m by (simp add: shifted_def del: siblings_iff)
    ultimately show "position_in (tn_id n) ids \<le> on_position n" using m(1) fits by simp
  next
    fix n assume n: "n \<in> set (map ?s nodes)" "tn_id n \<in> set ids"
    then obtain m where m: "n = ?s m" "m \<in> set nodes" by auto
    with n(2) have "tn_id m \<in> ?g" by (simp only: shifted_fields assms(3))
    from member_of_group [OF dist m(2) this] m(1)
    show "tn_workspace n = w" "tn_parent n = p \<or> None = Some (tn_id n)" by simp_all
  next
    fix a assume "p = Some a"
    with assms(4) show "a \<in> tn_id ` set (map ?s nodes)" by (simp add: image_image)
  qed (rule assms(2))
  from place_eq [OF table this]
  show "bindE (offset_siblings w p nodes) (place p None r ids) = Inr (map (placed p None r ids) nodes)"
    by (simp only: offset_eq [OF tree_table [OF assms(1)]] bindE_Inr assms(3) [symmetric] placed_shifted)
  show "tree_ok (map (placed p None r ids) nodes)"
    by (rule tree_ok_map [OF tree_okD(1) [OF assms(1)] placed_group [OF dist assms(2,3)]])
      (simp_all add: tree_okD(4) [OF assms(1)] placed_def)
qed

lemma validated_parent:
  assumes "distinct (map tn_id nodes)"
  shows "validate_parent nodes w (Some a) = Inr u \<longleftrightarrow>
     (\<exists>n \<in> set nodes. tn_id n = a \<and> tn_workspace n = w \<and> tn_kind n = CollectionNode)"
proof (cases "node_row nodes a")
  case None
  with None [unfolded node_row_None] show ?thesis by (simp add: validate_parent_def image_iff) blast
next
  case (Some n)
  with node_row_iff [OF assms] have "m = n" if "m \<in> set nodes" "tn_id m = a" for m using that by (metis option.inject)
  with Some node_row_iff [OF assms, of a n] show ?thesis by (auto simp: validate_parent_def)
qed

lemma highest_revision_Max: "highest_revision r rows = Max (insert r (on_revision ` set rows))"
proof (induction rows arbitrary: r)
  case (Cons n rows)
  have "highest_revision r (n # rows) = highest_revision (max r (on_revision n)) rows"
    by (simp add: highest_revision_def)
  then show ?case unfolding Cons.IH by (cases "rows = []") (simp_all add: max.assoc)
qed (simp add: highest_revision_def)

lemma highest_sibling_revision [simp]: "highest_revision 0 (sibling_order nodes w p) = current_order_revision nodes w p"
  by (simp add: highest_revision_Max current_order_revision_def)

lemma same_members:
  assumes "distinct xs" and "distinct ys" and "length ys = length xs" and "set ys \<subseteq> set xs"
  shows "set ys = set xs"
  using assms by (metis List.finite_set card_subset_eq distinct_card)

lemma sibling_ids: "set (map tn_id (sibling_order nodes w p)) = tn_id ` set (siblings nodes w p)"
  by simp

lemma reorder_ok:
  assumes ok: "tree_ok nodes" and accepted: "reorder_siblings w p expected ordered nodes = r"
  shows "r \<noteq> Inl ConstraintFailed"
    and "r = Inr (revision, changed, nodes') \<Longrightarrow>
      tree_ok nodes' \<and> map tn_id (sibling_order nodes' w p) = ordered \<and>
      expected = current_order_revision nodes w p \<and>
      (if changed then revision = expected + 1 \<and> nodes' = map (placed p None revision ordered) nodes
       else revision = expected \<and> nodes' = nodes)"
proof -
  let ?ids = "map tn_id (sibling_order nodes w p)"
  let ?stale = "current_order_revision nodes w p \<noteq> expected \<or> \<not> distinct ordered
    \<or> length ordered \<noteq> length ?ids \<or> list_ex (\<lambda>i. i \<notin> set ?ids) ordered"
  note dist = tree_okD(2) [OF ok]
  have parent: "\<forall>a. p = Some a \<longrightarrow> a \<in> tn_id ` set nodes" if "validate_parent nodes w p = Inr ()"
    using that by (auto simp: validated_parent [OF dist])
  have full: "distinct ordered" "set ordered = tn_id ` set (siblings nodes w p)" if "\<not> ?stale"
  proof -
    from that show "distinct ordered" by simp
    with that same_members [OF distinct_sibling_ids [OF dist], of ordered w p]
    show "set ordered = tn_id ` set (siblings nodes w p)"
      unfolding sibling_ids [symmetric] by (auto simp: list_ex_iff simp del: set_map)
  qed
  have written: "bindE (offset_siblings w p nodes) (\<lambda>nodes1. bindE (place p None (k + 1) ordered nodes1)
      (\<lambda>nodes2. Inr (k + 1, True, nodes2))) = Inr (k + 1, True, map (placed p None (k + 1) ordered) nodes)"
    if "validate_parent nodes w p = Inr ()" "\<not> ?stale" for k
    using rewrite_group(1) [OF ok full [OF that(2)] parent [OF that(1)], of "k + 1"]
    by (auto simp: result_simps)
  have cases: "r = Inl TreeParentMissing \<or> r = Inl OrderConflict \<or>
      validate_parent nodes w p = Inr () \<and> \<not> ?stale \<and>
        r = (if ordered = ?ids then Inr (expected, False, nodes)
             else Inr (expected + 1, True, map (placed p None (expected + 1) ordered) nodes))"
  proof (cases "validate_parent nodes w p")
    case (Inl e)
    then have "e = TreeParentMissing" by (auto simp: validate_parent_def split: option.splits if_splits)
    with Inl accepted show ?thesis by (auto simp: reorder_siblings_def)
  next
    case (Inr u)
    show ?thesis
    proof (cases ?stale)
      case True
      with Inr accepted show ?thesis by (simp add: reorder_siblings_def Let_def)
    next
      case False
      have u: "validate_parent nodes w p = Inr ()" using Inr by simp
      have e: "current_order_revision nodes w p = expected" using False by simp
      have "r = (if ordered = ?ids then Inr (expected, False, nodes)
          else bindE (offset_siblings w p nodes) (\<lambda>nodes1. bindE (place p None (expected + 1) ordered nodes1)
            (\<lambda>nodes2. Inr (expected + 1, True, nodes2))))"
        unfolding accepted [symmetric] reorder_siblings_def Let_def u bindE_Inr highest_sibling_revision if_not_P [OF False]
        unfolding e by (rule refl)
      with written [OF u False] u False show ?thesis by simp
    qed
  qed
  show "r \<noteq> Inl ConstraintFailed" using cases by (auto split: if_splits)
  assume r: "r = Inr (revision, changed, nodes')"
  have "validate_parent nodes w p = Inr () \<and> \<not> ?stale \<and>
      r = (if ordered = ?ids then Inr (expected, False, nodes)
           else Inr (expected + 1, True, map (placed p None (expected + 1) ordered) nodes))"
    using cases by (elim disjE) (simp add: r, simp add: r, assumption)
  note all = this [unfolded r]
  note c = conjunct1 [OF all] conjunct1 [OF conjunct2 [OF all]] conjunct2 [OF conjunct2 [OF all]]
  show "tree_ok nodes' \<and> map tn_id (sibling_order nodes' w p) = ordered \<and>
      expected = current_order_revision nodes w p \<and>
      (if changed then revision = expected + 1 \<and> nodes' = map (placed p None revision ordered) nodes
       else revision = expected \<and> nodes' = nodes)"
  proof (cases "ordered = ?ids")
    case True
    with c ok show ?thesis by simp
  next
    case False
    with c rewrite_group(2) [OF ok full [OF c(2)] parent [OF c(1)], of "expected + 1"]
      in_order_ids [OF placed_in_order [OF dist full [OF c(2)], of p "expected + 1"]]
    show ?thesis by simp
  qed
qed

lemma compact_ok:
  assumes "forest_ok nodes" and "table_ok nodes" and "inj_on on_position (set (siblings nodes w p))"
    and "\<And>w' p'. (w', p') \<noteq> (w, p) \<Longrightarrow> group_ok nodes w' p'"
    and "\<forall>a. p = Some a \<longrightarrow> a \<in> tn_id ` set nodes"
  shows "\<exists>revision nodes'. compact_siblings w p k nodes = Inr (revision, nodes') \<and> tree_ok nodes' \<and> k < revision \<and>
    map tn_id (sibling_order nodes' w p) = map tn_id (sibling_order nodes w p) \<and>
    nodes' = map (placed p None revision (map tn_id (sibling_order nodes w p))) nodes"
proof -
  let ?rows = "sibling_order nodes w p"
  let ?ids = "map tn_id ?rows" and ?r = "highest_revision k ?rows + 1"
  have dist: "distinct (map tn_id nodes)" using assms(1) by (simp add: forest_ok_def)
  note ids = distinct_sibling_ids [OF dist, of w p]
  have behind: "position_in (tn_id n) ?ids \<le> on_position n" if "n \<in> set (siblings nodes w p)" for n
  proof -
    have "distinct (map on_position ?rows)" using assms(3) ids by (simp add: distinct_map)
    then have "sorted_wrt (<) (map on_position ?rows)"
      by (simp add: strict_sorted_iff sibling_order_def)
    moreover from that obtain j where "j < length ?rows" "n = ?rows ! j"
      by (metis in_set_conv_nth set_sibling_order)
    ultimately show ?thesis
      using sorted_wrt_less_idx [of "map on_position ?rows" j] position_in_nth [OF ids, of j] by simp
  qed
  have "placeable w p None ?ids nodes"
    unfolding placeable_def
  proof (intro conjI ballI allI impI)
    fix n assume "n \<in> set nodes" "tn_id n \<in> set ?ids"
    from member_of_group [OF dist this(1) this(2) [unfolded sibling_ids]]
    show "tn_workspace n = w" "tn_parent n = p \<or> None = Some (tn_id n)" by simp_all
  qed (use ids assms(5) behind in simp_all)
  from place_eq [OF assms(2) this, of ?r]
  have "compact_siblings w p k nodes = Inr (?r, map (placed p None ?r ?ids) nodes)"
    by (simp add: compact_siblings_def Let_def)
  moreover have "tree_ok (map (placed p None ?r ?ids) nodes)"
    by (rule tree_ok_map [OF assms(1) placed_group [OF dist ids sibling_ids]]) (use assms(4) in \<open>simp_all add: placed_def\<close>)
  moreover have "k < ?r" by (simp add: highest_revision_Max less_Suc_eq_le)
  ultimately show ?thesis
    using in_order_ids [OF placed_in_order [OF dist ids sibling_ids]] by blast
qed

section \<open>New nodes\<close>

lemma siblings_snoc: "set (siblings (nodes @ [n]) w p) =
  (if tn_workspace n = w \<and> tn_parent n = p then insert n (set (siblings nodes w p)) else set (siblings nodes w p))"
  by (auto simp: siblings_def)

definition attachable :: "ordered_node \<Rightarrow> ordered_node list \<Rightarrow> bool" where
  "attachable n nodes \<longleftrightarrow> tn_id n \<notin> tn_id ` set nodes \<and>
     validate_parent nodes (tn_workspace n) (tn_parent n) = Inr ()"

lemma attachable_parent:
  assumes "forest_ok nodes" and "attachable n nodes" and "tn_parent n = Some p"
  obtains m where "m \<in> set nodes" "tn_id m = p" "tn_kind m = CollectionNode" "tn_workspace m = tn_workspace n"
  using assms by (auto simp: attachable_def forest_ok_def validated_parent)

lemma attach_forest:
  assumes "forest_ok nodes" and "attachable n nodes"
  shows "forest_ok (nodes @ [n])"
proof -
  have fresh: "tn_id n \<notin> tn_id ` set nodes" using assms(2) by (simp add: attachable_def)
  have range: "snd ` parent_edges nodes \<subseteq> tn_id ` set nodes"
    using assms(1) by (fastforce simp: forest_ok_def parents_ok_def parent_edges_def)
  have "acyclic (parent_edges (nodes @ [n]))"
  proof (cases "tn_parent n")
    case None
    then show ?thesis using assms(1) by (simp add: parent_edges_def forest_ok_def)
  next
    case (Some p)
    obtain m where m: "m \<in> set nodes" "tn_id m = p" by (rule attachable_parent [OF assms Some])
    have "(p, tn_id n) \<notin> (parent_edges nodes)\<^sup>*"
    proof
      assume "(p, tn_id n) \<in> (parent_edges nodes)\<^sup>*"
      then have "p = tn_id n \<or> tn_id n \<in> snd ` parent_edges nodes"
        by (cases rule: rtranclE) (auto intro: rev_image_eqI)
      moreover have "p \<in> tn_id ` set nodes" using m by (metis image_eqI)
      ultimately show False using fresh range by blast
    qed
    moreover have "parent_edges (nodes @ [n]) = insert (tn_id n, p) (parent_edges nodes)"
      using Some by (auto simp: parent_edges_def)
    ultimately show ?thesis using assms(1) by (simp add: acyclic_insert forest_ok_def)
  qed
  moreover have "parents_ok (nodes @ [n])"
    unfolding parents_ok_def
  proof (intro ballI allI impI)
    fix a p assume a: "a \<in> set (nodes @ [n])" "tn_parent a = Some p"
    show "\<exists>m \<in> set (nodes @ [n]). tn_id m = p \<and> tn_kind m = CollectionNode \<and> tn_workspace m = tn_workspace a"
    proof (cases "a = n")
      case True
      obtain m where "m \<in> set nodes" "tn_id m = p" "tn_kind m = CollectionNode" "tn_workspace m = tn_workspace n"
        using a(2) True by (auto intro: attachable_parent [OF assms])
      with True show ?thesis by auto
    next
      case False
      with a assms(1) show ?thesis by (fastforce simp: forest_ok_def parents_ok_def)
    qed
  qed
  ultimately show ?thesis using assms(1) fresh by (simp add: forest_ok_def)
qed

lemma attach_table:
  assumes "table_ok nodes" and "tn_id n \<notin> tn_id ` set nodes" and "\<forall>a. tn_parent n = Some a \<longrightarrow> a \<in> tn_id ` set nodes"
    and "on_position n = next_position nodes (tn_workspace n) (tn_parent n)"
  shows "table_ok (nodes @ [n])"
proof -
  have "sibling_slot a \<noteq> sibling_slot n" if "a \<in> set nodes" for a
    using that assms(4) below_next [of a nodes "tn_workspace n" "tn_parent n"] by (auto simp: sibling_slot_def)
  with assms(1) have "slots_unique (nodes @ [n])"
    by (fastforce simp: table_ok_def slots_unique_def dest: sym)
  with assms(1-3) show ?thesis
    by (fastforce simp: table_ok_def parents_present_def split: option.splits)
qed

lemma append_ok:
  assumes ok: "tree_ok nodes" and "i \<notin> tn_id ` set nodes" and "validate_parent nodes w p = Inr ()"
  shows "\<exists>n. append_node i w p kind name nodes = Inr (n, nodes @ [n]) \<and> tree_ok (nodes @ [n]) \<and>
    n = \<lparr>tn_id = i, tn_workspace = w, tn_parent = p, tn_kind = kind, tn_name = name,
      on_position = card (set (siblings nodes w p)), on_revision = current_order_revision nodes w p\<rparr>"
proof -
  define n where "n = \<lparr>tn_id = i, tn_workspace = w, tn_parent = p, tn_kind = kind, tn_name = name,
    on_position = next_position nodes w p, on_revision = current_order_revision nodes w p\<rparr>"
  have att: "attachable n nodes" using assms(2,3) by (simp add: attachable_def n_def)
  note dist = tree_okD(2) [OF ok]
  have table: "table_ok (nodes @ [n])"
    by (rule attach_table [OF tree_table [OF ok]])
      (use assms(2,3) in \<open>auto simp: n_def validated_parent [OF dist]\<close>)
  note pos = next_position_card [OF tree_okD(4) [OF ok], of w p]
  have "group_ok (nodes @ [n]) w' p'" for w' p'
  proof (cases "(w', p') = (w, p)")
    case True
    let ?g = "set (siblings nodes w p)"
    have "tn_id n = i" by (simp add: n_def)
    with assms(2) have n: "n \<notin> ?g" by (metis image_eqI siblings_iff)
    have "bij_betw on_position ?g {..<card ?g}" using tree_okD(4) [OF ok] by (simp add: group_ok_def)
    then have "bij_betw on_position (insert n ?g) (insert (on_position n) {..<card ?g})"
      by (intro notIn_Un_bij_betw [of n ?g on_position "{..<card ?g}", simplified]) (use n pos in \<open>simp_all add: n_def\<close>)
    then have "bij_betw on_position (insert n ?g) {..<Suc (card ?g)}"
      by (simp add: n_def pos lessThan_Suc)
    moreover have "card (insert n ?g) = Suc (card ?g)" using n by simp
    moreover have "set (siblings (nodes @ [n]) w p) = insert n ?g" by (simp add: siblings_snoc n_def)
    ultimately show ?thesis using True by (simp add: group_ok_def)
  next
    case False
    then have "set (siblings (nodes @ [n]) w' p') = set (siblings nodes w' p')" by (auto simp: siblings_snoc n_def)
    from group_same [OF this] tree_okD(4) [OF ok] show ?thesis by simp
  qed
  with attach_forest [OF tree_okD(1) [OF ok] att] have "tree_ok (nodes @ [n])" by (simp add: tree_ok_def)
  moreover have "append_node i w p kind name nodes = Inr (n, nodes @ [n])"
    using table by (simp add: append_node_def insert_node_def Let_def n_def [symmetric])
  ultimately show ?thesis by (intro exI [of _ n]) (simp add: n_def pos)
qed

lemma placeableI:
  assumes "distinct ids" and "\<forall>a. p = Some a \<longrightarrow> a \<in> tn_id ` set nodes"
    and "\<And>n. n \<in> set (siblings nodes w p) \<Longrightarrow>
      length ids \<le> Suc (on_position n) \<and> (tn_id n \<notin> set ids \<longrightarrow> length ids \<le> on_position n)"
    and "\<And>n. n \<in> set nodes \<Longrightarrow> tn_id n \<in> set ids \<Longrightarrow> tn_workspace n = w \<and> (tn_parent n = p \<or> moved = Some (tn_id n))"
  shows "placeable w p moved ids nodes"
  unfolding placeable_def
proof (intro conjI ballI allI impI)
  fix n assume "n \<in> set nodes" "tn_workspace n = w \<and> tn_parent n = p"
  with assms(3) [of n] have b: "length ids \<le> Suc (on_position n)" "tn_id n \<notin> set ids \<longrightarrow> length ids \<le> on_position n"
    by simp_all
  show "position_in (tn_id n) ids \<le> on_position n"
    using b position_in_less [of "tn_id n" ids] position_in_absent [of "tn_id n" ids]
    by (cases "tn_id n \<in> set ids") linarith+
qed (use assms in auto)

text \<open>What an offset leaves: the same rows, with the group behind its own number.\<close>

lemma offset_siblings_elim:
  assumes "table_ok nodes" and "group_ok nodes w p"
  obtains ns where "offset_siblings w p nodes = Inr ns" "table_ok ns" "map tn_id ns = map tn_id nodes"
    "tn_id ` set ns = tn_id ` set nodes"
    "\<And>n. n \<in> set (siblings ns w p) \<Longrightarrow> card (set (siblings nodes w p)) \<le> on_position n"
    "\<And>w' p'. tn_id ` set (siblings ns w' p') = tn_id ` set (siblings nodes w' p')"
    "\<And>w' p'. (w', p') \<noteq> (w, p) \<Longrightarrow> set (siblings ns w' p') = set (siblings nodes w' p')"
    "\<And>f :: ordered_node \<Rightarrow> ordered_node. (\<And>n j. tn_id n \<in> tn_id ` set (siblings nodes w p) \<Longrightarrow>
      f (n\<lparr>on_position := j\<rparr>) = f n) \<Longrightarrow> map f ns = map f nodes"
    "\<And>n. n \<in> set ns \<Longrightarrow> \<exists>m \<in> set nodes. tn_id m = tn_id n \<and> tn_workspace m = tn_workspace n \<and> tn_parent m = tn_parent n"
proof
  let ?g = "tn_id ` set (siblings nodes w p)" and ?k = "next_position nodes w p"
  let ?s = "shifted ?k ?g"
  have dist: "distinct (map tn_id nodes)" using assms(1) by (simp add: table_ok_def)
  have img: "set (siblings (map ?s nodes) w' p') = ?s ` set (siblings nodes w' p')" for w' p'
    by (rule siblings_map) simp
  show "offset_siblings w p nodes = Inr (map ?s nodes)" by (rule offset_eq [OF assms(1)])
  show "table_ok (map ?s nodes)"
    by (rule shifted_table [OF assms(1)]) (use member_of_group [OF dist] in blast)
  show "map tn_id (map ?s nodes) = map tn_id nodes" "tn_id ` set (map ?s nodes) = tn_id ` set nodes"
    by (simp_all add: image_image)
  show "card (set (siblings nodes w p)) \<le> on_position n" if "n \<in> set (siblings (map ?s nodes) w p)" for n
  proof -
    from that obtain a where "a \<in> set (siblings nodes w p)" "n = ?s a" unfolding img by blast
    then show ?thesis using next_position_card [OF assms(2)] by (simp add: shifted_def del: siblings_iff)
  qed
  show "tn_id ` set (siblings (map ?s nodes) w' p') = tn_id ` set (siblings nodes w' p')" for w' p'
    by (simp add: img image_image del: siblings_iff)
  show "set (siblings (map ?s nodes) w' p') = set (siblings nodes w' p')" if "(w', p') \<noteq> (w, p)" for w' p'
    by (rule shifted_outside [OF dist that])
  show "map f (map ?s nodes) = map f nodes"
    if "\<And>n j. tn_id n \<in> ?g \<Longrightarrow> f (n\<lparr>on_position := j\<rparr>) = f n" for f :: "ordered_node \<Rightarrow> ordered_node"
    using that by (simp add: shifted_def)
  show "\<exists>m \<in> set nodes. tn_id m = tn_id n \<and> tn_workspace m = tn_workspace n \<and> tn_parent m = tn_parent n"
    if "n \<in> set (map ?s nodes)" for n using that by force
qed

lemma insert_after_ok:
  assumes ok: "tree_ok nodes" and "i \<notin> tn_id ` set nodes" and "validate_parent nodes w p = Inr ()"
    and "source \<in> tn_id ` set (siblings nodes w p)"
  shows "\<exists>nodes'. insert_after source i w p name nodes = Inr (current_order_revision nodes w p + 1, nodes') \<and>
    tree_ok nodes' \<and> map tree_node.truncate nodes' = map tree_node.truncate nodes @
      [\<lparr>tn_id = i, tn_workspace = w, tn_parent = p, tn_kind = RequestNode, tn_name = name\<rparr>] \<and>
    map tn_id (sibling_order nodes' w p) = (let ids = map tn_id (sibling_order nodes w p) in
      insert_at (position_in source ids + 1) i ids)"
proof (rule offset_siblings_elim [OF tree_table [OF ok] tree_okD(4) [OF ok, of w p]])
  let ?rows = "sibling_order nodes w p"
  let ?ids = "map tn_id ?rows" and ?r = "current_order_revision nodes w p + 1"
  let ?new = "insert_at (position_in source ?ids + 1) i ?ids"
  note dist = tree_okD(2) [OF ok] and forest = tree_okD(1) [OF ok]
  have parent: "\<forall>a. p = Some a \<longrightarrow> a \<in> tn_id ` set nodes"
    using assms(3) by (auto simp: validated_parent [OF dist])
  have len: "length ?new = Suc (card (set (siblings nodes w p)))"
    using card_siblings [OF dist] by (simp add: sibling_order_def)
  have absent: "i \<notin> set ?ids" using assms(2) by auto
  fix ns
  assume o: "offset_siblings w p nodes = Inr ns" "table_ok ns" "map tn_id ns = map tn_id nodes"
    "tn_id ` set ns = tn_id ` set nodes"
    "\<And>n. n \<in> set (siblings ns w p) \<Longrightarrow> card (set (siblings nodes w p)) \<le> on_position n"
    "\<And>w' p'. tn_id ` set (siblings ns w' p') = tn_id ` set (siblings nodes w' p')"
    "\<And>f :: ordered_node \<Rightarrow> ordered_node. (\<And>n j. tn_id n \<in> tn_id ` set (siblings nodes w p) \<Longrightarrow>
      f (n\<lparr>on_position := j\<rparr>) = f n) \<Longrightarrow> map f ns = map f nodes"
  define n where "n = \<lparr>tn_id = i, tn_workspace = w, tn_parent = p, tn_kind = RequestNode, tn_name = name,
    on_position = next_position ns w p, on_revision = ?r\<rparr>"
  have n: "tn_id n = i" "tn_workspace n = w" "tn_parent n = p" by (simp_all add: n_def)
  have att: "attachable n nodes" using assms(2,3) by (simp add: attachable_def n)
  have table: "table_ok (ns @ [n])"
    by (rule attach_table [OF o(2)]) (use assms(2) parent o(4) in \<open>simp_all add: n_def\<close>)
  have fdist: "distinct (map tn_id (nodes @ [n]))" "distinct (map tn_id (ns @ [n]))"
    using attach_forest [OF forest att] table by (simp_all add: forest_ok_def table_ok_def)
  have new: "distinct ?new" "set ?new = tn_id ` set (siblings (nodes @ [n]) w p)"
    using distinct_sibling_ids [OF dist, of w p] absent by (simp_all add: distinct_insert_at siblings_snoc n)
  have new': "set ?new = tn_id ` set (siblings (ns @ [n]) w p)"
    using new(2) o(6) by (simp add: siblings_snoc n)
  from assms(4) o(6) obtain a where "a \<in> set (siblings ns w p)" by (metis imageE)
  with below_next [OF this] o(5) have high: "card (set (siblings nodes w p)) \<le> on_position n"
    by (fastforce simp: n_def)
  have "placeable w p None ?new (ns @ [n])"
  proof (rule placeableI [OF new(1)])
    show "\<forall>a. p = Some a \<longrightarrow> a \<in> tn_id ` set (ns @ [n])" using parent o(4) by auto
    fix m
    show "tn_workspace m = w \<and> (tn_parent m = p \<or> None = Some (tn_id m))"
      if "m \<in> set (ns @ [n])" "tn_id m \<in> set ?new"
      using member_of_group [OF fdist(2) that(1) that(2) [unfolded new']] by simp
    assume "m \<in> set (siblings (ns @ [n]) w p)"
    then have "m = n \<or> m \<in> set (siblings ns w p)" "tn_id m \<in> set ?new"
      unfolding new' by (auto simp: siblings_snoc n simp del: siblings_iff)
    with o(5) high len show "length ?new \<le> Suc (on_position m) \<and> (tn_id m \<notin> set ?new \<longrightarrow> length ?new \<le> on_position m)"
      by auto
  qed
  note placed = place_eq [OF table this, of ?r]
  have same: "map (placed p None ?r ?new) (ns @ [n]) = map (placed p None ?r ?new) (nodes @ [n])"
    using o(7) [of "placed p None ?r ?new"] by (simp add: placed_def)
  have src: "source \<in> set ?ids" using assms(4) by simp
  have "insert_after source i w p name nodes = Inr (?r, map (placed p None ?r ?new) (nodes @ [n]))"
    using src placed table
    unfolding insert_after_def Let_def o(1) bindE_Inr highest_sibling_revision n_def [symmetric] same
    by (simp add: insert_node_def del: map_append)
  moreover have "tree_ok (map (placed p None ?r ?new) (nodes @ [n]))"
  proof (rule tree_ok_map [OF attach_forest [OF forest att] placed_group [OF fdist(1) new]])
    fix w' p' assume "(w', p') \<noteq> (w, p)"
    then have "set (siblings (nodes @ [n]) w' p') = set (siblings nodes w' p')" by (auto simp: siblings_snoc n)
    from group_same [OF this] tree_okD(4) [OF ok] show "group_ok (nodes @ [n]) w' p'" by simp
  qed (simp add: placed_def)
  moreover have "tree_node.truncate n = \<lparr>tn_id = i, tn_workspace = w, tn_parent = p, tn_kind = RequestNode, tn_name = name\<rparr>"
    by (simp add: n_def tree_node.truncate_def)
  then have "map tree_node.truncate (map (placed p None ?r ?new) (nodes @ [n])) = map tree_node.truncate nodes @
      [\<lparr>tn_id = i, tn_workspace = w, tn_parent = p, tn_kind = RequestNode, tn_name = name\<rparr>]"
    by simp
  ultimately show ?thesis
    using in_order_ids [OF placed_in_order [OF fdist(1) new, of p ?r]] unfolding Let_def by blast
qed

end
