(* ===== verification/Tree_Moves.thy ===== *)
theory Tree_Moves
  imports Tree_Invariant
begin

text \<open>
  Moving a row of the tree between groups of siblings: the checks of \<open>moveNode\<close> make the destination a
  collection of the workspace outside the moved subtree, the rows of both groups are renumbered without
  ever breaking a constraint of the table, and the invariant of the tree is kept.
\<close>

section \<open>Moving\<close>

lemma climb_misses:
  assumes "climb nodes w i visited target = Inr ()" and "distinct (map tn_id nodes)" and "target = Some a"
    and "(a, b) \<in> (parent_edges nodes)\<^sup>*"
  shows "b \<noteq> i"
  using assms
proof (induction nodes w i visited target arbitrary: a rule: climb.induct)
  case (2 nodes w i visited c)
  note prem = "2.prems"
  from prem(1,3) obtain n where n: "a \<noteq> i" "\<not> (a \<in> set visited \<or> length visited \<ge> 64)"
    "node_row nodes a = Some n" "\<not> (tn_workspace n \<noteq> w \<or> tn_kind n \<noteq> CollectionNode)"
    "climb nodes w i (visited @ [a]) (tn_parent n) = Inr ()"
    by (auto split: if_splits option.splits)
  from prem(4) show ?case
  proof (cases rule: converse_rtranclE)
    case base
    with n(1) show ?thesis by simp
  next
    case (step d)
    from step(1) obtain m where m: "m \<in> set nodes" "tn_id m = a" "tn_parent m = Some d"
      by (auto simp: parent_edges_def)
    with n(3) node_row_iff [OF prem(2)] have "m = n" by (metis option.inject)
    with "2.IH" n m prem(2,3) step(2) show ?thesis by auto
  qed
qed simp

lemma validated_destination:
  assumes ok: "tree_ok nodes" and "validate_move_hierarchy nodes w i (tn_kind m) target = Inr ()"
    and "m \<in> set nodes" and "tn_id m = i" and "target = Some a"
  shows "(a, i) \<notin> (parent_edges nodes)\<^sup>*"
proof
  assume path: "(a, i) \<in> (parent_edges nodes)\<^sup>*"
  note dist = tree_okD(2) [OF ok]
  have parent: "validate_parent nodes w (Some a) = Inr ()"
    using assms(2,5) by (auto simp: validate_move_hierarchy_def result_simps)
  show False
  proof (cases "tn_kind m = CollectionNode")
    case True
    with assms(2) have "climb nodes w i [] target = Inr ()"
      by (auto simp: validate_move_hierarchy_def result_simps)
    from climb_misses [OF this dist assms(5) path] show False by simp
  next
    case False
    have col: "\<exists>n \<in> set nodes. tn_id n = i \<and> tn_kind n = CollectionNode"
      using path
    proof (cases rule: rtranclE)
      case base
      with parent validated_parent [OF dist] show ?thesis by auto
    next
      case (step c)
      with tree_okD(3) [OF ok] show ?thesis by (fastforce simp: parent_edges_def parents_ok_def)
    qed
    with same_id [OF dist _ assms(3)] assms(4) False show False by auto
  qed
qed

lemma move_forest:
  assumes "forest_ok nodes" and "m \<in> set nodes" and "tn_id m = i" and "tn_workspace m = w"
    and "validate_parent nodes w target = Inr ()"
    and "\<And>a. target = Some a \<Longrightarrow> (a, i) \<notin> (parent_edges nodes)\<^sup>*"
    and g: "\<And>n. n \<in> set nodes \<Longrightarrow> tn_id (g n) = tn_id n \<and> tn_workspace (g n) = tn_workspace n \<and>
      tn_kind (g n) = tn_kind n \<and> tn_parent (g n) = (if tn_id n = i then target else tn_parent n)"
  shows "forest_ok (map g nodes)"
proof -
  have dist: "distinct (map tn_id nodes)" using assms(1) by (simp add: forest_ok_def)
  have ids: "map tn_id (map g nodes) = map tn_id nodes" using g by simp
  have "parent_edges (map g nodes) \<subseteq> parent_edges nodes \<union> (case target of None \<Rightarrow> {} | Some a \<Rightarrow> {(i, a)})"
    using g by (fastforce simp: parent_edges_def split: option.split if_splits)
  moreover have "acyclic (parent_edges nodes \<union> (case target of None \<Rightarrow> {} | Some a \<Rightarrow> {(i, a)}))"
    using assms(1,6) by (cases target) (auto simp: acyclic_insert forest_ok_def)
  ultimately have "acyclic (parent_edges (map g nodes))" by (rule acyclic_subset [rotated])
  moreover have "parents_ok (map g nodes)"
    unfolding parents_ok_def
  proof clarsimp
    fix n p assume n: "n \<in> set nodes" "tn_parent (g n) = Some p"
    have "\<exists>a \<in> set nodes. tn_id a = p \<and> tn_kind a = CollectionNode \<and> tn_workspace a = tn_workspace n"
    proof (cases "tn_id n = i")
      case True
      with n g same_id [OF dist n(1) assms(2)] assms(3-5) show ?thesis by (auto simp: validated_parent [OF dist])
    next
      case False
      with n g assms(1) show ?thesis by (simp add: forest_ok_def parents_ok_def)
    qed
    with g n show "\<exists>a \<in> set nodes. tn_id (g a) = p \<and> tn_kind (g a) = CollectionNode \<and> tn_workspace (g a) = tn_workspace (g n)"
      by metis
  qed
  ultimately show ?thesis using dist ids by (simp add: forest_ok_def del: map_map)
qed

text \<open>The rows after a move: the old siblings close up, the new ones make room.\<close>

definition moved_row ::
  "entity_id \<Rightarrow> entity_id option \<Rightarrow> nat \<Rightarrow> entity_id list \<Rightarrow> nat \<Rightarrow> entity_id list \<Rightarrow> ordered_node \<Rightarrow> ordered_node" where
  "moved_row i target sr sids tr tids n = placed target (Some i) tr tids (placed None None sr sids n)"

lemma moved_row_fields:
  assumes "i \<in> set tids"
  shows "tn_id (moved_row i target sr sids tr tids n) = tn_id n"
    "tn_workspace (moved_row i target sr sids tr tids n) = tn_workspace n"
    "tn_kind (moved_row i target sr sids tr tids n) = tn_kind n"
    "tn_parent (moved_row i target sr sids tr tids n) = (if tn_id n = i then target else tn_parent n)"
    "on_position (moved_row i target sr sids tr tids n) =
      (if tn_id n \<in> set tids then position_in (tn_id n) tids
       else if tn_id n \<in> set sids then position_in (tn_id n) sids else on_position n)"
  using assms by (auto simp: moved_row_def placed_def)

text \<open>A planned move: the orders of the old and the new siblings of the moved row.\<close>

definition move_plan ::
  "ordered_node list \<Rightarrow> ordered_node \<Rightarrow> entity_id option \<Rightarrow> entity_id list \<Rightarrow> entity_id list \<Rightarrow> bool" where
  "move_plan nodes m target sids tids \<longleftrightarrow> tree_ok nodes \<and> m \<in> set nodes \<and> target \<noteq> tn_parent m \<and>
     distinct sids \<and> set sids = tn_id ` set (siblings nodes (tn_workspace m) (tn_parent m)) - {tn_id m} \<and>
     distinct tids \<and> set tids = insert (tn_id m) (tn_id ` set (siblings nodes (tn_workspace m) target))"

lemma move_planD:
  assumes "move_plan nodes m target sids tids"
  shows "tree_ok nodes" "m \<in> set nodes" "target \<noteq> tn_parent m" "distinct sids"
    "set sids = tn_id ` set (siblings nodes (tn_workspace m) (tn_parent m)) - {tn_id m}"
    "distinct tids" "set tids = insert (tn_id m) (tn_id ` set (siblings nodes (tn_workspace m) target))"
  using assms unfolding move_plan_def by blast+

lemma plan_apart:
  assumes "distinct (map tn_id nodes)" and "m \<in> set nodes" and "target \<noteq> tn_parent m"
  shows "tn_id m \<in> tn_id ` set (siblings nodes (tn_workspace m) (tn_parent m))"
    and "tn_id m \<notin> tn_id ` set (siblings nodes (tn_workspace m) target)"
  unfolding in_group [OF assms(1,2)] using assms(3) by simp_all

lemma plan_members:
  assumes "move_plan nodes m target sids tids" and "n \<in> set nodes"
  shows "tn_id n \<in> set tids \<longleftrightarrow> n = m \<or> tn_workspace n = tn_workspace m \<and> tn_parent n = target"
    and "tn_id n \<in> set sids \<longleftrightarrow> n \<noteq> m \<and> tn_workspace n = tn_workspace m \<and> tn_parent n = tn_parent m"
    and "tn_id n = tn_id m \<longleftrightarrow> n = m"
proof -
  note plan = assms(1) [unfolded move_plan_def]
  have dist: "distinct (map tn_id nodes)" using plan tree_okD(2) by blast
  show m: "tn_id n = tn_id m \<longleftrightarrow> n = m" using same_id [OF dist assms(2)] plan by blast
  show "tn_id n \<in> set tids \<longleftrightarrow> n = m \<or> tn_workspace n = tn_workspace m \<and> tn_parent n = target"
    using plan m in_group [OF dist assms(2)] by simp
  show "tn_id n \<in> set sids \<longleftrightarrow> n \<noteq> m \<and> tn_workspace n = tn_workspace m \<and> tn_parent n = tn_parent m"
    using plan m in_group [OF dist assms(2)] by auto
qed

lemma moved_members:
  assumes plan: "move_plan nodes m target sids tids"
  shows "set (siblings (map (moved_row (tn_id m) target sr sids tr tids) nodes) w' p') =
      moved_row (tn_id m) target sr sids tr tids `
        {n \<in> set nodes. tn_workspace n = w' \<and> (if n = m then target else tn_parent n) = p'}"
    and "distinct (map tn_id (map (moved_row (tn_id m) target sr sids tr tids) nodes))"
proof -
  have i: "tn_id m \<in> set tids" using plan by (simp add: move_plan_def)
  note fields = moved_row_fields [OF i]
  have "{n \<in> set nodes. tn_workspace n = w' \<and> (if tn_id n = tn_id m then target else tn_parent n) = p'} =
      {n \<in> set nodes. tn_workspace n = w' \<and> (if n = m then target else tn_parent n) = p'}"
    using plan_members(3) [OF plan] by auto
  then show "set (siblings (map (moved_row (tn_id m) target sr sids tr tids) nodes) w' p') =
      moved_row (tn_id m) target sr sids tr tids `
        {n \<in> set nodes. tn_workspace n = w' \<and> (if n = m then target else tn_parent n) = p'}"
    by (simp only: siblings_of_map fields)
  show "distinct (map tn_id (map (moved_row (tn_id m) target sr sids tr tids) nodes))"
    using plan tree_okD(2) by (simp add: fields comp_def move_plan_def)
qed

lemma moved_source:
  assumes plan: "move_plan nodes m target sids tids"
  shows "in_order (map (moved_row (tn_id m) target sr sids tr tids) nodes) (tn_workspace m) (tn_parent m) sids"
proof -
  have i: "tn_id m \<in> set tids" and other: "target \<noteq> tn_parent m" and sids: "distinct sids"
    using plan by (simp_all add: move_plan_def)
  note fields = moved_row_fields [OF i] and members = moved_members [OF plan, of sr tr]
  have old: "{n \<in> set nodes. tn_workspace n = tn_workspace m \<and> (if n = m then target else tn_parent n) = tn_parent m} =
      {n \<in> set nodes. tn_id n \<in> set sids}"
    using plan_members(2) [OF plan] other by auto
  have "tn_id ` {n \<in> set nodes. tn_id n \<in> set sids} = set sids"
    using plan unfolding move_plan_def by force
  then show ?thesis
    using members(2) sids plan_members [OF plan] other
    by (auto simp: in_order_def members(1) old image_image fields)
qed

lemma moved_target:
  assumes plan: "move_plan nodes m target sids tids"
  shows "in_order (map (moved_row (tn_id m) target sr sids tr tids) nodes) (tn_workspace m) target tids"
proof -
  have i: "tn_id m \<in> set tids" and m: "m \<in> set nodes" and tids: "distinct tids"
    using plan by (simp_all add: move_plan_def)
  note fields = moved_row_fields [OF i] and members = moved_members [OF plan, of sr tr]
  have new: "{n \<in> set nodes. tn_workspace n = tn_workspace m \<and> (if n = m then target else tn_parent n) = target} =
      {n \<in> set nodes. tn_id n \<in> set tids}"
    using plan_members(1) [OF plan] m by auto
  have "tn_id ` {n \<in> set nodes. tn_id n \<in> set tids} = set tids"
    using plan m unfolding move_plan_def by force
  then show ?thesis
    using members(2) tids by (auto simp: in_order_def members(1) new image_image fields)
qed

lemma moved_groups:
  assumes plan: "move_plan nodes m target sids tids"
  shows "group_ok (map (moved_row (tn_id m) target sr sids tr tids) nodes) w' p'"
proof -
  let ?w = "tn_workspace m" and ?g = "moved_row (tn_id m) target sr sids tr tids"
  consider "w' = ?w" "p' = tn_parent m" | "w' = ?w" "p' = target" | "(w', p') \<noteq> (?w, tn_parent m)" "(w', p') \<noteq> (?w, target)"
    by blast
  then show ?thesis
  proof cases
    case 1
    with in_order_group [OF moved_source [OF plan]] show ?thesis by simp
  next
    case 2
    with in_order_group [OF moved_target [OF plan]] show ?thesis by simp
  next
    case 3
    have outside: "n \<noteq> m \<and> tn_id n \<notin> set tids \<and> tn_id n \<notin> set sids" if "n \<in> set (siblings nodes w' p')" for n
      using that 3 plan_members [OF plan, of n] by auto
    have fixed: "?g n = n" if n: "n \<in> set (siblings nodes w' p')" for n
      using outside [OF n] by (simp only: moved_row_def placed_def if_False simp_thms)
    have "{n \<in> set nodes. tn_workspace n = w' \<and> (if n = m then target else tn_parent n) = p'} = set (siblings nodes w' p')"
      using 3 by (intro set_eqI) (auto split: if_splits)
    moreover have "?g ` set (siblings nodes w' p') = (\<lambda>n. n) ` set (siblings nodes w' p')"
      by (rule image_cong [OF refl]) (rule fixed)
    ultimately have "set (siblings (map ?g nodes) w' p') = set (siblings nodes w' p')"
      unfolding moved_members(1) [OF plan] by (simp only: image_ident)
    from group_same [OF this] plan tree_okD(4) show ?thesis by (simp add: move_plan_def)
  qed
qed

lemma placed_still: "placed p None r ids = placed None None r ids"
  by (rule ext) (simp add: placed_def)

lemma plan_sizes:
  assumes plan: "move_plan nodes m target sids tids"
  shows "Suc (length sids) = card (set (siblings nodes (tn_workspace m) (tn_parent m)))"
    and "length tids = Suc (card (set (siblings nodes (tn_workspace m) target)))"
    and "set sids \<inter> set tids = {}"
proof -
  let ?w = "tn_workspace m"
  note p = move_planD [OF plan]
  have dist: "distinct (map tn_id nodes)" by (rule tree_okD(2) [OF p(1)])
  note apart = plan_apart [OF dist p(2,3)]
  have "inj_on tn_id (set (siblings nodes w' p'))" for w' p'
    by (rule inj_onI) (use dist in \<open>auto dest: same_id\<close>)
  note ids = card_image [OF this]
  have "length sids = card (tn_id ` set (siblings nodes ?w (tn_parent m)) - {tn_id m})"
    unfolding p(5) [symmetric] by (rule distinct_card [OF p(4), symmetric])
  then show "Suc (length sids) = card (set (siblings nodes ?w (tn_parent m)))"
    unfolding ids [symmetric] card.remove [OF finite_imageI [OF finite_set] apart(1)] by (rule arg_cong)
  have "length tids = card (insert (tn_id m) (tn_id ` set (siblings nodes ?w target)))"
    unfolding p(7) [symmetric] by (rule distinct_card [OF p(6), symmetric])
  then show "length tids = Suc (card (set (siblings nodes ?w target)))"
    unfolding ids card_insert_disjoint [OF finite_imageI [OF finite_set] apart(2)] .
  have "tn_id a \<notin> tn_id ` set (siblings nodes ?w target)" if "a \<in> set (siblings nodes ?w (tn_parent m))" for a
    by (rule other_group [OF dist that]) (use p(3) in simp)
  then show "set sids \<inter> set tids = {}" unfolding p(5,7) by blast
qed

text \<open>The two loops of a move, after both groups were offset.\<close>

lemma plan_source_placeable:
  assumes plan: "move_plan nodes m target sids tids" and dist: "distinct (map tn_id ns)"
    and ids: "\<And>w' p'. tn_id ` set (siblings ns w' p') = tn_id ` set (siblings nodes w' p')"
    and all: "tn_id ` set ns = tn_id ` set nodes"
    and far: "\<And>n. n \<in> set (siblings ns (tn_workspace m) (tn_parent m)) \<Longrightarrow>
      card (set (siblings nodes (tn_workspace m) (tn_parent m))) \<le> on_position n"
  shows "placeable (tn_workspace m) (tn_parent m) None sids ns"
proof (rule placeableI)
  note p = move_planD [OF plan]
  show "distinct sids" by (rule p(4))
  have "parents_present nodes" using tree_table [OF p(1)] by (simp add: table_ok_def)
  with p(2) show "\<forall>a. tn_parent m = Some a \<longrightarrow> a \<in> tn_id ` set ns"
    unfolding all by (auto simp: parents_present_def split: option.splits)
  show "length sids \<le> Suc (on_position n) \<and> (tn_id n \<notin> set sids \<longrightarrow> length sids \<le> on_position n)"
    if "n \<in> set (siblings ns (tn_workspace m) (tn_parent m))" for n
    using far [OF that] plan_sizes(1) [OF plan] by linarith
  show "tn_workspace n = tn_workspace m \<and> (tn_parent n = tn_parent m \<or> None = Some (tn_id n))"
    if "n \<in> set ns" "tn_id n \<in> set sids" for n
    using member_of_group [OF dist that(1), of "tn_workspace m" "tn_parent m"] that(2) unfolding p(5) ids by blast
qed

lemma plan_target_placeable:
  assumes plan: "move_plan nodes m target sids tids" and dist: "distinct (map tn_id ns)"
    and ids: "\<And>w' p'. tn_id ` set (siblings ns w' p') = tn_id ` set (siblings nodes w' p')"
    and parent: "\<forall>a. target = Some a \<longrightarrow> a \<in> tn_id ` set ns"
    and far: "\<And>n. n \<in> set (siblings ns (tn_workspace m) target) \<Longrightarrow>
      card (set (siblings nodes (tn_workspace m) target)) \<le> on_position n"
  shows "placeable (tn_workspace m) target (Some (tn_id m)) tids (map (placed q None sr sids) ns)"
proof (rule placeableI)
  let ?p = "placed q None sr sids" and ?w = "tn_workspace m"
  note p = move_planD [OF plan]
  have kept: "tn_id (?p n) = tn_id n" "tn_workspace (?p n) = tn_workspace n" "tn_parent (?p n) = tn_parent n" for n
    by (simp_all add: placed_def)
  show "distinct tids" by (rule p(6))
  show "\<forall>a. target = Some a \<longrightarrow> a \<in> tn_id ` set (map ?p ns)" using parent by (simp add: image_image)
  show "length tids \<le> Suc (on_position n) \<and> (tn_id n \<notin> set tids \<longrightarrow> length tids \<le> on_position n)"
    if n: "n \<in> set (siblings (map ?p ns) ?w target)" for n
  proof -
    have "n \<in> ?p ` set (siblings ns ?w target)" using n by (auto simp: kept)
    then obtain a where a: "a \<in> set (siblings ns ?w target)" "n = ?p a" by (rule imageE)
    have "tn_id a \<in> set tids" unfolding p(7) ids [symmetric] using imageI [OF a(1)] by (rule insertI2)
    then have "tn_id a \<notin> set sids" using plan_sizes(3) [OF plan] by blast
    with \<open>tn_id a \<in> set tids\<close> far [OF a(1)] show ?thesis
      unfolding a(2) plan_sizes(2) [OF plan] by (simp add: placed_def)
  qed
  show "tn_workspace n = ?w \<and> (tn_parent n = target \<or> Some (tn_id m) = Some (tn_id n))"
    if n: "n \<in> set (map ?p ns)" "tn_id n \<in> set tids" for n
  proof -
    obtain a where a: "a \<in> set ns" "n = ?p a" using n(1) by auto
    have "tn_id a = tn_id m \<or> tn_id a \<in> tn_id ` set (siblings ns ?w target)"
      using n(2) unfolding a(2) kept p(7) ids [symmetric] by blast
    moreover have "tn_id m \<in> tn_id ` set (siblings ns ?w (tn_parent m))"
      unfolding ids by (rule plan_apart(1) [OF tree_okD(2) [OF p(1)] p(2,3)])
    ultimately have "tn_workspace a = ?w \<and> (tn_id a = tn_id m \<or> tn_parent a = target)"
      using member_of_group [OF dist a(1)] by metis
    then show ?thesis unfolding a(2) kept by auto
  qed
qed

lemma plan_of_orders:
  assumes "tree_ok nodes" and "m \<in> set nodes" and "target \<noteq> tn_parent m"
  shows "move_plan nodes m target
    (filter (\<lambda>j. j \<noteq> tn_id m) (map tn_id (sibling_order nodes (tn_workspace m) (tn_parent m))))
    (insert_at k (tn_id m) (map tn_id (sibling_order nodes (tn_workspace m) target)))"
proof -
  note dist = tree_okD(2) [OF assms(1)]
  note orders = distinct_sibling_ids [OF dist]
  show ?thesis
    unfolding move_plan_def distinct_insert_at set_insert_at set_filter sibling_ids
  proof (intro conjI)
    show "distinct (filter (\<lambda>j. j \<noteq> tn_id m) (map tn_id (sibling_order nodes (tn_workspace m) (tn_parent m))))"
      by (rule distinct_filter [OF orders])
  qed (fact assms orders plan_apart [OF dist assms(2,3)] refl | blast)+
qed

lemma relocate_ok:
  fixes k :: nat and nodes m target
  defines "w \<equiv> tn_workspace m" and "source \<equiv> tn_parent m" and "i \<equiv> tn_id m"
  defines "sids \<equiv> filter (\<lambda>j. j \<noteq> i) (map tn_id (sibling_order nodes w source))"
    and "tids \<equiv> insert_at k i (map tn_id (sibling_order nodes w target))"
    and "sr \<equiv> current_order_revision nodes w source + 1" and "tr \<equiv> current_order_revision nodes w target + 1"
  assumes ok: "tree_ok nodes" and m: "m \<in> set nodes" and other: "target \<noteq> source"
    and exists: "\<forall>a. target = Some a \<longrightarrow> a \<in> tn_id ` set nodes"
  shows "relocate w i source target k nodes = Inr \<lparr>mr_source = source, mr_target = target, mr_source_revision = sr,
      mr_target_revision = tr, mr_nodes = map (moved_row i target sr sids tr tids) nodes\<rparr>"
proof (rule offset_siblings_elim [OF tree_table [OF ok] tree_okD(4) [OF ok, of w source]])
  let ?g = "moved_row i target sr sids tr tids"
  have plan: "move_plan nodes m target sids tids"
    using plan_of_orders [OF ok m, of target k] other
    by (simp add: sids_def tids_def i_def w_def source_def)
  fix ns1
  assume o1: "offset_siblings w source nodes = Inr ns1" "table_ok ns1" "map tn_id ns1 = map tn_id nodes"
    "tn_id ` set ns1 = tn_id ` set nodes"
    "\<And>n. n \<in> set (siblings ns1 w source) \<Longrightarrow> card (set (siblings nodes w source)) \<le> on_position n"
    "\<And>w' p'. tn_id ` set (siblings ns1 w' p') = tn_id ` set (siblings nodes w' p')"
    "\<And>w' p'. (w', p') \<noteq> (w, source) \<Longrightarrow> set (siblings ns1 w' p') = set (siblings nodes w' p')"
    "\<And>f :: ordered_node \<Rightarrow> ordered_node. (\<And>n j. tn_id n \<in> tn_id ` set (siblings nodes w source) \<Longrightarrow>
      f (n\<lparr>on_position := j\<rparr>) = f n) \<Longrightarrow> map f ns1 = map f nodes"
  have same1: "set (siblings ns1 w target) = set (siblings nodes w target)" by (rule o1(7)) (use other in simp)
  have "group_ok ns1 w target" using group_same [OF same1] tree_okD(4) [OF ok] by simp
  then show ?thesis
  proof (rule offset_siblings_elim [OF o1(2)])
    fix ns2
    assume o2: "offset_siblings w target ns1 = Inr ns2" "table_ok ns2" "map tn_id ns2 = map tn_id ns1"
      "tn_id ` set ns2 = tn_id ` set ns1"
      "\<And>n. n \<in> set (siblings ns2 w target) \<Longrightarrow> card (set (siblings ns1 w target)) \<le> on_position n"
      "\<And>w' p'. tn_id ` set (siblings ns2 w' p') = tn_id ` set (siblings ns1 w' p')"
      "\<And>w' p'. (w', p') \<noteq> (w, target) \<Longrightarrow> set (siblings ns2 w' p') = set (siblings ns1 w' p')"
      "\<And>f :: ordered_node \<Rightarrow> ordered_node. (\<And>n j. tn_id n \<in> tn_id ` set (siblings ns1 w target) \<Longrightarrow>
        f (n\<lparr>on_position := j\<rparr>) = f n) \<Longrightarrow> map f ns2 = map f ns1"
    have source2: "set (siblings ns2 w source) = set (siblings ns1 w source)" by (rule o2(7)) (use other in simp)
    have dist2: "distinct (map tn_id ns2)" using o1(3) o2(3) tree_okD(2) [OF ok] by simp
    have ids2: "tn_id ` set (siblings ns2 w' p') = tn_id ` set (siblings nodes w' p')" for w' p'
      using o1(6) o2(6) by simp
    have all2: "tn_id ` set ns2 = tn_id ` set nodes" using o1(4) o2(4) by simp
    have place1: "placeable w source None sids ns2"
      unfolding w_def source_def
      by (rule plan_source_placeable [OF plan dist2 ids2 all2]) (rule o1(5) [unfolded w_def source_def], use source2 in \<open>simp only: w_def source_def\<close>)
    have place2: "placeable w target (Some i) tids (map (placed source None sr sids) ns2)"
      unfolding w_def i_def
      by (rule plan_target_placeable [OF plan dist2 ids2]) (use exists all2 o2(5) same1 in \<open>simp_all add: w_def\<close>)
    have blind: "?g (n\<lparr>on_position := j\<rparr>) = ?g n" if "tn_id n \<in> set sids \<union> set tids" for n j
      using that by (auto simp: moved_row_def placed_def)
    note cover = plan [unfolded move_plan_def, folded w_def i_def source_def]
    have two: "placed target (Some i) tr tids \<circ> placed source None sr sids = ?g"
      by (rule ext) (simp add: moved_row_def placed_still [of source])
    have "map ?g ns2 = map ?g ns1" by (rule o2(8)) (rule blind, unfold o1(6), use cover in blast)
    also have "\<dots> = map ?g nodes" by (rule o1(8)) (rule blind, use cover in blast)
    finally have rows: "map (placed target (Some i) tr tids) (map (placed source None sr sids) ns2) = map ?g nodes"
      unfolding map_map two .
    show ?thesis
      unfolding relocate_def Let_def o1(1) o2(1) bindE_Inr highest_sibling_revision
        sids_def [symmetric] tids_def [symmetric] sr_def [symmetric] tr_def [symmetric]
        place_eq [OF o2(2) place1] place_eq [OF placed_table [OF o2(2) place1] place2] rows ..
  qed
qed

lemma move_cases:
  assumes ok: "tree_ok nodes" and accepted: "move_tree_node w i t placing expected nodes = Inr r"
  obtains m g target k where "m \<in> set nodes" "tn_id m = i" "tn_workspace m = w" "g \<in> set nodes" "tn_id g = t"
    "tn_workspace g = w" "i \<noteq> t" "target = (if placing = Inside then Some t else tn_parent g)" "target \<noteq> tn_parent m"
    "validate_move_hierarchy nodes w i (tn_kind m) target = Inr ()"
    "current_order_revision nodes w (tn_parent m) = expected"
    "k = (let tids = map tn_id (sibling_order nodes w target) in
      if placing = Inside then length tids else position_in t tids + (if placing = After then 1 else 0))"
    "relocate w i (tn_parent m) target k nodes = Inr r"
proof -
  note row = node_row_iff [OF tree_okD(2) [OF ok]]
  from accepted obtain m g where mg: "node_row nodes i = Some m" "node_row nodes t = Some g"
    by (auto simp: move_tree_node_def split: option.splits)
  then have rows: "m \<in> set nodes" "tn_id m = i" "g \<in> set nodes" "tn_id g = t" by (auto simp: row)
  define target where "target = (if placing = Inside then Some t else tn_parent g)"
  from accepted mg have "tn_workspace m = w" "tn_workspace g = w" "i \<noteq> t" "tn_parent m \<noteq> target"
    "bindE (validate_move_hierarchy nodes w i (tn_kind m) target) (\<lambda>_.
      if current_order_revision nodes w (tn_parent m) \<noteq> expected \<or> i \<notin> tn_id ` set (sibling_order nodes w (tn_parent m))
      then Inl OrderConflict
      else if placing \<noteq> Inside \<and> t \<notin> set (map tn_id (sibling_order nodes w target)) then Inl OrderConflict
      else relocate w i (tn_parent m) target
        (if placing = Inside then length (map tn_id (sibling_order nodes w target))
         else position_in t (map tn_id (sibling_order nodes w target)) + (if placing = After then 1 else 0)) nodes) = Inr r"
    unfolding move_tree_node_def target_def [symmetric] Let_def
    by (simp_all add: target_def result_simps split: if_splits)
  then show thesis
    by (intro that [OF rows(1,2) _ rows(3,4) _ _ target_def _ _ _ refl])
      (auto simp: result_simps Let_def split: if_splits)
qed

lemma hierarchy_parent:
  assumes ok: "tree_ok nodes" and valid: "validate_move_hierarchy nodes w i kind target = Inr ()"
  shows "validate_parent nodes w target = Inr ()" and "\<forall>a. target = Some a \<longrightarrow> a \<in> tn_id ` set nodes"
proof -
  show parent: "validate_parent nodes w target = Inr ()"
    using valid by (auto simp: validate_move_hierarchy_def result_simps)
  then show "\<forall>a. target = Some a \<longrightarrow> a \<in> tn_id ` set nodes"
    by (auto simp: validated_parent [OF tree_okD(2) [OF ok]])
qed

lemma hierarchy_fails_softly: "validate_move_hierarchy nodes w i kind target \<noteq> Inl ConstraintFailed"
proof -
  have "climb nodes w i visited a \<noteq> Inl ConstraintFailed" for visited a
    by (induction nodes w i visited a rule: climb.induct) (auto split: option.splits)
  then show ?thesis by (auto simp: validate_move_hierarchy_def validate_parent_def split: option.splits)
qed

lemma move_total:
  assumes ok: "tree_ok nodes"
  shows "move_tree_node w i t placing expected nodes \<noteq> Inl ConstraintFailed"
proof
  assume failed: "move_tree_node w i t placing expected nodes = Inl ConstraintFailed"
  note row = node_row_iff [OF tree_okD(2) [OF ok]]
  from failed obtain m g where mg: "node_row nodes i = Some m" "node_row nodes t = Some g"
    by (auto simp: move_tree_node_def split: option.splits)
  then have m: "m \<in> set nodes" "tn_id m = i" by (auto simp: row)
  define target where "target = (if placing = Inside then Some t else tn_parent g)"
  obtain k where k: "tn_workspace m = w" "target \<noteq> tn_parent m"
    "validate_move_hierarchy nodes w i (tn_kind m) target = Inr ()"
    "relocate w i (tn_parent m) target k nodes = Inl ConstraintFailed"
    using failed
    unfolding move_tree_node_def mg prod.case option.case Let_def target_def [symmetric] bindE_eq_Inl
    by (auto simp: hierarchy_fails_softly result_simps split: if_splits)
  from relocate_ok [OF ok m(1) k(2) hierarchy_parent(2) [OF ok k(3)], of k] k(1,4) m(2) show False by simp
qed

lemma move_ok:
  assumes ok: "tree_ok nodes" and accepted: "move_tree_node w i t placing expected nodes = Inr r"
  shows "tree_ok (mr_nodes r)"
    and "map tn_id (mr_nodes r) = map tn_id nodes"
    and "map (\<lambda>n. (tn_id n, tn_workspace n, tn_kind n, tn_name n)) (mr_nodes r) =
      map (\<lambda>n. (tn_id n, tn_workspace n, tn_kind n, tn_name n)) nodes"
    and "n \<in> set (mr_nodes r) \<Longrightarrow> \<exists>m \<in> set nodes. tn_id m = tn_id n \<and>
      tn_parent n = (if tn_id n = i then mr_target r else tn_parent m)"
    and "mr_source_revision r = expected + 1"
    and "expected = current_order_revision nodes w (mr_source r)"
    and "mr_target r \<noteq> mr_source r"
    and "map tn_id (sibling_order (mr_nodes r) w (mr_source r)) =
      filter (\<lambda>j. j \<noteq> i) (map tn_id (sibling_order nodes w (mr_source r)))"
    and "map tn_id (sibling_order (mr_nodes r) w (mr_target r)) =
      (let ids = map tn_id (sibling_order nodes w (mr_target r)) in
       insert_at (if placing = Inside then length ids else position_in t ids + (if placing = After then 1 else 0)) i ids)"
    and "mr_target r = (if placing = Inside then Some t else tn_parent (the (node_row nodes t)))"
proof -
  note dist = tree_okD(2) [OF ok]
  from ok accepted obtain m g target k where m: "m \<in> set nodes" "tn_id m = i" "tn_workspace m = w"
    and g: "g \<in> set nodes" "tn_id g = t" and target: "target = (if placing = Inside then Some t else tn_parent g)"
    and other: "target \<noteq> tn_parent m" and valid: "validate_move_hierarchy nodes w i (tn_kind m) target = Inr ()"
    and expected: "current_order_revision nodes w (tn_parent m) = expected"
    and k: "k = (let tids = map tn_id (sibling_order nodes w target) in
      if placing = Inside then length tids else position_in t tids + (if placing = After then 1 else 0))"
    and moved: "relocate w i (tn_parent m) target k nodes = Inr r"
    by (rule move_cases) blast
  let ?sids = "filter (\<lambda>j. j \<noteq> i) (map tn_id (sibling_order nodes w (tn_parent m)))"
  let ?tids = "insert_at k i (map tn_id (sibling_order nodes w target))"
  let ?g = "moved_row i target (expected + 1) ?sids (current_order_revision nodes w target + 1) ?tids"
  have plan: "move_plan nodes m target ?sids ?tids"
    using plan_of_orders [OF ok m(1) other, of k] unfolding m(2,3) .
  have r: "r = \<lparr>mr_source = tn_parent m, mr_target = target, mr_source_revision = expected + 1,
      mr_target_revision = current_order_revision nodes w target + 1, mr_nodes = map ?g nodes\<rparr>"
    using relocate_ok [OF ok m(1) other hierarchy_parent(2) [OF ok valid], of k] moved
    unfolding m(2,3) expected by simp
  have fields: "tn_id (?g n) = tn_id n \<and> tn_workspace (?g n) = tn_workspace n \<and> tn_kind (?g n) = tn_kind n \<and>
      tn_parent (?g n) = (if tn_id n = i then target else tn_parent n)" for n
    by (simp add: moved_row_fields)
  have "(a, i) \<notin> (parent_edges nodes)\<^sup>*" if "target = Some a" for a
    by (rule validated_destination [OF ok valid m(1,2) that])
  with move_forest [OF tree_okD(1) [OF ok] m hierarchy_parent(1) [OF ok valid]] fields
  have "forest_ok (map ?g nodes)" by blast
  with moved_groups [OF plan] show "tree_ok (mr_nodes r)" unfolding m(2) r by (simp add: tree_ok_def)
  show "map tn_id (mr_nodes r) = map tn_id nodes" using fields by (simp add: r)
  show "map (\<lambda>n. (tn_id n, tn_workspace n, tn_kind n, tn_name n)) (mr_nodes r) =
      map (\<lambda>n. (tn_id n, tn_workspace n, tn_kind n, tn_name n)) nodes"
    by (simp add: r moved_row_def)
  show "\<exists>m \<in> set nodes. tn_id m = tn_id n \<and> tn_parent n = (if tn_id n = i then mr_target r else tn_parent m)"
    if "n \<in> set (mr_nodes r)" using that fields by (auto simp: r)
  show "mr_source_revision r = expected + 1" by (simp add: r)
  show "expected = current_order_revision nodes w (mr_source r)" using expected by (simp add: r)
  show "mr_target r \<noteq> mr_source r" using other by (simp add: r)
  show "map tn_id (sibling_order (mr_nodes r) w (mr_source r)) =
      filter (\<lambda>j. j \<noteq> i) (map tn_id (sibling_order nodes w (mr_source r)))"
    using in_order_ids [OF moved_source [OF plan]] unfolding m(2,3) r by simp
  show "map tn_id (sibling_order (mr_nodes r) w (mr_target r)) =
      (let ids = map tn_id (sibling_order nodes w (mr_target r)) in
       insert_at (if placing = Inside then length ids else position_in t ids + (if placing = After then 1 else 0)) i ids)"
    using in_order_ids [OF moved_target [OF plan]] unfolding m(2,3) r by (simp add: k Let_def)
  show "mr_target r = (if placing = Inside then Some t else tn_parent (the (node_row nodes t)))"
    using node_row_iff [OF dist, of t g] g by (simp add: r target)
qed

end
