(* ===== verification/Tree_Subtrees.thy ===== *)
theory Tree_Subtrees
  imports Tree_Moves
begin

text \<open>
  The descendants of a collection and its deletion: the work list of \<open>#collectionDescendants\<close> visits every
  row under the collection once, at its depth; deleting the rows deepest first never leaves a row
  whose parent is gone; and closing up the siblings afterwards restores the invariant of the tree.
\<close>

section \<open>Descendants\<close>

lemma parent_edge_iff:
  "(c, p) \<in> parent_edges nodes \<longleftrightarrow> (\<exists>n \<in> set nodes. tn_id n = c \<and> tn_parent n = Some p)"
  by (auto simp: parent_edges_def)

lemma set_children: "c \<in> set (children nodes p) \<longleftrightarrow> (c, p) \<in> parent_edges nodes"
  by (auto simp: children_def parent_edge_iff)

lemma one_parent:
  assumes "distinct (map tn_id nodes)" and "(c, p) \<in> parent_edges nodes" and "(c, q) \<in> parent_edges nodes"
  shows "p = q"
proof -
  from assms obtain a b where "a \<in> set nodes" "tn_id a = c" "tn_parent a = Some p" "b \<in> set nodes" "tn_id b = c"
    "tn_parent b = Some q" by (auto simp: parent_edge_iff)
  with same_id [OF assms(1), of a b] show ?thesis by simp
qed

definition level :: "ordered_node list \<Rightarrow> entity_id \<Rightarrow> entity_id \<Rightarrow> nat" where
  "level nodes i j = (LEAST k. (j, i) \<in> parent_edges nodes ^^ k)"

lemma level_root [simp]: "level nodes i i = 0"
  unfolding level_def by (rule Least_equality) auto

lemma level_child:
  assumes dist: "distinct (map tn_id nodes)" and edge: "(c, p) \<in> parent_edges nodes"
    and path: "(p, i) \<in> (parent_edges nodes)\<^sup>*" and "c \<noteq> i"
  shows "level nodes i c = level nodes i p + 1"
proof -
  let ?E = "parent_edges nodes"
  have up: "(c, i) \<in> ?E ^^ Suc k \<longleftrightarrow> (p, i) \<in> ?E ^^ k" for k
    using edge one_parent [OF dist _ edge] by (metis relpow_Suc_I2 relpow_Suc_D2)
  from path obtain k where "(p, i) \<in> ?E ^^ k" by (auto dest: rtrancl_imp_relpow)
  then have "(c, i) \<in> ?E ^^ Suc k" by (simp only: up)
  from Least_Suc [where P = "\<lambda>k. (c, i) \<in> ?E ^^ k", OF this] \<open>c \<noteq> i\<close> show ?thesis
    unfolding level_def up by simp
qed

definition walk_state ::
  "ordered_node list \<Rightarrow> entity_id \<Rightarrow> (entity_id \<times> nat) list \<Rightarrow> entity_id list
     \<Rightarrow> (entity_id \<times> node_kind \<times> nat) list \<Rightarrow> bool" where
  "walk_state nodes i pending visited out \<longleftrightarrow> map fst out = visited \<and> distinct visited \<and>
     i \<in> set visited \<union> fst ` set pending \<and>
     (\<forall>(c, d) \<in> set pending. c \<in> tn_id ` set nodes \<and> (c, i) \<in> (parent_edges nodes)\<^sup>* \<and> d = level nodes i c) \<and>
     (\<forall>(c, k, d) \<in> set out. (c, i) \<in> (parent_edges nodes)\<^sup>* \<and> d = level nodes i c \<and>
       (\<exists>n \<in> set nodes. tn_id n = c \<and> tn_kind n = k)) \<and>
     (\<forall>v \<in> set visited. \<forall>c. (c, v) \<in> parent_edges nodes \<longrightarrow> c \<in> set visited \<union> fst ` set pending)"

lemma walk_visit:
  assumes dist: "distinct (map tn_id nodes)" and acyclic: "acyclic (parent_edges nodes)"
    and state: "walk_state nodes i ((j, d) # pending) visited out" and new: "j \<notin> set visited"
    and n: "n \<in> set nodes" "tn_id n = j"
  shows "walk_state nodes i (rev (map (\<lambda>c. (c, d + 1)) (children nodes j)) @ pending) (visited @ [j])
    (out @ [(j, tn_kind n, d)])"
proof -
  note s = state [unfolded walk_state_def]
  have j: "(j, i) \<in> (parent_edges nodes)\<^sup>*" "d = level nodes i j" using s by auto
  have child: "c \<in> tn_id ` set nodes \<and> (c, i) \<in> (parent_edges nodes)\<^sup>* \<and> d + 1 = level nodes i c"
    if edge: "(c, j) \<in> parent_edges nodes" for c
  proof -
    have "c \<noteq> i" using acyclic edge j(1) by (auto simp: acyclic_def dest: rtrancl_into_trancl2)
    from level_child [OF dist edge j(1) this] j(2) converse_rtrancl_into_rtrancl [OF edge j(1)] edge show ?thesis
      by (auto simp: parent_edge_iff)
  qed
  have "\<forall>(c, d') \<in> set (rev (map (\<lambda>c. (c, d + 1)) (children nodes j)) @ pending).
      c \<in> tn_id ` set nodes \<and> (c, i) \<in> (parent_edges nodes)\<^sup>* \<and> d' = level nodes i c"
    using s child by (auto simp: set_children)
  moreover have "\<forall>v \<in> set (visited @ [j]). \<forall>c. (c, v) \<in> parent_edges nodes \<longrightarrow>
      c \<in> set (visited @ [j]) \<union> fst ` set (rev (map (\<lambda>c. (c, d + 1)) (children nodes j)) @ pending)"
    using s by (auto simp: image_Un image_image set_children)
  ultimately show ?thesis using s new n j by (auto simp: walk_state_def image_Un)
qed

lemma walk_ok:
  assumes "distinct (map tn_id nodes)" and "acyclic (parent_edges nodes)"
    and "walk_state nodes i pending visited out"
  shows "\<exists>ds. walk_tree nodes pending visited out = Inr ds \<and> walk_state nodes i [] (map fst ds) ds"
  using assms
proof (induction nodes pending visited out rule: walk_tree.induct)
  case (1 nodes visited out)
  then show ?case by (auto simp: walk_state_def)
next
  case (2 nodes j d pending visited out)
  show ?case
  proof (cases "j \<in> set visited")
    case True
    with "2.prems"(3) have "walk_state nodes i pending visited out" by (auto simp: walk_state_def)
    with "2.IH"(1) [OF True "2.prems"(1,2)] True show ?thesis by simp
  next
    case False
    from "2.prems"(3) have "j \<in> tn_id ` set nodes" by (simp add: walk_state_def)
    then obtain n where n: "node_row nodes j = Some n" using node_row_None [of nodes j] by (cases "node_row nodes j") auto
    with node_row_iff [OF "2.prems"(1)] have "n \<in> set nodes" "tn_id n = j" by auto
    from "2.IH"(2) [OF False n "2.prems"(1,2) walk_visit [OF "2.prems" False this]] False n
    show ?thesis by simp
  qed
qed

lemma walk_result:
  assumes "walk_state nodes i [] (map fst ds) ds"
  shows "distinct (map fst ds)" and "fst ` set ds = {j. (j, i) \<in> (parent_edges nodes)\<^sup>*}"
    and "(j, k, d) \<in> set ds \<Longrightarrow> d = level nodes i j"
    and "(j, k, d) \<in> set ds \<Longrightarrow> \<exists>n \<in> set nodes. tn_id n = j \<and> tn_kind n = k"
proof -
  note s = assms [unfolded walk_state_def]
  show "distinct (map fst ds)" using s by simp
  show "d = level nodes i j" if "(j, k, d) \<in> set ds" using s that by fastforce
  show "\<exists>n \<in> set nodes. tn_id n = j \<and> tn_kind n = k" if "(j, k, d) \<in> set ds" using s that by fastforce
  have "j \<in> fst ` set ds" if "(j, i) \<in> (parent_edges nodes)\<^sup>*" for j
    using that by (induction rule: converse_rtrancl_induct) (use s in auto)
  moreover have "(j, i) \<in> (parent_edges nodes)\<^sup>*" if "j \<in> fst ` set ds" for j
    using s that by fastforce
  ultimately show "fst ` set ds = {j. (j, i) \<in> (parent_edges nodes)\<^sup>*}" by blast
qed

text \<open>Inside a workspace the walk sees all rows under the collection.\<close>

lemma workspace_rows:
  assumes ok: "tree_ok nodes" and "m \<in> set nodes" and "tn_workspace m = w" and "tn_id m = i"
  shows "{j. (j, i) \<in> (parent_edges (filter (\<lambda>n. tn_workspace n = w) nodes))\<^sup>*} = {j. (j, i) \<in> (parent_edges nodes)\<^sup>*}"
    and "(j, i) \<in> (parent_edges nodes)\<^sup>* \<Longrightarrow> \<exists>n \<in> set nodes. tn_id n = j \<and> tn_workspace n = w"
proof -
  let ?E = "parent_edges nodes" and ?W = "parent_edges (filter (\<lambda>n. tn_workspace n = w) nodes)"
  have inside: "(j, i) \<in> ?W\<^sup>* \<and> (\<exists>n \<in> set nodes. tn_id n = j \<and> tn_workspace n = w)" if "(j, i) \<in> ?E\<^sup>*" for j
    using that
  proof (induction rule: converse_rtrancl_induct)
    case base
    with assms(2-4) show ?case by auto
  next
    case (step c p)
    from step(1) obtain n where n: "n \<in> set nodes" "tn_id n = c" "tn_parent n = Some p" by (auto simp: parent_edge_iff)
    with step(3) tree_okD(3) [OF ok] have "tn_workspace n = w"
      using same_id [OF tree_okD(2) [OF ok]] unfolding parents_ok_def by metis
    with n have "(c, p) \<in> ?W" by (auto simp: parent_edge_iff)
    with step(3) n \<open>tn_workspace n = w\<close> show ?case by (auto intro: converse_rtrancl_into_rtrancl)
  qed
  then show "\<exists>n \<in> set nodes. tn_id n = j \<and> tn_workspace n = w" if "(j, i) \<in> ?E\<^sup>*" using that by blast
  have "?W \<subseteq> ?E" by (auto simp: parent_edge_iff)
  from rtrancl_mono [OF this] inside show "{j. (j, i) \<in> ?W\<^sup>*} = {j. (j, i) \<in> ?E\<^sup>*}" by blast
qed

lemma descendants_ok:
  assumes ok: "tree_ok nodes" and m: "m \<in> set nodes" "tn_workspace m = w" "tn_id m = i"
  obtains ds where "collection_descendants nodes w i = Inr ds" "distinct (map fst ds)"
    "fst ` set ds = {j. (j, i) \<in> (parent_edges nodes)\<^sup>*}"
    "\<And>j k d. (j, k, d) \<in> set ds \<Longrightarrow> \<exists>n \<in> set nodes. tn_id n = j \<and> tn_workspace n = w \<and> tn_kind n = k"
    "\<And>c p k d. (c, p) \<in> parent_edges nodes \<Longrightarrow> (p, k, d) \<in> set ds \<Longrightarrow> \<exists>k'. (c, k', d + 1) \<in> set ds"
proof -
  let ?W = "filter (\<lambda>n. tn_workspace n = w) nodes"
  have dist: "distinct (map tn_id ?W)" using tree_okD(2) [OF ok] by (rule distinct_map_filter)
  have sub: "parent_edges ?W \<subseteq> parent_edges nodes" by (auto simp: parent_edge_iff)
  from acyclic_subset [OF tree_okD(5) [OF ok] this] have acyc: "acyclic (parent_edges ?W)" .
  have "walk_state ?W i [(i, 0)] [] []" using m by (auto simp: walk_state_def)
  from walk_ok [OF dist acyc this] obtain ds
    where ds: "collection_descendants nodes w i = Inr ds" "walk_state ?W i [] (map fst ds) ds"
    by (auto simp: collection_descendants_def)
  note r = walk_result [OF ds(2)]
  show thesis
  proof (rule that [OF ds(1) r(1) r(2) [unfolded workspace_rows(1) [OF ok m]]])
    show "\<exists>n \<in> set nodes. tn_id n = j \<and> tn_workspace n = w \<and> tn_kind n = k" if "(j, k, d) \<in> set ds" for j k d
      using r(4) [OF that] by auto
    fix c p k d assume edge: "(c, p) \<in> parent_edges nodes" and p: "(p, k, d) \<in> set ds"
    have path: "(p, i) \<in> (parent_edges nodes)\<^sup>*" "(p, i) \<in> (parent_edges ?W)\<^sup>*"
      using imageI [OF p, of fst] workspace_rows(1) [OF ok m] unfolding r(2) by auto
    then have below: "(c, i) \<in> (parent_edges nodes)\<^sup>*" using edge by (auto intro: converse_rtrancl_into_rtrancl)
    from workspace_rows(2) [OF ok m below] obtain n where n: "n \<in> set nodes" "tn_id n = c" "tn_workspace n = w" by blast
    with edge same_id [OF tree_okD(2) [OF ok]] have inner: "(c, p) \<in> parent_edges ?W" by (auto simp: parent_edge_iff)
    have "c \<noteq> i" using tree_okD(5) [OF ok] edge path(1) by (auto simp: acyclic_def dest: rtrancl_into_trancl2)
    from level_child [OF dist inner path(2) this] r(3) [OF p] have "level ?W i c = d + 1" by simp
    moreover have "c \<in> fst ` set ds" unfolding r(2) workspace_rows(1) [OF ok m] using below by simp
    ultimately show "\<exists>k'. (c, k', d + 1) \<in> set ds" using r(3) by force
  qed
qed

section \<open>Deletion\<close>

text \<open>Rows can be removed together when every child of a removed row is removed.\<close>

definition closed_below :: "ordered_node list \<Rightarrow> entity_id set \<Rightarrow> bool" where
  "closed_below nodes D \<longleftrightarrow> (\<forall>(c, p) \<in> parent_edges nodes. p \<in> D \<longrightarrow> c \<in> D)"

definition without :: "entity_id set \<Rightarrow> ordered_node list \<Rightarrow> ordered_node list" where
  "without D nodes = filter (\<lambda>n. tn_id n \<notin> D) nodes"

lemma set_without [simp]: "set (without D nodes) = {n \<in> set nodes. tn_id n \<notin> D}"
  by (simp add: without_def)

lemma distinct_without: "distinct (map tn_id nodes) \<Longrightarrow> distinct (map tn_id (without D nodes))"
  unfolding without_def by (rule distinct_map_filter)

lemma without_table:
  assumes "table_ok nodes" and "closed_below nodes D"
  shows "table_ok (without D nodes)"
proof -
  have "parents_present (without D nodes)"
    unfolding parents_present_def
  proof (intro ballI)
    fix n assume n: "n \<in> set (without D nodes)"
    show "case tn_parent n of None \<Rightarrow> True | Some p \<Rightarrow> p \<in> tn_id ` set (without D nodes)"
    proof (cases "tn_parent n")
      case (Some p)
      with n have "(tn_id n, p) \<in> parent_edges nodes" by (auto simp: parent_edge_iff)
      with n assms(2) have "p \<notin> D" by (auto simp: closed_below_def)
      moreover have "p \<in> tn_id ` set nodes"
        using assms(1) n Some by (auto simp: table_ok_def parents_present_def split: option.splits)
      ultimately show ?thesis using Some by auto
    qed simp
  qed
  moreover have "slots_unique (without D nodes)" using assms(1) by (auto simp: table_ok_def slots_unique_def)
  ultimately show ?thesis using assms(1) distinct_without by (auto simp: table_ok_def)
qed

text \<open>A loop over the removed rows, deepest first, meets every row after its children.\<close>

lemma deepest_first:
  fixes S :: "'s \<Rightarrow> entity_id \<times> node_kind \<times> nat \<Rightarrow> 'e + 's" and state :: "entity_id set \<Rightarrow> 's"
  defines "key \<equiv> \<lambda>(i, k, d). - int d"
  assumes step: "\<And>D e. e \<in> set ds \<Longrightarrow> D \<subseteq> fst ` set ds \<Longrightarrow> closed_below nodes (insert (fst e) D) \<Longrightarrow>
      S (state D) e = Inr (state (insert (fst e) D))"
    and below: "\<And>c p k d. (c, p) \<in> parent_edges nodes \<Longrightarrow> (p, k, d) \<in> set ds \<Longrightarrow> \<exists>k'. (c, k', d + 1) \<in> set ds"
  shows "foldE S (state {}) (sort_key key ds) = Inr (state (fst ` set ds))"
proof -
  have "foldE S (state D) es = Inr (state (D \<union> fst ` set es))"
    if "sorted (map key es)" "closed_below nodes D" "set es \<subseteq> set ds" "D \<subseteq> fst ` set ds"
      "\<And>c p k d. (c, p) \<in> parent_edges nodes \<Longrightarrow> (p, k, d) \<in> set es \<Longrightarrow> c \<in> D \<or> (\<exists>k'. (c, k', d + 1) \<in> set es)"
    for D :: "entity_id set" and es
    using that
  proof (induction es arbitrary: D)
    case (Cons e es)
    obtain p k d where e: "e = (p, k, d)" by (cases e)
    have deepest: "d' \<le> d" if "(c, k', d') \<in> set (e # es)" for c k' d'
      using that Cons.prems(1) e by (auto simp: key_def)
    have children: "c \<in> D" if "(c, p) \<in> parent_edges nodes" for c
      using Cons.prems(5) [OF that, of k d] deepest [of c _ "d + 1"] e by fastforce
    have closed: "closed_below nodes (insert p D)"
      using Cons.prems(2) children by (auto simp: closed_below_def)
    then have "S (state D) e = Inr (state (insert p D))" using step [of e D] Cons.prems(3,4) e by simp
    moreover have "foldE S (state (insert p D)) es = Inr (state (insert p D \<union> fst ` set es))"
    proof (rule Cons.IH [OF _ closed])
      show "sorted (map key es)" using Cons.prems(1) by simp
      show "set es \<subseteq> set ds" "insert p D \<subseteq> fst ` set ds" using Cons.prems(3,4) e by force+
      show "c \<in> insert p D \<or> (\<exists>k'. (c, k', d' + 1) \<in> set es)"
        if "(c, q) \<in> parent_edges nodes" "(q, k'', d') \<in> set es" for c q k'' d'
        using Cons.prems(5) [OF that(1), of k'' d'] that(2) e by auto
    qed
    ultimately show ?case by (simp add: e)
  qed simp
  from this [of "sort_key key ds" "{}"] below show ?thesis by (simp add: closed_below_def)
qed

lemma delete_nodes_eq:
  assumes table: "table_ok nodes"
    and below: "\<And>c p k d. (c, p) \<in> parent_edges nodes \<Longrightarrow> (p, k, d) \<in> set ds \<Longrightarrow> \<exists>k'. (c, k', d + 1) \<in> set ds"
  shows "delete_nodes ds nodes = Inr (without (fst ` set ds) nodes)"
proof -
  let ?step = "\<lambda>ns (i, k, d). delete_node i ns"
  have "?step (without D nodes) e = Inr (without (insert (fst e) D) nodes)"
    if "closed_below nodes (insert (fst e) D)" for D and e :: "entity_id \<times> node_kind \<times> nat"
    using without_table [OF table that] by (cases e) (simp add: delete_node_def without_def conj_commute)
  from deepest_first [of ds nodes ?step "\<lambda>D. without D nodes", OF this below]
  show ?thesis by (simp add: delete_nodes_def without_def)
qed

lemma without_forest:
  assumes "forest_ok nodes" and "closed_below nodes D"
  shows "forest_ok (without D nodes)"
proof -
  have "parent_edges (without D nodes) \<subseteq> parent_edges nodes" by (auto simp: parent_edge_iff)
  moreover have "parents_ok (without D nodes)"
    unfolding parents_ok_def
  proof (intro ballI allI impI)
    fix n p assume n: "n \<in> set (without D nodes)" "tn_parent n = Some p"
    then have "(tn_id n, p) \<in> parent_edges nodes" by (auto simp: parent_edge_iff)
    with n assms(2) have "p \<notin> D" by (auto simp: closed_below_def)
    with n assms(1) show "\<exists>m \<in> set (without D nodes). tn_id m = p \<and> tn_kind m = CollectionNode \<and> tn_workspace m = tn_workspace n"
      by (fastforce simp: forest_ok_def parents_ok_def)
  qed
  ultimately show ?thesis using assms(1) distinct_without acyclic_subset by (auto simp: forest_ok_def)
qed

lemma siblings_without: "siblings (without D nodes) w p = filter (\<lambda>n. tn_id n \<notin> D) (siblings nodes w p)"
  by (simp add: siblings_def without_def conj_commute)

lemma order_without: "sibling_order (without D nodes) w p = filter (\<lambda>n. tn_id n \<notin> D) (sibling_order nodes w p)"
  by (simp add: sibling_order_def siblings_without filter_sort)

text \<open>Deleting the rows under a row and closing up its siblings.\<close>

lemma delete_subtree_ok:
  assumes ok: "tree_ok nodes" and m: "m \<in> set nodes"
    and ds: "fst ` set ds = {j. (j, tn_id m) \<in> (parent_edges nodes)\<^sup>*}"
    and below: "\<And>c p k d. (c, p) \<in> parent_edges nodes \<Longrightarrow> (p, k, d) \<in> set ds \<Longrightarrow> \<exists>k'. (c, k', d + 1) \<in> set ds"
  shows "\<exists>revision nodes'. bindE (delete_nodes ds nodes) (compact_siblings (tn_workspace m) (tn_parent m) r) = Inr (revision, nodes') \<and>
    r < revision \<and> tree_ok nodes' \<and> map tree_node.truncate nodes' = map tree_node.truncate (without (fst ` set ds) nodes) \<and>
    map tn_id (sibling_order nodes' (tn_workspace m) (tn_parent m)) =
      filter (\<lambda>j. j \<noteq> tn_id m) (map tn_id (sibling_order nodes (tn_workspace m) (tn_parent m)))"
proof -
  let ?D = "fst ` set ds" and ?w = "tn_workspace m" and ?p = "tn_parent m"
  note dist = tree_okD(2) [OF ok]
  have closed: "closed_below nodes ?D"
    unfolding ds closed_below_def by (auto intro: converse_rtrancl_into_rtrancl)
  have only: "tn_id n \<in> ?D \<longleftrightarrow> (case tn_parent n of None \<Rightarrow> False | Some a \<Rightarrow> a \<in> ?D)" if "n \<in> set nodes" "n \<noteq> m" for n
  proof -
    have "tn_id n \<noteq> tn_id m" using same_id [OF dist] that m by blast
    then have "(tn_id n, tn_id m) \<in> (parent_edges nodes)\<^sup>* \<longleftrightarrow>
        (\<exists>a. (tn_id n, a) \<in> parent_edges nodes \<and> (a, tn_id m) \<in> (parent_edges nodes)\<^sup>*)"
      by (meson converse_rtranclE converse_rtrancl_into_rtrancl)
    moreover have "(tn_id n, a) \<in> parent_edges nodes \<longleftrightarrow> tn_parent n = Some a" for a
      using same_id [OF dist _ that(1)] that(1) by (auto simp: parent_edge_iff)
    ultimately show ?thesis unfolding ds by (auto split: option.splits)
  qed
  have parent: "a \<notin> ?D" if "?p = Some a" for a
  proof -
    have "(tn_id m, a) \<in> parent_edges nodes" using m that by (auto simp: parent_edge_iff)
    with tree_okD(5) [OF ok] show ?thesis unfolding ds by (auto simp: acyclic_def dest: rtrancl_into_trancl2)
  qed
  have in_D: "tn_id m \<in> ?D" unfolding ds by simp
  have "group_ok (without ?D nodes) w' p'" if other: "(w', p') \<noteq> (?w, ?p)" for w' p'
  proof -
    have all: "tn_id n \<in> ?D \<longleftrightarrow> (case p' of None \<Rightarrow> False | Some a \<Rightarrow> a \<in> ?D)" if "n \<in> set (siblings nodes w' p')" for n
      using only [of n] that other by (metis siblings_iff)
    have "siblings (without ?D nodes) w' p' =
        (if case p' of None \<Rightarrow> False | Some a \<Rightarrow> a \<in> ?D then [] else siblings nodes w' p')"
      unfolding siblings_without
      by (simp only: filter_empty_conv filter_id_conv split: if_split) (use all in blast)
    with tree_okD(4) [OF ok, of w' p'] show ?thesis by (simp add: group_ok_def bij_betw_def split: if_splits)
  qed
  moreover have "inj_on on_position (set (siblings (without ?D nodes) ?w ?p))"
    using tree_okD(4) [OF ok, of ?w ?p] unfolding group_ok_def bij_betw_def siblings_without
    by (auto intro: inj_on_subset)
  moreover have "\<forall>a. ?p = Some a \<longrightarrow> a \<in> tn_id ` set (without ?D nodes)"
    using tree_okD(3) [OF ok] m parent by (fastforce simp: parents_ok_def)
  ultimately obtain revision nodes' where compact: "compact_siblings ?w ?p r (without ?D nodes) = Inr (revision, nodes')"
    "tree_ok nodes'" "r < revision"
    "map tn_id (sibling_order nodes' ?w ?p) = map tn_id (sibling_order (without ?D nodes) ?w ?p)"
    "nodes' = map (placed ?p None revision (map tn_id (sibling_order (without ?D nodes) ?w ?p))) (without ?D nodes)"
    using compact_ok [OF without_forest [OF tree_okD(1) [OF ok] closed] without_table [OF tree_table [OF ok] closed]]
    by metis
  have "filter (\<lambda>n. tn_id n \<notin> ?D) (sibling_order nodes ?w ?p) = filter (\<lambda>n. tn_id n \<noteq> tn_id m) (sibling_order nodes ?w ?p)"
  proof (rule filter_cong [OF refl])
    fix n assume "n \<in> set (sibling_order nodes ?w ?p)"
    then have n: "n \<in> set nodes" "tn_parent n = ?p" by simp_all
    show "tn_id n \<notin> ?D \<longleftrightarrow> tn_id n \<noteq> tn_id m"
      using only [OF n(1)] n(2) parent in_D same_id [OF dist n(1) m] by (cases "n = m") (auto split: option.splits)
  qed
  then have "map tn_id (sibling_order (without ?D nodes) ?w ?p) = filter (\<lambda>j. j \<noteq> tn_id m) (map tn_id (sibling_order nodes ?w ?p))"
    unfolding order_without by (simp add: filter_map comp_def)
  with compact delete_nodes_eq [OF tree_table [OF ok] below] show ?thesis by (auto simp: comp_def)
qed

lemma delete_leaf_ok:
  assumes ok: "tree_ok nodes" and m: "m \<in> set nodes" and "tn_kind m \<noteq> CollectionNode"
  shows "\<exists>revision nodes'. bindE (delete_nodes [(tn_id m, k, 0)] nodes) (compact_siblings (tn_workspace m) (tn_parent m) r) = Inr (revision, nodes') \<and>
    r < revision \<and> tree_ok nodes' \<and> map tree_node.truncate nodes' = map tree_node.truncate (without {tn_id m} nodes) \<and>
    map tn_id (sibling_order nodes' (tn_workspace m) (tn_parent m)) =
      filter (\<lambda>j. j \<noteq> tn_id m) (map tn_id (sibling_order nodes (tn_workspace m) (tn_parent m)))"
proof -
  have leaf: "(c, tn_id m) \<notin> parent_edges nodes" for c
    using tree_okD(3) [OF ok] same_id [OF tree_okD(2) [OF ok] _ m] assms(3)
    by (fastforce simp: parent_edge_iff parents_ok_def)
  then have "{j. (j, tn_id m) \<in> (parent_edges nodes)\<^sup>*} = {tn_id m}"
    by (auto elim: rtranclE)
  from delete_subtree_ok [OF ok m, of "[(tn_id m, k, 0)]"] this leaf show ?thesis by auto
qed

end
