(* ===== verification/Request_Invariant.thy ===== *)
theory Request_Invariant
  imports Request_Imports Request_Preparation Tree_Subtrees
begin

text \<open>
  The invariant of the tables behind \<open>RequestService\<close> and that its operations keep it: the tree is
  sound, references between the tables do not dangle, the drafts are the requests of the tree, profiles
  belong to collections, and the history of a request refers to revisions of that request only.
\<close>

section \<open>The invariant\<close>

definition node_keys :: "ordered_node list \<Rightarrow> (entity_id \<times> entity_id \<times> node_kind) set" where
  "node_keys nodes = (\<lambda>n. (tn_id n, tn_workspace n, tn_kind n)) ` set nodes"

definition revision_of :: "request_db \<Rightarrow> entity_id \<Rightarrow> entity_id \<Rightarrow> bool" where
  "revision_of db i r \<longleftrightarrow> (\<exists>v \<in> set (rq_revisions db). rn_id v = r \<and> rn_request v = i)"

definition owners_ok :: "request_db \<Rightarrow> bool" where
  "owners_ok db \<longleftrightarrow>
     draft_ids db = {i. \<exists>w. (i, w, RequestNode) \<in> node_keys (rq_nodes db)} \<and>
     (\<forall>p \<in> set (rq_profiles db). \<exists>w. (cp_id p, w, CollectionNode) \<in> node_keys (rq_nodes db)) \<and>
     (\<forall>c \<in> set (rq_captures db). (ce_request c, ce_workspace c, RequestNode) \<in> node_keys (rq_nodes db)) \<and>
     (\<forall>x \<in> set (rq_executions db). \<forall>i. xr_request x = Some i \<longrightarrow>
        (i, xr_workspace x, RequestNode) \<in> node_keys (rq_nodes db))"

definition history_ok :: "request_db \<Rightarrow> bool" where
  "history_ok db \<longleftrightarrow>
     (\<forall>v \<in> set (rq_revisions db). \<forall>p. rn_parent v = Some p \<longrightarrow> revision_of db (rn_request v) p) \<and>
     (\<forall>x \<in> set (rq_versions db). revision_of db (vn_request x) (vn_revision x)) \<and>
     (\<forall>c \<in> set (rq_captures db). revision_of db (ce_request c) (ce_revision c)) \<and>
     (\<forall>x \<in> set (rq_executions db). \<forall>r. xr_revision x = Some r \<longrightarrow>
        (\<exists>i. xr_request x = Some i \<and> revision_of db i r))"

definition service_ok :: "request_db \<Rightarrow> bool" where
  "service_ok db \<longleftrightarrow> tree_ok (rq_nodes db) \<and> references_ok db \<and> owners_ok db \<and> history_ok db"

lemma service_okD:
  assumes "service_ok db"
  shows "tree_ok (rq_nodes db)" "references_ok db" "owners_ok db" "history_ok db"
  using assms by (simp_all add: service_ok_def)

lemma optional_iff: "(case x of None \<Rightarrow> True | Some y \<Rightarrow> P y) \<longleftrightarrow> (\<forall>y. x = Some y \<longrightarrow> P y)"
  by (cases x) simp_all

lemmas reference_parts = references_ok_def draft_ids_def revision_ids_def optional_iff

lemma references_update [simp]:
  "references_ok (db\<lparr>rq_env := a\<rparr>) = references_ok db" "references_ok (db\<lparr>rq_audit := b\<rparr>) = references_ok db"
  "references_ok (db\<lparr>rq_users := c\<rparr>) = references_ok db" "references_ok (db\<lparr>rq_preferences := d\<rparr>) = references_ok db"
  "references_ok (db\<lparr>rq_attachments := e\<rparr>) = references_ok db"
  by (simp_all add: reference_parts)

lemma draft_ids_update [simp]:
  "draft_ids (db\<lparr>rq_nodes := a\<rparr>) = draft_ids db" "draft_ids (db\<lparr>rq_profiles := b\<rparr>) = draft_ids db"
  "draft_ids (db\<lparr>rq_revisions := c\<rparr>) = draft_ids db" "draft_ids (db\<lparr>rq_versions := d\<rparr>) = draft_ids db"
  "draft_ids (db\<lparr>rq_captures := e\<rparr>) = draft_ids db" "draft_ids (db\<lparr>rq_executions := f\<rparr>) = draft_ids db"
  "draft_ids (db\<lparr>rq_env := g\<rparr>) = draft_ids db" "draft_ids (db\<lparr>rq_audit := h\<rparr>) = draft_ids db"
  "draft_ids (db\<lparr>rq_users := k\<rparr>) = draft_ids db" "draft_ids (db\<lparr>rq_preferences := l\<rparr>) = draft_ids db"
  "draft_ids (db\<lparr>rq_attachments := m\<rparr>) = draft_ids db"
  by (simp_all add: draft_ids_def)

lemma revision_of_update [simp]:
  "revision_of (db\<lparr>rq_nodes := a\<rparr>) = revision_of db" "revision_of (db\<lparr>rq_profiles := b\<rparr>) = revision_of db"
  "revision_of (db\<lparr>rq_drafts := c\<rparr>) = revision_of db" "revision_of (db\<lparr>rq_versions := d\<rparr>) = revision_of db"
  "revision_of (db\<lparr>rq_captures := e\<rparr>) = revision_of db" "revision_of (db\<lparr>rq_executions := f\<rparr>) = revision_of db"
  "revision_of (db\<lparr>rq_env := g\<rparr>) = revision_of db" "revision_of (db\<lparr>rq_audit := h\<rparr>) = revision_of db"
  "revision_of (db\<lparr>rq_users := k\<rparr>) = revision_of db" "revision_of (db\<lparr>rq_preferences := l\<rparr>) = revision_of db"
  "revision_of (db\<lparr>rq_attachments := m\<rparr>) = revision_of db"
  by (simp_all add: revision_of_def fun_eq_iff)

lemma service_ok_update [simp]:
  "service_ok (db\<lparr>rq_env := a\<rparr>) = service_ok db" "service_ok (db\<lparr>rq_audit := b\<rparr>) = service_ok db"
  "service_ok (db\<lparr>rq_users := c\<rparr>) = service_ok db" "service_ok (db\<lparr>rq_preferences := d\<rparr>) = service_ok db"
  "service_ok (db\<lparr>rq_attachments := e\<rparr>) = service_ok db"
  by (simp_all add: service_ok_def owners_ok_def history_ok_def)

lemma service_ok_logged [simp]: "service_ok (log_event e user w db) = service_ok db"
  by (simp add: log_event_def)

lemma logged_fields [simp]:
  "rq_nodes (log_event e user w db) = rq_nodes db" "rq_drafts (log_event e user w db) = rq_drafts db"
  "rq_profiles (log_event e user w db) = rq_profiles db" "rq_revisions (log_event e user w db) = rq_revisions db"
  "rq_versions (log_event e user w db) = rq_versions db" "rq_captures (log_event e user w db) = rq_captures db"
  "rq_executions (log_event e user w db) = rq_executions db" "rq_env (log_event e user w db) = rq_env db"
  by (simp_all add: log_event_def)

lemma ids_of_keys: "tn_id ` set nodes = fst ` node_keys nodes"
  by (simp add: node_keys_def image_image)

lemma valid_parent_iff [result_simps]: "valid_parent db w p = Inr u \<longleftrightarrow> validate_parent (rq_nodes db) w p = Inr ()"
  by (simp add: valid_parent_def result_simps)

lemma parent_in_keys:
  assumes "tree_ok nodes"
  shows "validate_parent nodes w p = Inr () \<longleftrightarrow> (\<forall>a. p = Some a \<longrightarrow> (a, w, CollectionNode) \<in> node_keys nodes)"
proof (cases p)
  case None
  then show ?thesis by (simp add: validate_parent_def)
next
  case (Some a)
  with validated_parent [OF tree_okD(2) [OF assms], of w a] show ?thesis by (auto simp: node_keys_def)
qed

section \<open>Changes of the tree\<close>

lemma service_rows:
  assumes "service_ok db" and "tree_ok nodes" and keys: "node_keys nodes = node_keys (rq_nodes db)"
  shows "service_ok (db\<lparr>rq_nodes := nodes\<rparr>)"
proof -
  have "references_ok (db\<lparr>rq_nodes := nodes\<rparr>)"
    using service_okD(2) [OF assms(1)] by (simp add: reference_parts ids_of_keys keys)
  with assms(1,2) show ?thesis by (simp add: service_ok_def owners_ok_def history_ok_def keys)
qed

lemma reorder_children_ok:
  assumes ok: "service_ok db" and accepted: "reorder_children user w p expected ordered db = Inr (revision, db')"
  shows "service_ok db'"
proof -
  from accepted obtain changed nodes
    where r: "reorder_siblings w p expected ordered (rq_nodes db) = Inr (revision, changed, nodes)"
      "db' = (if changed then log_event (TreeReordered p ordered revision) user w (db\<lparr>rq_nodes := nodes\<rparr>) else db)"
    by (auto simp: reorder_children_def result_simps)
  note kept = reorder_ok(2) [OF service_okD(1) [OF ok] r(1) refl]
  then have "node_keys nodes = node_keys (rq_nodes db)"
    by (auto simp: node_keys_def image_image split: if_splits)
  from service_rows [OF ok _ this] kept have "service_ok (db\<lparr>rq_nodes := nodes\<rparr>)" by blast
  with ok r(2) show ?thesis by simp
qed

lemma move_node_ok:
  assumes ok: "service_ok db" and accepted: "move_node user w i t placing expected db = Inr (parents, db')"
  shows "service_ok db'"
proof -
  from accepted obtain r where r: "move_tree_node w i t placing expected (rq_nodes db) = Inr r"
      "service_ok db' = service_ok (db\<lparr>rq_nodes := mr_nodes r\<rparr>)"
    by (auto simp: move_node_def result_simps)
  note kept = move_ok [OF service_okD(1) [OF ok] r(1)]
  have "(\<lambda>(i, w, k, n). (i, w, k)) ` set (map (\<lambda>n. (tn_id n, tn_workspace n, tn_kind n, tn_name n)) (mr_nodes r)) =
      (\<lambda>(i, w, k, n). (i, w, k)) ` set (map (\<lambda>n. (tn_id n, tn_workspace n, tn_kind n, tn_name n)) (rq_nodes db))"
    by (simp only: kept(3))
  then have "node_keys (mr_nodes r) = node_keys (rq_nodes db)" by (simp add: node_keys_def image_image)
  from service_rows [OF ok kept(1) this] r(2) show ?thesis by simp
qed

lemma rename_ok:
  assumes "service_ok db"
  shows "service_ok (rename_node i name db)"
proof -
  let ?f = "\<lambda>n. if tn_id n = i then n\<lparr>tn_name := name\<rparr> else n :: ordered_node"
  have f: "tn_id (?f n) = tn_id n" "tn_workspace (?f n) = tn_workspace n" "tn_parent (?f n) = tn_parent n"
    "tn_kind (?f n) = tn_kind n" "on_position (?f n) = on_position n" for n by simp_all
  have groups: "set (siblings (map ?f (rq_nodes db)) w p) = ?f ` set (siblings (rq_nodes db) w p)" for w p
    by (rule siblings_map) simp
  have "group_ok (map ?f (rq_nodes db)) w p" for w p
  proof -
    have pos: "on_position ` ?f ` A = on_position ` A" for A unfolding image_image f ..
    note dist = tree_okD(2) [OF service_okD(1) [OF assms]]
    have inj: "inj_on ?f (set (siblings (rq_nodes db) w p))"
    proof (rule inj_onI)
      fix a b assume "a \<in> set (siblings (rq_nodes db) w p)" "b \<in> set (siblings (rq_nodes db) w p)" "?f a = ?f b"
      with arg_cong [OF this(3), of tn_id, unfolded f] show "a = b" using same_id [OF dist] by simp
    qed
    have "inj_on (on_position \<circ> ?f) A \<longleftrightarrow> inj_on on_position A" for A unfolding inj_on_def comp_def f ..
    with inj_on_imageI [of on_position ?f] tree_okD(4) [OF service_okD(1) [OF assms], of w p] show ?thesis
      unfolding group_ok_def groups bij_betw_def pos card_image [OF inj] by blast
  qed
  moreover have "parent_edges (map ?f (rq_nodes db)) = parent_edges (rq_nodes db)"
    unfolding parent_edges_def set_map UN_simps f ..
  moreover have "parents_ok (map ?f (rq_nodes db))"
    using tree_okD(3) [OF service_okD(1) [OF assms]] unfolding parents_ok_def set_map ball_simps bex_simps f .
  moreover have "map tn_id (map ?f (rq_nodes db)) = map tn_id (rq_nodes db)" unfolding map_map comp_def f ..
  ultimately have "tree_ok (map ?f (rq_nodes db))"
    using tree_okD(1) [OF service_okD(1) [OF assms]] by (simp only: tree_ok_def forest_ok_def simp_thms)
  moreover have "node_keys (map ?f (rq_nodes db)) = node_keys (rq_nodes db)"
    unfolding node_keys_def set_map image_image f ..
  ultimately show ?thesis unfolding rename_node_def by (rule service_rows [OF assms])
qed

section \<open>New rows\<close>

lemma add_node_elim:
  assumes ok: "service_ok db" and added: "add_node i w p kind name db = Inr (n, db')"
    and "validate_parent (rq_nodes db) w p = Inr ()"
  obtains "db' = db\<lparr>rq_nodes := rq_nodes db @ [n]\<rparr>" "tree_ok (rq_nodes db @ [n])"
    "tree_node.truncate n = \<lparr>tn_id = i, tn_workspace = w, tn_parent = p, tn_kind = kind, tn_name = name\<rparr>"
    "node_keys (rq_nodes db @ [n]) = insert (i, w, kind) (node_keys (rq_nodes db))"
    "i \<notin> tn_id ` set (rq_nodes db)" "i \<notin> draft_ids db"
proof -
  from added obtain nodes where a: "append_node i w p kind name (rq_nodes db) = Inr (n, nodes)" "db' = db\<lparr>rq_nodes := nodes\<rparr>"
    by (auto simp: add_node_def result_simps)
  then have "i \<notin> tn_id ` set (rq_nodes db)"
    by (auto simp: append_node_def insert_node_def Let_def result_simps table_ok_def)
  moreover from append_ok [OF service_okD(1) [OF ok] this assms(3), of kind name] a(1)
  have "nodes = rq_nodes db @ [n]" "tree_ok (rq_nodes db @ [n])" "tn_id n = i" "tn_workspace n = w" "tn_parent n = p"
    "tn_kind n = kind" "tn_name n = name" by auto
  moreover have "draft_ids db \<subseteq> tn_id ` set (rq_nodes db)"
    using service_okD(2) [OF ok] by (simp add: references_ok_def)
  ultimately show thesis
    using a(2) by (intro that) (auto simp: node_keys_def tree_node.truncate_def)
qed

lemma grown_references:
  assumes "references_ok db" and "tn_id ` set (rq_nodes db) \<subseteq> tn_id ` set nodes"
  shows "references_ok (db\<lparr>rq_nodes := nodes\<rparr>)"
  using assms(1) subset_trans [OF _ assms(2)] by (simp add: reference_parts)

lemma add_collection_ok:
  assumes ok: "service_ok db" and added: "add_node i w p CollectionNode name db = Inr (n, db')"
    and parent: "validate_parent (rq_nodes db) w p = Inr ()"
  shows "service_ok db'" and "node_keys (rq_nodes db') = insert (i, w, CollectionNode) (node_keys (rq_nodes db))"
proof -
  from ok added parent obtain r: "db' = db\<lparr>rq_nodes := rq_nodes db @ [n]\<rparr>" "tree_ok (rq_nodes db @ [n])"
    "node_keys (rq_nodes db @ [n]) = insert (i, w, CollectionNode) (node_keys (rq_nodes db))"
    by (rule add_node_elim) blast
  then show "node_keys (rq_nodes db') = insert (i, w, CollectionNode) (node_keys (rq_nodes db))" by simp
  have "references_ok db'" unfolding r(1) by (rule grown_references [OF service_okD(2) [OF ok]]) auto
  moreover have "owners_ok db'" using service_okD(3) [OF ok] r(3) by (auto simp: r(1) owners_ok_def)
  moreover have "history_ok db'" using service_okD(4) [OF ok] by (simp add: r(1) history_ok_def)
  ultimately show "service_ok db'" using r by (simp add: service_ok_def)
qed

lemma add_profile_ok:
  assumes ok: "service_ok db" and added: "add_profile q db = Inr db'"
    and owner: "(cp_id q, w, CollectionNode) \<in> node_keys (rq_nodes db)"
  shows "service_ok db'" and "rq_nodes db' = rq_nodes db"
proof -
  from added have r: "db' = db\<lparr>rq_profiles := rq_profiles db @ [q]\<rparr>" "references_ok db'"
    by (auto simp: add_profile_def result_simps)
  then show "rq_nodes db' = rq_nodes db" by simp
  have "owners_ok db'" using service_okD(3) [OF ok] owner by (auto simp: r(1) owners_ok_def)
  moreover have "history_ok db'" using service_okD(4) [OF ok] by (simp add: r(1) history_ok_def)
  ultimately show "service_ok db'" using r(2) service_okD(1) [OF ok] by (simp add: r(1) service_ok_def)
qed

lemma add_request_ok:
  assumes ok: "service_ok db" and added: "add_node i w p RequestNode name db = Inr (n, db1)"
    and parent: "validate_parent (rq_nodes db) w p = Inr ()" and draft: "add_draft d db1 = Inr db'" and "dr_id d = i"
  shows "service_ok db'" and "node_keys (rq_nodes db') = insert (i, w, RequestNode) (node_keys (rq_nodes db))"
proof -
  from ok added parent obtain r: "db1 = db\<lparr>rq_nodes := rq_nodes db @ [n]\<rparr>" "tree_ok (rq_nodes db @ [n])"
    "node_keys (rq_nodes db @ [n]) = insert (i, w, RequestNode) (node_keys (rq_nodes db))" "i \<notin> draft_ids db"
    by (rule add_node_elim) blast
  from draft have d: "db' = db\<lparr>rq_nodes := rq_nodes db @ [n], rq_drafts := rq_drafts db @ [d]\<rparr>" "references_ok db'"
    by (auto simp: add_draft_def result_simps r(1))
  then show "node_keys (rq_nodes db') = insert (i, w, RequestNode) (node_keys (rq_nodes db))" using r by simp
  have drafts: "draft_ids db' = insert i (draft_ids db)" by (simp add: d(1) draft_ids_def assms(5))
  have "owners_ok db'"
    using service_okD(3) [OF ok] unfolding owners_ok_def drafts by (auto simp: d(1) r(3))
  moreover have "history_ok db'" using service_okD(4) [OF ok] by (auto simp: d(1) history_ok_def)
  ultimately show "service_ok db'" using d r(2) by (simp add: service_ok_def)
qed

lemma latest_revision_member:
  assumes "latest_revision db i = Some v"
  shows "v \<in> set (rq_revisions db)" "rn_request v = i"
proof -
  have "set (newest_first xs) = set xs" for xs by (simp add: newest_first_def)
  with assms have "v \<in> set (filter (\<lambda>v. rn_request v = i) (rq_revisions db))"
    unfolding latest_revision_def by (metis (no_types, lifting) list.case_eq_if list.set_sel(1) option.inject option.simps(3))
  then show "v \<in> set (rq_revisions db)" "rn_request v = i" by simp_all
qed

lemma append_revision_ok:
  assumes ok: "service_ok db" and added: "settled (db\<lparr>rq_revisions := rq_revisions db @ [v]\<rparr>) = Inr db'"
    and parent: "\<And>p. rn_parent v = Some p \<Longrightarrow> revision_of db (rn_request v) p"
  shows "service_ok db'" and "revision_of db' (rn_request v) (rn_id v)" and "rq_nodes db' = rq_nodes db"
proof -
  from added have r: "db' = db\<lparr>rq_revisions := rq_revisions db @ [v]\<rparr>" "references_ok db'"
    by (auto simp: result_simps)
  then show "revision_of db' (rn_request v) (rn_id v)" "rq_nodes db' = rq_nodes db" by (simp_all add: revision_of_def)
  have more: "revision_of db' i p" if "revision_of db i p" for i p using that by (auto simp: r(1) revision_of_def)
  have "history_ok db'"
    using service_okD(4) [OF ok] parent more unfolding history_ok_def by (fastforce simp: r(1))
  moreover have "owners_ok db'" using service_okD(3) [OF ok] by (simp add: r(1) owners_ok_def)
  ultimately show "service_ok db'" using r service_okD(1) [OF ok] by (simp add: service_ok_def)
qed

lemma ensure_revision_elim:
  assumes "ensure_revision sv fresh (d, n) user reason effective components db = Inr (r, db')"
  obtains (kept) v where "latest_revision db (dr_id d) = Some v" "rn_id v = r" "db' = db"
    | (appended) v where "settled (db\<lparr>rq_revisions := rq_revisions db @ [v]\<rparr>) = Inr db'" "rn_id v = r"
      "rn_request v = dr_id d" "rn_parent v = map_option rn_id (latest_revision db (dr_id d))" "rn_by v = user"
      "rn_reason v = reason" "rn_fingerprint v = sv_digest sv (rn_content v)" "r = fresh"
proof (cases "latest_revision db (dr_id d)")
  case None
  with assms show thesis
    by (auto simp: ensure_revision_def Let_def bindE_eq_Inr intro!: appended)
next
  case (Some v)
  show thesis
  proof (cases "rn_id v = r \<and> db' = db")
    case True
    with kept [OF Some] show thesis by blast
  next
    case False
    with Some assms show thesis
      by (auto simp: ensure_revision_def Let_def bindE_eq_Inr intro!: appended split: if_splits)
  qed
qed

lemma ensure_revision_ok:
  assumes ok: "service_ok db" and made: "ensure_revision sv fresh row user reason effective components db = Inr (r, db')"
  shows "service_ok db'" and "revision_of db' (dr_id (fst row)) r" and "rq_nodes db' = rq_nodes db"
proof -
  obtain d n where row: "row = (d, n)" by (cases row)
  from made [unfolded row] have "service_ok db' \<and> revision_of db' (dr_id d) r \<and> rq_nodes db' = rq_nodes db"
  proof (cases rule: ensure_revision_elim)
    case (kept v)
    with ok latest_revision_member [of db "dr_id d" v] show ?thesis by (auto simp: revision_of_def)
  next
    case (appended v)
    have "revision_of db (rn_request v) p" if "rn_parent v = Some p" for p
      using that appended(3,4) by (auto simp: revision_of_def dest: latest_revision_member)
    from append_revision_ok [OF ok appended(1) this] appended(2,3) show ?thesis by simp
  qed
  then show "service_ok db'" "revision_of db' (dr_id (fst row)) r" "rq_nodes db' = rq_nodes db" by (simp_all add: row)
qed

lemma write_variables_frame:
  "write_variables sv k allow user kind i expected writes db = Inr db' \<Longrightarrow> \<exists>env. db' = db\<lparr>rq_env := env\<rparr>"
  by (auto simp: write_variables_def result_simps)

section \<open>Operations\<close>

lemma find_key: "distinct (map f xs) \<Longrightarrow> find (\<lambda>x. f x = k) xs = Some x \<longleftrightarrow> x \<in> set xs \<and> f x = k"
  by (induction xs) (auto simp: image_iff)

lemma request_row_member:
  assumes "request_row_of db i = Inr (d, n)"
  shows "d \<in> set (rq_drafts db)" "dr_id d = i" "n \<in> set (rq_nodes db)" "tn_id n = i"
  using assms
  by (auto simp: request_row_of_def draft_of_def node_row_def split: option.splits dest: find_SomeD)

lemma request_row_iff:
  assumes "service_ok db"
  shows "request_row_of db i = Inr (d, n) \<longleftrightarrow> d \<in> set (rq_drafts db) \<and> dr_id d = i \<and> n \<in> set (rq_nodes db) \<and> tn_id n = i"
proof -
  note row = node_row_iff [OF tree_okD(2) [OF service_okD(1) [OF assms]], of i]
  have "distinct (map dr_id (rq_drafts db))" using service_okD(2) [OF assms] by (simp add: references_ok_def)
  then have "draft_of db i = Some d \<longleftrightarrow> d \<in> set (rq_drafts db) \<and> dr_id d = i" unfolding draft_of_def by (rule find_key)
  moreover have "node_row (rq_nodes db) i = Some n \<longleftrightarrow> n \<in> set (rq_nodes db) \<and> tn_id n = i" by (rule row)
  ultimately have "request_row_of db i = Inr (d, n)"
    if "d \<in> set (rq_drafts db) \<and> dr_id d = i \<and> n \<in> set (rq_nodes db) \<and> tn_id n = i"
    using that unfolding request_row_of_def by (simp only: option.case prod.case simp_thms)
  with request_row_member show ?thesis by blast
qed

lemma collection_row_member:
  assumes "collection_row_of db i = Inr (n, q)"
  shows "n \<in> set (rq_nodes db)" "tn_id n = i" "tn_kind n = CollectionNode" "q = profile_of db i"
    "(i, tn_workspace n, CollectionNode) \<in> node_keys (rq_nodes db)"
proof -
  from assms show "n \<in> set (rq_nodes db)" "tn_id n = i" "tn_kind n = CollectionNode" "q = profile_of db i"
    by (auto simp: collection_row_of_def collection_node_def split: option.splits dest: find_SomeD)
  then show "(i, tn_workspace n, CollectionNode) \<in> node_keys (rq_nodes db)" by (force simp: node_keys_def)
qed

lemma set_collection_profile_ok:
  assumes ok: "service_ok db"
  shows "service_ok (set_collection_profile q db)"
proof -
  let ?f = "\<lambda>x. if cp_id x = cp_id q then q else x"
  have ids: "map cp_id (map ?f (rq_profiles db)) = map cp_id (rq_profiles db)" by simp
  have "references_ok (set_collection_profile q db)"
    using service_okD(2) [OF ok] ids arg_cong [OF ids, of set] unfolding set_map set_collection_profile_def
    by (simp add: reference_parts del: map_map)
  moreover have "owners_ok (set_collection_profile q db)"
    using service_okD(3) [OF ok] by (auto simp: owners_ok_def set_collection_profile_def) metis
  moreover have "history_ok (set_collection_profile q db)"
    using service_okD(4) [OF ok] by (simp add: history_ok_def set_collection_profile_def)
  ultimately show ?thesis using service_okD(1) [OF ok] by (simp add: service_ok_def set_collection_profile_def)
qed

lemma set_draft_ok:
  assumes ok: "service_ok db"
  shows "service_ok (set_draft d db)"
proof -
  let ?f = "\<lambda>x. if dr_id x = dr_id d then d else x"
  have ids: "map dr_id (map ?f (rq_drafts db)) = map dr_id (rq_drafts db)" by simp
  have drafts: "draft_ids (set_draft d db) = draft_ids db"
    using arg_cong [OF ids, of set] unfolding set_map by (simp add: draft_ids_def set_draft_def)
  have "references_ok (set_draft d db)"
    using service_okD(2) [OF ok] ids unfolding references_ok_def drafts optional_iff
    by (simp add: set_draft_def revision_ids_def del: map_map)
  moreover have "owners_ok (set_draft d db)"
    using service_okD(3) [OF ok] unfolding owners_ok_def drafts by (simp add: set_draft_def)
  moreover have "history_ok (set_draft d db)" using service_okD(4) [OF ok] by (simp add: history_ok_def set_draft_def)
  ultimately show ?thesis using service_okD(1) [OF ok] by (simp add: service_ok_def set_draft_def)
qed

lemma write_variables_ok:
  assumes "service_ok db" and "write_variables sv k allow user kind i expected writes db = Inr db'"
  shows "service_ok db'" and "rq_nodes db' = rq_nodes db"
  using write_variables_frame [OF assms(2)] assms(1) by auto

lemma create_collection_elim:
  assumes accepted: "create_collection sv user w p name description notes db = Inr (n, db')"
  obtains description' notes' name' db1 db2 where "validate_parent (rq_nodes db) w p = Inr ()"
    "add_node (sv_ids sv 0) w p CollectionNode name' db = Inr (n, db1)"
    "(if description' \<noteq> [] \<or> notes' \<noteq> []
      then add_profile \<lparr>cp_id = sv_ids sv 0, cp_revision = 1, cp_description = description',
             cp_notes = notes', cp_headers = [], cp_prefix = []\<rparr> db1
      else Inr db1) = Inr db2"
    "db' = log_event (CollectionCreated (sv_ids sv 0) p None) user w db2"
  using accepted unfolding create_collection_def by (auto simp: bindE_eq_Inr valid_parent_iff)

lemma create_collection_ok:
  assumes ok: "service_ok db" and accepted: "create_collection sv user w p name description notes db = Inr (n, db')"
  shows "service_ok db'"
proof -
  from create_collection_elim [OF accepted] obtain description' notes' name' db1 db2 where r:
    "validate_parent (rq_nodes db) w p = Inr ()"
    "add_node (sv_ids sv 0) w p CollectionNode name' db = Inr (n, db1)"
    "(if description' \<noteq> [] \<or> notes' \<noteq> []
      then add_profile \<lparr>cp_id = sv_ids sv 0, cp_revision = 1, cp_description = description',
             cp_notes = notes', cp_headers = [], cp_prefix = []\<rparr> db1
      else Inr db1) = Inr db2"
    "db' = log_event (CollectionCreated (sv_ids sv 0) p None) user w db2"
    .
  note added = add_collection_ok [OF ok r(2,1)]
  have "service_ok db2"
  proof (cases "description' \<noteq> [] \<or> notes' \<noteq> []")
    case True
    with r(3) add_profile_ok(1) [OF added(1), of _ db2 w] added(2) show ?thesis by simp
  next
    case False
    with r(3) added(1) show ?thesis by simp
  qed
  with r(4) show ?thesis by simp
qed

lemma map_collection_fields [simp]:
  "cv_id (map_collection (n, q)) = tn_id n" "cv_workspace (map_collection (n, q)) = tn_workspace n"
  "cv_parent (map_collection (n, q)) = tn_parent n" "cv_name (map_collection (n, q)) = tn_name n"
  by (simp_all add: map_collection_def)

lemma update_collection_elim:
  assumes accepted: "update_collection sv user i expected name headers path description notes db = Inr (v, db')"
  obtains n q name' headers' path' description' notes' db1 inherited target full where
    "collection_row_of db i = Inr (n, q)" "can_edit db user (tn_workspace n) = Inr ()"
    "cv_revision (map_collection (n, q)) = expected" "accepted_name name = Inr name'"
    "validate_headers headers = Inr headers'" "validate_collection_target (sv_content sv) path = Inr path'"
    "accepted_description description = Inr description'" "accepted_notes notes = Inr notes'"
    "list_all (\<lambda>(k, changed). \<not> changed) (profile_changes (map_collection (n, q)) name' headers' path' description' notes') \<Longrightarrow>
       db' = db \<and> collection_view_of db (n, q) = Inr v"
    "\<not> list_all (\<lambda>(k, changed). \<not> changed) (profile_changes (map_collection (n, q)) name' headers' path' description' notes') \<Longrightarrow>
       write_collection_profile q \<lparr>cp_id = i, cp_revision = expected + 1, cp_description = description',
            cp_notes = notes', cp_headers = headers', cp_prefix = path'\<rparr> db = Inr db1 \<and>
       db' = log_event (CollectionUpdated i (expected + 1)
            (profile_changes (map_collection (n, q)) name' headers' path' description' notes')) user (tn_workspace n)
            (if tn_name n \<noteq> name' then rename_node i name' db1 else db1) \<and>
       resolve_headers db' (tn_workspace n) (tn_parent n) [] = Inr inherited \<and>
       resolve_inherited_target db' (tn_workspace n) (tn_parent n) = Inr target \<and>
       resolve_collection_path db' (tn_parent n) path' = Inr full \<and>
       v = (map_collection (n, q))\<lparr>cv_name := name', cv_description := description', cv_notes := notes',
           cv_prefix := path', cv_inherited_target := target, cv_effective_path := full, cv_headers := headers',
           cv_inherited_headers := inherited, cv_effective_headers := resolve_header_layers [inherited, headers'],
           cv_revision := expected + 1\<rparr>"
proof -
  from accepted obtain name' headers' path' description' notes' n q where
    e: "collection_row_of db i = Inr (n, q)" "can_edit db user (tn_workspace n) = Inr ()"
    "cv_revision (map_collection (n, q)) = expected" "accepted_name name = Inr name'"
    "validate_headers headers = Inr headers'" "validate_collection_target (sv_content sv) path = Inr path'"
    "accepted_description description = Inr description'" "accepted_notes notes = Inr notes'"
    by (auto simp: update_collection_def Let_def bindE_eq_Inr failing_eq_Inr split: if_split_asm)
  show thesis
  proof (cases "list_all (\<lambda>(k, changed). \<not> changed) (profile_changes (map_collection (n, q)) name' headers' path' description' notes')")
    case True
    with accepted e show thesis
      by (auto simp: update_collection_def Let_def bindE_eq_Inr intro!: that [OF e])
  next
    case False
    with accepted e show thesis
      by (auto simp: update_collection_def Let_def bindE_eq_Inr intro!: that [OF e])
  qed
qed

lemma write_profile_ok:
  assumes ok: "service_ok db" and "collection_row_of db i = Inr (n, q)" and "write_collection_profile q p db = Inr db'"
    and "cp_id p = i"
  shows "service_ok db'"
  using assms add_profile_ok(1) [OF ok, of p db'] set_collection_profile_ok [OF ok, of p] collection_row_member(5) [OF assms(2)]
  by (auto simp: write_collection_profile_def split: if_splits)

lemma update_collection_ok:
  assumes ok: "service_ok db"
    and accepted: "update_collection sv user i expected name headers path description notes db = Inr (v, db')"
  shows "service_ok db'"
  using accepted
proof (rule update_collection_elim, goal_cases)
  case (1 n q name' headers' path' description' notes' db1)
  show ?case
  proof (cases "list_all (\<lambda>(k, changed). \<not> changed)
      (profile_changes (map_collection (n, q)) name' headers' path' description' notes')")
    case True
    from 1(9) [OF True] ok show ?thesis by simp
  next
    case False
    note w = 1(10) [OF False]
    then have "service_ok db1" by (elim conjE) (rule write_profile_ok [OF ok 1(1)], assumption, simp)
    with w rename_ok show ?thesis by simp
  qed
qed

lemma update_collection_headers_ok:
  assumes "service_ok db" and "update_collection_headers sv user i expected headers db = Inr (v, db')"
  shows "service_ok db'"
  using assms update_collection_ok [OF assms(1)] by (auto simp: update_collection_headers_def result_simps Let_def)

lemma create_request_elim:
  assumes accepted: "create_request sv user w p input variables db = Inr (v, db')"
  obtains c name' description' notes' n db1 db2 db3 row r inherited target where "validate_parent (rq_nodes db) w p = Inr ()"
    "add_node (sv_ids sv 0) w p RequestNode name' db = Inr (n, db1)"
    "add_draft (draft_of_content (sv_ids sv 0) 0 c description' notes') db1 = Inr db2"
    "(if variables = [] then Inr db2 else write_variables sv 0 False user ScopeRequest (sv_ids sv 0) 0 variables db2) = Inr db3"
    "ensure_revision sv (sv_ids sv 1) row user ManualSave None None
       (log_event (RequestCreated (sv_ids sv 0) p None) user w db3) = Inr (r, db')"
    "normalize_input (sv_content sv) (execution_input.truncate input) = Inr c" "can_edit db user w = Inr ()"
    "accepted_name (ri_name input) = Inr name'"
    "accepted_description (ri_description input) = Inr description'" "accepted_notes (ri_notes input) = Inr notes'"
    "request_row_of db3 (sv_ids sv 0) = Inr row"
    "resolve_headers db' w p [] = Inr inherited" "assembled_target db' w p c = Inr target"
    "v = request_content.extend c (request_view.fields (sv_ids sv 0) w p name' description' notes' target inherited 0 None)"
proof -
  have row: "request_row_of (log_event e user w x) i = request_row_of x i" for e x i
    by (simp add: request_row_of_def draft_of_def)
  from accepted that show thesis
    unfolding create_request_def Let_def by (auto simp: bindE_eq_Inr valid_parent_iff failing_eq_Inr row)
qed

lemma create_request_ok:
  assumes ok: "service_ok db" and accepted: "create_request sv user w p input variables db = Inr (v, db')"
  shows "service_ok db'"
proof -
  let ?i = "sv_ids sv 0"
  from create_request_elim [OF accepted] obtain c name' description' notes' n db1 db2 db3 row r where e:
    "validate_parent (rq_nodes db) w p = Inr ()"
    "add_node ?i w p RequestNode name' db = Inr (n, db1)"
    "add_draft (draft_of_content ?i 0 c description' notes') db1 = Inr db2"
    "(if variables = [] then Inr db2 else write_variables sv 0 False user ScopeRequest ?i 0 variables db2) = Inr db3"
    "ensure_revision sv (sv_ids sv 1) row user ManualSave None None
       (log_event (RequestCreated ?i p None) user w db3) = Inr (r, db')"
    .
  have "service_ok db2" by (rule add_request_ok(1) [OF ok e(2,1,3)]) (simp add: draft_of_content_def)
  with e(4) write_variables_ok(1) have "service_ok db3" by (auto split: if_splits)
  with ensure_revision_ok(1) [OF _ e(5)] show ?thesis by simp
qed

lemma update_request_elim:
  assumes accepted: "update_request sv user i expected input variables db = Inr (v, db')"
  obtains d n name' description' notes' c db1 db2 new r where "request_row_of db i = Inr (d, n)"
    "can_edit db user (tn_workspace n) = Inr ()" "dr_revision d = expected" "accepted_name (ri_name input) = Inr name'"
    "accepted_description (ri_description input) = Inr description'" "accepted_notes (ri_notes input) = Inr notes'"
    "normalize_input (sv_content sv) (execution_input.truncate input) = Inr c"
    "(case variables of None \<Rightarrow> Inr db
      | Some (revision, writes) \<Rightarrow> write_variables sv 0 False user ScopeRequest i revision writes db) = Inr db1"
    "new = draft_of_content i (expected + 1) c description' notes'"
    "db2 = (if same_draft (d, n) name' new then db1
      else log_event (DraftUpdated i (expected + 1)) user (tn_workspace n) (set_draft new (rename_node i name' db1)))"
    "same_draft (d, n) name' new \<Longrightarrow> ensure_revision sv (sv_ids sv 0) (d, n) user ManualSave None None db2 = Inr (r, db') \<and>
      request_view_of (sv_content sv) db' (d, n) = Inr v"
    "\<not> same_draft (d, n) name' new \<Longrightarrow>
      ensure_revision sv (sv_ids sv 0) (new, n\<lparr>tn_name := name'\<rparr>) user ManualSave None None db2 = Inr (r, db') \<and>
      (\<exists>old target. request_view_of (sv_content sv) db2 (d, n) = Inr old \<and>
        assembled_target db2 (tn_workspace n) (tn_parent n) c = Inr target \<and>
        v = request_content.extend c (request_view.fields (vw_id old) (vw_workspace old) (vw_parent old) name'
              description' notes' target (vw_inherited_headers old) (expected + 1) (vw_capture old)))"
proof -
  from accepted obtain d n name' description' notes' c db1 where
    e: "request_row_of db i = Inr (d, n)" "can_edit db user (tn_workspace n) = Inr ()" "dr_revision d = expected"
    "accepted_name (ri_name input) = Inr name'" "accepted_description (ri_description input) = Inr description'"
    "accepted_notes (ri_notes input) = Inr notes'"
    "normalize_input (sv_content sv) (execution_input.truncate input) = Inr c"
    "(case variables of None \<Rightarrow> Inr db
      | Some (revision, writes) \<Rightarrow> write_variables sv 0 False user ScopeRequest i revision writes db) = Inr db1"
    by (auto simp: update_request_def Let_def bindE_eq_Inr failing_eq_Inr split: if_split_asm)
  show thesis
  proof (cases "same_draft (d, n) name' (draft_of_content i (expected + 1) c description' notes')")
    case True
    with accepted e show thesis
      by (auto simp: update_request_def Let_def bindE_eq_Inr intro!: that [OF e refl refl])
  next
    case False
    with accepted e show thesis
      by (auto simp: update_request_def Let_def bindE_eq_Inr intro!: that [OF e refl refl])
  qed
qed

lemma update_request_ok:
  assumes ok: "service_ok db" and accepted: "update_request sv user i expected input variables db = Inr (v, db')"
  shows "service_ok db'"
  using accepted
proof (rule update_request_elim, goal_cases)
  case (1 d n name' description' notes' c db1 db2 new r)
  have "service_ok db1" using 1(8) ok write_variables_ok(1) by (auto split: option.splits)
  then have "service_ok db2" using set_draft_ok [OF rename_ok] by (simp add: 1(10))
  with 1(11,12) ensure_revision_ok(1) show ?case by blast
qed

lemma restore_revision_ok:
  assumes "service_ok db" and "restore_revision sv user i r expected db = Inr (v, db')"
  shows "service_ok db'"
  using assms update_request_ok [OF assms(1)] by (auto simp: restore_revision_def bindE_eq_Inr)

lemma insert_after_elim:
  assumes ok: "tree_ok nodes" and inserted: "insert_after source i w p name nodes = Inr (revision, nodes')"
  obtains "i \<notin> tn_id ` set nodes" "tree_ok nodes'" "revision = current_order_revision nodes w p + 1"
    "map tree_node.truncate nodes' = map tree_node.truncate nodes @
      [\<lparr>tn_id = i, tn_workspace = w, tn_parent = p, tn_kind = RequestNode, tn_name = name\<rparr>]"
    "map tn_id (sibling_order nodes' w p) = (let ids = map tn_id (sibling_order nodes w p) in
      insert_at (position_in source ids + 1) i ids)"
    "node_keys nodes' = insert (i, w, RequestNode) (node_keys nodes)"
proof (rule offset_siblings_elim [OF tree_table [OF ok] tree_okD(4) [OF ok, of w p]])
  fix ns assume o: "offset_siblings w p nodes = Inr ns" "tn_id ` set ns = tn_id ` set nodes"
  have source: "source \<in> tn_id ` set (siblings nodes w p)" and new: "i \<notin> tn_id ` set ns"
    using inserted o(1)
    by (auto simp: insert_after_def Let_def bindE_eq_Inr insert_node_def table_ok_def split: if_split_asm)
  from new o(2) have fresh: "i \<notin> tn_id ` set nodes" by simp
  from source obtain a where "a \<in> set nodes" "tn_workspace a = w" "tn_parent a = p" by auto
  with tree_okD(3) [OF ok] parent_in_keys [OF ok, of w p] have "validate_parent nodes w p = Inr ()"
    by (fastforce simp: parents_ok_def node_keys_def)
  from insert_after_ok [OF ok fresh this source, of name] inserted
  have r: "tree_ok nodes'" "revision = current_order_revision nodes w p + 1"
    "map tree_node.truncate nodes' = map tree_node.truncate nodes @
      [\<lparr>tn_id = i, tn_workspace = w, tn_parent = p, tn_kind = RequestNode, tn_name = name\<rparr>]"
    "map tn_id (sibling_order nodes' w p) = (let ids = map tn_id (sibling_order nodes w p) in
      insert_at (position_in source ids + 1) i ids)" by auto
  have keys: "node_keys ms = (\<lambda>n. (tn_id n, tn_workspace n, tn_kind n)) ` set (map tree_node.truncate ms)" for ms
    by (simp add: node_keys_def image_image tree_node.truncate_def)
  have "node_keys nodes' = insert (i, w, RequestNode) (node_keys nodes)"
    unfolding keys r(3) by simp
  with fresh r show thesis by (rule that)
qed

lemma duplicate_request_elim:
  assumes accepted: "duplicate_request sv user i name db = Inr (v, db')"
  obtains d n name' revision nodes db1 env where "request_row_of db i = Inr (d, n)"
    "insert_after i (sv_ids sv 0) (tn_workspace n) (tn_parent n) name' (rq_nodes db) = Inr (revision, nodes)"
    "add_draft (d\<lparr>dr_id := (sv_ids sv 0), dr_revision := 0\<rparr>) (db\<lparr>rq_nodes := nodes\<rparr>) = Inr db1"
    "db' = log_event (RequestDuplicated (sv_ids sv 0) i (tn_parent n) revision) user (tn_workspace n) (db1\<lparr>rq_env := env\<rparr>)"
  using accepted by (auto simp: duplicate_request_def Let_def bindE_eq_Inr failing_eq_Inr)

lemma duplicate_request_ok:
  assumes ok: "service_ok db" and accepted: "duplicate_request sv user i name db = Inr (v, db')"
  shows "service_ok db'"
proof -
  let ?j = "sv_ids sv 0"
  from duplicate_request_elim [OF accepted] obtain d n name' revision nodes db1 env where e:
    "request_row_of db i = Inr (d, n)"
    "insert_after i ?j (tn_workspace n) (tn_parent n) name' (rq_nodes db) = Inr (revision, nodes)"
    "add_draft (d\<lparr>dr_id := ?j, dr_revision := 0\<rparr>) (db\<lparr>rq_nodes := nodes\<rparr>) = Inr db1"
    "db' = log_event (RequestDuplicated ?j i (tn_parent n) revision) user (tn_workspace n) (db1\<lparr>rq_env := env\<rparr>)"
    .
  from service_okD(1) [OF ok] e(2) have n: "tree_ok nodes" "node_keys nodes = insert (?j, tn_workspace n, RequestNode) (node_keys (rq_nodes db))"
    by (auto elim: insert_after_elim)
  from e(3) have d: "db1 = db\<lparr>rq_nodes := nodes, rq_drafts := rq_drafts db @ [d\<lparr>dr_id := ?j, dr_revision := 0\<rparr>]\<rparr>"
    "references_ok db1" by (auto simp: add_draft_def result_simps)
  have drafts: "draft_ids db1 = insert ?j (draft_ids db)" by (simp add: d(1) draft_ids_def)
  have "owners_ok db1" using service_okD(3) [OF ok] unfolding owners_ok_def drafts by (auto simp: d(1) n(2))
  moreover have "history_ok db1" using service_okD(4) [OF ok] by (simp add: d(1) history_ok_def)
  ultimately have "service_ok db1" using d n(1) by (simp add: service_ok_def)
  with e(4) show ?thesis by simp
qed

lemma versions_ok:
  assumes ok: "service_ok db" and refs: "references_ok (db\<lparr>rq_versions := vs\<rparr>)"
    and "\<And>x. x \<in> set vs \<Longrightarrow> revision_of db (vn_request x) (vn_revision x)"
  shows "service_ok (db\<lparr>rq_versions := vs\<rparr>)"
  using service_okD [OF ok] refs assms(3) by (simp add: service_ok_def owners_ok_def history_ok_def)

lemma name_revision_elim:
  assumes accepted: "name_revision sv user i r name db = Inr (s, db')"
  obtains d n v db1 where "request_row_of db i = Inr (d, n)" "revision_row_of db i r = Inr v"
    "(case name of None \<Rightarrow> Inr (db\<lparr>rq_versions := filter (\<lambda>x. vn_revision x \<noteq> r) (rq_versions db)\<rparr>)
      | Some s \<Rightarrow> bindE (accepted_name s) (\<lambda>s'. set_version_name sv i r s' db)) = Inr db1"
    "db' = log_event (RevisionNamed i r (name \<noteq> None)) user (tn_workspace n) db1"
    "revision_summary_of db' i r = Inr s"
  using accepted by (auto simp: name_revision_def Let_def bindE_eq_Inr)

lemma name_revision_ok:
  assumes ok: "service_ok db" and accepted: "name_revision sv user i r name db = Inr (s, db')"
  shows "service_ok db'"
proof -
  note old = service_okD(4) [OF ok, unfolded history_ok_def]
  from name_revision_elim [OF accepted] obtain d n v db1 where e:
    "request_row_of db i = Inr (d, n)" "revision_row_of db i r = Inr v"
    "(case name of None \<Rightarrow> Inr (db\<lparr>rq_versions := filter (\<lambda>x. vn_revision x \<noteq> r) (rq_versions db)\<rparr>)
      | Some s \<Rightarrow> bindE (accepted_name s) (\<lambda>s'. set_version_name sv i r s' db)) = Inr db1"
    "db' = log_event (RevisionNamed i r (name \<noteq> None)) user (tn_workspace n) db1"
    .
  from e(2) have named: "revision_of db i r"
    by (auto simp: revision_row_of_def revision_of_def split: option.splits dest: find_SomeD)
  have "service_ok db1"
  proof (cases name)
    case None
    have "references_ok (db\<lparr>rq_versions := filter (\<lambda>x. vn_revision x \<noteq> r) (rq_versions db)\<rparr>)"
      using service_okD(2) [OF ok] by (auto simp: reference_parts intro: distinct_map_filter)
    from versions_ok [OF ok this] old None e(3) show ?thesis by auto
  next
    case (Some s)
    with e(3) obtain s' where "set_version_name sv i r s' db = Inr db1" by (auto simp: bindE_eq_Inr)
    then obtain vs where vs: "db1 = db\<lparr>rq_versions := vs\<rparr>" "references_ok db1"
      "\<And>x. x \<in> set vs \<Longrightarrow> (vn_request x, vn_revision x) = (i, r) \<or>
        (vn_request x, vn_revision x) \<in> (\<lambda>y. (vn_request y, vn_revision y)) ` set (rq_versions db)"
      by (fastforce simp: set_version_name_def result_simps split: if_split_asm)
    have "revision_of db (vn_request x) (vn_revision x)" if "x \<in> set vs" for x
      using vs(3) [OF that] named old by auto
    with versions_ok [OF ok] vs(1,2) show ?thesis by simp
  qed
  with e(4) show ?thesis by simp
qed

end
