(* ===== verification/Request_Deletion.thy ===== *)
theory Request_Deletion
  imports Request_Invariant
begin

text \<open>
  What \<open>deleteCollection\<close> and \<open>deleteRequest\<close> leave behind. The history of the deleted requests goes
  first, so that no statement breaks a reference; the rows of the tree go deepest first; rows of
  \<open>executions\<close> stay, without their request.
\<close>

section \<open>History\<close>

definition detached :: "entity_id set \<Rightarrow> stored_execution \<Rightarrow> stored_execution" where
  "detached R x = (if \<exists>i \<in> R. xr_request x = Some i then x\<lparr>xr_request := None, xr_revision := None\<rparr> else x)"

lemma detached_fields [simp]:
  "xr_id (detached R x) = xr_id x" "xr_workspace (detached R x) = xr_workspace x"
  "xr_request (detached R x) = Some i \<longleftrightarrow> xr_request x = Some i \<and> i \<notin> R"
  "xr_revision (detached R x) = Some r \<longleftrightarrow> xr_revision x = Some r \<and> (\<forall>i \<in> R. xr_request x \<noteq> Some i)"
  by (auto simp: detached_def)

definition cleared :: "entity_id set \<Rightarrow> request_db \<Rightarrow> request_db" where
  "cleared R db = db\<lparr>rq_executions := map (detached R) (rq_executions db),
     rq_revisions := filter (\<lambda>v. rn_request v \<notin> R) (rq_revisions db),
     rq_versions := filter (\<lambda>x. vn_request x \<notin> R) (rq_versions db),
     rq_captures := filter (\<lambda>c. ce_request c \<notin> R) (rq_captures db)\<rparr>"

lemma cleared_fields [simp]:
  "rq_nodes (cleared R db) = rq_nodes db" "rq_drafts (cleared R db) = rq_drafts db"
  "rq_profiles (cleared R db) = rq_profiles db" "rq_env (cleared R db) = rq_env db"
  "rq_executions (cleared R db) = map (detached R) (rq_executions db)"
  "rq_revisions (cleared R db) = filter (\<lambda>v. rn_request v \<notin> R) (rq_revisions db)"
  "rq_versions (cleared R db) = filter (\<lambda>x. vn_request x \<notin> R) (rq_versions db)"
  "rq_captures (cleared R db) = filter (\<lambda>c. ce_request c \<notin> R) (rq_captures db)"
  "draft_ids (cleared R db) = draft_ids db"
  by (simp_all add: cleared_def draft_ids_def)

lemma cleared_revision: "revision_of db i r \<Longrightarrow> i \<notin> R \<Longrightarrow> revision_of (cleared R db) i r"
  by (auto simp: revision_of_def)

lemma cleared_ok:
  assumes ok: "service_ok db"
  shows "service_ok (cleared R db)"
proof -
  note refs = service_okD(2) [OF ok, unfolded references_ok_def optional_iff]
  note owners = service_okD(3) [OF ok, unfolded owners_ok_def] and history = service_okD(4) [OF ok, unfolded history_ok_def]
  have history': "history_ok (cleared R db)"
    using history cleared_revision [of db _ _ R] by (auto simp: history_ok_def) blast+
  have ids: "r \<in> revision_ids db'" if "revision_of db' i r" for db' i r
    using that by (auto simp: revision_of_def revision_ids_def)
  have "references_ok (cleared R db)"
    unfolding references_ok_def optional_iff
  proof (intro conjI ballI allI impI)
    fix v p assume "v \<in> set (rq_revisions (cleared R db))" "rn_parent v = Some p"
    with history' show "p \<in> revision_ids (cleared R db)" by (auto simp: history_ok_def intro: ids)
  next
    fix x assume "x \<in> set (rq_versions (cleared R db))"
    with history' show "vn_revision x \<in> revision_ids (cleared R db)" by (auto simp: history_ok_def intro: ids)
  next
    fix c assume "c \<in> set (rq_captures (cleared R db))"
    with history' show "ce_revision c \<in> revision_ids (cleared R db)" by (auto simp: history_ok_def intro: ids)
  next
    fix x r assume "x \<in> set (rq_executions (cleared R db))" "xr_revision x = Some r"
    with history' show "r \<in> revision_ids (cleared R db)" unfolding history_ok_def by (blast intro: ids)
  qed (use refs in \<open>auto simp: comp_def intro: distinct_map_filter\<close>)
  moreover have "owners_ok (cleared R db)" using owners by (auto simp: owners_ok_def)
  ultimately show ?thesis using history' service_okD(1) [OF ok] by (simp add: service_ok_def)
qed

lemma delete_history_eq:
  assumes ok: "service_ok db"
  shows "delete_request_history rs db = Inr (cleared (set rs) db)"
proof -
  let ?R = "set rs"
  note history = service_okD(4) [OF ok, unfolded history_ok_def revision_of_def]
  have dist: "distinct (map rn_id (rq_revisions db))" using service_okD(2) [OF ok] by (simp add: references_ok_def)
  have same: "u = v" if "u \<in> set (rq_revisions db)" "v \<in> set (rq_revisions db)" "rn_id u = rn_id v" for u v
    using dist that by (auto simp: distinct_map inj_on_def)
  let ?removed = "rn_id ` set (filter (\<lambda>v. rn_request v \<in> ?R) (rq_revisions db))"
  have removed: "r \<in> ?removed \<longleftrightarrow> i \<in> ?R"
    if "\<exists>v \<in> set (rq_revisions db). rn_id v = r \<and> rn_request v = i" for i r
    using that same by auto
  have kept: "filter (\<lambda>x. vn_revision x \<notin> ?removed) (rq_versions db) = filter (\<lambda>x. vn_request x \<notin> ?R) (rq_versions db)"
    "filter (\<lambda>c. ce_revision c \<notin> ?removed) (rq_captures db) = filter (\<lambda>c. ce_request c \<notin> ?R) (rq_captures db)"
    by (rule filter_cong [OF refl], use history removed in blast)+
  let ?g = "\<lambda>v. if rn_request v \<in> ?R then v\<lparr>rn_parent := None\<rparr> else v" and ?db = "detach_parents ?R (detach_executions ?R db)"
  have "(case xr_request x of None \<Rightarrow> x
      | Some r \<Rightarrow> if r \<in> ?R then x\<lparr>xr_request := None, xr_revision := None\<rparr> else x) = detached ?R x" for x
    by (auto simp: detached_def split: option.split)
  then have db: "?db = db\<lparr>rq_executions := map (detached ?R) (rq_executions db), rq_revisions := map ?g (rq_revisions db)\<rparr>"
    by (simp add: detach_parents_def detach_executions_def)
  have "filter (\<lambda>v. rn_request v \<in> ?R) (map ?g vs) = map (\<lambda>v. v\<lparr>rn_parent := None\<rparr>) (filter (\<lambda>v. rn_request v \<in> ?R) vs)"
    "filter (\<lambda>v. rn_request v \<notin> ?R) (map ?g vs) = filter (\<lambda>v. rn_request v \<notin> ?R) vs" for vs
    by (induction vs) auto
  note revs = this [of "rq_revisions db"]
  have ids: "rn_id ` set (filter (\<lambda>v. rn_request v \<in> ?R) (rq_revisions ?db)) = ?removed"
  proof -
    have "rq_revisions ?db = map ?g (rq_revisions db)" unfolding db by simp
    then show ?thesis by (simp only: revs) (simp add: image_image)
  qed
  have "delete_revisions ?R ?db = settled (cleared ?R db)"
    unfolding delete_revisions_def Let_def ids unfolding db cleared_def by (simp add: revs kept del: set_filter)
  moreover have "detached {} = (\<lambda>x. x)" by (rule ext) (simp add: detached_def)
  then have "cleared {} db = db" by (simp add: cleared_def)
  ultimately show ?thesis
    using cleared_ok [OF ok, of ?R] by (auto simp: delete_request_history_def service_ok_def)
qed

section \<open>Rows\<close>

definition pruned :: "entity_id set \<Rightarrow> request_db \<Rightarrow> request_db" where
  "pruned D db = db\<lparr>rq_nodes := without D (rq_nodes db),
     rq_profiles := filter (\<lambda>p. cp_id p \<notin> D) (rq_profiles db),
     rq_drafts := filter (\<lambda>d. dr_id d \<notin> D) (rq_drafts db),
     rq_versions := filter (\<lambda>v. vn_request v \<notin> D) (rq_versions db),
     rq_captures := filter (\<lambda>c. ce_request c \<notin> D) (rq_captures db)\<rparr>"

definition unreferenced :: "entity_id set \<Rightarrow> request_db \<Rightarrow> bool" where
  "unreferenced D db \<longleftrightarrow> (\<forall>v \<in> set (rq_revisions db). rn_request v \<notin> D) \<and>
     (\<forall>x \<in> set (rq_executions db). \<forall>i \<in> D. xr_request x \<noteq> Some i)"

lemma draft_ids_pruned: "draft_ids (pruned D db) = draft_ids db - D"
  by (auto simp: draft_ids_def pruned_def)

lemma pruned_references:
  assumes refs: "references_ok db" and "unreferenced D db"
  shows "references_ok (pruned D db)"
proof -
  have "revision_ids (pruned D db) = revision_ids db" by (simp add: pruned_def revision_ids_def)
  then show ?thesis
    using assms unfolding references_ok_def optional_iff draft_ids_pruned unreferenced_def
    by (auto simp: pruned_def intro: distinct_map_filter)
qed

lemma remove_node_pruned:
  assumes ok: "service_ok db" and "closed_below (rq_nodes db) (insert j D)" and "unreferenced (insert j D) db"
  shows "remove_node j (pruned D db) = Inr (pruned (insert j D) db)"
proof -
  have "delete_node j (without D (rq_nodes db)) = Inr (without (insert j D) (rq_nodes db))"
    using without_table [OF tree_table [OF service_okD(1) [OF ok]] assms(2)]
    by (simp add: delete_node_def without_def conj_commute)
  then have "remove_node j (pruned D db) = settled (pruned (insert j D) db)"
    by (simp add: remove_node_def pruned_def conj_commute)
  with pruned_references [OF service_okD(2) [OF ok] assms(3)] show ?thesis by simp
qed

text \<open>Deleting the rows under a row and closing up its siblings.\<close>

definition subtree :: "request_db \<Rightarrow> entity_id \<Rightarrow> entity_id set" where
  "subtree db i = {j. (j, i) \<in> (parent_edges (rq_nodes db))\<^sup>*}"

lemma remove_subtree:
  fixes ds :: "(entity_id \<times> node_kind \<times> nat) list"
  assumes ok: "service_ok db" and m: "m \<in> set (rq_nodes db)" and ds: "fst ` set ds = subtree db (tn_id m)"
    and below: "\<And>c p k d. (c, p) \<in> parent_edges (rq_nodes db) \<Longrightarrow> (p, k, d) \<in> set ds \<Longrightarrow> \<exists>k'. (c, k', d + 1) \<in> set ds"
    and unref: "unreferenced (fst ` set ds) db"
  shows "\<exists>revision nodes. foldE (\<lambda>x (j, k, d). remove_node j x) db (sort_key (\<lambda>(j, k, d). - int d) ds) = Inr (pruned (fst ` set ds) db) \<and>
    compact_order (tn_workspace m) (tn_parent m) r (pruned (fst ` set ds) db) = Inr (revision, (pruned (fst ` set ds) db)\<lparr>rq_nodes := nodes\<rparr>) \<and>
    r < revision \<and> tree_ok nodes \<and> map tree_node.truncate nodes = map tree_node.truncate (without (fst ` set ds) (rq_nodes db)) \<and>
    map tn_id (sibling_order nodes (tn_workspace m) (tn_parent m)) =
      filter (\<lambda>j. j \<noteq> tn_id m) (map tn_id (sibling_order (rq_nodes db) (tn_workspace m) (tn_parent m)))"
proof -
  let ?D = "fst ` set ds" and ?S = "\<lambda>x (j, k, d). remove_node j x"
  have "?S (pruned D db) e = Inr (pruned (insert (fst e) D) db)"
    if "e \<in> set ds" "D \<subseteq> ?D" "closed_below (rq_nodes db) (insert (fst e) D)" for D e
  proof -
    from that(1,2) unref have "unreferenced (insert (fst e) D) db" unfolding unreferenced_def by blast
    from remove_node_pruned [OF ok that(3) this] show ?thesis by (cases e) simp
  qed
  note step = this
  have "foldE ?S (pruned {} db) (sort_key (\<lambda>(j, k, d). - int d) ds) = Inr (pruned ?D db)"
    by (rule deepest_first [of ds "rq_nodes db" ?S "\<lambda>D. pruned D db"]) (erule (2) step, erule (1) below)
  moreover have "pruned {} db = db" by (simp add: pruned_def without_def)
  moreover have table: "table_ok (rq_nodes db)" by (rule tree_table [OF service_okD(1) [OF ok]])
  have rows: "delete_nodes ds (rq_nodes db) = Inr (without ?D (rq_nodes db))"
    by (rule delete_nodes_eq [OF table]) (erule (1) below)
  have "\<exists>revision nodes. bindE (delete_nodes ds (rq_nodes db)) (compact_siblings (tn_workspace m) (tn_parent m) r) = Inr (revision, nodes) \<and>
    r < revision \<and> tree_ok nodes \<and> map tree_node.truncate nodes = map tree_node.truncate (without ?D (rq_nodes db)) \<and>
    map tn_id (sibling_order nodes (tn_workspace m) (tn_parent m)) =
      filter (\<lambda>j. j \<noteq> tn_id m) (map tn_id (sibling_order (rq_nodes db) (tn_workspace m) (tn_parent m)))"
    by (rule delete_subtree_ok [OF service_okD(1) [OF ok] m ds [unfolded subtree_def]]) (erule (1) below)
  then obtain revision nodes where "compact_siblings (tn_workspace m) (tn_parent m) r (without ?D (rq_nodes db)) = Inr (revision, nodes)"
    "r < revision" "tree_ok nodes" "map tree_node.truncate nodes = map tree_node.truncate (without ?D (rq_nodes db))"
    "map tn_id (sibling_order nodes (tn_workspace m) (tn_parent m)) =
      filter (\<lambda>j. j \<noteq> tn_id m) (map tn_id (sibling_order (rq_nodes db) (tn_workspace m) (tn_parent m)))"
    unfolding rows bindE_Inr by blast
  ultimately show ?thesis
    by (intro exI [of _ revision] exI [of _ nodes]) (simp add: compact_order_def, simp add: pruned_def)
qed

lemma pruned_ok:
  assumes ok: "service_ok db" and "unreferenced D db" and "tree_ok nodes"
    and rows: "map tree_node.truncate nodes = map tree_node.truncate (without D (rq_nodes db))"
  shows "service_ok ((pruned D db)\<lparr>rq_nodes := nodes\<rparr>)"
proof -
  have keys: "node_keys ms = (\<lambda>n. (tn_id n, tn_workspace n, tn_kind n)) ` set (map tree_node.truncate ms)" for ms
    by (simp add: node_keys_def image_image tree_node.truncate_def)
  have kept: "node_keys nodes = {k \<in> node_keys (rq_nodes db). fst k \<notin> D}"
    unfolding keys rows by (auto simp: tree_node.truncate_def)
  note owners = service_okD(3) [OF ok, unfolded owners_ok_def] and history = service_okD(4) [OF ok, unfolded history_ok_def]
  have same: "revision_of ((pruned D db)\<lparr>rq_nodes := nodes\<rparr>) = revision_of db"
    by (simp add: fun_eq_iff revision_of_def pruned_def)
  have drafts: "draft_ids ((pruned D db)\<lparr>rq_nodes := nodes\<rparr>) = draft_ids db - D"
    by (simp add: draft_ids_pruned)
  have "references_ok ((pruned D db)\<lparr>rq_nodes := nodes\<rparr>)"
  proof (rule grown_references [OF pruned_references [OF service_okD(2) [OF ok] assms(2)]])
    have "tn_id ` set ms = tn_id ` set (map tree_node.truncate ms)" for ms
      by (simp add: image_image tree_node.truncate_def)
    from this [of nodes] this [of "without D (rq_nodes db)"]
    show "tn_id ` set (rq_nodes (pruned D db)) \<subseteq> tn_id ` set nodes" by (simp only: rows) (simp add: pruned_def)
  qed
  moreover have "owners_ok ((pruned D db)\<lparr>rq_nodes := nodes\<rparr>)"
    using owners assms(2) unfolding owners_ok_def drafts unreferenced_def by (auto simp: pruned_def kept)
  moreover have "history_ok ((pruned D db)\<lparr>rq_nodes := nodes\<rparr>)"
    using history unfolding history_ok_def same by (simp add: pruned_def)
  ultimately show ?thesis using assms(3) by (simp add: service_ok_def)
qed

section \<open>The operations\<close>

text \<open>The audit log and the variable profiles aside, this is what a deletion leaves.\<close>

definition deleted :: "entity_id \<Rightarrow> request_db \<Rightarrow> request_db \<Rightarrow> bool" where
  "deleted i db db' \<longleftrightarrow> (\<exists>nodes env audit.
     db' = (pruned (subtree db i) (cleared (subtree db i) db))\<lparr>rq_nodes := nodes, rq_env := env, rq_audit := audit\<rparr> \<and>
     tree_ok nodes \<and> map tree_node.truncate nodes = map tree_node.truncate (without (subtree db i) (rq_nodes db)) \<and>
     env = (rq_env db)\<lparr>ed_profiles := filter (\<lambda>p. \<not> node_profile (subtree db i) p) (ed_profiles (rq_env db))\<rparr>)"

lemma cleared_unreferenced: "unreferenced R (cleared R db)"
  by (auto simp: unreferenced_def)

lemma deleted_ok:
  assumes ok: "service_ok db" and "deleted i db db'"
  shows "service_ok db'"
proof -
  let ?D = "subtree db i"
  from assms(2) obtain nodes env audit where d: "tree_ok nodes"
    "map tree_node.truncate nodes = map tree_node.truncate (without ?D (rq_nodes db))"
    "db' = (pruned ?D (cleared ?D db))\<lparr>rq_nodes := nodes, rq_env := env, rq_audit := audit\<rparr>"
    unfolding deleted_def by blast
  from pruned_ok [OF cleared_ok [OF ok] cleared_unreferenced d(1)] d(2,3) show ?thesis by simp
qed

lemma cleared_cong:
  assumes ok: "service_ok db" and "R \<inter> draft_ids db = R' \<inter> draft_ids db"
  shows "cleared R db = cleared R' db"
proof -
  have same: "j \<in> R \<longleftrightarrow> j \<in> R'" if "j \<in> draft_ids db" for j using assms(2) that by blast
  note refs = service_okD(2) [OF ok, unfolded references_ok_def optional_iff]
  have x: "detached R x = detached R' x" if "x \<in> set (rq_executions db)" for x
    using refs that same unfolding detached_def by metis
  have "filter (\<lambda>v. rn_request v \<notin> R) (rq_revisions db) = filter (\<lambda>v. rn_request v \<notin> R') (rq_revisions db)"
    "filter (\<lambda>v. vn_request v \<notin> R) (rq_versions db) = filter (\<lambda>v. vn_request v \<notin> R') (rq_versions db)"
    "filter (\<lambda>c. ce_request c \<notin> R) (rq_captures db) = filter (\<lambda>c. ce_request c \<notin> R') (rq_captures db)"
    by (rule filter_cong [OF refl], use refs same in blast)+
  with x show ?thesis unfolding cleared_def by (simp cong: map_cong)
qed

lemma service_ok_variables [simp]: "service_ok (delete_variable_profiles user w ids db) = service_ok db"
  by (simp add: delete_variable_profiles_def Let_def)

text \<open>Both deletions end alike.\<close>

lemma delete_rows:
  fixes ds :: "(entity_id \<times> node_kind \<times> nat) list"
  assumes ok: "service_ok db" and m: "m \<in> set (rq_nodes db)" and ds: "fst ` set ds = subtree db (tn_id m)"
    and below: "\<And>c p k d. (c, p) \<in> parent_edges (rq_nodes db) \<Longrightarrow> (p, k, d) \<in> set ds \<Longrightarrow> \<exists>k'. (c, k', d + 1) \<in> set ds"
    and requests: "set requests = subtree db (tn_id m) \<inter> draft_ids db"
  obtains db2 db3 revision nodes where
    "bindE (delete_request_history requests db) (\<lambda>x. Inr (delete_variable_profiles user w (map fst ds) x)) = Inr db2"
    "foldE (\<lambda>x (j, k, d). remove_node j x) db2 (sort_key (\<lambda>(j, k, d). - int d) ds) = Inr db3"
    "compact_order (tn_workspace m) (tn_parent m) r db3 = Inr (revision, db3\<lparr>rq_nodes := nodes\<rparr>)"
    "\<And>e user' w'. deleted (tn_id m) db (log_event e user' w' (db3\<lparr>rq_nodes := nodes\<rparr>))"
    "map tn_id (sibling_order nodes (tn_workspace m) (tn_parent m)) =
      filter (\<lambda>j. j \<noteq> tn_id m) (map tn_id (sibling_order (rq_nodes db) (tn_workspace m) (tn_parent m)))"
proof -
  let ?D = "fst ` set ds"
  define db1 where "db1 = cleared ?D db"
  define db2 where "db2 = delete_variable_profiles user w (map fst ds) db1"
  have "set requests \<inter> draft_ids db = ?D \<inter> draft_ids db" unfolding requests ds by blast
  from delete_history_eq [OF ok, of requests] cleared_cong [OF ok this]
  have h: "delete_request_history requests db = Inr db1" by (simp add: db1_def)
  have nodes: "rq_nodes db2 = rq_nodes db" "rq_revisions db2 = rq_revisions db1" "rq_executions db2 = rq_executions db1"
    by (simp_all add: db2_def db1_def delete_variable_profiles_def Let_def)
  have ok2: "service_ok db2" by (simp add: db2_def db1_def cleared_ok [OF ok])
  have unref: "unreferenced ?D db2"
    using cleared_unreferenced [of ?D db] by (simp add: unreferenced_def nodes db1_def)
  have sub: "subtree db2 i = subtree db i" for i by (simp add: subtree_def nodes)
  have "\<exists>revision ns. foldE (\<lambda>x (j, k, d). remove_node j x) db2 (sort_key (\<lambda>(j, k, d). - int d) ds) = Inr (pruned ?D db2) \<and>
    compact_order (tn_workspace m) (tn_parent m) r (pruned ?D db2) = Inr (revision, (pruned ?D db2)\<lparr>rq_nodes := ns\<rparr>) \<and>
    r < revision \<and> tree_ok ns \<and> map tree_node.truncate ns = map tree_node.truncate (without ?D (rq_nodes db2)) \<and>
    map tn_id (sibling_order ns (tn_workspace m) (tn_parent m)) =
      filter (\<lambda>j. j \<noteq> tn_id m) (map tn_id (sibling_order (rq_nodes db2) (tn_workspace m) (tn_parent m)))"
    by (rule remove_subtree [OF ok2 _ _ _ unref]) (use m ds below in \<open>simp_all add: nodes sub\<close>)
  then obtain revision ns where r: "foldE (\<lambda>x (j, k, d). remove_node j x) db2 (sort_key (\<lambda>(j, k, d). - int d) ds) = Inr (pruned ?D db2)"
    "compact_order (tn_workspace m) (tn_parent m) r (pruned ?D db2) = Inr (revision, (pruned ?D db2)\<lparr>rq_nodes := ns\<rparr>)"
    "tree_ok ns" "map tree_node.truncate ns = map tree_node.truncate (without ?D (rq_nodes db))"
    "map tn_id (sibling_order ns (tn_workspace m) (tn_parent m)) =
      filter (\<lambda>j. j \<noteq> tn_id m) (map tn_id (sibling_order (rq_nodes db) (tn_workspace m) (tn_parent m)))"
    unfolding nodes by blast
  have "ds \<noteq> []" using ds by (auto simp: subtree_def)
  then obtain audit where "db2 = db1\<lparr>rq_env := (rq_env db)\<lparr>ed_profiles := filter (\<lambda>p. \<not> node_profile ?D p) (ed_profiles (rq_env db))\<rparr>,
      rq_audit := audit\<rparr>"
    by (simp add: db2_def db1_def delete_variable_profiles_def Let_def)
  then have "\<exists>audit. log_event e user' w' ((pruned ?D db2)\<lparr>rq_nodes := ns\<rparr>) = (pruned ?D (cleared ?D db))\<lparr>rq_nodes := ns,
      rq_env := (rq_env db)\<lparr>ed_profiles := filter (\<lambda>p. \<not> node_profile ?D p) (ed_profiles (rq_env db))\<rparr>, rq_audit := audit\<rparr>" for e user' w'
    by (intro exI [of _ "audit @ [(e, user', w')]"] request_db.equality)
      (simp_all add: db1_def log_event_def pruned_def)
  with r(3,4) have "deleted (tn_id m) db (log_event e user' w' ((pruned ?D db2)\<lparr>rq_nodes := ns\<rparr>))" for e user' w'
    unfolding deleted_def ds [symmetric] by blast
  with h r show thesis by (intro that [of db2 "pruned ?D db2" revision ns]) (simp_all add: db2_def)
qed

lemma delete_collection_exact:
  assumes ok: "service_ok db" and row: "collection_row_of db i = Inr (n, q)"
    and access: "can_edit db user (tn_workspace n) = Inr ()"
    and revision: "expected = (case q of None \<Rightarrow> 0 | Some p \<Rightarrow> cp_revision p)"
  obtains res db' where "delete_collection user i expected db = Inr (res, db')" "deleted i db db'"
    "dl_parent res = tn_parent n" "distinct (dl_collections res @ dl_requests res)"
    "set (dl_requests res) = subtree db i \<inter> draft_ids db" "set (dl_collections res) = subtree db i - draft_ids db"
    "map tn_id (sibling_order (rq_nodes db') (tn_workspace n) (tn_parent n)) =
      filter (\<lambda>j. j \<noteq> i) (map tn_id (sibling_order (rq_nodes db) (tn_workspace n) (tn_parent n)))"
proof -
  note n = collection_row_member [OF row]
  let ?w = "tn_workspace n"
  from descendants_ok [OF service_okD(1) [OF ok] n(1) refl n(2)] obtain ds
    where ds: "collection_descendants (rq_nodes db) ?w i = Inr ds" "distinct (map fst ds)" "fst ` set ds = subtree db i"
      "\<And>j k d. (j, k, d) \<in> set ds \<Longrightarrow> \<exists>m \<in> set (rq_nodes db). tn_id m = j \<and> tn_workspace m = ?w \<and> tn_kind m = k"
      "\<And>c p k d. (c, p) \<in> parent_edges (rq_nodes db) \<Longrightarrow> (p, k, d) \<in> set ds \<Longrightarrow> \<exists>k'. (c, k', d + 1) \<in> set ds"
    unfolding subtree_def by blast
  let ?requests = "map fst (filter (\<lambda>(j, k, d). k = RequestNode) ds)"
    and ?collections = "map fst (filter (\<lambda>(j, k, d). k = CollectionNode) ds)"
  have kind: "k = RequestNode \<longleftrightarrow> j \<in> draft_ids db" if jkd: "(j, k, d) \<in> set ds" for j k d
  proof -
    from ds(4) [OF jkd] obtain m where m: "m \<in> set (rq_nodes db)" "tn_id m = j" "tn_kind m = k" by blast
    with same_id [OF tree_okD(2) [OF service_okD(1) [OF ok]] _ m(1)] service_okD(3) [OF ok] show ?thesis
      by (fastforce simp: owners_ok_def node_keys_def)
  qed
  have requests: "set ?requests = subtree db i \<inter> draft_ids db"
    unfolding ds(3) [symmetric] using kind by force
  have "k = CollectionNode \<longleftrightarrow> k \<noteq> RequestNode" for k by (cases k) simp_all
  then have collections: "set ?collections = subtree db i - draft_ids db"
    unfolding ds(3) [symmetric] using kind by force
  have apart: "distinct (?collections @ ?requests)"
    using requests collections distinct_map_filter [OF ds(2)] by (auto simp del: set_map set_filter)
  show thesis
  proof (rule delete_rows [OF ok n(1), of ds ?requests user ?w "on_revision n"])
    show "fst ` set ds = subtree db (tn_id n)" "set ?requests = subtree db (tn_id n) \<inter> draft_ids db"
      using ds(3) requests n(2) by simp_all
    show "\<exists>k'. (c, k', d + 1) \<in> set ds" if "(c, p) \<in> parent_edges (rq_nodes db)" "(p, k, d) \<in> set ds" for c p k d
      by (rule ds(5) [OF that])
    fix db2 db3 revision nodes
    assume "bindE (delete_request_history ?requests db) (\<lambda>x. Inr (delete_variable_profiles user ?w (map fst ds) x)) = Inr db2"
      "foldE (\<lambda>x (j, k, d). remove_node j x) db2 (sort_key (\<lambda>(j, k, d). - int d) ds) = Inr db3"
      "compact_order ?w (tn_parent n) (on_revision n) db3 = Inr (revision, db3\<lparr>rq_nodes := nodes\<rparr>)"
    moreover define res where "res = \<lparr>dl_parent = tn_parent n, dl_collections = ?collections, dl_requests = ?requests\<rparr>"
    moreover define db' where "db' = log_event (CollectionDeleted i (tn_parent n) (length ?collections) (length ?requests) revision)
          user ?w (db3\<lparr>rq_nodes := nodes\<rparr>)"
    ultimately have "delete_collection user i expected db = Inr (res, db')"
      using row access revision ds(1) by (auto simp: delete_collection_def Let_def bindE_eq_Inr)
    moreover have "dl_parent res = tn_parent n" "dl_collections res = ?collections" "dl_requests res = ?requests"
      "rq_nodes db' = nodes" by (simp_all add: res_def db'_def)
    moreover assume "\<And>e user' w'. deleted (tn_id n) db (log_event e user' w' (db3\<lparr>rq_nodes := nodes\<rparr>))"
      "map tn_id (sibling_order nodes ?w (tn_parent n)) =
        filter (\<lambda>j. j \<noteq> tn_id n) (map tn_id (sibling_order (rq_nodes db) ?w (tn_parent n)))"
    ultimately show thesis
      by (intro that [of res db']) (use requests collections apart n(2) in \<open>simp_all only: db'_def\<close>)
  qed
qed

lemma delete_request_exact:
  assumes ok: "service_ok db" and row: "request_row_of db i = Inr (d, n)"
    and access: "can_edit db user (tn_workspace n) = Inr ()" and revision: "dr_revision d = expected"
  obtains db' where "delete_request user i expected db = Inr db'" "deleted i db db'" "subtree db i = {i}"
    "map tn_id (sibling_order (rq_nodes db') (tn_workspace n) (tn_parent n)) =
      filter (\<lambda>j. j \<noteq> i) (map tn_id (sibling_order (rq_nodes db) (tn_workspace n) (tn_parent n)))"
proof -
  note n = request_row_member [OF row] and dist = tree_okD(2) [OF service_okD(1) [OF ok]]
  have draft: "i \<in> draft_ids db" using n(1,2) by (auto simp: draft_ids_def)
  have leaf: "(c, i) \<notin> parent_edges (rq_nodes db)" for c
  proof
    assume "(c, i) \<in> parent_edges (rq_nodes db)"
    then obtain m where "m \<in> set (rq_nodes db)" "tn_id m = i" "tn_kind m = CollectionNode"
      using tree_okD(3) [OF service_okD(1) [OF ok]] by (auto simp: parent_edge_iff parents_ok_def)
    moreover from draft obtain m' where "m' \<in> set (rq_nodes db)" "tn_id m' = i" "tn_kind m' = RequestNode"
      using service_okD(3) [OF ok] by (auto simp: owners_ok_def node_keys_def)
    ultimately show False using same_id [OF dist, of m m'] by simp
  qed
  then have sub: "subtree db i = {i}" by (auto simp: subtree_def elim: rtranclE)
  show thesis
  proof (rule delete_rows [OF ok n(3), of "[(i, RequestNode, 0)]" "[i]" user "tn_workspace n" "on_revision n"])
    show "fst ` set [(i, RequestNode, 0 :: nat)] = subtree db (tn_id n)" "set [i] = subtree db (tn_id n) \<inter> draft_ids db"
      using sub draft n(4) by simp_all
    show "\<exists>k'. (c, k', d + 1) \<in> set [(i, RequestNode, 0)]"
      if "(c, p) \<in> parent_edges (rq_nodes db)" "(p, k, d) \<in> set [(i, RequestNode, 0)]" for c p k d
      using that leaf by auto
    fix db2 db3 revision nodes
    assume "bindE (delete_request_history [i] db)
        (\<lambda>x. Inr (delete_variable_profiles user (tn_workspace n) (map fst [(i, RequestNode, 0 :: nat)]) x)) = Inr db2"
      "foldE (\<lambda>x (j, k, d). remove_node j x) db2 (sort_key (\<lambda>(j, k, d). - int d) [(i, RequestNode, 0)]) = Inr db3"
      "compact_order (tn_workspace n) (tn_parent n) (on_revision n) db3 = Inr (revision, db3\<lparr>rq_nodes := nodes\<rparr>)"
    moreover define db' where "db' = log_event (RequestDeleted i (tn_parent n) revision) user (tn_workspace n) (db3\<lparr>rq_nodes := nodes\<rparr>)"
    ultimately have "delete_request user i expected db = Inr db'"
      using row access revision by (auto simp: delete_request_def Let_def bindE_eq_Inr)
    moreover have "rq_nodes db' = nodes" by (simp add: db'_def)
    moreover assume "\<And>e user' w'. deleted (tn_id n) db (log_event e user' w' (db3\<lparr>rq_nodes := nodes\<rparr>))"
      "map tn_id (sibling_order nodes (tn_workspace n) (tn_parent n)) =
        filter (\<lambda>j. j \<noteq> tn_id n) (map tn_id (sibling_order (rq_nodes db) (tn_workspace n) (tn_parent n)))"
    ultimately show thesis
      by (intro that [of db']) (use sub n(4) in \<open>simp_all only: db'_def\<close>)
  qed
qed

lemma delete_collection_ok:
  assumes ok: "service_ok db" and accepted: "delete_collection user i expected db = Inr (res, db')"
  shows "deleted i db db'" and "service_ok db'"
proof -
  from accepted obtain n q where "collection_row_of db i = Inr (n, q)" "can_edit db user (tn_workspace n) = Inr ()"
    "expected = (case q of None \<Rightarrow> 0 | Some p \<Rightarrow> cp_revision p)"
    by (auto simp: delete_collection_def Let_def bindE_eq_Inr split: if_split_asm)
  from ok this show "deleted i db db'" by (rule delete_collection_exact) (use accepted in simp)
  with deleted_ok [OF ok] show "service_ok db'" by blast
qed

lemma delete_request_ok:
  assumes ok: "service_ok db" and accepted: "delete_request user i expected db = Inr db'"
  shows "deleted i db db'" and "service_ok db'"
proof -
  from accepted obtain d n where "request_row_of db i = Inr (d, n)" "can_edit db user (tn_workspace n) = Inr ()"
    "dr_revision d = expected"
    by (auto simp: delete_request_def Let_def bindE_eq_Inr split: if_split_asm)
  from ok this show "deleted i db db'" by (rule delete_request_exact) (use accepted in simp)
  with deleted_ok [OF ok] show "service_ok db'" by blast
qed

end
