(* ===== verification/Request_Reachable.thy ===== *)
theory Request_Reachable
  imports Request_Deletion
begin

text \<open>
  Imports and the preparation of executions keep the invariant of \<open>Request_Invariant\<close>; together with its
  other operations they make up the steps of the service and its reachable tables.
\<close>

section \<open>Imports\<close>

lemma import_collection_rows_elim:
  assumes made: "import_collection_rows sv k user w p provider c db = Inr db'"
  obtains n db1 db2 db3 where "add_node (sv_ids sv k) w p CollectionNode (ik_name c) db = Inr (n, db1)"
    "(if ik_prefix c \<noteq> [] \<or> ik_description c \<noteq> [] \<or> ik_notes c \<noteq> [] then add_profile (\<lparr>cp_id = (sv_ids sv k), cp_revision = 1, cp_description = ik_description c, cp_notes = ik_notes c,
      cp_headers = [], cp_prefix = ik_prefix c\<rparr>) db1 else Inr db1) = Inr db2"
    "(if ik_variables c = [] then Inr db2
      else write_variables sv k True user ScopeCollection (sv_ids sv k) 0 (ik_variables c) db2) = Inr db3"
    "db' = log_event (CollectionCreated (sv_ids sv k) p (Some provider)) user w db3"
  using made unfolding import_collection_rows_def Let_def by (auto simp: bindE_eq_Inr)

lemma import_collection_rows_ok:
  assumes ok: "service_ok db" and parent: "validate_parent (rq_nodes db) w p = Inr ()"
    and made: "import_collection_rows sv k user w p provider c db = Inr db'"
  shows "service_ok db'" and "node_keys (rq_nodes db') = insert (sv_ids sv k, w, CollectionNode) (node_keys (rq_nodes db))"
proof -
  let ?i = "sv_ids sv k"
  let ?p = "\<lparr>cp_id = ?i, cp_revision = 1, cp_description = ik_description c, cp_notes = ik_notes c,
      cp_headers = [], cp_prefix = ik_prefix c\<rparr>"
  from import_collection_rows_elim [OF made] obtain n db1 db2 db3 where e:
    "add_node ?i w p CollectionNode (ik_name c) db = Inr (n, db1)"
    "(if ik_prefix c \<noteq> [] \<or> ik_description c \<noteq> [] \<or> ik_notes c \<noteq> [] then add_profile ?p db1 else Inr db1) = Inr db2"
    "(if ik_variables c = [] then Inr db2
      else write_variables sv k True user ScopeCollection ?i 0 (ik_variables c) db2) = Inr db3"
    "db' = log_event (CollectionCreated ?i p (Some provider)) user w db3"
    .
  note added = add_collection_ok [OF ok e(1) parent]
  have "service_ok db2 \<and> rq_nodes db2 = rq_nodes db1"
    using e(2) added add_profile_ok [OF added(1), of ?p db2 w] by (auto split: if_splits)
  moreover have "service_ok db3 = service_ok db2" "rq_nodes db3 = rq_nodes db2"
    using e(3) by (auto split: if_splits dest!: write_variables_frame)
  ultimately show "service_ok db'" "node_keys (rq_nodes db') = insert (?i, w, CollectionNode) (node_keys (rq_nodes db))"
    using added(2) e(4) by simp_all
qed

definition import_keys_ok :: "entity_id \<Rightarrow> entity_id \<Rightarrow> (string \<times> entity_id) list \<Rightarrow> request_db \<Rightarrow> bool" where
  "import_keys_ok w root keys db \<longleftrightarrow> (root, w, CollectionNode) \<in> node_keys (rq_nodes db) \<and>
     (\<forall>key i. map_of keys key = Some i \<longrightarrow> (i, w, CollectionNode) \<in> node_keys (rq_nodes db))"

lemma import_collections_elim:
  assumes "import_collections sv user w provider root pending (k, keys, created, db) = Inr st"
  obtains (all) "pending = []" "st = (k, keys, created, db)"
    | (more) c rest parent db1 where "pending \<noteq> []" "dropWhile (\<lambda>c. \<not> creatable keys c) pending = c # rest"
      "parent = (case ik_parent c of None \<Rightarrow> root | Some p \<Rightarrow> the (map_of keys p))"
      "import_collection_rows sv k user w (Some parent) provider c db = Inr db1"
      "import_collections sv user w provider root (takeWhile (\<lambda>c. \<not> creatable keys c) pending @ rest)
        (k + 1, AList.update (ik_key c) (sv_ids sv k) keys, created @ [(sv_ids sv k, Some parent)], db1) = Inr st"
proof (cases "pending = []")
  case True
  with assms all show thesis by simp
next
  case False
  with assms obtain c rest where "dropWhile (\<lambda>c. \<not> creatable keys c) pending = c # rest"
    by (auto split: list.splits)
  with assms False more show thesis by (auto simp: bindE_eq_Inr Let_def)
qed

lemma import_collections_ok:
  assumes "import_collections sv user w provider root pending (k, keys, created, db) = Inr (k', keys', created', db')"
    and "service_ok db" and "import_keys_ok w root keys db"
  shows "service_ok db' \<and> import_keys_ok w root keys' db'"
  using assms
proof (induction sv user w provider root pending "(k, keys, created, db)" arbitrary: k keys created db rule: import_collections.induct)
  case (1 sv user w provider root pending k keys created db)
  note prems = "1.prems"
  from prems(1) show ?case
  proof (cases rule: import_collections_elim)
    case all
    with prems show ?thesis by simp
  next
    case (more c rest parent db1)
    have "creatable keys c" using hd_dropWhile [of "\<lambda>c. \<not> creatable keys c" pending] more(2) by simp
    with prems(3) more(3) have "(parent, w, CollectionNode) \<in> node_keys (rq_nodes db)"
      by (auto simp: creatable_def import_keys_ok_def split: option.splits)
    then have "validate_parent (rq_nodes db) w (Some parent) = Inr ()"
      by (simp add: parent_in_keys [OF service_okD(1) [OF prems(2)]])
    note made = import_collection_rows_ok [OF prems(2) this more(4)]
    have "import_keys_ok w root (AList.update (ik_key c) (sv_ids sv k) keys) db1"
      using prems(3) by (auto simp: import_keys_ok_def made(2) update_conv')
    from "1.hyps" [OF more made(1) this] show ?thesis .
  qed
qed

lemma import_capture_ok:
  assumes ok: "service_ok db" and key: "(i, w, RequestNode) \<in> node_keys (rq_nodes db)" and "revision_of db i r"
    and made: "import_capture sv w i r (k, db) c = Inr (k', db')"
  shows "service_ok db' \<and> rq_nodes db' = rq_nodes db \<and> rq_revisions db' = rq_revisions db"
proof -
  let ?c = "import_capture_row sv k w i r c"
  have fields: "ce_request ?c = i" "ce_workspace ?c = w" "ce_revision ?c = r"
    by (simp_all add: import_capture_row_def captured_exchange.extend_def)
  from made have d: "db' = db\<lparr>rq_captures := rq_captures db @ [?c]\<rparr>" "references_ok db'"
    by (auto simp: import_capture_def result_simps)
  have "owners_ok db'" using service_okD(3) [OF ok] key by (auto simp: owners_ok_def d(1) fields)
  moreover have "history_ok db'" using service_okD(4) [OF ok] assms(3) by (auto simp: history_ok_def d(1) fields)
  ultimately show ?thesis using d service_okD(1) [OF ok] by (simp add: service_ok_def)
qed

lemma import_captures_ok:
  assumes "foldE (import_capture sv w i r) (k, db) cs = Inr (k', db')" and "service_ok db"
    and "(i, w, RequestNode) \<in> node_keys (rq_nodes db)" and "revision_of db i r"
  shows "service_ok db' \<and> rq_nodes db' = rq_nodes db"
  using assms
proof (induction cs arbitrary: k db)
  case (Cons c cs)
  from Cons.prems(1) obtain k1 db1 where s: "import_capture sv w i r (k, db) c = Inr (k1, db1)"
    "foldE (import_capture sv w i r) (k1, db1) cs = Inr (k', db')" by (auto simp: bindE_eq_Inr)
  from import_capture_ok [OF Cons.prems(2,3,4) s(1)] Cons.IH [OF s(2)] Cons.prems(3,4) show ?case
    by (auto simp: revision_of_def)
qed simp

lemma import_request_elim:
  assumes made: "import_request sv user w provider root keys (k, created, db) x = Inr (k', created', db')"
  obtains parent n db1 db2 db3 row r db4 where "(case im_collection (it_request x) of None \<Rightarrow> Inr root
        | Some key \<Rightarrow> (case map_of keys key of None \<Rightarrow> Inl ImportCollectionMissing | Some p \<Rightarrow> Inr p)) = Inr parent"
    "add_node (sv_ids sv k) w (Some parent) RequestNode (it_name x) db = Inr (n, db1)" "add_draft (draft_of_content (sv_ids sv k) 0 (it_content x) (it_description x) (it_notes x)) db1 = Inr db2"
    "(if im_variables (it_request x) = [] then Inr db2
      else write_variables sv k True user ScopeRequest (sv_ids sv k) 0 (im_variables (it_request x)) db2) = Inr db3"
    "request_row_of db3 (sv_ids sv k) = Inr row"
    "ensure_revision sv (sv_ids sv (k + 1)) row user ManualSave None None
       (log_event (RequestCreated (sv_ids sv k) (Some parent) (Some (provider, im_item (it_request x)))) user w db3) = Inr (r, db4)"
    "foldE (import_capture sv w (sv_ids sv k) r) (k + 2, db4) (it_captures x) = Inr (k', db')"
  using made unfolding import_request_def Let_def
    by (auto simp: bindE_eq_Inr request_row_of_def draft_of_def log_event_def)

lemma import_request_ok:
  assumes ok: "service_ok db" and keys: "import_keys_ok w root keys db"
    and made: "import_request sv user w provider root keys (k, created, db) x = Inr (k', created', db')"
  shows "service_ok db' \<and> import_keys_ok w root keys db'"
proof -
  let ?i = "sv_ids sv k" and ?x = "it_request x"
  let ?d = "draft_of_content ?i 0 (it_content x) (it_description x) (it_notes x)"
  from import_request_elim [OF made] obtain parent n db1 db2 db3 row r db4 where e:
    "(case im_collection ?x of None \<Rightarrow> Inr root
        | Some key \<Rightarrow> (case map_of keys key of None \<Rightarrow> Inl ImportCollectionMissing | Some p \<Rightarrow> Inr p)) = Inr parent"
    "add_node ?i w (Some parent) RequestNode (it_name x) db = Inr (n, db1)" "add_draft ?d db1 = Inr db2"
    "(if im_variables ?x = [] then Inr db2
      else write_variables sv k True user ScopeRequest ?i 0 (im_variables ?x) db2) = Inr db3"
    "request_row_of db3 ?i = Inr row"
    "ensure_revision sv (sv_ids sv (k + 1)) row user ManualSave None None
       (log_event (RequestCreated ?i (Some parent) (Some (provider, im_item ?x))) user w db3) = Inr (r, db4)"
    "foldE (import_capture sv w ?i r) (k + 2, db4) (it_captures x) = Inr (k', db')"
    .
  from e(1) keys have "(parent, w, CollectionNode) \<in> node_keys (rq_nodes db)"
    by (auto simp: import_keys_ok_def split: option.splits)
  then have "validate_parent (rq_nodes db) w (Some parent) = Inr ()" by (simp add: parent_in_keys [OF service_okD(1) [OF ok]])
  note added = add_request_ok [OF ok e(2) this e(3)]
  have d: "dr_id ?d = ?i" by (simp add: draft_of_content_def)
  have db3: "service_ok db3" "rq_nodes db3 = rq_nodes db2"
    using e(4) added(1) [OF d] by (auto split: if_splits dest!: write_variables_frame)
  have row: "dr_id (fst row) = ?i" using e(5) request_row_member by (metis prod.collapse)
  note revised = ensure_revision_ok [OF _ e(6)]
  have "service_ok db4" "revision_of db4 ?i r" "rq_nodes db4 = rq_nodes db2"
    using revised db3 row by simp_all
  with import_captures_ok [OF e(7)] added(2) [OF d] have "service_ok db' \<and> rq_nodes db' = rq_nodes db2" by simp
  with added(2) [OF d] keys show ?thesis by (simp add: import_keys_ok_def)
qed

lemma import_requests_elim:
  assumes made: "import_requests sv user w p options db = Inr (res, db')"
  obtains top collections requests db1 k keys created db2 k' views db3 e where "validate_parent (rq_nodes db) w p = Inr ()"
    "import_collection_rows sv 0 user w p (io_provider options) top db = Inr db1"
    "import_collections sv user w (io_provider options) (sv_ids sv 0) collections (1, [], [(sv_ids sv 0, p)], db1) =
       Inr (k, keys, created, db2)"
    "foldE (import_request sv user w (io_provider options) (sv_ids sv 0) keys) (k, [], db2) requests = Inr (k', views, db3)"
    "db' = log_event e user w db3"
    "mapE (validate_imported_request sv) (io_requests options) = Inr requests"
  using made unfolding import_requests_def Let_def
    by (clarsimp simp: bindE_eq_Inr valid_parent_iff)

lemma import_requests_ok:
  assumes ok: "service_ok db" and made: "import_requests sv user w p options db = Inr (res, db')"
  shows "service_ok db'"
proof -
  from import_requests_elim [OF made] obtain top collections requests db1 k keys created db2 k' views db3 ev where e:
    "validate_parent (rq_nodes db) w p = Inr ()"
    "import_collection_rows sv 0 user w p (io_provider options) top db = Inr db1"
    "import_collections sv user w (io_provider options) (sv_ids sv 0) collections (1, [], [(sv_ids sv 0, p)], db1) =
       Inr (k, keys, created, db2)"
    "foldE (import_request sv user w (io_provider options) (sv_ids sv 0) keys) (k, [], db2) requests = Inr (k', views, db3)"
    "db' = log_event ev user w db3"
    .
  note root = import_collection_rows_ok [OF ok e(1,2)]
  have "import_keys_ok w (sv_ids sv 0) [] db1" by (simp add: import_keys_ok_def root(2))
  from import_collections_ok [OF e(3) root(1) this]
  have start: "service_ok (snd (snd (k, [], db2))) \<and> import_keys_ok w (sv_ids sv 0) keys (snd (snd (k, [], db2)))" by simp
  have "service_ok (snd (snd (k', views, db3))) \<and> import_keys_ok w (sv_ids sv 0) keys (snd (snd (k', views, db3)))"
    using e(4) start
  proof (rule foldE_invariant [where I = "\<lambda>st. service_ok (snd (snd st)) \<and> import_keys_ok w (sv_ids sv 0) keys (snd (snd st))"])
    fix st x st'
    assume "service_ok (snd (snd st)) \<and> import_keys_ok w (sv_ids sv 0) keys (snd (snd st))"
      and "import_request sv user w (io_provider options) (sv_ids sv 0) keys st x = Inr st'"
    then show "service_ok (snd (snd st')) \<and> import_keys_ok w (sv_ids sv 0) keys (snd (snd st'))"
      using import_request_ok by (cases st; cases st') (metis snd_conv)
  qed
  with e(5) show ?thesis by simp
qed

section \<open>Executions\<close>

lemma request_row_key:
  assumes ok: "service_ok db" and row: "request_row_of db i = Inr (d, n)"
  shows "(i, tn_workspace n, RequestNode) \<in> node_keys (rq_nodes db)"
proof -
  note n = request_row_member [OF row]
  from n(1,2) have "i \<in> draft_ids db" by (auto simp: draft_ids_def)
  with service_okD(3) [OF ok] obtain m where "m \<in> set (rq_nodes db)" "tn_id m = i" "tn_kind m = RequestNode"
    by (auto simp: owners_ok_def node_keys_def)
  with same_id [OF tree_okD(2) [OF service_okD(1) [OF ok]] _ n(3)] n(3,4) show ?thesis by (auto simp: node_keys_def image_iff)
qed

lemma map_request_fields:
  assumes "map_request api (d, n) = Inr v"
  shows "vw_id v = dr_id d" "vw_workspace v = tn_workspace n" "vw_parent v = tn_parent n" "vw_name v = tn_name n"
    "rc_headers v = dr_headers d" "rc_method v = dr_method d" "rc_target_mode v = dr_target_mode d"
    "rc_target v = dr_target d" "rc_query v = dr_query d" "rc_body v = dr_body_text d"
    "rc_pre_script v = dr_pre_script d" "rc_post_script v = dr_post_script d" "vw_revision v = dr_revision d"
    "vw_description v = dr_description d" "vw_notes v = dr_notes d"
  using assms by (auto simp: map_request_def bindE_eq_Inr)

lemma run_snapshot_fields [simp]:
  "sn_workspace (run_snapshot w i c hs cs) = w" "sn_request (run_snapshot w i c hs cs) = i"
  by (simp_all add: run_snapshot_def strip_documentation_def)

lemma record_execution_ok:
  assumes ok: "service_ok db" and made: "record_execution sv ru policies p s eager db = Inr (px, db')"
    and key: "\<And>i. sn_request s = Some i \<Longrightarrow> (i, sn_workspace s, RequestNode) \<in> node_keys (rq_nodes db)"
    and revision: "\<And>r. ru_revision ru = Some r \<Longrightarrow> \<exists>i. sn_request s = Some i \<and> revision_of db i r"
  shows "service_ok db'"
proof -
  let ?x = "execution_row_of sv ru policies p s eager"
  have x: "xr_request ?x = sn_request s" "xr_revision ?x = ru_revision ru" "xr_workspace ?x = sn_workspace s"
    by (simp_all add: execution_row_of_def execution_row.extend_def)
  let ?db = "db\<lparr>rq_executions := rq_executions db @ [?x]\<rparr>"
  from made have d: "references_ok ?db" "service_ok db' = service_ok ?db"
    by (auto simp: record_execution_def result_simps)
  have "owners_ok ?db" using service_okD(3) [OF ok] key by (auto simp: owners_ok_def x)
  moreover have "history_ok ?db" using service_okD(4) [OF ok] revision by (auto simp: history_ok_def x)
  ultimately show ?thesis using d service_okD(1) [OF ok] by (simp add: service_ok_def)
qed

lemma prepare_execution_elim:
  assumes "prepare_execution sv user session i db = Inr (px, db')"
  obtains d n v p policies s eager effective components r db1 where "request_row_of db i = Inr (d, n)"
    "map_request (sv_content sv) (d, n) = Inr v" "can_read db user (tn_workspace n) = Inr ()"
    "can_edit db user (tn_workspace n) = Inr ()"
    "profile_for_run db session (tn_workspace n) (tn_parent n) (Some i) = Inr p"
    "s = run_snapshot (tn_workspace n) (Some (dr_id d)) (request_content.truncate v) effective components"
    "compose_run sv db p s = Inr eager"
    "ensure_revision sv (sv_ids sv 0) (d, n) user ForExecution (Some effective) (Some components) db = Inr (r, db1)"
    "record_execution sv \<lparr>ru_id = sv_ids sv 1, ru_user = user, ru_parent = tn_parent n, ru_revision = Some r,
       ru_secret = Some (secret_bearing p)\<rparr> policies p s eager db1 = Inr (px, db')"
  using assms unfolding prepare_execution_def Let_def
  by (clarsimp simp: bindE_eq_Inr) (frule map_request_fields(1), frule map_request_fields(2), frule map_request_fields(3), simp)

lemma prepare_execution_ok:
  assumes ok: "service_ok db" and made: "prepare_execution sv user session i db = Inr (px, db')"
  shows "service_ok db'"
  using made
proof (rule prepare_execution_elim, goal_cases)
  case (1 d n v p policies s eager effective components r db1)
  note kept = ensure_revision_ok [OF ok 1(8)] and n = request_row_member [OF 1(1)]
  show ?case
    by (rule record_execution_ok [OF kept(1) 1(9)])
      (use 1(6) kept(2,3) n(2) request_row_key [OF ok 1(1)] in simp_all)
qed

lemma prepare_revision_execution_elim:
  assumes "prepare_revision_execution sv user session i r db = Inr (px, db')"
  obtains d n v c p policies s eager where "request_row_of db i = Inr (d, n)"
    "can_read db user (tn_workspace n) = Inr ()" "can_edit db user (tn_workspace n) = Inr ()"
    "revision_row_of db i r = Inr v" "parse_revision_content (sv_content sv) (rn_content v) = Inr c"
    "profile_for_run db session (tn_workspace n) (tn_parent n) (Some i) = Inr p"
    "s = run_snapshot (tn_workspace n) (Some i) (request_content.truncate c)
       (with_body_content_type (rc_headers c) (rc_request_body c)) (coalesce (vc_components c) [rc_target c])"
    "compose_run sv db p s = Inr eager"
    "record_execution sv \<lparr>ru_id = sv_ids sv 0, ru_user = user, ru_parent = tn_parent n, ru_revision = Some r,
       ru_secret = None\<rparr> policies p s eager db = Inr (px, db')"
  using assms unfolding prepare_revision_execution_def Let_def by (clarsimp simp: bindE_eq_Inr)

lemma revision_row_member:
  assumes "revision_row_of db i r = Inr v"
  shows "v \<in> set (rq_revisions db)" "rn_id v = r" "rn_request v = i" "revision_of db i r"
proof -
  from assms show v: "v \<in> set (rq_revisions db)" "rn_id v = r" "rn_request v = i"
    by (auto simp: revision_row_of_def split: option.splits dest: find_SomeD)
  then show "revision_of db i r" by (auto simp: revision_of_def)
qed

lemma prepare_revision_execution_ok:
  assumes ok: "service_ok db" and made: "prepare_revision_execution sv user session i r db = Inr (px, db')"
  shows "service_ok db'"
  using made
proof (rule prepare_revision_execution_elim, goal_cases)
  case (1 d n v c p policies s eager)
  show ?case
    by (rule record_execution_ok [OF ok 1(9)])
      (use 1(7) request_row_key [OF ok 1(1)] revision_row_member(4) [OF 1(4)] in simp_all)
qed

lemma prepare_temporary_execution_ok:
  assumes ok: "service_ok db"
    and made: "prepare_temporary_execution sv user session w parent input temporary db = Inr (px, db')"
  shows "service_ok db'"
proof -
  from made obtain ru policies p s eager where "record_execution sv ru policies p s eager db = Inr (px, db')"
    "sn_request s = None" "ru_revision ru = None"
    unfolding prepare_temporary_execution_def Let_def by (clarsimp simp: bindE_eq_Inr)
  from record_execution_ok [OF ok this(1)] this(2,3) show ?thesis by simp
qed

section \<open>Steps\<close>

text \<open>One accepted call of the service; a refused one is rolled back and is no step.\<close>

inductive tables_step :: "content_api \<Rightarrow> request_db \<Rightarrow> request_db \<Rightarrow> bool" for api where
  reordered: "reorder_children user w parent expected ordered db = Inr (revision, db') \<Longrightarrow> tables_step api db db'"
| moved: "move_node user w i t placing expected db = Inr (parents, db') \<Longrightarrow> tables_step api db db'"
| collection_created:
    "sv_content sv = api \<Longrightarrow> create_collection sv user w parent name description notes db = Inr (n, db') \<Longrightarrow>
      tables_step api db db'"
| collection_updated:
    "sv_content sv = api \<Longrightarrow> update_collection sv user i expected name headers path description notes db = Inr (cv, db') \<Longrightarrow>
      tables_step api db db'"
| headers_updated: 
    "sv_content sv = api \<Longrightarrow> update_collection_headers sv user i expected headers db = Inr (cv, db') \<Longrightarrow>
      tables_step api db db'"
| collection_deleted: "delete_collection user i expected db = Inr (res, db') \<Longrightarrow> tables_step api db db'"
| request_created: 
    "sv_content sv = api \<Longrightarrow> create_request sv user w parent input variables db = Inr (v, db') \<Longrightarrow>
      tables_step api db db'"
| request_updated: 
    "sv_content sv = api \<Longrightarrow> update_request sv user i expected input written db = Inr (v, db') \<Longrightarrow>
      tables_step api db db'"
| request_duplicated: 
    "sv_content sv = api \<Longrightarrow> duplicate_request sv user i name db = Inr (v, db') \<Longrightarrow>
      tables_step api db db'"
| request_deleted: "delete_request user i expected db = Inr db' \<Longrightarrow> tables_step api db db'"
| revision_named: 
    "sv_content sv = api \<Longrightarrow> name_revision sv user i r label db = Inr (summary, db') \<Longrightarrow>
      tables_step api db db'"
| revision_restored: 
    "sv_content sv = api \<Longrightarrow> restore_revision sv user i r expected db = Inr (v, db') \<Longrightarrow>
      tables_step api db db'"
| imported: 
    "sv_content sv = api \<Longrightarrow> import_requests sv user w parent options db = Inr (result, db') \<Longrightarrow>
      tables_step api db db'"
| prepared: 
    "sv_content sv = api \<Longrightarrow> prepare_execution sv user session i db = Inr (px, db') \<Longrightarrow>
      tables_step api db db'"
| revision_prepared: 
    "sv_content sv = api \<Longrightarrow> prepare_revision_execution sv user session i r db = Inr (px, db') \<Longrightarrow>
      tables_step api db db'"
| temporary_prepared:
    "sv_content sv = api \<Longrightarrow> prepare_temporary_execution sv user session w parent temporary_input scope db = Inr (px, db') \<Longrightarrow>
      tables_step api db db'"

inductive_cases tables_stepE: "tables_step api db db'"

lemma tables_step_ok:
  assumes "tables_step api db db'" and "service_ok db"
  shows "service_ok db'"
  using assms
  by cases (blast intro: reorder_children_ok move_node_ok create_collection_ok update_collection_ok update_collection_headers_ok
    delete_collection_ok(2) create_request_ok update_request_ok duplicate_request_ok delete_request_ok(2) name_revision_ok
    restore_revision_ok import_requests_ok prepare_execution_ok prepare_revision_execution_ok
    prepare_temporary_execution_ok)+

text \<open>
  Other services write their own tables freely; the execution service rewrites executions and adds the
  further exchanges of a run, which keep the workspace, request and revision of the first one.
\<close>

definition executions_follow :: "stored_execution list \<Rightarrow> stored_execution list \<Rightarrow> bool" where
  "executions_follow xs ys \<longleftrightarrow> distinct (map xr_id ys) \<and> (\<forall>y \<in> set ys. \<exists>x \<in> set xs.
     xr_workspace y = xr_workspace x \<and> xr_request y = xr_request x \<and> xr_revision y = xr_revision x)"

lemma executions_follow_ok:
  assumes ok: "service_ok db" and f: "executions_follow (rq_executions db) ys"
  shows "service_ok (db\<lparr>rq_executions := ys\<rparr>)"
proof -
  have all: "P (xr_workspace y) (xr_request y) (xr_revision y)" if "y \<in> set ys"
    "\<forall>x \<in> set (rq_executions db). P (xr_workspace x) (xr_request x) (xr_revision x)" for y P
    using that f by (metis executions_follow_def)
  have "references_ok (db\<lparr>rq_executions := ys\<rparr>)"
    using service_okD(2) [OF ok] f
      all [of _ "\<lambda>w i r. (\<forall>j. i = Some j \<longrightarrow> j \<in> draft_ids db) \<and> (\<forall>j. r = Some j \<longrightarrow> j \<in> revision_ids db)"]
    unfolding references_ok_def optional_iff by (simp add: revision_ids_def executions_follow_def)
  moreover have "owners_ok (db\<lparr>rq_executions := ys\<rparr>)"
    using service_okD(3) [OF ok] all [of _ "\<lambda>w i r. \<forall>j. i = Some j \<longrightarrow> (j, w, RequestNode) \<in> node_keys (rq_nodes db)"]
    by (simp add: owners_ok_def)
  moreover have "history_ok (db\<lparr>rq_executions := ys\<rparr>)"
    using service_okD(4) [OF ok] all [of _ "\<lambda>w i r. \<forall>j. r = Some j \<longrightarrow> (\<exists>k. i = Some k \<and> revision_of db k j)"]
    by (simp add: history_ok_def)
  ultimately show ?thesis using service_okD(1) [OF ok] by (simp add: service_ok_def)
qed

definition empty_tables :: "environment_db \<Rightarrow> request_db" where
  "empty_tables env = \<lparr>rq_env = env, rq_nodes = [], rq_profiles = [], rq_drafts = [], rq_revisions = [],
     rq_versions = [], rq_captures = [], rq_executions = [], rq_users = [], rq_preferences = [],
     rq_attachments = [], rq_audit = []\<rparr>"

inductive service_reachable :: "content_api \<Rightarrow> request_db \<Rightarrow> bool" for api where
  started: "service_reachable api (empty_tables env)"
| stepped: "service_reachable api db \<Longrightarrow> tables_step api db db' \<Longrightarrow> service_reachable api db'"
| elsewhere: "service_reachable api db \<Longrightarrow>
    service_reachable api (db\<lparr>rq_env := env, rq_users := users, rq_preferences := preferences,
      rq_attachments := attachments, rq_audit := audit\<rparr>)"
| executed: "service_reachable api db \<Longrightarrow> executions_follow (rq_executions db) ys \<Longrightarrow>
    service_reachable api (db\<lparr>rq_executions := ys\<rparr>)"

lemma empty_tables_ok: "service_ok (empty_tables env)"
  by (simp add: service_ok_def owners_ok_def history_ok_def reference_parts empty_tables_def node_keys_def
      tree_ok_def forest_ok_def parents_ok_def parent_edges_def group_ok_def siblings_def acyclic_def bij_betw_def)

lemma service_reachable_ok: "service_reachable api db \<Longrightarrow> service_ok db"
  by (induction rule: service_reachable.induct) (simp_all add: empty_tables_ok tables_step_ok executions_follow_ok)

end
