(* ===== verification/Request_History.thy ===== *)
theory Request_History
  imports Request_Reachable
begin

text \<open>
  The operations of \<open>RequestService\<close> only append to the tables of revisions and executions, unless they
  delete requests: what was recorded is never rewritten. A draft they write is normalised content, or a
  copy of another draft.
\<close>

definition written_draft :: "content_api \<Rightarrow> request_draft \<Rightarrow> bool" where
  "written_draft api d \<longleftrightarrow> (\<exists>x c i k description notes. normalize_input api x = Inr c \<and>
     d = draft_of_content i k c description notes \<and>
     accepted_description description = Inr description \<and> accepted_notes notes = Inr notes)"

definition draft_from :: "content_api \<Rightarrow> request_db \<Rightarrow> request_draft \<Rightarrow> bool" where
  "draft_from api db d \<longleftrightarrow> written_draft api d \<or>
     (\<exists>e \<in> set (rq_drafts db). \<exists>i k. d = e\<lparr>dr_id := i, dr_revision := k\<rparr>)"

definition grows :: "content_api \<Rightarrow> request_db \<Rightarrow> request_db \<Rightarrow> bool" where
  "grows api db db' \<longleftrightarrow> (\<exists>vs xs. rq_revisions db' = rq_revisions db @ vs \<and> rq_executions db' = rq_executions db @ xs) \<and>
     (\<forall>d \<in> set (rq_drafts db'). draft_from api db d)"

definition same_history :: "request_db \<Rightarrow> request_db \<Rightarrow> bool" where
  "same_history db db' \<longleftrightarrow> rq_revisions db' = rq_revisions db \<and> rq_executions db' = rq_executions db \<and>
     rq_drafts db' = rq_drafts db"

lemma copy_of_content:
  "(draft_of_content i' k' c description notes)\<lparr>dr_id := i, dr_revision := k\<rparr> = draft_of_content i k c description notes"
  by (simp add: draft_of_content_def)

lemma written_copy: "written_draft api d \<Longrightarrow> written_draft api (d\<lparr>dr_id := i, dr_revision := k\<rparr>)"
  unfolding written_draft_def using copy_of_content by metis

lemma written_content:
  assumes "normalize_input api x = Inr c" and "accepted_description s = Inr description" and "accepted_notes t = Inr notes"
  shows "written_draft api (draft_of_content i k c description notes)"
proof -
  have "accepted_description description = Inr description" "accepted_notes notes = Inr notes"
    using assms(2,3)
    by (auto simp: accepted_description_def accepted_notes_def validate_resource_description_def
        validate_resource_notes_def failing_def split: if_split_asm)
  with assms(1) show ?thesis unfolding written_draft_def by blast
qed

lemma draft_from_member [simp]: "d \<in> set (rq_drafts db) \<Longrightarrow> draft_from api db d"
  unfolding draft_from_def by (rule disjI2, rule bexI [of _ d], intro exI [of _ "dr_id d"] exI [of _ "dr_revision d"]) simp_all

lemma grows_refl [simp]: "grows api db db"
  by (simp add: grows_def)

lemma draft_from_trans: "draft_from api b d \<Longrightarrow> \<forall>e \<in> set (rq_drafts b). draft_from api a e \<Longrightarrow> draft_from api a d"
  unfolding draft_from_def using written_copy by fastforce

lemma grows_trans [trans]: "grows api a b \<Longrightarrow> grows api b c \<Longrightarrow> grows api a c"
  unfolding grows_def using draft_from_trans by fastforce

lemma same_grows: "same_history a b \<Longrightarrow> grows api a b"
  by (simp add: same_history_def grows_def)

lemma draft_from_cong: "rq_drafts a = rq_drafts b \<Longrightarrow> draft_from api a d = draft_from api b d"
  by (simp add: draft_from_def)

lemma grows_cong:
  "same_history a a' \<Longrightarrow> same_history b b' \<Longrightarrow> grows api a b = grows api a' b'"
  using draft_from_cong [of a' a] by (simp add: grows_def same_history_def)

lemma grows_logged [simp]: "grows api a (log_event e user w b) = grows api a b" "grows api (log_event e user w a) b = grows api a b"
  "grows api a (b\<lparr>rq_nodes := ns\<rparr>) = grows api a b" "grows api a (b\<lparr>rq_env := env\<rparr>) = grows api a b"
  "grows api a (rename_node i name b) = grows api a b" "grows api a (set_collection_profile p b) = grows api a b"
  by (rule grows_cong; simp add: same_history_def rename_node_def set_collection_profile_def)+

lemma set_draft_grows: "grows api a b \<Longrightarrow> written_draft api d \<Longrightarrow> grows api a (set_draft d b)"
  by (auto simp: grows_def set_draft_def draft_from_def)

lemma add_draft_grows: "add_draft d db = Inr db' \<Longrightarrow> draft_from api db d \<Longrightarrow> grows api db db'"
  by (auto simp: add_draft_def grows_def result_simps)

text \<open>Parts of the operations.\<close>

lemma steady_parts:
  "add_node i w p kind name db = Inr (n, db') \<Longrightarrow> same_history db db'"
  "add_profile q db = Inr db' \<Longrightarrow> same_history db db'"
  "write_variables sv k allow user kind' i expected writes db = Inr db' \<Longrightarrow> same_history db db'"
  "set_version_name sv i r name' db = Inr db' \<Longrightarrow> same_history db db'"
  "write_collection_profile old q db = Inr db' \<Longrightarrow> same_history db db'"
  by (auto simp: same_history_def add_node_def add_profile_def write_variables_def set_version_name_def
      write_collection_profile_def set_collection_profile_def result_simps split: if_split_asm)

lemma ensure_revision_grows: "ensure_revision sv fresh row user reason effective components db = Inr (r, db') \<Longrightarrow> grows api db db'"
  by (cases row) (auto elim!: ensure_revision_elim simp: result_simps grows_def)

lemma record_execution_grows: "record_execution sv ru policies p s eager db = Inr (px, db') \<Longrightarrow> grows api db db'"
  by (auto simp: record_execution_def result_simps grows_def)

lemmas growth = steady_parts [THEN same_grows] ensure_revision_grows record_execution_grows

lemma import_capture_grows: "import_capture sv w i r st c = Inr st' \<Longrightarrow> grows api (snd st) (snd st')"
  by (cases st) (auto simp: import_capture_def result_simps grows_def)

lemma foldE_grows:
  assumes "foldE f s xs = Inr t" and "\<And>s x s'. x \<in> set xs \<Longrightarrow> f s x = Inr s' \<Longrightarrow> grows api (h s) (h s')"
  shows "grows api (h s) (h t)"
  using assms(1) by (rule foldE_invariant [where I = "\<lambda>u. grows api (h s) (h u)"]) (auto intro: grows_trans assms(2))

lemma optionally_grows:
  "(if b then Inr x else m) = Inr y \<Longrightarrow> (m = Inr y \<Longrightarrow> grows api x y) \<Longrightarrow> grows api x y"
  "(if b then m else Inr x) = Inr y \<Longrightarrow> (m = Inr y \<Longrightarrow> grows api x y) \<Longrightarrow> grows api x y"
  by (auto split: if_split_asm)

lemma import_collection_rows_grows: "import_collection_rows sv k user w p provider c db = Inr db' \<Longrightarrow> grows api db db'"
proof (erule import_collection_rows_elim, goal_cases)
  case (1 n db1 db2 db3)
  have "grows api db db1" by (rule growth(1) [OF 1(1)])
  also have "grows api db1 db2" by (rule optionally_grows(2) [OF 1(2)]) (rule growth(2))
  also have "grows api db2 db3" by (rule optionally_grows(1) [OF 1(3)]) (rule growth(3))
  finally show ?case by (simp add: 1(4))
qed

lemma import_collections_grows:
  assumes "import_collections sv user w provider root pending st = Inr st'"
  shows "grows api (snd (snd (snd st))) (snd (snd (snd st')))"
  using assms
proof (induction sv user w provider root pending st rule: import_collections.induct)
  case (1 sv user w provider root pending k keys created db)
  from "1.prems" show ?case
  proof (cases rule: import_collections_elim)
    case (more c rest parent db1)
    have "grows api db db1" by (rule import_collection_rows_grows [OF more(4)])
    also have "grows api db1 (snd (snd (snd st')))" using "1.IH" [OF more(1-4) more(5)] by simp
    finally show ?thesis by simp
  qed simp
qed

definition written_item :: "content_api \<Rightarrow> import_item \<Rightarrow> bool" where
  "written_item api x \<longleftrightarrow> (\<forall>i k. written_draft api (draft_of_content i k (it_content x) (it_description x) (it_notes x)))"

lemma validated_item: "validate_imported_request sv y = Inr x \<Longrightarrow> written_item (sv_content sv) x"
  by (auto simp: validate_imported_request_def written_item_def bindE_eq_Inr failing_eq_Inr intro: written_content)

lemma import_request_grows:
  assumes "import_request sv user w provider root keys st x = Inr st'" and "written_item api x"
  shows "grows api (snd (snd st)) (snd (snd st'))"
proof -
  obtain k created db k' created' db' where st: "st = (k, created, db)" "st' = (k', created', db')" by (cases st; cases st')
  from assms(1) [unfolded st] show ?thesis
  proof (rule import_request_elim, goal_cases)
    case (1 parent n db1 db2 db3 row r db4)
    have "grows api db db1" by (rule growth(1) [OF 1(2)])
    also have "grows api db1 db2"
      by (rule add_draft_grows [OF 1(3)]) (use assms(2) in \<open>simp add: written_item_def draft_from_def\<close>)
    also have "grows api db2 db3" by (rule optionally_grows(1) [OF 1(4)]) (rule growth(3))
    also have "grows api db3 db4" using ensure_revision_grows [OF 1(6), of api] by simp
    also have "grows api db4 db'" using foldE_grows [OF 1(7), of api snd] import_capture_grows by simp
    finally show ?case by (simp add: st)
  qed
qed

lemma import_requests_grows: "import_requests sv user w p options db = Inr (res, db') \<Longrightarrow> grows (sv_content sv) db db'"
proof (erule import_requests_elim, goal_cases)
  case (1 top collections requests db1 k keys created db2 k' views db3 e)
  let ?api = "sv_content sv"
  have item: "written_item ?api x" if "x \<in> set requests" for x
    using 1(6) that validated_item by (auto simp: mapE_eq_Inr list_all2_conv_all_nth in_set_conv_nth)
  have "grows ?api db db1" by (rule import_collection_rows_grows [OF 1(2)])
  also have "grows ?api db1 db2" using import_collections_grows [OF 1(3)] by simp
  also have "grows ?api db2 db3"
    using foldE_grows [OF 1(4), of ?api "\<lambda>st. snd (snd st)"] import_request_grows [OF _ item] by simp
  finally show ?case by (simp add: 1(5))
qed

section \<open>Operations\<close>

lemma create_collection_grows: "create_collection sv user w p name description notes db = Inr (n, db') \<Longrightarrow> grows api db db'"
proof (erule create_collection_elim, goal_cases)
  case (1 description' notes' name' db1 db2)
  have "grows api db db1" by (rule growth(1) [OF 1(2)])
  also have "grows api db1 db2" by (rule optionally_grows(2) [OF 1(3)]) (rule growth(2))
  finally show ?case by (simp add: 1(4))
qed

lemma update_collection_grows:
  "update_collection sv user i expected name headers path description notes db = Inr (v, db') \<Longrightarrow> grows api db db'"
proof (erule update_collection_elim, goal_cases)
  case (1 n q name' headers' path' description' notes' db1)
  show ?case
  proof (cases "list_all (\<lambda>(k, changed). \<not> changed)
      (profile_changes (map_collection (n, q)) name' headers' path' description' notes')")
    case True
    from 1(9) [OF True] show ?thesis by simp
  next
    case False
    note w = 1(10) [OF False]
    from growth(5) [OF conjunct1 [OF w]] w show ?thesis by simp
  qed
qed

lemma create_request_grows: "create_request sv user w p input variables db = Inr (v, db') \<Longrightarrow> grows (sv_content sv) db db'"
proof (erule create_request_elim, goal_cases)
  case (1 c name' description' notes' n db1 db2 db3 row r inherited target)
  have "grows (sv_content sv) db db1" by (rule growth(1) [OF 1(2)])
  also have "grows (sv_content sv) db1 db2"
    by (rule add_draft_grows [OF 1(3)]) (simp add: draft_from_def written_content [OF 1(6,9,10)])
  also have "grows (sv_content sv) db2 db3" by (rule optionally_grows(1) [OF 1(4)]) (rule growth(3))
  also have "grows (sv_content sv) db3 db'" using ensure_revision_grows [OF 1(5), of "sv_content sv"] by simp
  finally show ?case .
qed

lemma update_request_grows: "update_request sv user i expected input variables db = Inr (v, db') \<Longrightarrow> grows (sv_content sv) db db'"
proof (erule update_request_elim, goal_cases)
  case (1 d n name' description' notes' c db1 db2 new r)
  have "grows (sv_content sv) db db1" using 1(8) growth(3) by (auto split: option.splits)
  then have "grows (sv_content sv) db db2"
    using set_draft_grows [of "sv_content sv" db "rename_node i name' db1" new] written_content [OF 1(7,5,6)] by (simp add: 1(9,10))
  moreover have "grows (sv_content sv) db2 db'" using 1(11,12) ensure_revision_grows by blast
  ultimately show ?case by (rule grows_trans)
qed

lemma duplicate_request_grows: "duplicate_request sv user i name db = Inr (v, db') \<Longrightarrow> grows api db db'"
proof (erule duplicate_request_elim, goal_cases)
  case (1 d n name' revision nodes db1 env)
  have "draft_from api (db\<lparr>rq_nodes := nodes\<rparr>) (d\<lparr>dr_id := sv_ids sv 0, dr_revision := 0\<rparr>)"
    using request_row_member(1) [OF 1(1)] unfolding draft_from_def by auto
  from add_draft_grows [OF 1(3) this] have "grows api db db1" by (simp add: grows_def draft_from_def)
  then show ?case by (simp add: 1(4))
qed

lemma name_revision_grows: "name_revision sv user i r name db = Inr (s, db') \<Longrightarrow> grows api db db'"
proof (erule name_revision_elim, goal_cases)
  case (1 d n v db1)
  have "grows api db db1"
    using 1(3) growth(4) by (cases name) (auto simp: grows_def [of api db "rq_versions_update f db" for f] bindE_eq_Inr)
  then show ?case by (simp add: 1(4))
qed

lemma prepare_execution_grows: "prepare_execution sv user session i db = Inr (px, db') \<Longrightarrow> grows api db db'"
  by (erule prepare_execution_elim) (blast intro: grows_trans dest: growth)

lemma prepare_revision_execution_grows: "prepare_revision_execution sv user session i r db = Inr (px, db') \<Longrightarrow> grows api db db'"
  by (erule prepare_revision_execution_elim) (blast dest: growth)

lemma prepare_temporary_execution_grows:
  "prepare_temporary_execution sv user session w p input scope db = Inr (px, db') \<Longrightarrow> grows api db db'"
  unfolding prepare_temporary_execution_def Let_def by (clarsimp simp: bindE_eq_Inr) (erule growth)

text \<open>What one call does to the history.\<close>

lemma step_history:
  assumes "tables_step api db db'" and ok: "service_ok db"
  shows "grows api db db' \<or> (\<exists>i. deleted i db db')"
  using assms(1)
proof cases
  case (reordered user w p expected ordered revision)
  then have "grows api db db'" by (auto simp: reorder_children_def bindE_eq_Inr split: if_splits)
  then show ?thesis ..
next
  case (moved user w i t placing expected parents)
  then have "grows api db db'" by (auto simp: move_node_def bindE_eq_Inr)
  then show ?thesis ..
next
  case (headers_updated sv user i expected headers cv)
  then have "grows api db db'" by (auto simp: update_collection_headers_def bindE_eq_Inr Let_def intro: update_collection_grows)
  then show ?thesis ..
next
  case (revision_restored sv user i r expected v)
  then have "grows api db db'" by (auto simp: restore_revision_def bindE_eq_Inr dest: update_request_grows)
  then show ?thesis ..
next
  case collection_deleted
  then show ?thesis using delete_collection_ok(1) [OF ok] by blast
next
  case request_deleted
  then show ?thesis using delete_request_ok(1) [OF ok] by blast
next
  case collection_created
  then show ?thesis using create_collection_grows by metis
next
  case collection_updated
  then show ?thesis using update_collection_grows by metis
next
  case request_created
  then show ?thesis using create_request_grows by metis
next
  case request_updated
  then show ?thesis using update_request_grows by metis
next
  case request_duplicated
  then show ?thesis using duplicate_request_grows by metis
next
  case revision_named
  then show ?thesis using name_revision_grows by metis
next
  case imported
  then show ?thesis using import_requests_grows by metis
next
  case prepared
  then show ?thesis using prepare_execution_grows by metis
next
  case revision_prepared
  then show ?thesis using prepare_revision_execution_grows by metis
next
  case temporary_prepared
  then show ?thesis using prepare_temporary_execution_grows by metis
qed

text \<open>Every stored draft is normalised content.\<close>

definition drafts_written :: "content_api \<Rightarrow> request_db \<Rightarrow> bool" where
  "drafts_written api db \<longleftrightarrow> (\<forall>d \<in> set (rq_drafts db). written_draft api d)"

lemma step_drafts:
  assumes "tables_step api db db'" and ok: "service_ok db" and "drafts_written api db"
  shows "drafts_written api db'"
  using step_history [OF assms(1,2)]
proof
  assume "grows api db db'"
  then show ?thesis using assms(3) written_copy by (fastforce simp: grows_def drafts_written_def draft_from_def)
next
  assume "\<exists>i. deleted i db db'"
  then have "set (rq_drafts db') \<subseteq> set (rq_drafts db)" by (auto simp: deleted_def pruned_def)
  with assms(3) show ?thesis by (auto simp: drafts_written_def)
qed

lemma reachable_drafts: "service_reachable api db \<Longrightarrow> drafts_written api db"
  by (induction rule: service_reachable.induct)
    (auto simp: empty_tables_def drafts_written_def intro: step_drafts [unfolded drafts_written_def, rule_format] service_reachable_ok)

end
