(* ===== verification/Request_Reading.thy ===== *)
theory Request_Reading
  imports Request_Reachable
begin

text \<open>
  Reading back what was saved: views depend on the rows of the tree, the profiles and the workspaces
  only, and a draft written from normalised content maps to that content.
\<close>

section \<open>What views depend on\<close>

definition same_scope :: "request_db \<Rightarrow> request_db \<Rightarrow> bool" where
  "same_scope db db' \<longleftrightarrow> rq_nodes db' = rq_nodes db \<and> rq_profiles db' = rq_profiles db \<and>
     ed_workspaces (rq_env db') = ed_workspaces (rq_env db)"

lemma climb_same:
  assumes "same_scope db db'"
  shows "climb_collections f db' visited out c = climb_collections f db visited out c"
  using assms
proof (induction f db visited out c rule: climb_collections.induct)
  case (2 f db visited out c)
  then have "collection_node db' c = collection_node db c" "profile_of db' c = profile_of db c"
    by (simp_all add: same_scope_def collection_node_def profile_of_def)
  with 2 show ?case by (auto simp: bindE_def split: option.split sum.split)
qed simp

lemma scope_same:
  assumes "same_scope db db'"
  shows "resolve_headers db' w parent own = resolve_headers db w parent own"
    "target_components db' w parent mode target = target_components db w parent mode target"
    "resolve_inherited_target db' w parent = resolve_inherited_target db w parent"
    "resolve_collection_path db' parent path = resolve_collection_path db parent path"
    "can_read db' user w = can_read db user w" "can_edit db' user w = can_edit db user w"
proof -
  have row: "workspace_row (rq_env db') w = workspace_row (rq_env db) w"
    using assms by (simp add: same_scope_def workspace_row_def)
  show "resolve_headers db' w parent own = resolve_headers db w parent own"
    unfolding resolve_headers_def row climb_same [OF assms] ..
  show target: "target_components db' w parent mode target = target_components db w parent mode target" for mode target
    unfolding target_components_def row collection_path_parts_def climb_same [OF assms] ..
  then show "resolve_inherited_target db' w parent = resolve_inherited_target db w parent"
    unfolding resolve_inherited_target_def by simp
  show "resolve_collection_path db' parent path = resolve_collection_path db parent path"
    by (simp add: resolve_collection_path_def collection_path_parts_def climb_same [OF assms])
  show "can_read db' user w = can_read db user w" "can_edit db' user w = can_edit db user w"
    using assms by (simp_all add: can_read_def can_edit_def same_scope_def)
qed

lemma same_scope_refl [simp]: "same_scope db db"
  by (simp add: same_scope_def)

lemma request_view_same:
  assumes "same_scope db db'" and "rq_captures db' = rq_captures db"
  shows "request_view_of api db' row = request_view_of api db row"
  unfolding request_view_of_def scope_same [OF assms(1)] latest_capture_def assms(2) ..

lemma edit_reads: "can_edit db user w = Inr () \<Longrightarrow> can_read db user w = Inr ()"
  by (auto simp: can_edit_def can_read_def require_can_edit_def require_can_read_def failing_eq_Inr split: option.splits)

lemma write_variables_scope:
  assumes "write_variables sv k allow user kind i expected writes db = Inr db'"
  shows "same_scope db db'" "rq_drafts db' = rq_drafts db" "rq_captures db' = rq_captures db"
  using assms
  by (auto simp: write_variables_def update_profile_in_def bindE_eq_Inr failing_eq_Inr Let_def same_scope_def
      record_profile_mutations_def record_event_def)

lemma ensure_revision_scope:
  assumes "ensure_revision sv fresh row user reason effective components db = Inr (r, db')"
  shows "same_scope db db'" "rq_drafts db' = rq_drafts db" "rq_captures db' = rq_captures db"
proof -
  obtain d n where row: "row = (d, n)" by (cases row)
  from assms [unfolded row] have "\<exists>vs. db' = db\<lparr>rq_revisions := vs\<rparr>"
  proof (cases rule: ensure_revision_elim)
    case (kept v)
    then show ?thesis by (intro exI [of _ "rq_revisions db"]) simp
  qed (auto simp: result_simps)
  then show "same_scope db db'" "rq_drafts db' = rq_drafts db" "rq_captures db' = rq_captures db"
    by (auto simp: same_scope_def)
qed

section \<open>Drafts\<close>

lemma normalized_parts:
  assumes "normalize_input api x = Inr c"
  shows "validate_request_body api (Some (rc_request_body c)) legacy = Inr (rc_request_body c)"
    and "parse_redirect_override (redirect_override_json (rc_redirect c)) = Inr (rc_redirect c)"
    and "validate_headers (rc_headers c) = Inr (rc_headers c)"
proof -
  from assms obtain legacy' headers where e: "validate_request_body api (xi_request_body x) legacy' = Inr (rc_request_body c)"
    "content_policy (validate_redirect_override (xi_redirect x)) = Inr (rc_redirect c)"
    "validate_headers headers = Inr (rc_headers c)"
    by (auto simp: normalize_input_def Let_def bindE_eq_Inr)
  from request_body_stable [OF e(1)]
  show "validate_request_body api (Some (rc_request_body c)) legacy = Inr (rc_request_body c)" .
  from e(2) validate_redirect_override_ok redirect_override_roundtrip
  show "parse_redirect_override (redirect_override_json (rc_redirect c)) = Inr (rc_redirect c)"
    by (auto simp: content_policy_def split: sum.splits)
  from headers_stable [OF e(3)] show "validate_headers (rc_headers c) = Inr (rc_headers c)" .
qed

lemma map_written_draft:
  assumes "normalize_input api x = Inr c"
  shows "map_request api (draft_of_content i k c description notes, n) =
    Inr (request_content.extend c (request_view.fields i (tn_workspace n) (tn_parent n) (tn_name n) description notes
      [] [] k None))"
  using normalized_parts [OF assms] cookie_override_roundtrip
  by (simp add: map_request_def draft_of_content_def parse_request_body_def request_content.extend_def
      request_view.fields_def)

lemma assembled_target_same:
  "(if rc_target_mode c = ComposedTarget then resolve_inherited_target db w parent else Inr []) =
     assembled_target db w parent c"
  by (simp add: assembled_target_def resolve_inherited_target_def target_components_def bindE_def
      split: option.split sum.split)

lemma view_of_written_draft:
  assumes "normalize_input api x = Inr c"
  shows "request_view_of api db (draft_of_content i k c description notes, n) =
    bindE (assembled_target db (tn_workspace n) (tn_parent n) c) (\<lambda>target.
    bindE (resolve_headers db (tn_workspace n) (tn_parent n) []) (\<lambda>inherited.
    Inr (request_content.extend c (request_view.fields i (tn_workspace n) (tn_parent n) (tn_name n) description notes
      target inherited k (latest_capture db i)))))"
proof -
  have mode: "rc_target_mode (request_content.extend c more) = rc_target_mode c" for more :: "'a"
    by (simp add: request_content.extend_def)
  have fields: "vw_id (request_content.extend c (request_view.fields i' w p nm d' n' t h k' cap)) = i'"
    "vw_workspace (request_content.extend c (request_view.fields i' w p nm d' n' t h k' cap)) = w"
    "vw_parent (request_content.extend c (request_view.fields i' w p nm d' n' t h k' cap)) = p"
    for i' w p nm d' n' t h k' cap
    by (simp_all add: request_content.extend_def request_view.fields_def)
  show ?thesis
    unfolding request_view_of_def map_written_draft [OF assms] bindE_Inr mode fields assembled_target_same
    by (simp add: request_content.extend_def request_view.fields_def)
qed

section \<open>Saved requests\<close>

lemma request_view_fields:
  assumes "request_view_of api db (d, n) = Inr v"
  shows "vw_id v = dr_id d" "vw_workspace v = tn_workspace n" "vw_parent v = tn_parent n"
    "resolve_headers db (tn_workspace n) (tn_parent n) [] = Inr (vw_inherited_headers v)"
    "vw_capture v = latest_capture db (dr_id d)"
proof -
  from assms obtain v0 target inherited where e: "map_request api (d, n) = Inr v0"
    "resolve_headers db (vw_workspace v0) (vw_parent v0) [] = Inr inherited"
    "v = v0\<lparr>vw_inherited_target := target, vw_inherited_headers := inherited, vw_capture := latest_capture db (vw_id v0)\<rparr>"
    by (auto simp: request_view_of_def bindE_eq_Inr)
  with map_request_fields [OF e(1)]
  show "vw_id v = dr_id d" "vw_workspace v = tn_workspace n" "vw_parent v = tn_parent n"
    "resolve_headers db (tn_workspace n) (tn_parent n) [] = Inr (vw_inherited_headers v)"
    "vw_capture v = latest_capture db (dr_id d)" by simp_all
qed

lemma assembled_same: "same_scope db db' \<Longrightarrow> assembled_target db' w parent c = assembled_target db w parent c"
  unfolding assembled_target_def by (simp only: scope_same)

lemma request_row_same:
  "rq_nodes db' = rq_nodes db \<Longrightarrow> rq_drafts db' = rq_drafts db \<Longrightarrow> request_row_of db' i = request_row_of db i"
  unfolding request_row_of_def draft_of_def by (simp only:)

lemma updated_row:
  assumes ok: "service_ok db'" and row: "request_row_of db i = Inr (d, n)" and new: "dr_id new = i"
    and db1: "rq_nodes db1 = rq_nodes db" "rq_drafts db1 = rq_drafts db"
    and db': "rq_nodes db' = rq_nodes (rename_node i name db1)" "rq_drafts db' = rq_drafts (set_draft new db1)"
  shows "request_row_of db' i = Inr (new, n\<lparr>tn_name := name\<rparr>)"
proof -
  note r = request_row_member [OF row]
  have "new \<in> set (rq_drafts db')" "n\<lparr>tn_name := name\<rparr> \<in> set (rq_nodes db')"
    using r db1 new by (force simp: db' set_draft_def rename_node_def)+
  then show ?thesis using r new request_row_iff [OF ok] by simp
qed

lemma update_reads_back:
  assumes ok: "service_ok db" and accepted: "update_request sv user i expected input variables db = Inr (v, db')"
  shows "get_request (sv_content sv) user i db' = Inr v"
  using accepted
proof (rule update_request_elim, goal_cases)
  case (1 d n name' description' notes' c db1 db2 new r)
  have scope1: "same_scope db db1" "rq_drafts db1 = rq_drafts db"
    using 1(8) write_variables_scope by (auto split: option.splits)
  have ok': "service_ok db'" by (rule update_request_ok [OF ok accepted])
  have read: "can_read db1 user (tn_workspace n) = Inr ()"
    using edit_reads [OF 1(2)] scope_same(5) [OF scope1(1)] by simp
  show ?case
  proof (cases "same_draft (d, n) name' new")
    case True
    from 1(10) True have db2: "db2 = db1" by simp
    note s = 1(11) [OF True, unfolded db2]
    note scope = ensure_revision_scope [OF conjunct1 [OF s]]
    have "request_row_of db' i = Inr (d, n)"
      using 1(1) scope(2) scope1 scope(1) request_row_same [of db' db i] by (simp add: same_scope_def)
    with s read show ?thesis by (simp add: get_request_def scope_same(5) [OF scope(1)])
  next
    case False
    let ?n = "n\<lparr>tn_name := name'\<rparr>"
    from 1(10) False have db2: "db2 = log_event (DraftUpdated i (expected + 1)) user (tn_workspace n)
      (set_draft new (rename_node i name' db1))" by simp
    from 1(12) [OF False] obtain old target where
      s: "ensure_revision sv (sv_ids sv 0) (new, ?n) user ManualSave None None db2 = Inr (r, db')"
      "request_view_of (sv_content sv) db2 (d, n) = Inr old"
      "assembled_target db2 (tn_workspace n) (tn_parent n) c = Inr target"
      "v = request_content.extend c (request_view.fields (vw_id old) (vw_workspace old) (vw_parent old) name'
        description' notes' target (vw_inherited_headers old) (expected + 1) (vw_capture old))" by blast
    note scope = ensure_revision_scope [OF s(1)] and row = request_row_member [OF 1(1)]
    have new: "dr_id new = i" by (simp add: 1(9) draft_of_content_def)
    have "request_row_of db' i = Inr (new, ?n)"
      using scope(1,2) scope1
      by (intro updated_row [OF ok' 1(1) new, of db1]) (auto simp: same_scope_def db2 log_event_def set_draft_def rename_node_def)
    moreover have "can_read db' user (tn_workspace n) = Inr ()"
      using read unfolding scope_same(5) [OF scope(1)]
      by (simp add: db2 log_event_def set_draft_def rename_node_def can_read_def)
    moreover have "request_view_of (sv_content sv) db' (new, ?n) = Inr v"
      unfolding request_view_same [OF scope(1,3)] 1(9) view_of_written_draft [OF 1(7)]
      using request_view_fields [OF s(2)] s(3,4) row(2) by simp
    ultimately show ?thesis by (simp add: get_request_def)
  qed
qed

lemma create_reads_back:
  assumes ok: "service_ok db" and accepted: "create_request sv user w p input variables db = Inr (v, db')"
  shows "get_request (sv_content sv) user (sv_ids sv 0) db' = Inr v"
  using accepted
proof (rule create_request_elim, goal_cases)
  case (1 c name' description' notes' n db1 db2 db3 row r inherited target)
  let ?i = "sv_ids sv 0" and ?d = "draft_of_content (sv_ids sv 0) 0 c description' notes'"
  have ok': "service_ok db'" by (rule create_request_ok [OF ok accepted])
  from ok 1(2,1) obtain added: "db1 = db\<lparr>rq_nodes := rq_nodes db @ [n]\<rparr>" "?i \<notin> draft_ids db"
    "tree_node.truncate n = \<lparr>tn_id = ?i, tn_workspace = w, tn_parent = p, tn_kind = RequestNode, tn_name = name'\<rparr>"
    by (rule add_node_elim) blast
  then have n: "tn_id n = ?i" "tn_workspace n = w" "tn_parent n = p" "tn_name n = name'"
    by (simp_all add: tree_node.truncate_def)
  have db2: "db2 = db\<lparr>rq_nodes := rq_nodes db @ [n], rq_drafts := rq_drafts db @ [?d]\<rparr>"
    using 1(3) by (auto simp: add_draft_def result_simps added(1))
  have scope3: "same_scope db2 db3" "rq_drafts db3 = rq_drafts db2" "rq_captures db3 = rq_captures db2"
    using 1(4) write_variables_scope by (auto split: if_splits)
  note scope = ensure_revision_scope [OF 1(5)]
  have all: "same_scope db2 db'" "rq_drafts db' = rq_drafts db2" "rq_captures db' = rq_captures db"
    using scope scope3 by (auto simp: same_scope_def log_event_def db2)
  have "can_read db2 user w = Inr ()" using edit_reads [OF 1(7)] by (simp add: can_read_def db2)
  then have read: "can_read db' user (tn_workspace n) = Inr ()" by (simp only: scope_same(5) [OF all(1)] n)
  have "?d \<in> set (rq_drafts db')" "n \<in> set (rq_nodes db')" "dr_id ?d = ?i"
    using all by (simp_all add: db2 same_scope_def draft_of_content_def)
  then have row: "request_row_of db' ?i = Inr (?d, n)" using n(1) request_row_iff [OF ok'] by simp
  have "ce_request c' \<noteq> ?i" if "c' \<in> set (rq_captures db)" for c'
    using service_okD(2) [OF ok] that added(2) by (auto simp: references_ok_def)
  then have "filter (\<lambda>c. ce_request c = ?i) (rq_captures db') = []" by (auto simp: all(3) filter_empty_conv)
  then have "latest_capture db' ?i = None" by (simp add: latest_capture_def)
  then have "request_view_of (sv_content sv) db' (?d, n) = Inr v"
    unfolding view_of_written_draft [OF 1(6)] n by (simp add: 1(12-14))
  with row read show ?case by (simp add: get_request_def)
qed

section \<open>Saved collections\<close>

lemma collection_row_iff:
  assumes "service_ok db"
  shows "collection_row_of db i = Inr (n, q) \<longleftrightarrow> n \<in> set (rq_nodes db) \<and> tn_id n = i \<and>
    tn_kind n = CollectionNode \<and> q = profile_of db i"
proof
  assume row: "n \<in> set (rq_nodes db) \<and> tn_id n = i \<and> tn_kind n = CollectionNode \<and> q = profile_of db i"
  then have "collection_node db i \<noteq> None" by (auto simp: collection_node_def find_None_iff)
  then obtain m where "collection_node db i = Some m" by blast
  moreover then have "m \<in> set (rq_nodes db)" "tn_id m = i" by (auto simp: collection_node_def dest: find_SomeD)
  with row same_id [OF tree_okD(2) [OF service_okD(1) [OF assms]]] have "m = n" by blast
  ultimately show "collection_row_of db i = Inr (n, q)" using row by (simp add: collection_row_of_def)
qed (use collection_row_member in blast)

lemma written_profile:
  assumes ok: "service_ok db" and "write_collection_profile (profile_of db (cp_id p)) p db = Inr db'"
  shows "profile_of db' (cp_id p) = Some p" "rq_nodes db' = rq_nodes db" "ed_workspaces (rq_env db') = ed_workspaces (rq_env db)"
proof -
  have dist: "distinct (map cp_id (rq_profiles db))" using service_okD(2) [OF ok] by (simp add: references_ok_def)
  show "rq_nodes db' = rq_nodes db" "ed_workspaces (rq_env db') = ed_workspaces (rq_env db)"
    using assms(2) by (auto simp: write_collection_profile_def add_profile_def set_collection_profile_def result_simps split: if_splits)
  show "profile_of db' (cp_id p) = Some p"
  proof (cases "profile_of db (cp_id p)")
    case None
    with assms(2) have "rq_profiles db' = rq_profiles db @ [p]" "references_ok db'"
      by (auto simp: write_collection_profile_def add_profile_def result_simps)
    then show ?thesis unfolding profile_of_def references_ok_def
      by (subst find_key) auto
  next
    case (Some x)
    then have x: "x \<in> set (rq_profiles db)" "cp_id x = cp_id p" by (auto simp: profile_of_def dest: find_SomeD)
    let ?f = "\<lambda>x. if cp_id x = cp_id p then p else x"
    from Some assms(2) have "rq_profiles db' = map ?f (rq_profiles db)"
      by (auto simp: write_collection_profile_def set_collection_profile_def)
    moreover have "map cp_id (map ?f (rq_profiles db)) = map cp_id (rq_profiles db)" by simp
    ultimately show ?thesis
      using dist x unfolding profile_of_def by (subst find_key) (simp only:, force)
  qed
qed

lemma collection_update_reads:
  assumes ok: "service_ok db"
    and accepted: "update_collection sv user i expected name headers path description notes db = Inr (v, db')"
  shows "get_collection user i db' = Inr v"
  using accepted
proof (rule update_collection_elim, goal_cases)
  case (1 n q name' headers' path' description' notes' db1 inherited target full)
  note row = collection_row_member [OF 1(1)]
  have ok': "service_ok db'" by (rule update_collection_ok [OF ok accepted])
  note read = edit_reads [OF 1(2)]
  show ?case
  proof (cases "list_all (\<lambda>(k, changed). \<not> changed)
      (profile_changes (map_collection (n, q)) name' headers' path' description' notes')")
    case True
    from 1(9) [OF True] 1(1) read show ?thesis by (simp add: get_collection_def)
  next
    case False
    let ?p = "\<lparr>cp_id = i, cp_revision = expected + 1, cp_description = description',
      cp_notes = notes', cp_headers = headers', cp_prefix = path'\<rparr>" and ?n = "n\<lparr>tn_name := name'\<rparr>"
    note w = 1(10) [OF False]
    have "profile_of db1 i = Some ?p" "rq_nodes db1 = rq_nodes db" "ed_workspaces (rq_env db1) = ed_workspaces (rq_env db)"
      using written_profile [OF ok, of ?p db1] w row(4) by simp_all
    then have db': "profile_of db' i = Some ?p" "?n \<in> set (rq_nodes db')" "ed_workspaces (rq_env db') = ed_workspaces (rq_env db)"
      using w row(1,2) by (auto simp: profile_of_def rename_node_def image_iff)
    then have "collection_row_of db' i = Inr (?n, Some ?p)" using row(2,3) by (simp add: collection_row_iff [OF ok'])
    moreover have "can_read db' user (tn_workspace n) = Inr ()" using read db'(3) by (simp add: can_read_def)
    moreover have "collection_view_of db' (?n, Some ?p) = Inr v"
    proof -
      from w have r: "resolve_headers db' (tn_workspace n) (tn_parent n) [] = Inr inherited"
        "resolve_inherited_target db' (tn_workspace n) (tn_parent n) = Inr target"
        "resolve_collection_path db' (tn_parent n) path' = Inr full"
        "v = (map_collection (n, q))\<lparr>cv_name := name', cv_description := description', cv_notes := notes',
           cv_prefix := path', cv_inherited_target := target, cv_effective_path := full, cv_headers := headers',
           cv_inherited_headers := inherited, cv_effective_headers := resolve_header_layers [inherited, headers'],
           cv_revision := expected + 1\<rparr>" by blast+
      show ?thesis
        unfolding collection_view_of_def r(4)
        by (simp add: r(1-3) Let_def map_collection_def headers_of_def prefix_of_def)
    qed
    ultimately show ?thesis by (simp add: get_collection_def)
  qed
qed

end
