(* ===== verification/Request_Replay.thy ===== *)
theory Request_Replay
  imports Request_History Request_Reading
begin

text \<open>
  Recorded revisions read back: a revision holds the content it was recorded from, with effective
  headers that the parser leaves as they are, so it prepares the same request again and restores the
  same draft.
\<close>

section \<open>Effective headers\<close>

lemma group_headers_subset: "(k, g) \<in> set (group_headers layer) \<Longrightarrow> set g \<subseteq> set layer"
  using group_headers_keys by (fastforce simp: enabled_group_def)

lemma apply_groups_subset:
  assumes "\<And>k g. (k, g) \<in> set gs \<Longrightarrow> set g \<subseteq> H" and "set resolved \<subseteq> H"
  shows "set (foldl apply_header_group resolved gs) \<subseteq> H"
  using assms
proof (induction gs arbitrary: resolved)
  case (Cons kg gs)
  obtain k g where kg: "kg = (k, g)" by (cases kg)
  then have "set g \<subseteq> H" using Cons.prems(1) [of k g] by simp
  then have "set (apply_header_group resolved kg) \<subseteq> H" using Cons.prems(2) by (auto simp: kg apply_header_group_def)
  moreover have "set g \<subseteq> H" if "(k, g) \<in> set gs" for k g by (rule Cons.prems(1) [of k]) (use that in simp)
  ultimately show ?case using Cons.IH by simp
qed simp

lemma resolved_subset: "set (resolve_header_layers layers) \<subseteq> \<Union> (set ` set layers)"
proof -
  have "set (foldl (\<lambda>resolved layer. foldl apply_header_group resolved (group_headers layer)) rs layers) \<subseteq> H"
    if "set rs \<subseteq> H" "\<Union> (set ` set layers) \<subseteq> H" for rs H
    using that
  proof (induction layers arbitrary: rs)
    case (Cons layer layers)
    have "set g \<subseteq> H" if "(k, g) \<in> set (group_headers layer)" for k g
      using group_headers_subset [OF that] Cons.prems(2) by auto
    then have "set (foldl apply_header_group rs (group_headers layer)) \<subseteq> H"
      by (intro apply_groups_subset) (use Cons.prems(1) in blast)+
    with Cons show ?case by simp
  qed simp
  from this [of "[]" "\<Union> (set ` set layers)"] show ?thesis by (simp add: resolve_header_layers_def)
qed

lemma climbed_layers:
  assumes "climb_collections f db visited out c = Inr xs" and "\<And>x. x \<in> set out \<Longrightarrow> P x" and "\<And>p x. f p = Inr x \<Longrightarrow> P x"
  shows "\<forall>x \<in> set xs. P x"
  using assms
proof (induction f db visited out c rule: climb_collections.induct)
  case (2 f db visited out c)
  from "2.prems"(1) obtain n x where s: "\<not> (c \<in> set visited \<or> length visited \<ge> 64)" "collection_node db c = Some n"
    "f (profile_of db c) = Inr x" "climb_collections f db (visited @ [c]) (x # out) (tn_parent n) = Inr xs"
    by (auto simp: bindE_eq_Inr split: if_split_asm option.split_asm)
  show ?case
    by (rule "2.IH" [OF s(1-4)]) (use "2.prems"(2) "2.prems"(3) s(3) in auto)
qed simp

lemma validated_stable:
  assumes "validate_headers fs = Inr gs" and "g \<in> set gs"
  shows "validate_request_header g = Inr g"
proof -
  from assms obtain f where "validate_request_header f = Inr g"
    by (auto simp: validate_headers_def mapE_eq_Inr list_all2_conv_all_nth in_set_conv_nth)
  then show ?thesis by (rule request_header_stable)
qed

lemma resolved_stable:
  assumes "resolve_headers db w parent own = Inr hs" and "h \<in> set hs"
  shows "validate_request_header h = Inr h"
proof -
  from assms(1) obtain row where "workspace_row (rq_env db) w = Some row"
    by (auto simp: resolve_headers_def split: option.split_asm)
  with assms(1) obtain top layers own' where e: "validate_headers (ws_headers row) = Inr top"
    "climb_collections (\<lambda>p. failing ContentRefused (validate_headers (headers_of p))) db [] [] parent = Inr layers"
    "validate_headers own = Inr own'" "hs = resolve_header_layers (top # layers @ [own'])"
    unfolding resolve_headers_def by (clarsimp simp: bindE_eq_Inr failing_eq_Inr)
  have "\<forall>l \<in> set layers. \<forall>g \<in> set l. validate_request_header g = Inr g"
    by (rule climbed_layers [OF e(2)]) (auto simp: failing_eq_Inr dest: validated_stable)
  with assms(2) resolved_subset [of "top # layers @ [own']"] validated_stable [OF e(1)] validated_stable [OF e(3)]
  show ?thesis by (fastforce simp: e(4))
qed

lemma mapE_same: "mapE f xs = Inr ys \<Longrightarrow> (\<And>x y. x \<in> set xs \<Longrightarrow> f x = Inr y \<Longrightarrow> y = x) \<Longrightarrow> ys = xs"
  by (induction xs arbitrary: ys) (auto simp: bindE_eq_Inr)

lemma typed_headers_same:
  assumes "\<And>h. h \<in> set hs \<Longrightarrow> validate_request_header h = Inr h"
    and "validate_headers (with_body_content_type hs body) = Inr gs"
  shows "gs = with_body_content_type hs body"
  using assms(2) unfolding validate_headers_def
proof (rule mapE_same)
  fix x y assume x: "x \<in> set (with_body_content_type hs body)" and y: "validate_request_header x = Inr y"
  show "y = x"
  proof (cases "x \<in> set hs")
    case True
    with assms(1) y show ?thesis by simp
  next
    case False
    with x have "wh_mode x = Some HeaderOverride" "wh_description x = None"
      by (auto simp: with_body_content_type_def split: option.split_asm)
    with y show ?thesis
      by (auto simp: validate_request_header_def bindE_eq_Inr mode_of_def field_description_iff coalesce_def optional_text_def
          split: if_split_asm)
  qed
qed

lemma typed_headers_idem: "with_body_content_type (with_body_content_type hs body) body = with_body_content_type hs body"
proof -
  have "js_lower ''Content-Type'' = ''content-type''" by code_simp
  then show ?thesis by (auto simp: with_body_content_type_def filter_empty_conv split: option.split)
qed

section \<open>Parsing a revision\<close>

lemma normalize_other_headers:
  assumes "normalize_input api (content_input c) = Inr c"
    and "normalize_input api (content_input (c\<lparr>rc_headers := hs\<rparr>)) = Inr c'"
  shows "c' = c\<lparr>rc_headers := rc_headers c'\<rparr> \<and> validate_headers hs = Inr (rc_headers c')"
  using assms unfolding normalize_input_def content_input_def Let_def
  by (cases c) (auto simp: bindE_eq_Inr coalesce_def cong: if_cong)

lemma revision_content_written:
  assumes "normalize_input api x = Inr c"
    and "revision_content_of api (draft_of_content i k c s t, n) effective inherited cs = Inr content"
  shows "content = execution_input.extend (content_input (c\<lparr>rc_headers := effective\<rparr>))
    \<lparr>sc_name = Some (tn_name n), sc_description = Some s, sc_notes = Some t, sc_components = Some cs,
     sc_local = Some (rc_headers c), sc_inherited = Some inherited\<rparr>"
  using assms(2) unfolding revision_content_of_def map_written_draft [OF assms(1)] bindE_Inr
  by (auto simp: execution_input.extend_def content_input_def request_content.extend_def request_view.fields_def)

lemma revision_parses_back:
  assumes stable: "parser_stable api" and c: "normalize_input api x = Inr c"
    and made: "revision_content_of api (draft_of_content i k c s t, n) effective inherited cs = Inr content"
    and parsed: "parse_revision_content api content = Inr c'"
  shows "request_content.truncate c' = c\<lparr>rc_headers := rc_headers c'\<rparr>" "validate_headers effective = Inr (rc_headers c')"
    "vc_components c' = Some cs" "vc_local c' = Some (rc_headers c)" "vc_description c' = s" "vc_notes c' = t"
    "\<exists>name. normalize_name (tn_name n) = Inr name \<and> vc_name c' = Some name"
proof -
  note content = revision_content_written [OF c made]
  have "execution_input.truncate (execution_input.extend y more) = y" for y :: execution_input and more :: "'a"
    by (cases y) (simp add: execution_input.truncate_def execution_input.extend_def)
  then have input: "execution_input.truncate content = content_input (c\<lparr>rc_headers := effective\<rparr>)"
    by (simp add: content)
  have parts: "sc_name content = Some (tn_name n)" "sc_description content = Some s" "sc_notes content = Some t"
    "sc_components content = Some cs" "sc_local content = Some (rc_headers c)"
    by (simp_all add: content execution_input.extend_def content_input_def)
  from parsed obtain c1 name description' notes' components own inherited' where
    e: "normalize_input api (content_input (c\<lparr>rc_headers := effective\<rparr>)) = Inr c1"
    "normalize_name (tn_name n) = Inr name" "validate_resource_description s = Inr description'"
    "validate_resource_notes t = Inr notes'" "mapE validate_target_component cs = Inr components"
    "validate_headers (rc_headers c) = Inr own"
    "c' = request_content.extend c1 \<lparr>vc_name = Some name, vc_description = description', vc_notes = notes',
       vc_components = Some components, vc_local = Some own, vc_inherited = inherited'\<rparr>"
    unfolding parse_revision_content_def input parts
    by (auto simp: bindE_eq_Inr failing_eq_Inr optionally_def coalesce_def)
  note same = normalize_other_headers [OF normalized_input_stable [OF stable c] e(1)]
  have trunc: "request_content.truncate c' = c1" "rc_headers c' = rc_headers c1"
    by (cases c1, simp add: e(7) request_content.truncate_def request_content.extend_def)+
  with same show "request_content.truncate c' = c\<lparr>rc_headers := rc_headers c'\<rparr>"
    "validate_headers effective = Inr (rc_headers c')" by simp_all
  have "components = cs" by (rule mapE_same [OF e(5)]) (simp add: validate_target_component_def split: if_split_asm)
  moreover have "own = rc_headers c" using e(6) normalized_parts(3) [OF c] by simp
  moreover have "description' = s" "notes' = t"
    using e(3,4) by (auto simp: validate_resource_description_def validate_resource_notes_def split: if_split_asm)
  ultimately show "vc_components c' = Some cs" "vc_local c' = Some (rc_headers c)" "vc_description c' = s" "vc_notes c' = t"
    "\<exists>name. normalize_name (tn_name n) = Inr name \<and> vc_name c' = Some name"
    using e(2) by (simp_all add: e(7) request_content.extend_def)
qed

section \<open>Recording a revision\<close>

lemma fresh_revision:
  assumes made: "ensure_revision sv k (d, n) user reason effective components db = Inr (r, db')" and fresh: "r \<notin> revision_ids db"
  obtains own inherited cs content v where "validate_headers (dr_headers d) = Inr own"
    "resolve_headers db (tn_workspace n) (tn_parent n) [] = Inr inherited"
    "revision_content_of (sv_content sv) (d, n) (coalesce effective (resolve_header_layers [inherited, own])) inherited cs =
       Inr content"
    "\<And>xs. components = Some xs \<Longrightarrow> cs = xs" "rn_content v = content" "rn_id v = r"
    "revision_row_of db' (dr_id d) r = Inr v" "rq_nodes db' = rq_nodes db"
proof -
  from made obtain own inherited cs content where e: "validate_headers (dr_headers d) = Inr own"
    "resolve_headers db (tn_workspace n) (tn_parent n) [] = Inr inherited"
    "(case components of Some cs \<Rightarrow> Inr cs
      | None \<Rightarrow> target_components db (tn_workspace n) (tn_parent n) (dr_target_mode d) (dr_target d)) = Inr cs"
    "revision_content_of (sv_content sv) (d, n) (coalesce effective (resolve_header_layers [inherited, own])) inherited cs =
       Inr content"
    and rest: "(let latest = latest_revision db (dr_id d); fingerprint = sv_digest sv content in
        case latest of
          Some v \<Rightarrow>
            if rn_fingerprint v = fingerprint then Inr (rn_id v, db)
            else bindE (settled (db\<lparr>rq_revisions := rq_revisions db @ [\<lparr>rn_id = k, rn_request = dr_id d,
                   rn_parent = Some (rn_id v), rn_reason = reason, rn_by = user, rn_at = sv_now sv,
                   rn_content = content, rn_fingerprint = fingerprint\<rparr>]\<rparr>)) (\<lambda>db'. Inr (k, db'))
        | None \<Rightarrow>
            bindE (settled (db\<lparr>rq_revisions := rq_revisions db @ [\<lparr>rn_id = k, rn_request = dr_id d,
                   rn_parent = None, rn_reason = reason, rn_by = user, rn_at = sv_now sv,
                   rn_content = content, rn_fingerprint = fingerprint\<rparr>]\<rparr>)) (\<lambda>db'. Inr (k, db'))) = Inr (r, db')"
    unfolding ensure_revision_def prod.case bindE_eq_Inr failing_eq_Inr by blast
  from rest fresh latest_revision_member(1) [of db "dr_id d"] obtain v where
    v: "rq_revisions db' = rq_revisions db @ [v]" "rn_content v = content" "rn_id v = r" "rn_request v = dr_id d"
      "rq_nodes db' = rq_nodes db"
    by (cases "latest_revision db (dr_id d)") (auto simp: Let_def bindE_eq_Inr settled_eq_Inr revision_ids_def split: if_split_asm)
  have "find (\<lambda>w. rn_id w = r \<and> rn_request w = dr_id d) (rq_revisions db) = None"
    using fresh by (auto simp: find_None_iff revision_ids_def)
  then have "revision_row_of db' (dr_id d) r = Inr v"
    using v(3,4) by (simp add: revision_row_of_def v(1) find_concat)
  moreover have "cs = xs" if "components = Some xs" for xs using e(3) that by simp
  ultimately show thesis using that [OF e(1,2,4)] v by blast
qed

section \<open>Executing a revision\<close>

lemma draft_is_written:
  assumes "service_reachable api db" and "request_row_of db i = Inr (d, n)"
  obtains x c k s t where "normalize_input api x = Inr c" "d = draft_of_content i k c s t"
    "accepted_description s = Inr s" "accepted_notes t = Inr t"
proof -
  note row = request_row_member [OF assms(2)]
  then have "written_draft api d" using reachable_drafts [OF assms(1)] by (simp add: drafts_written_def)
  then obtain x c j k s t where "normalize_input api x = Inr c" "d = draft_of_content j k c s t"
    "accepted_description s = Inr s" "accepted_notes t = Inr t" unfolding written_draft_def by blast
  moreover with row(2) have "j = i" by (simp add: draft_of_content_def)
  ultimately show thesis using that by blast
qed

lemma run_snapshot_headers:
  assumes "request_content.truncate c' = c\<lparr>rc_headers := hs\<rparr>"
  shows "run_snapshot w i (request_content.truncate c') headers cs = run_snapshot w i c headers cs"
  unfolding assms by (simp add: run_snapshot_def)

lemma recorded_execution:
  assumes "record_execution sv ru policies p s eager db = Inr (px, db')"
  shows "px_template px = s" "px_revision px = ru_revision ru" "rq_revisions db' = rq_revisions db"
  using assms by (auto simp: record_execution_def prepared_of_def result_simps)

lemma pinned_template:
  assumes reach: "service_reachable (sv_content sv) db" and stable: "parser_stable (sv_content sv)"
    and run: "prepare_execution sv user session i db = Inr (px, db1)"
    and r: "px_revision px = Some r" "r \<notin> revision_ids db"
    and api: "sv_content sv' = sv_content sv" and kept: "revision_row_of db2 i r = revision_row_of db1 i r"
    and again: "prepare_revision_execution sv' user' session' i r db2 = Inr (px', db3)"
  shows "\<exists>w. px_template px' = (px_template px)\<lparr>sn_workspace := w\<rparr>"
proof -
  from run obtain d n v resolved p components policies eager q dbr where e: "request_row_of db i = Inr (d, n)"
    "map_request (sv_content sv) (d, n) = Inr v" "resolve_headers db (vw_workspace v) (vw_parent v) (rc_headers v) = Inr resolved"
    "ensure_revision sv (sv_ids sv 0) (d, n) user ForExecution (Some (with_body_content_type resolved (rc_request_body v)))
       (Some components) db = Inr (q, dbr)"
    "record_execution sv \<lparr>ru_id = sv_ids sv 1, ru_user = user, ru_parent = vw_parent v, ru_revision = Some q,
       ru_secret = Some (secret_bearing p)\<rparr> policies p
       (run_snapshot (vw_workspace v) (Some (vw_id v)) (request_content.truncate v)
         (with_body_content_type resolved (rc_request_body v)) components) eager dbr = Inr (px, db1)"
    unfolding prepare_execution_def Let_def by (clarsimp simp: bindE_eq_Inr)
  note px = recorded_execution [OF e(5)]
  have q: "q = r" using px(2) r(1) by simp
  obtain x c k s t where d: "normalize_input (sv_content sv) x = Inr c" "d = draft_of_content i k c s t"
    by (rule draft_is_written [OF reach e(1)])
  have v: "request_content.truncate v = c" "rc_request_body v = rc_request_body c" "vw_id v = i"
    using e(2) map_written_draft [OF d(1), of i k s t n]
    by (cases c, simp add: d(2) request_content.extend_def request_view.fields_def request_content.truncate_def)+
  let ?effective = "with_body_content_type resolved (rc_request_body c)"
  from e(4) [unfolded q] r(2) obtain own inherited cs content row where
    f: "revision_content_of (sv_content sv) (d, n) ?effective inherited cs = Inr content" "cs = components"
    "rn_content row = content" "revision_row_of dbr i r = Inr row"
  proof (rule fresh_revision)
    fix own inherited cs content row
    assume "revision_content_of (sv_content sv) (d, n) (coalesce (Some (with_body_content_type resolved (rc_request_body v)))
        (resolve_header_layers [inherited, own])) inherited cs = Inr content"
      "\<And>xs. Some components = Some xs \<Longrightarrow> cs = xs" "rn_content row = content" "revision_row_of dbr (dr_id d) r = Inr row"
    then show thesis using that [of inherited cs content row] v(2) d(2) by (simp add: coalesce_def draft_of_content_def)
  qed
  have row: "revision_row_of db2 i r = Inr row" using kept f(4) px(3) by (simp add: revision_row_of_def)
  from again show ?thesis
  proof (rule prepare_revision_execution_elim, goal_cases)
    case (1 d2 n2 row2 c' p2 policies2 s2 eager2)
    have parsed: "parse_revision_content (sv_content sv) content = Inr c'" using 1(4,5) row f(3) by (simp add: api)
    note content = f(1) [unfolded d(2)]
    note parts = revision_parses_back [OF stable d(1) content parsed]
    have headers: "rc_headers c' = ?effective"
      by (rule typed_headers_same [OF resolved_stable [OF e(3)] parts(2)])
    have body: "rc_request_body c' = rc_request_body c"
      using arg_cong [OF parts(1), of rc_request_body] by (simp add: request_content.truncate_def)
    have "px_template px' = run_snapshot (tn_workspace n2) (Some i) c ?effective components"
      using recorded_execution(1) [OF 1(9)] run_snapshot_headers [OF parts(1)] parts(3) f(2)
      by (simp add: 1(7) headers body typed_headers_idem coalesce_def)
    moreover have "px_template px = run_snapshot (vw_workspace v) (Some i) c ?effective components"
      using px(1) v by simp
    ultimately show ?case
      by (intro exI [of _ "tn_workspace n2"]) (simp add: run_snapshot_def strip_documentation_def)
  qed
qed

section \<open>Restoring a revision\<close>

lemma body_text_determined:
  "normalize_input api x = Inr c \<Longrightarrow> bindE (serialize_body (rc_request_body c)) validate_body = Inr (rc_body c)"
  by (auto simp: normalize_input_def Let_def bindE_eq_Inr)

lemma same_draft_fields:
  assumes "same_draft (d, n) name new" and "dr_id d = dr_id new"
    and "normalize_input api x = Inr c" and "d = draft_of_content i k c s t"
    and "normalize_input api' x' = Inr c'" and "new = draft_of_content i' k' c' s' t'"
  shows "d = new\<lparr>dr_revision := dr_revision d\<rparr>" and "tn_name n = name"
proof -
  have "dr_body_text d = dr_body_text new"
    using assms(1) body_text_determined [OF assms(3)] body_text_determined [OF assms(5)]
    by (simp add: same_draft_def assms(4,6) draft_of_content_def)
  with assms(1,2) show "d = new\<lparr>dr_revision := dr_revision d\<rparr>" "tn_name n = name"
    by (cases d, cases new, simp add: same_draft_def)+
qed

lemma restored_row:
  assumes reach: "service_reachable (sv_content sv) db" and row: "request_row_of db i = Inr (d, n)"
    and stable: "parser_stable (sv_content sv)"
    and made: "ensure_revision sv k (d, n) user reason effective components db = Inr (r, db1)" and fresh: "r \<notin> revision_ids db"
    and later: "service_reachable (sv_content sv) db2" "sv_content sv' = sv_content sv" "revision_row_of db2 i r = revision_row_of db1 i r"
    and restored: "restore_revision sv' user' i r expected db2 = Inr (v, db3)"
  shows "\<exists>d' n'. request_row_of db3 i = Inr (d', n') \<and> d' = d\<lparr>dr_revision := dr_revision d'\<rparr> \<and> tn_name n' = js_trim (tn_name n)"
proof -
  let ?api = "sv_content sv"
  obtain x c k0 s t where d: "normalize_input ?api x = Inr c" "d = draft_of_content i k0 c s t"
    and texts: "accepted_description s = Inr s" "accepted_notes t = Inr t" by (rule draft_is_written [OF reach row])
  obtain headers inherited cs content rv where
    f: "revision_content_of ?api (d, n) headers inherited cs = Inr content" "rn_content rv = content"
    "revision_row_of db1 i r = Inr rv"
    using made fresh by (rule fresh_revision) (use d(2) in \<open>simp add: draft_of_content_def\<close>)
  from restored obtain c' current where g: "parse_revision_content ?api content = Inr c'"
    "update_request sv' user' i expected (restored_input c' current) None db2 = Inr (v, db3)"
    using later(2,3) f(2,3) by (auto simp: restore_revision_def bindE_eq_Inr)
  note content = f(1) [unfolded d(2)]
  note parts = revision_parses_back [OF stable d(1) content g(1)]
  obtain name where name: "normalize_name (tn_name n) = Inr name" "vc_name c' = Some name" using parts(7) by blast
  have fields: "rc_method c' = rc_method c" "rc_target_mode c' = rc_target_mode c" "rc_target c' = rc_target c"
    "rc_query c' = rc_query c" "rc_request_body c' = rc_request_body c" "rc_body c' = rc_body c"
    "rc_pre_script c' = rc_pre_script c" "rc_post_script c' = rc_post_script c" "rc_redirect c' = rc_redirect c"
    "rc_cookie c' = rc_cookie c"
    using parts(1) by (cases c, simp add: request_content.truncate_def)+
  have input: "execution_input.truncate (restored_input c' current) = content_input c"
    "ri_name (restored_input c' current) = name" "ri_description (restored_input c' current) = s"
    "ri_notes (restored_input c' current) = t"
    by (simp_all add: restored_input_def execution_input.extend_def execution_input.truncate_def content_input_def fields parts
        name coalesce_def)
  note ok2 = service_reachable_ok [OF later(1)]
  have ok3: "service_ok db3" by (rule update_request_ok [OF ok2 g(2)])
  have trim: "name = js_trim (tn_name n)" "normalize_name name = Inr name' \<Longrightarrow> name' = name" for name'
    using name(1) by (auto simp: normalize_name_def Let_def split: if_split_asm)
  from g(2) show ?thesis
  proof (rule update_request_elim, goal_cases)
    case (1 d2 n2 name' description' notes' c2 db2' db2'' new q)
    have "c2 = c" using 1(7) normalized_input_stable [OF stable d(1)] by (simp add: input later(2))
    moreover have "name' = name" "description' = s" "notes' = t"
      using 1(4,5,6) texts trim(2) by (auto simp: input accepted_name_def failing_eq_Inr)
    ultimately have new: "new = draft_of_content i (expected + 1) c s t" "name' = js_trim (tn_name n)"
      using 1(9) trim(1) by simp_all
    have same: "d\<lparr>dr_revision := m\<rparr> = new\<lparr>dr_revision := m\<rparr>" "dr_id new = i" for m
      by (simp_all add: new(1) d(2) draft_of_content_def)
    have db2': "db2' = db2" using 1(8) by simp
    show ?case
    proof (cases "same_draft (d2, n2) name' new")
      case True
      note s = 1(11) [OF True]
      have "request_row_of db3 i = Inr (d2, n2)"
        using 1(1,10) True ensure_revision_scope [OF conjunct1 [OF s]] request_row_same [of db3 db2 i]
        by (simp add: same_scope_def db2')
      moreover obtain x2 c3 k2 s2 t2 where w: "normalize_input ?api x2 = Inr c3" "d2 = draft_of_content i k2 c3 s2 t2"
        by (rule draft_is_written [OF later(1) 1(1)])
      have "dr_id d2 = dr_id new" by (simp add: w(2) new(1) draft_of_content_def)
      note eq = same_draft_fields [OF True this w d(1) new(1)]
      ultimately show ?thesis using same new(2) by metis
    next
      case False
      note s = conjunct1 [OF 1(12) [OF False]]
      have "request_row_of db3 i = Inr (new, n2\<lparr>tn_name := name'\<rparr>)"
        using 1(10) False ensure_revision_scope [OF s]
        by (intro updated_row [OF ok3 1(1) same(2), of db2]) (auto simp: same_scope_def db2' log_event_def set_draft_def rename_node_def)
      then show ?thesis using same(1) [of "dr_revision new"] new(2) by (intro exI [of _ new] exI [of _ "n2\<lparr>tn_name := name'\<rparr>"]) simp
    qed
  qed
qed

end
