(* ===== verification/Request_Example.thy ===== *)
theory Request_Example
  imports Request_Reachable
begin

text \<open>
  A small run of \<open>RequestService\<close> on concrete tables, evaluated once; the witnesses of the properties of
  the service are about it.
\<close>

definition team_env :: environment_db where
  "team_env = \<lparr>ed_workspaces = (case create_workspace ''w'' 5 ''u'' ''Team'' [] [] \<lparr>wd_workspaces = [], wd_memberships = [],
       wd_cookie_jars = [], wd_audit = []\<rparr> of Inr (_, db) \<Rightarrow>
         db\<lparr>wd_workspaces := map (\<lambda>r. r\<lparr>ws_base_url := ''http://h''\<rparr>) (wd_workspaces db)\<rparr>), ed_sessions = [(''s'', ''u'')],
     ed_environments = [], ed_includes = [], ed_selections = [], ed_profiles = [], ed_audit = []\<rparr>"

definition team_urls :: content_api where
  "team_urls = \<lparr>ca_parse = (\<lambda>s. if starts_with s ''http://h'' \<and> CHR ''<'' \<notin> set s
       then Some \<lparr>pu_protocol = ''http:'', pu_username = [], pu_password = [], tu_host = ''h'', tu_search = [],
         tu_hash = [], tu_href = s\<rparr> else None),
     ca_valid_id = (\<lambda>i. i \<noteq> [])\<rparr>"

text \<open>Every call draws identifiers that start with a text of its own.\<close>

definition team_api :: "string \<Rightarrow> service_api" where
  "team_api s = \<lparr>sv_content = team_urls, sv_date = (\<lambda>t. None),
     sv_digest = (\<lambda>c. xi_method c @ xi_target c @ concat (map (\<lambda>h. wh_name h @ wh_value h) (xi_headers c)) @ xi_body c),
     sv_ids = (\<lambda>k. s @ replicate k CHR ''+''), sv_profile_ids = (\<lambda>k. s @ ''p''),
     sv_variable_ids = (\<lambda>k j. s @ ''v'' @ replicate j CHR ''+''), sv_now = 10\<rparr>"

definition team_input :: "string \<Rightarrow> request_input" where
  "team_input text = \<lparr>xi_method = ''POST'', xi_target_mode = Some ComposedTarget, xi_target = ''items'', xi_query = [],
     xi_headers = [], xi_request_body = Some (BodyText (Some ''text/plain'') text), xi_body = [], xi_pre_script = None,
     xi_post_script = None, xi_redirect = None, xi_cookie = None, ri_name = ''Post'', ri_description = [], ri_notes = []\<rparr>"

definition table_after :: "service_error + ('a \<times> request_db) \<Rightarrow> request_db" where
  "table_after r = (case r of Inl e \<Rightarrow> empty_tables team_env | Inr (x, db) \<Rightarrow> db)"

definition made_folder :: request_db where
  "made_folder = table_after (create_collection (team_api ''c'') ''u'' ''w'' None ''Api'' ''docs'' [] (empty_tables team_env))"

definition made_request :: request_db where
  "made_request = table_after (create_request (team_api ''r'') ''u'' ''w'' (Some ''c'') (team_input ''hi'') [] made_folder)"

definition made_run :: request_db where
  "made_run = table_after (prepare_execution (team_api ''x'') ''u'' ''s'' ''r'' made_request)"

text \<open>The example saves a folder and a request in it, prepares one execution, and then saves the request again.\<close>

definition made_edit :: request_db where
  "made_edit = table_after (update_request (team_api ''y'') ''u'' ''r'' 0 (team_input ''hi'') None made_run)"

definition yields :: "service_error + ('a \<times> request_db) \<Rightarrow> ('a \<Rightarrow> request_db \<Rightarrow> bool) \<Rightarrow> bool" where
  "yields r P = (case r of Inl e \<Rightarrow> False | Inr (x, db) \<Rightarrow> P x db)"

definition accepted :: "'e + 'a \<Rightarrow> bool" where
  "accepted r = (case r of Inl e \<Rightarrow> False | Inr x \<Rightarrow> True)"

lemma accepted_iff: "accepted r \<longleftrightarrow> (\<exists>x. r = Inr x)"
  by (cases r) (auto simp: accepted_def)

text \<open>A workspace may be given a header that no request may have.\<close>

definition host_header :: workspace_header where
  "host_header = \<lparr>wh_name = ''Host'', wh_value = ''h'', wh_enabled = True, wh_mode = None, wh_description = None\<rparr>"

definition host_update :: workspace_update where
  "host_update = \<lparr>wu_name = ''Team'', wu_headers = [host_header], wu_base_url = [], wu_description = [], wu_notes = [],
     wu_redirect = None, wu_cookie = None\<rparr>"

lemma yields_table:
  assumes "yields r (\<lambda>x. Q)"
  shows "\<exists>x. r = Inr (x, table_after r)" and "Q (table_after r)"
  using assms by (auto simp: yields_def table_after_def split: sum.splits)

lemma yields_result:
  assumes "yields r (\<lambda>x db. P x \<and> Q db)"
  shows "\<exists>x. r = Inr (x, table_after r) \<and> P x" and "Q (table_after r)"
  using assms by (auto simp: yields_def table_after_def split: sum.splits)

definition made_change :: request_db where
  "made_change = table_after (update_request (team_api ''z'') ''u'' ''r'' 0 (team_input ''bye'') None made_edit)"

lemma example_evaluation:
  "yields (create_collection (team_api ''c'') ''u'' ''w'' None ''Api'' ''docs'' [] (empty_tables team_env)) (\<lambda>n folder.
     yields (create_request (team_api ''r'') ''u'' ''w'' (Some ''c'') (team_input ''hi'') [] folder) (\<lambda>v request.
       (map tn_id (sibling_order (rq_nodes request) ''w'' None) = [''c''] \<and>
        map ws_id (wd_workspaces (ed_workspaces (rq_env request))) = [''w''] \<and>
        map rn_id (rq_revisions request) = [''r+''] \<and>
        accepted (update_workspace (\<lambda>s. None) ''u'' ''w'' 0 host_update (ed_workspaces (rq_env request))) \<and>
        accepted (request_row_of request ''r'') \<and> accepted (collection_row_of request ''c'') \<and>
        yields (update_collection (team_api ''d'') ''u'' ''c'' 1 ''Api'' [] ''/v1'' ''docs'' [] request)
          (\<lambda>v db. cv_prefix v = ''/v1'') \<and>
        yields (move_node ''u'' ''w'' ''r'' ''c'' Before 0 request) (\<lambda>ps db. ps = (Some ''c'', None))) \<and>
       yields (prepare_execution (team_api ''x'') ''u'' ''s'' ''r'' request) (\<lambda>px run. px_revision px = Some ''x'' \<and>
         (map tn_id (rq_nodes run) = [''c'', ''r''] \<and> map xr_request (rq_executions run) = [Some ''r''] \<and>
          rq_drafts run = rq_drafts request \<and>
          (case collection_row_of run ''c'' of Inl e \<Rightarrow> False
           | Inr (n, q) \<Rightarrow> can_edit run ''u'' (tn_workspace n) = Inr () \<and> map_option cp_revision q = Some 1) \<and>
          yields (delete_collection ''u'' ''c'' 1 run) (\<lambda>res db. rq_nodes db = [] \<and> dl_requests res = [''r''] \<and>
             map xr_request (rq_executions db) = [None])) \<and>
         yields (update_request (team_api ''y'') ''u'' ''r'' 0 (team_input ''hi'') None run) (\<lambda>v' edit.
           (rq_drafts edit = rq_drafts request \<and> map (\<lambda>r. (rn_id r, rn_reason r)) (rq_revisions edit) =
             [(''r+'', ManualSave), (''x'', ForExecution), (''y'', ManualSave)]) \<and>
           yields (update_request (team_api ''z'') ''u'' ''r'' 0 (team_input ''bye'') None edit) (\<lambda>v'' changed.
             map dr_body_text (rq_drafts changed) = [''bye''] \<and> revision_row_of changed ''r'' ''x'' = revision_row_of run ''r'' ''x'' \<and>
             yields (prepare_revision_execution (team_api ''q'') ''u'' ''s'' ''r'' ''x'' changed)
               (\<lambda>px' db. sn_body (px_template px') = ''hi'') \<and>
             yields (restore_revision (team_api ''t'') ''u'' ''r'' ''x'' 1 changed) (\<lambda>v db. rc_body v = ''hi''))))))"
  by code_simp

lemmas folder_yields = yields_table [OF example_evaluation, folded made_folder_def]
lemmas request_yields = yields_table [OF folder_yields(2), folded made_request_def]
lemmas run_yields = yields_result [OF conjunct2 [OF request_yields(2)], folded made_run_def]
lemmas edit_yields = yields_table [OF conjunct2 [OF run_yields(2)], folded made_edit_def]
lemmas change_yields = yields_table [OF conjunct2 [OF edit_yields(2)], folded made_change_def]
lemmas made_tables = folder_yields(1) request_yields(1) run_yields(1) edit_yields(1) change_yields(1)
lemmas request_rows = conjunct1 [OF request_yields(2)]
lemmas run_rows = conjunct1 [OF run_yields(2)]
lemmas edit_rows = conjunct1 [OF edit_yields(2)]
lemmas change_rows = change_yields(2)

lemma executed_revision: "''x'' \<notin> revision_ids made_request"
  "revision_row_of made_change ''r'' ''x'' = revision_row_of made_run ''r'' ''x''"
  using arg_cong [OF request_rows [THEN conjunct2, THEN conjunct2, THEN conjunct1], of set] change_rows
  by (simp_all add: revision_ids_def)

lemma team_content [simp]: "sv_content (team_api s) = team_urls"
  by (simp add: team_api_def)

lemma made_reachable: "service_reachable team_urls made_folder" "service_reachable team_urls made_request"
  "service_reachable team_urls made_run" "service_reachable team_urls made_edit" "service_reachable team_urls made_change"
proof -
  note api = team_content
  from made_tables(1) show folder: "service_reachable team_urls made_folder"
    using stepped [OF started collection_created [OF api]] by blast
  from made_tables(2) show request: "service_reachable team_urls made_request"
    using stepped [OF folder request_created [OF api]] by blast
  from made_tables(3) show run: "service_reachable team_urls made_run"
    using stepped [OF request prepared [OF api]] by blast
  from made_tables(4) show edit: "service_reachable team_urls made_edit"
    using stepped [OF run request_updated [OF api]] by blast
  from made_tables(5) show "service_reachable team_urls made_change"
    using stepped [OF edit request_updated [OF api]] by blast
qed

lemmas made_ok = made_reachable [THEN service_reachable_ok]

end
