(* ===== verification/Request_Properties.thy ===== *)
theory Request_Properties
  imports Request_Replay Request_Example
begin

text \<open>
  What holds of the tables behind \<open>RequestService\<close> after any sequence of its operations: they stay sound,
  moves and deletions do what they were asked to and nothing else, recorded history is never rewritten,
  and what was saved is what is read.
\<close>

section \<open>Soundness\<close>

text \<open>
  C2. The tables stay sound. After any sequence of accepted calls, interleaved with whatever the other
  services write to their own tables and with the progress of executions, collections and requests form
  a forest whose sibling positions are contiguous, every draft is a request of the tree and every request
  has its draft, profiles belong to collections, recorded responses and executions to a request of their
  workspace, and every revision a row names exists and belongs to the same request.
\<close>

theorem request_tables_sound:
  assumes "service_reachable api db"
  shows "tree_ok (rq_nodes db) \<and> references_ok db \<and> owners_ok db \<and> history_ok db"
  using service_reachable_ok [OF assms] by (simp add: service_ok_def)

theorem request_tables_sound_witness:
  "tree_ok (rq_nodes made_run) \<and> references_ok made_run \<and> owners_ok made_run \<and> history_ok made_run \<and>
   map tn_id (rq_nodes made_run) = [''c'', ''r''] \<and> rq_executions made_run \<noteq> []"
  using request_tables_sound [OF made_reachable(3)] run_rows by auto

section \<open>The tree\<close>

text \<open>
  C14. A move does what was asked. On sound tables a move never breaks a constraint of the tree; an
  accepted one was made against the current order of the row's siblings, takes exactly the row out of
  them, puts it into the target group before, behind or at the end of it as asked, keeps the order of all
  other rows of both groups, changes the parent of no other row, and leaves sound tables.
\<close>

theorem move_keeps_order:
  assumes "service_ok db"
  shows "move_node user w i t placing expected db \<noteq> Inl (TreeRefused ConstraintFailed) \<and>
    (\<forall>source target db'. move_node user w i t placing expected db = Inr ((source, target), db') \<longrightarrow>
       service_ok db' \<and> expected = current_order_revision (rq_nodes db) w source \<and> target \<noteq> source \<and>
       target = (if placing = Inside then Some t else tn_parent (the (node_row (rq_nodes db) t))) \<and>
       map tn_id (sibling_order (rq_nodes db') w source) =
         filter (\<lambda>j. j \<noteq> i) (map tn_id (sibling_order (rq_nodes db) w source)) \<and>
       map tn_id (sibling_order (rq_nodes db') w target) =
         (let ids = map tn_id (sibling_order (rq_nodes db) w target) in
          insert_at (if placing = Inside then length ids
            else position_in t ids + (if placing = After then 1 else 0)) i ids) \<and>
       (\<forall>n \<in> set (rq_nodes db'). \<exists>m \<in> set (rq_nodes db). tn_id m = tn_id n \<and>
          tn_parent n = (if tn_id n = i then target else tn_parent m)))"
proof (intro conjI allI impI)
  note tree = service_okD(1) [OF assms]
  show "move_node user w i t placing expected db \<noteq> Inl (TreeRefused ConstraintFailed)"
    using move_total [OF tree]
    by (auto simp: move_node_def can_edit_def bindE_eq_Inl failing_eq_Inl)
  fix source target db' assume moved: "move_node user w i t placing expected db = Inr ((source, target), db')"
  then show "service_ok db'" by (rule move_node_ok [OF assms])
  from moved obtain r where r: "move_tree_node w i t placing expected (rq_nodes db) = Inr r"
    "source = mr_source r" "target = mr_target r" "rq_nodes db' = mr_nodes r"
    by (auto simp: move_node_def result_simps)
  note kept = move_ok [OF tree r(1)]
  show "expected = current_order_revision (rq_nodes db) w source" "target \<noteq> source"
    "target = (if placing = Inside then Some t else tn_parent (the (node_row (rq_nodes db) t)))"
    "map tn_id (sibling_order (rq_nodes db') w source) =
      filter (\<lambda>j. j \<noteq> i) (map tn_id (sibling_order (rq_nodes db) w source))"
    "map tn_id (sibling_order (rq_nodes db') w target) =
      (let ids = map tn_id (sibling_order (rq_nodes db) w target) in
       insert_at (if placing = Inside then length ids
         else position_in t ids + (if placing = After then 1 else 0)) i ids)"
    using kept unfolding r by blast+
  show "\<forall>n \<in> set (rq_nodes db'). \<exists>m \<in> set (rq_nodes db). tn_id m = tn_id n \<and>
      tn_parent n = (if tn_id n = i then target else tn_parent m)"
    unfolding r using kept(4) by blast
qed

theorem move_keeps_order_witness:
  "\<exists>db'. move_node ''u'' ''w'' ''r'' ''c'' Before 0 made_request = Inr ((Some ''c'', None), db') \<and> service_ok db' \<and>
     map tn_id (sibling_order (rq_nodes db') ''w'' None) = [''r'', ''c'']"
proof -
  obtain db' where m: "move_node ''u'' ''w'' ''r'' ''c'' Before 0 made_request = Inr ((Some ''c'', None), db')"
    using request_rows by (auto simp: yields_def split: sum.splits)
  have "map tn_id (sibling_order (rq_nodes db') ''w'' None) = insert_at 0 ''r'' [''c''] \<and> service_ok db'"
    using move_keeps_order [OF made_ok(2), of "''u''" "''w''" "''r''" "''c''" Before 0] m
    by (simp add: request_rows position_in_def)
  with m show ?thesis by (simp add: insert_at_def)
qed

text \<open>
  C7. Deleting a collection is exact. With access and the current revision the deletion always succeeds;
  it reports and removes the rows under the collection and no others, with their drafts, profiles,
  revisions, version names, recorded responses and variables; executions stay, those of a deleted request
  without it; the remaining siblings keep their order, and the tables stay sound.
\<close>

theorem collection_delete_exact:
  assumes "service_ok db" and "collection_row_of db i = Inr (n, q)" and "can_edit db user (tn_workspace n) = Inr ()"
    and "expected = (case q of None \<Rightarrow> 0 | Some p \<Rightarrow> cp_revision p)"
  shows "\<exists>res db'. delete_collection user i expected db = Inr (res, db') \<and> service_ok db' \<and>
    distinct (dl_collections res @ dl_requests res) \<and> set (dl_requests res) = subtree db i \<inter> draft_ids db \<and>
    set (dl_collections res) = subtree db i - draft_ids db \<and>
    map tree_node.truncate (rq_nodes db') =
      map tree_node.truncate (filter (\<lambda>m. tn_id m \<notin> subtree db i) (rq_nodes db)) \<and>
    map tn_id (sibling_order (rq_nodes db') (tn_workspace n) (tn_parent n)) =
      filter (\<lambda>j. j \<noteq> i) (map tn_id (sibling_order (rq_nodes db) (tn_workspace n) (tn_parent n))) \<and>
    rq_drafts db' = filter (\<lambda>d. dr_id d \<notin> subtree db i) (rq_drafts db) \<and>
    rq_profiles db' = filter (\<lambda>p. cp_id p \<notin> subtree db i) (rq_profiles db) \<and>
    rq_revisions db' = filter (\<lambda>v. rn_request v \<notin> subtree db i) (rq_revisions db) \<and>
    rq_versions db' = filter (\<lambda>v. vn_request v \<notin> subtree db i) (rq_versions db) \<and>
    rq_captures db' = filter (\<lambda>c. ce_request c \<notin> subtree db i) (rq_captures db) \<and>
    rq_executions db' = map (detached (subtree db i)) (rq_executions db) \<and>
    rq_env db' = (rq_env db)\<lparr>ed_profiles := filter (\<lambda>p. \<not> node_profile (subtree db i) p) (ed_profiles (rq_env db))\<rparr>"
  using assms
proof (rule delete_collection_exact, goal_cases)
  case (1 res db')
  let ?D = "subtree db i"
  from 1(2) obtain nodes audit where d: "db' = (pruned ?D (cleared ?D db))\<lparr>rq_nodes := nodes, rq_env :=
      (rq_env db)\<lparr>ed_profiles := filter (\<lambda>p. \<not> node_profile ?D p) (ed_profiles (rq_env db))\<rparr>, rq_audit := audit\<rparr>"
    "map tree_node.truncate nodes = map tree_node.truncate (without ?D (rq_nodes db))"
    unfolding deleted_def by blast
  have "rq_drafts db' = filter (\<lambda>d. dr_id d \<notin> ?D) (rq_drafts db)" "rq_profiles db' = filter (\<lambda>p. cp_id p \<notin> ?D) (rq_profiles db)"
    "rq_revisions db' = filter (\<lambda>v. rn_request v \<notin> ?D) (rq_revisions db)"
    "rq_versions db' = filter (\<lambda>v. vn_request v \<notin> ?D) (rq_versions db)"
    "rq_captures db' = filter (\<lambda>c. ce_request c \<notin> ?D) (rq_captures db)"
    "rq_executions db' = map (detached ?D) (rq_executions db)"
    "rq_env db' = (rq_env db)\<lparr>ed_profiles := filter (\<lambda>p. \<not> node_profile ?D p) (ed_profiles (rq_env db))\<rparr>"
    "map tree_node.truncate (rq_nodes db') = map tree_node.truncate (filter (\<lambda>m. tn_id m \<notin> ?D) (rq_nodes db))"
    using d(2) by (simp_all add: d(1) pruned_def without_def)
  with 1 deleted_ok [OF assms(1) 1(2)] show ?case by blast
qed

theorem collection_delete_exact_witness:
  "\<exists>res db'. delete_collection ''u'' ''c'' 1 made_run = Inr (res, db') \<and> service_ok db' \<and> rq_nodes db' = [] \<and>
     dl_requests res = [''r''] \<and> map xr_request (rq_executions db') = [None]"
proof -
  obtain n q where r: "collection_row_of made_run ''c'' = Inr (n, q)" "can_edit made_run ''u'' (tn_workspace n) = Inr ()"
    "1 = (case q of None \<Rightarrow> 0 | Some p \<Rightarrow> cp_revision p)"
    using run_rows by (auto split: sum.splits)
  from collection_delete_exact [OF made_ok(3) r] obtain res db'
    where "delete_collection ''u'' ''c'' 1 made_run = Inr (res, db')" "service_ok db'" by blast
  with run_rows show ?thesis by (auto simp: yields_def)
qed

section \<open>History\<close>

text \<open>
  C10. Recorded history is permanent. One accepted call of the service, whatever it is, appends to the
  tables of revisions and executions; apart from that, revisions leave only with their deleted request,
  and executions all stay, those of a deleted request without it.
\<close>

theorem recorded_history_permanent:
  assumes "service_reachable api db" and "tables_step api db db'"
  shows "\<exists>gone vs xs. gone \<inter> draft_ids db' = {} \<and>
    rq_revisions db' = filter (\<lambda>v. rn_request v \<notin> gone) (rq_revisions db) @ vs \<and>
    rq_executions db' = map (detached gone) (rq_executions db) @ xs"
  using step_history [OF assms(2) service_reachable_ok [OF assms(1)]]
proof
  assume "grows api db db'"
  then obtain vs xs where "rq_revisions db' = rq_revisions db @ vs" "rq_executions db' = rq_executions db @ xs"
    by (auto simp: grows_def)
  moreover have "detached {} = id" by (auto simp: detached_def)
  ultimately show ?thesis by (intro exI [of _ "{}"] exI [of _ vs] exI [of _ xs]) simp
next
  assume "\<exists>i. deleted i db db'"
  then obtain i where "deleted i db db'" ..
  then show ?thesis
    by (intro exI [of _ "subtree db i"] exI [of _ "[]"]) (auto simp: deleted_def pruned_def cleared_def draft_ids_def)
qed

theorem recorded_history_permanent_witness:
  "\<exists>gone vs xs. gone \<inter> draft_ids made_change = {} \<and>
    rq_revisions made_change = filter (\<lambda>v. rn_request v \<notin> gone) (rq_revisions made_edit) @ vs \<and>
    rq_executions made_change = map (detached gone) (rq_executions made_edit) @ xs"
proof -
  obtain v where "update_request (team_api ''z'') ''u'' ''r'' 0 (team_input ''bye'') None made_edit = Inr (v, made_change)"
    using made_tables(5) by blast
  then have "tables_step team_urls made_edit made_change" by (rule request_updated [rotated]) (simp add: team_api_def)
  from recorded_history_permanent [OF made_reachable(4) this] show ?thesis .
qed

text \<open>
  C20. Every stored draft can be read. In tables the service produced, each draft holds normalised
  content within its limits, the mapper accepts it, and it reads as exactly the content that was
  accepted, under the name and the place of its row.
\<close>

theorem stored_drafts_readable:
  assumes "service_reachable api db" and "request_row_of db i = Inr (d, n)"
  shows "\<exists>x c v. normalize_input api x = Inr c \<and> map_request api (d, n) = Inr v \<and> request_content.truncate v = c \<and>
    vw_id v = i \<and> vw_workspace v = tn_workspace n \<and> vw_parent v = tn_parent n \<and> vw_name v = tn_name n \<and>
    accepted_description (vw_description v) = Inr (vw_description v) \<and> accepted_notes (vw_notes v) = Inr (vw_notes v)"
proof -
  note row = request_row_member [OF assms(2)]
  then have "written_draft api d" using reachable_drafts [OF assms(1)] by (simp add: drafts_written_def)
  then obtain x c j k s t where d: "normalize_input api x = Inr c" "d = draft_of_content j k c s t"
    "accepted_description s = Inr s" "accepted_notes t = Inr t"
    unfolding written_draft_def by blast
  moreover have "dr_id d = i" by (rule row(2))
  moreover have "request_content.truncate (request_content.extend c more) = c" for more :: "'a"
    by (cases c) (simp add: request_content.truncate_def request_content.extend_def)
  ultimately show ?thesis using map_written_draft [OF d(1), of j k s t n]
    by (intro exI [of _ x] exI [of _ c] exI) (auto simp: draft_of_content_def request_content.extend_def request_view.fields_def)
qed

theorem stored_drafts_readable_witness:
  "\<exists>d n v. request_row_of made_request ''r'' = Inr (d, n) \<and> map_request team_urls (d, n) = Inr v"
proof -
  obtain d n where row: "request_row_of made_request ''r'' = Inr (d, n)"
    using request_rows by (auto simp: accepted_iff)
  from stored_drafts_readable [OF made_reachable(2) row] row show ?thesis by blast
qed

section \<open>Saving and reading\<close>

text \<open>
  C15. A saved request reads back. The view that creating or updating a request returns is the view that
  reading the request right afterwards returns to the same user, inherited headers, assembled target and
  last recorded response included.
\<close>

theorem request_save_reads_back:
  assumes "service_ok db"
  shows "(\<forall>v db'. create_request sv user w p input variables db = Inr (v, db') \<longrightarrow>
      get_request (sv_content sv) user (sv_ids sv 0) db' = Inr v) \<and>
    (\<forall>v db'. update_request sv user i expected input written db = Inr (v, db') \<longrightarrow>
      get_request (sv_content sv) user i db' = Inr v)"
  using create_reads_back [OF assms] update_reads_back [OF assms] by blast

theorem request_save_reads_back_witness:
  "\<exists>v u. get_request team_urls ''u'' ''r'' made_request = Inr v \<and> get_request team_urls ''u'' ''r'' made_change = Inr u"
proof -
  have api: "sv_content (team_api s) = team_urls" "sv_ids (team_api ''r'') 0 = ''r''" for s by (simp_all add: team_api_def)
  from made_tables(2) obtain v where
    "create_request (team_api ''r'') ''u'' ''w'' (Some ''c'') (team_input ''hi'') [] made_folder = Inr (v, made_request)" ..
  with request_save_reads_back [OF made_ok(1), of "team_api ''r''"] have "get_request team_urls ''u'' ''r'' made_request = Inr v"
    by (auto simp: api)
  moreover from made_tables(5) obtain u where
    "update_request (team_api ''z'') ''u'' ''r'' 0 (team_input ''bye'') None made_edit = Inr (u, made_change)" ..
  with request_save_reads_back [OF made_ok(4), of "team_api ''z''"] have "get_request team_urls ''u'' ''r'' made_change = Inr u"
    by (auto simp: api)
  ultimately show ?thesis by blast
qed

text \<open>
  A saved collection reads back, with the inherited and effective headers, the inherited target and
  the effective path its new profile gives it.
\<close>

theorem collection_save_reads_back:
  assumes "service_ok db"
    and "update_collection sv user i expected name headers path description notes db = Inr (v, db')"
  shows "get_collection user i db' = Inr v"
  using assms by (rule collection_update_reads)

theorem collection_save_reads_back_witness:
  "\<exists>v db'. update_collection (team_api ''d'') ''u'' ''c'' 1 ''Api'' [] ''/v1'' ''docs'' [] made_request = Inr (v, db') \<and>
     get_collection ''u'' ''c'' db' = Inr v \<and> cv_prefix v = ''/v1''"
proof -
  obtain v db' where "update_collection (team_api ''d'') ''u'' ''c'' 1 ''Api'' [] ''/v1'' ''docs'' [] made_request = Inr (v, db')"
    "cv_prefix v = ''/v1''"
    using request_rows by (auto simp: yields_def split: sum.splits)
  with collection_save_reads_back [OF made_ok(2)] show ?thesis by blast
qed

section \<open>Recorded revisions\<close>

lemma team_urls_stable: "parser_stable team_urls"
  by (auto simp: parser_stable_def team_urls_def split: if_split_asm)

text \<open>
  C13. A recorded revision executes the same request. When an execution of a saved request recorded its
  own revision, executing that revision later, whatever became of the request, its collections and the
  workspace, sends the template of the first execution: method, target components, query, effective
  headers, body and scripts.
\<close>

theorem recorded_revision_replays:
  assumes "service_reachable (sv_content sv) db" and "parser_stable (sv_content sv)"
    and "prepare_execution sv user session i db = Inr (px, db1)"
    and "px_revision px = Some r" and "r \<notin> revision_ids db"
    and "sv_content sv' = sv_content sv" and "revision_row_of db2 i r = revision_row_of db1 i r"
    and "prepare_revision_execution sv' user' session' i r db2 = Inr (px', db3)"
  shows "px_template px' = (px_template px)\<lparr>sn_workspace := sn_workspace (px_template px')\<rparr>"
proof -
  obtain w where "px_template px' = (px_template px)\<lparr>sn_workspace := w\<rparr>"
    using pinned_template [OF assms] by blast
  then show ?thesis by simp
qed

theorem recorded_revision_replays_witness:
  "\<exists>px db1 px' db3. prepare_execution (team_api ''x'') ''u'' ''s'' ''r'' made_request = Inr (px, db1) \<and>
     prepare_revision_execution (team_api ''q'') ''u'' ''s'' ''r'' ''x'' made_change = Inr (px', db3) \<and>
     map dr_body_text (rq_drafts made_change) = [''bye''] \<and>
     px_template px' = (px_template px)\<lparr>sn_workspace := sn_workspace (px_template px')\<rparr>"
proof -
  obtain px where px: "prepare_execution (team_api ''x'') ''u'' ''s'' ''r'' made_request = Inr (px, made_run)"
    "px_revision px = Some ''x''" using made_tables(3) by blast
  obtain px' db3 where again: "prepare_revision_execution (team_api ''q'') ''u'' ''s'' ''r'' ''x'' made_change = Inr (px', db3)"
    using change_rows by (auto simp: yields_def split: sum.splits)
  have "px_template px' = (px_template px)\<lparr>sn_workspace := sn_workspace (px_template px')\<rparr>"
    by (rule recorded_revision_replays [OF _ _ px executed_revision(1) _ executed_revision(2) again]) (simp_all add: team_content made_reachable(2) team_urls_stable)
  with px(1) again conjunct1 [OF change_rows] show ?thesis by (intro exI conjI)
qed

text \<open>
  C16. A recorded revision restores its draft. Restoring the revision that an execution recorded gives the
  request the draft of that time back: the same method, target, query, headers, body, scripts,
  policies, description and notes, under its trimmed name.
\<close>

theorem recorded_revision_restores:
  assumes "service_reachable (sv_content sv) db" and "request_row_of db i = Inr (d, n)" and "parser_stable (sv_content sv)"
    and "prepare_execution sv user session i db = Inr (px, db1)"
    and "px_revision px = Some r" and "r \<notin> revision_ids db"
    and "service_reachable (sv_content sv) db2" and "sv_content sv' = sv_content sv"
    and "revision_row_of db2 i r = revision_row_of db1 i r"
    and "restore_revision sv' user' i r expected db2 = Inr (v, db3)"
  shows "\<exists>d' n'. request_row_of db3 i = Inr (d', n') \<and> d' = d\<lparr>dr_revision := dr_revision d'\<rparr> \<and>
    tn_name n' = js_trim (tn_name n)"
  using assms(4)
proof (rule prepare_execution_elim, goal_cases)
  case (1 d0 n0 v0 p policies s eager effective components q dbr)
  note px = recorded_execution [OF 1(9)]
  have row: "d0 = d" "n0 = n" "q = r" using 1(1) assms(2,5) px(2) by simp_all
  have kept: "revision_row_of db2 i r = revision_row_of dbr i r" using assms(9) px(3) by (simp add: revision_row_of_def)
  from restored_row [OF assms(1-3) 1(8) [unfolded row] assms(6-8) kept assms(10)] show ?case .
qed

theorem recorded_revision_restores_witness:
  "\<exists>d n v db3 d' n'. request_row_of made_request ''r'' = Inr (d, n) \<and>
     restore_revision (team_api ''t'') ''u'' ''r'' ''x'' 1 made_change = Inr (v, db3) \<and>
     request_row_of db3 ''r'' = Inr (d', n') \<and> d' = d\<lparr>dr_revision := dr_revision d'\<rparr>"
proof -
  obtain d n where row: "request_row_of made_request ''r'' = Inr (d, n)"
    using request_rows by (auto simp: accepted_iff)
  obtain px where px: "prepare_execution (team_api ''x'') ''u'' ''s'' ''r'' made_request = Inr (px, made_run)"
    "px_revision px = Some ''x''" using made_tables(3) by blast
  obtain v db3 where again: "restore_revision (team_api ''t'') ''u'' ''r'' ''x'' 1 made_change = Inr (v, db3)"
    using change_rows by (auto simp: yields_def split: sum.splits)
  have "\<exists>d' n'. request_row_of db3 ''r'' = Inr (d', n') \<and> d' = d\<lparr>dr_revision := dr_revision d'\<rparr> \<and>
      tn_name n' = js_trim (tn_name n)"
    by (rule recorded_revision_restores [OF _ row _ px executed_revision(1) _ _ executed_revision(2) again])
      (simp_all add: team_content made_reachable(2,5) team_urls_stable)
  with row again show ?thesis by blast
qed

section \<open>Divergences\<close>


lemma updated_workspace_headers:
  assumes "update_workspace parse user w expected u ws = Inr (v, ws')" and "distinct (map ws_id (wd_workspaces ws))"
  shows "\<exists>row hs. find (\<lambda>r. ws_id r = w) (wd_workspaces ws') = Some row \<and> ws_headers row = hs \<and>
    validate_workspace_headers (wu_headers u) = Inr hs"
proof -
  obtain v0 where v0: "validate_update parse w u = Inr v0"
    and rest: "(case live_workspace ws w of None \<Rightarrow> Inl WorkspaceNotFound | Some row \<Rightarrow>
         if ws_revision row \<noteq> expected then Inl WorkspaceChanged
         else (case map_of (wd_memberships ws) (w, user) of None \<Rightarrow> Inl MembershipMissing
           | Some r \<Rightarrow> let changes = changed_columns row v0 in
               if list_all (\<lambda>(k, changed). \<not> changed) changes
               then Inr (v0\<lparr>wv_role := r, wv_revision := ws_revision row\<rparr>, ws)
               else let revision = ws_revision row + 1 in
                 Inr (v0\<lparr>wv_role := r, wv_revision := revision\<rparr>,
                   (map_workspaces (\<lambda>x. ws_id x = w \<and> ws_revision x = expected \<and> ws_deleted x = None)
                      (update_row v0 revision) ws)
                   \<lparr>wd_audit := wd_audit ws @ [(WorkspaceUpdated revision changes, user, w)]\<rparr>))) = Inr (v, ws')"
    using assms(1) unfolding update_workspace_def bindE_eq_Inr by blast
  then obtain row where row: "live_workspace ws w = Some row" "ws_revision row = expected"
    by (auto split: option.split_asm if_split_asm)
  have headers: "validate_workspace_headers (wu_headers u) = Inr (wv_headers v0)"
    using v0 by (auto simp: validate_update_def bindE_eq_Inr)
  from rest [unfolded row option.case] row(2) have case_split:
    "(list_all (\<lambda>(k, changed). \<not> changed) (changed_columns row v0) \<and> ws' = ws) \<or>
      wd_workspaces ws' = wd_workspaces (map_workspaces
        (\<lambda>x. ws_id x = w \<and> ws_revision x = expected \<and> ws_deleted x = None) (update_row v0 (ws_revision row + 1)) ws)"
    by (cases "map_of (wd_memberships ws) (w, user)") (auto simp: Let_def split: if_split_asm)
  from row(1) have r: "row \<in> set (wd_workspaces ws)" "ws_id row = w" "ws_deleted row = None"
    by (auto simp: live_workspace_def dest: find_SomeD)
  from case_split show ?thesis
  proof
    assume "list_all (\<lambda>(k, changed). \<not> changed) (changed_columns row v0) \<and> ws' = ws"
    moreover then have "ws_headers row = wv_headers v0" by (simp add: changed_columns_def)
    moreover have "find (\<lambda>r. ws_id r = ws_id row) (wd_workspaces ws) = Some row"
      using find_key [OF assms(2)] r(1) by simp
    ultimately show ?thesis using r headers by auto
  next
    define g where "g = (\<lambda>x. if ws_id x = w \<and> ws_revision x = expected \<and> ws_deleted x = None
      then update_row v0 (ws_revision row + 1) x else x)"
    assume "wd_workspaces ws' = wd_workspaces (map_workspaces
        (\<lambda>x. ws_id x = w \<and> ws_revision x = expected \<and> ws_deleted x = None) (update_row v0 (ws_revision row + 1)) ws)"
    then have m: "wd_workspaces ws' = map g (wd_workspaces ws)" by (simp add: map_workspaces_def g_def)
    have id: "ws_id (g x) = ws_id x" for x by (simp add: update_row_def g_def)
    have "map ws_id (map g (wd_workspaces ws)) = map ws_id (wd_workspaces ws)" by (simp add: id)
    then have "distinct (map ws_id (map g (wd_workspaces ws)))" using assms(2) by (simp only:)
    from find_key [OF this] r(1,2) id have "find (\<lambda>x. ws_id x = w) (map g (wd_workspaces ws)) = Some (g row)" by simp
    moreover have "ws_headers (g row) = wv_headers v0" using r row(2) by (simp add: update_row_def g_def)
    ultimately show ?thesis using headers m by simp
  qed
qed

lemma forbidden_header_refused:
  assumes "validate_workspace_headers headers = Inr hs" and "h \<in> set headers" and "wh_enabled h"
    and "js_lower (wh_name h) \<in> set FORBIDDEN_HEADERS"
  shows "validate_headers hs \<noteq> Inr out"
proof
  assume v: "validate_headers hs = Inr out"
  from assms(1) have "mapE validate_header headers = Inr hs" by (simp add: validate_workspace_headers_def split: if_splits)
  from mapE_member [OF this assms(2)] obtain g where g: "g \<in> set hs" "validate_header h = Inr g" by blast
  then have "wh_enabled g" "wh_name g = wh_name h" using assms(3)
    by (auto simp: validate_header_def split: if_splits sum.splits)
  moreover from mapE_member [OF v [unfolded validate_headers_def] g(1)] have "header_allowed g"
    by (auto simp: validate_request_header_def bindE_eq_Inr requireE_eq_Inr)
  ultimately show False using assms(4) by (simp add: header_allowed_def)
qed

text \<open>
  C40. A workspace header can block its requests. An update of a workspace is accepted with an enabled
  header of a name that no request header may have; from then on no saved request and no collection of
  the workspace can be read, no request can be created in it and none can be executed.
\<close>

theorem workspace_header_blocks:
  assumes "distinct (map ws_id (wd_workspaces (ed_workspaces (rq_env db))))"
    and "update_workspace parse owner w expected u (ed_workspaces (rq_env db)) = Inr (view, ws)"
    and "h \<in> set (wu_headers u)" and "wh_enabled h" and "js_lower (wh_name h) \<in> set FORBIDDEN_HEADERS"
    and "db' = db\<lparr>rq_env := (rq_env db)\<lparr>ed_workspaces := ws\<rparr>\<rparr>"
  shows "(\<forall>i d n. request_row_of db' i = Inr (d, n) \<longrightarrow> tn_workspace n = w \<longrightarrow>
      (\<forall>api v. get_request api user i db' \<noteq> Inr v) \<and> (\<forall>sv r. prepare_execution sv user session i db' \<noteq> Inr r)) \<and>
    (\<forall>i n q v. collection_row_of db' i = Inr (n, q) \<longrightarrow> tn_workspace n = w \<longrightarrow> get_collection user i db' \<noteq> Inr v) \<and>
    (\<forall>sv p input variables r. create_request sv user w p input variables db' \<noteq> Inr r)"
proof -
  obtain row hs where "find (\<lambda>r. ws_id r = w) (wd_workspaces ws) = Some row" "ws_headers row = hs"
    "validate_workspace_headers (wu_headers u) = Inr hs"
    using updated_workspace_headers [OF assms(2,1)] by blast
  then have refused: "resolve_headers x w parent own \<noteq> Inr out" if "ed_workspaces (rq_env x) = ws" for x parent own out
    using forbidden_header_refused [OF _ assms(3-5)] that
    by (auto simp: resolve_headers_def workspace_row_def bindE_eq_Inr failing_eq_Inr)
  then have none: "resolve_headers db' w parent own \<noteq> Inr out" for parent own out by (simp add: assms(6))
  show ?thesis
  proof (intro conjI allI impI notI)
    fix i d n api v assume "request_row_of db' i = Inr (d, n)" "tn_workspace n = w" "get_request api user i db' = Inr v"
    with none show False using map_request_fields(2) by (fastforce simp: get_request_def request_view_of_def bindE_eq_Inr)
  next
    fix i d n sv r assume "request_row_of db' i = Inr (d, n)" "tn_workspace n = w" "prepare_execution sv user session i db' = Inr r"
    with none show False using map_request_fields(2) by (fastforce simp: prepare_execution_def bindE_eq_Inr Let_def)
  next
    fix i n q v assume "collection_row_of db' i = Inr (n, q)" "tn_workspace n = w" "get_collection user i db' = Inr v"
    with none show False by (auto simp: get_collection_def collection_view_of_def bindE_eq_Inr Let_def map_collection_def)
  next
    fix sv p input variables r assume "create_request sv user w p input variables db' = Inr r"
    moreover obtain v db2 where "r = (v, db2)" by (cases r)
    ultimately have "create_request sv user w p input variables db' = Inr (v, db2)" by simp
    then show False
    proof (rule create_request_elim, goal_cases)
      case (1 c name' description' notes' n db3 db4 db5 row q inherited target)
      have "rq_env db4 = rq_env db'" using 1(2,3) by (auto simp: add_node_def add_draft_def result_simps split: if_split_asm)
      moreover have "same_scope db4 db5" using 1(4) write_variables_scope(1) by (auto split: if_splits)
      moreover note ensure_revision_scope(1) [OF 1(5)]
      ultimately have "ed_workspaces (rq_env db2) = ws" by (simp add: same_scope_def assms(6))
      with refused 1(12) show False by blast
    qed
  qed
qed

theorem workspace_header_blocks_witness:
  "\<exists>view ws db'. update_workspace (\<lambda>s. None) ''u'' ''w'' 0 host_update (ed_workspaces (rq_env made_request)) = Inr (view, ws) \<and>
     db' = made_request\<lparr>rq_env := (rq_env made_request)\<lparr>ed_workspaces := ws\<rparr>\<rparr> \<and>
     (\<forall>sv p input variables r. create_request sv ''u'' ''w'' p input variables db' \<noteq> Inr r)"
proof -
  obtain view ws where u: "update_workspace (\<lambda>s. None) ''u'' ''w'' 0 host_update (ed_workspaces (rq_env made_request)) = Inr (view, ws)"
    using request_rows by (auto simp: accepted_iff)
  have "js_lower ''Host'' = ''host''" by code_simp
  then have host: "host_header \<in> set (wu_headers host_update)" "wh_enabled host_header" "js_lower (wh_name host_header) \<in> set FORBIDDEN_HEADERS"
    by (simp_all add: host_update_def host_header_def FORBIDDEN_HEADERS_def)
  have "distinct (map ws_id (wd_workspaces (ed_workspaces (rq_env made_request))))"
    using request_rows by simp
  from workspace_header_blocks [OF this u host refl, where user = "''u''", THEN conjunct2, THEN conjunct2] u
  show ?thesis by (intro exI conjI) (rule u, rule refl)
qed

end
