(* ===== verification/Spec2Isabelle.thy ===== *)
theory Spec2Isabelle
  imports Frame_Readers Proxy_Client Execution_Properties Target_Policy
    Variable_Properties Request_Composition Execution_Chain_Properties
    Request_Properties
begin

text \<open>
  A verification development for the core of the apinteract repository: the proxy that performs
  target requests on behalf of a backend, and the backend services that compose what is sent.

  \<^bold>\<open>The proxy\<close> (\<open>apps/proxy/src\<close>).
  \<^item> \<open>Frame_Store\<close>: \<open>protocol/frame-store.ts\<close>. The file is its bytes, the index its frame
    locations; \<open>append\<close> is \<open>append_begin\<close> (up to the awaited write) and \<open>append_finish\<close>. The
    locale \<open>frame_log\<close> is the contract (a replayable log), interpreted on the store.
  \<^item> \<open>Frame_Readers\<close>: \<open>readAfter\<close> and its waiters as a step relation with the writer.
  \<^item> \<open>Proxy_Execution\<close>, \<open>Execution_Accounting\<close>, \<open>Execution_Properties\<close>:
    \<open>application/execution-service.ts\<close>. Each definition is a stretch of code between two
    \<open>await\<close>s; suspended frame writes are elements of \<open>ex_appends\<close>; \<open>service_step\<close> is one such
    stretch and \<open>reachable\<close> the states it leads to. \<open>sane\<close> is the accounting invariant.
  \<^item> \<open>Target_Policy\<close>: \<open>application/target-policy.ts\<close>, with the address grammar of \<open>net.isIP\<close> and
    the prefix test of \<open>net.BlockList\<close>.

  \<^bold>\<open>The backend\<close> (\<open>apps/backend/src\<close>).
  \<^item> \<open>Proxy_Client\<close>: the stream decoder of \<open>proxy/proxy-client.ts\<close>, proved against the frames
    that \<open>Frame_Store\<close> replays.
  \<^item> \<open>Variable_Profiles\<close>: \<open>variables/variable-profile-store.ts\<close>; a profile holds its rows and a
    secret row its version and payload.
  \<^item> \<open>Variable_Resolver\<close>: \<open>environments/variable-resolver.ts\<close>, alias chains and placeholders.
  \<^item> \<open>Environment_Graph\<close> and \<open>Environment_Composition\<close>: \<open>findEnvironmentCycle\<close> and
    \<open>#composeEnvironment\<close> of \<open>environments/environment-service.ts\<close>.
  \<^item> \<open>Http_Policies\<close>: \<open>executions/redirect-policy.ts\<close> and \<open>cookies/cookie-policy.ts\<close>, inheritable
    policies and the preferences row.
  \<^item> \<open>Workspaces\<close>: \<open>workspaces/workspace-service.ts\<close>; memberships, access guards and their rows.
  \<^item> \<open>Environment_Service\<close>: the remaining operations of \<open>environments/environment-service.ts\<close> on one
    database record \<open>environment_db\<close>; \<open>Environment_Invariant\<close> proves that each keeps its tables
    sound (\<open>env_ok\<close>).
  \<^item> \<open>Variable_Service\<close>: \<open>variables/variable-service.ts\<close> on the same record;
    \<open>Variable_Properties\<close> closes the operations of both services into \<open>env_step\<close> and
    \<open>env_reachable\<close> and holds their properties.

  \<^item> \<open>Request_Content\<close>: the validators and serialisers of \<open>requests/request-service.ts\<close> and its
    header layering; \<open>Request_Forms\<close> reads serialised multipart bodies back.
  \<^item> \<open>Request_Composition\<close>: \<open>composeWithVariables\<close>, \<open>stripExecutionDocumentation\<close> and
    \<open>#materializeAttachments\<close> of the same file, and \<open>materialize\<close> of
    \<open>requests/request-attachment-service.ts\<close>.
  \<^item> \<open>Script_Views\<close>: \<open>executions/script-execution-adapter.ts\<close>, what scripts see of a request and what
    they make of it.
  \<^item> \<open>Redirect_Request\<close>: \<open>executions/redirect-request.ts\<close>, whether a response is followed and what
    the next request keeps.
  \<^item> \<open>Execution_Chain\<close>: \<open>executions/execution-service.ts\<close>, one run from its preparation to its terminal
    event; \<open>hop_step\<close> is one iteration of the redirect loop and \<open>run_hops\<close> the loop, which ends
    because the redirect limit decreases. \<open>run_world\<close> and \<open>hop\<close> hold what the script worker, the
    cookie jar, the proxy, the blob store and the clock answer. \<open>Execution_Chain_Properties\<close> proves what
    is published, stored and sent.

  \<^item> \<open>Request_Tree\<close>: the ordered tree of collections and requests of \<open>requests/request-service.ts\<close>,
    statement by statement against the constraints of \<open>workspace_tree_nodes\<close>. \<open>Tree_Invariant\<close>,
    \<open>Tree_Moves\<close> and \<open>Tree_Subtrees\<close> prove that its operations keep \<open>tree_ok\<close> and never break a
    constraint.
  \<^item> \<open>Request_Store\<close>: the tables of the same file and what it reads from them, views, inherited
    headers and targets, and the content of revisions. \<open>request_db\<close> holds the tables, \<open>settled\<close> checks
    the references between them after a statement.
  \<^item> \<open>Request_Service\<close>: its operations on collections, requests and revisions, each a transaction.
    \<open>Request_Imports\<close> is \<open>importRequests\<close>; \<open>Request_Preparation\<close> are \<open>prepareExecution\<close>,
    \<open>prepareRevisionExecution\<close> and \<open>prepareTemporaryExecution\<close>, whose result \<open>Execution_Chain\<close> runs.
  \<^item> \<open>Request_Invariant\<close>, \<open>Request_Deletion\<close> and \<open>Request_Reachable\<close> prove that these operations keep
    \<open>service_ok\<close>, the soundness of the tables, and close them into steps and reachable tables, among
    arbitrary writes of the other services to their own tables; \<open>Request_Deletion\<close> also says exactly
    what a deletion removes. \<open>Request_History\<close> shows what the steps leave of recorded rows,
    \<open>Request_Reading\<close> that saved requests and collections read back, and \<open>Request_Replay\<close> that recorded
    revisions parse back, execute the same request and restore the same draft. \<open>Request_Example\<close>
    evaluates one run, and \<open>Request_Properties\<close> holds the properties.

  \<open>Prelude\<close> holds results, JavaScript maps (the locale \<open>keyed_store\<close>) and string functions.

  \<^bold>\<open>Conventions.\<close> A thrown error is \<open>Inl\<close>. Strings are Latin-1 code units. Clock readings, SHA-256
  digests, JSON serialisation, generated identifiers and the DNS resolver are parameters. No
  definition uses fuel: every recursion has a termination proof.

  \<^bold>\<open>Not modelled.\<close> Sockets, HTTP routing, SQL, worker threads, generated contracts, views and
  localisation. Of the modelled files: timings and transport observations, clean-up of files of an
  earlier process, and appends of an execution that was already released, whose file is being
  removed.
\<close>

end
